(* ===== verification/Prelude.thy ===== *)
theory Prelude
  imports Complex_Main "HOL-Library.Word" "HOL-Library.Monad_Syntax"
begin

text \<open>
  Shared vocabulary of the development: bytes and byte strings, the big-endian integer
  encodings every wire format of the program uses, and generic lemmas on lists and maps.

  \<^item> \<open>byte\<close> is \<open>std::uint8_t\<close>, \<open>bytes\<close> is \<open>std::vector<std::uint8_t>\<close>,
    \<open>std::span<const std::uint8_t>\<close> or a \<open>std::string\<close> holding raw bytes;
  \<^item> \<open>u16_be\<close>, \<open>u32_be\<close> and \<open>u64_be\<close> are the byte lists that the shift-and-mask
    sequences of the sources append, \<open>rd_u32\<close> and \<open>rd_u64\<close> read them back;
  \<^item> the collection \<open>wire_simps\<close> holds the length and round-trip facts of these encodings.
\<close>

unbundle bit_operations_syntax

type_synonym byte = "8 word"
type_synonym bytes = "byte list"
type_synonym u16 = "16 word"
type_synonym u32 = "32 word"
type_synonym u64 = "64 word"

named_theorems wire_simps \<open>lengths and round trips of the big-endian encodings\<close>
named_theorems inv_intros \<open>preservation lemmas of the component invariants\<close>

subsection \<open>Big-endian integers\<close>

definition u16_be :: "u16 \<Rightarrow> bytes" where
  "u16_be v = [ucast (drop_bit 8 v AND 0xff), ucast (v AND 0xff)]"

definition u32_be :: "u32 \<Rightarrow> bytes" where
  "u32_be v = [ucast (drop_bit 24 v AND 0xff), ucast (drop_bit 16 v AND 0xff),
               ucast (drop_bit 8 v AND 0xff), ucast (v AND 0xff)]"

definition u64_be :: "u64 \<Rightarrow> bytes" where
  "u64_be v = map (\<lambda>i. ucast (drop_bit (56 - 8 * i) v AND 0xff)) [0..<8]"

definition rd_u16 :: "byte \<Rightarrow> byte \<Rightarrow> u16" where
  "rd_u16 a b = push_bit 8 (ucast a) OR ucast b"

definition rd_u32 :: "byte \<Rightarrow> byte \<Rightarrow> byte \<Rightarrow> byte \<Rightarrow> u32" where
  "rd_u32 a b c d = push_bit 24 (ucast a) OR push_bit 16 (ucast b) OR push_bit 8 (ucast c) OR ucast d"

definition rd_u64 :: "bytes \<Rightarrow> u64" where
  "rd_u64 p = foldl (\<lambda>v b. push_bit 8 v OR ucast b) 0 p"

lemma length_u16_be [simp, wire_simps]: "length (u16_be v) = 2"
  by (simp add: u16_be_def)

lemma length_u32_be [simp, wire_simps]: "length (u32_be v) = 4"
  by (simp add: u32_be_def)

lemma length_u64_be [simp, wire_simps]: "length (u64_be v) = 8"
  by (simp add: u64_be_def)

lemma bit_255_iff [simp]: "bit (0xff :: int) n \<longleftrightarrow> n < 8"
  using bit_mask_iff [where 'a = int, of 8 n] by (simp add: mask_eq_exp_minus_1)

lemma be_step:
  fixes v :: "'a::len word"
  shows "push_bit 8 (drop_bit (n + 8) v) OR ucast (ucast (drop_bit n v AND 0xff) :: byte) = drop_bit n v"
proof (rule bit_word_eqI)
  fix i assume "i < LENGTH('a)"
  then show "bit (push_bit 8 (drop_bit (n + 8) v) OR ucast (ucast (drop_bit n v AND 0xff) :: byte)) i =
      bit (drop_bit n v) i"
    by (cases "i < 8") (auto simp: bit_simps ac_simps dest: bit_imp_le_length)
qed

lemma be_top:
  fixes v :: "'a::len word"
  assumes "LENGTH('a) = n + 8"
  shows "ucast (ucast (drop_bit n v AND 0xff) :: byte) = drop_bit n v"
proof -
  have "drop_bit (n + 8) v = 0"
    by (rule bit_word_eqI) (use assms in \<open>auto simp: bit_simps dest: bit_imp_le_length\<close>)
  with be_step [of n v] show ?thesis by simp
qed

lemma rd_u16_be [wire_simps]:
  "rd_u16 (u16_be v ! 0) (u16_be v ! 1) = v"
  using be_step [of 0 v] be_top [of 8 v]
  by (simp add: rd_u16_def u16_be_def)

lemma rd_u32_horner:
  "rd_u32 a b c d = push_bit 8 (push_bit 8 (push_bit 8 (ucast a) OR ucast b) OR ucast c) OR ucast d"
  by (simp add: rd_u32_def push_bit_or or.assoc)

lemma rd_u32_be [wire_simps]:
  "rd_u32 (u32_be v ! 0) (u32_be v ! 1) (u32_be v ! 2) (u32_be v ! 3) = v"
  using be_top [of 24 v] be_step [of 16 v] be_step [of 8 v] be_step [of 0 v]
  by (simp add: rd_u32_horner u32_be_def)

lemma u32_be_cases:
  obtains a b c d where "u32_be v = [a, b, c, d]" and "rd_u32 a b c d = v"
  using rd_u32_be [of v] by (simp add: u32_be_def)

lemma u64_be_Cons:
  "u64_be v = [ucast (drop_bit 56 v AND 0xff), ucast (drop_bit 48 v AND 0xff),
     ucast (drop_bit 40 v AND 0xff), ucast (drop_bit 32 v AND 0xff),
     ucast (drop_bit 24 v AND 0xff), ucast (drop_bit 16 v AND 0xff),
     ucast (drop_bit 8 v AND 0xff), ucast (v AND 0xff)]"
  by (simp add: u64_be_def upt_rec)

lemma rd_u64_be [simp, wire_simps]: "rd_u64 (u64_be v) = v"
  using be_top [of 56 v] be_step [of 48 v] be_step [of 40 v] be_step [of 32 v]
    be_step [of 24 v] be_step [of 16 v] be_step [of 8 v] be_step [of 0 v]
  by (simp add: rd_u64_def u64_be_Cons)

lemma u32_be_inject [simp]: "u32_be v = u32_be w \<longleftrightarrow> v = w"
  by (metis rd_u32_be)

lemma u64_be_inject [simp]: "u64_be v = u64_be w \<longleftrightarrow> v = w"
  by (metis rd_u64_be)

subsection \<open>Counters\<close>

lemma unat_plus_1_less:
  fixes a b :: "'a::len word"
  assumes "a < b"
  shows "unat (a + 1) = Suc (unat a)"
proof -
  have "Suc (unat a) < 2 ^ LENGTH('a)"
    using assms unsigned_less [of b, where 'a = nat] unfolding word_less_nat_alt by linarith
  then show ?thesis
    by (simp add: unat_word_ariths(1) unat_1 del: unsigned_1 split: if_splits)
qed

lemma unat_add_of_nat:
  fixes a :: "'a::len word"
  assumes "unat a + n < 2 ^ LENGTH('a)"
  shows "unat (a + of_nat n) = unat a + n"
  using assms by (simp add: unat_word_ariths(1) unat_of_nat)

subsection \<open>Lists\<close>

lemma take_append_exact [simp]: "length xs = n \<Longrightarrow> take n (xs @ ys) = xs"
  by simp

lemma drop_append_exact [simp]: "length xs = n \<Longrightarrow> drop n (xs @ ys) = ys"
  by simp

lemma removeAll_distinct_length:
  "distinct xs \<Longrightarrow> x \<in> set xs \<Longrightarrow> length (removeAll x xs) = length xs - 1"
  by (simp add: distinct_remove1_removeAll [symmetric] length_remove1)

subsection \<open>Results\<close>

text \<open>A function of the program that throws returns a value of a sum type, \<open>Inl\<close> the exception.
  \<open>res_opt\<close> forgets which exception it was; \<open>mapM_sum\<close> runs a fallible body over a list and
  stops at the first exception.\<close>

fun res_opt :: "'e + 'a \<Rightarrow> 'a option" where
  "res_opt (Inl e) = None"
| "res_opt (Inr a) = Some a"

lemma res_opt_Some_iff [simp]: "res_opt r = Some a \<longleftrightarrow> r = Inr a"
  by (cases r) auto

fun mapM_sum :: "('a \<Rightarrow> 'e + 'b) \<Rightarrow> 'a list \<Rightarrow> 'e + 'b list" where
  "mapM_sum f [] = Inr []"
| "mapM_sum f (x # xs) =
     (case f x of Inl e \<Rightarrow> Inl e
      | Inr y \<Rightarrow> (case mapM_sum f xs of Inl e \<Rightarrow> Inl e | Inr ys \<Rightarrow> Inr (y # ys)))"

lemma mapM_sum_Inr: "(\<And>x. x \<in> set xs \<Longrightarrow> f x = Inr (g x)) \<Longrightarrow> mapM_sum f xs = Inr (map g xs)"
  by (induction xs) auto

subsection \<open>The interface of a wire format\<close>

text \<open>The contract that every encoder and decoder pair of the program keeps: what was encoded
  decodes to itself. Its clients need two consequences: an encoding determines its value, and a
  decoder never confuses two valid values.\<close>

locale wire_codec =
  fixes enc :: "'a \<Rightarrow> 'w"
    and dec :: "'w \<Rightarrow> 'a option"
    and valid :: "'a \<Rightarrow> bool"
  assumes dec_enc: "valid a \<Longrightarrow> dec (enc a) = Some a"
begin

lemma enc_inject: "valid a \<Longrightarrow> valid b \<Longrightarrow> enc a = enc b \<longleftrightarrow> a = b"
  by (metis dec_enc option.inject)

lemma dec_unique: "valid a \<Longrightarrow> dec (enc a) = Some b \<Longrightarrow> b = a"
  by (simp add: dec_enc)

end

subsection \<open>Outcomes\<close>

text \<open>A call that may throw: a C++ exception that leaves the function is \<open>Threw\<close>.\<close>

datatype 'a outcome = Returned 'a | Threw

subsection \<open>Strings and protocol buffers\<close>

definition str_bytes :: "string \<Rightarrow> bytes" where
  "str_bytes s = map of_char s"

text \<open>\<open>sqlite3_bind_text(stmt, i, s.c_str(), -1, ...)\<close> binds the bytes before the first zero byte.\<close>

definition c_str :: "bytes \<Rightarrow> bytes" where
  "c_str s = takeWhile (\<lambda>c. c \<noteq> 0) s"

lemma c_str_id [simp]: "0 \<notin> set u \<Longrightarrow> c_str u = u"
  by (auto simp: c_str_def takeWhile_eq_all_conv)

text \<open>The message classes that \<open>protoc\<close> generates are not part of the sources; a model that
  serializes or parses a message receives both directions as a record. \<open>pb_ok\<close> is what the
  protocol-buffer runtime documents: parsing a serialized message gives it back.\<close>

record 'm pb =
  pb_ser :: "'m \<Rightarrow> bytes"
  pb_parse :: "bytes \<Rightarrow> 'm option"

definition pb_ok :: "'m pb \<Rightarrow> bool" where
  "pb_ok c \<longleftrightarrow> (\<forall>m. pb_parse c (pb_ser c m) = Some m)"

lemma pb_okD: "pb_ok c \<Longrightarrow> pb_parse c (pb_ser c m) = Some m"
  by (simp add: pb_ok_def)

text \<open>A self-delimiting byte-string encoding, for executable instances of \<open>pb\<close>.\<close>

definition put_field :: "bytes \<Rightarrow> bytes" where
  "put_field xs = replicate (length xs) 1 @ 0 # xs"

fun count_ones :: "bytes \<Rightarrow> nat" where
  "count_ones [] = 0"
| "count_ones (b # bs) = (if b = 1 then Suc (count_ones bs) else 0)"

definition get_field :: "bytes \<Rightarrow> bytes \<times> bytes" where
  "get_field w = (let n = count_ones w; r = drop (Suc n) w in (take n r, drop n r))"

lemma get_put_field [simp]: "get_field (put_field xs @ rest) = (xs, rest)"
proof -
  have "count_ones (replicate n 1 @ 0 # ys) = n" for n ys by (induction n) simp_all
  then show ?thesis by (simp add: get_field_def put_field_def Let_def)
qed

lemma get_put_field_end [simp]: "get_field (put_field xs) = (xs, [])"
  using get_put_field [of xs "[]"] by simp

text \<open>Lists of byte strings, again for executable instances.\<close>

definition put_list :: "bytes list \<Rightarrow> bytes" where
  "put_list ws = concat (map put_field ws)"

function get_list :: "bytes \<Rightarrow> bytes list" where
  "get_list w = (if w = [] then [] else fst (get_field w) # get_list (snd (get_field w)))"
  by pat_completeness auto
termination
  by (relation "measure length") (auto simp: get_field_def Let_def)

declare get_list.simps [simp del]

lemma get_put_list [simp]: "get_list (put_list ws) = ws"
proof (induction ws)
  case (Cons w ws)
  have "put_list (w # ws) = put_field w @ put_list ws" "put_list (w # ws) \<noteq> []" by (simp_all add: put_list_def put_field_def)
  with Cons show ?case by (subst get_list.simps) simp
qed (simp add: get_list.simps put_list_def)

definition get_u32_field :: "bytes \<Rightarrow> u32 \<times> bytes" where
  "get_u32_field w = (rd_u32 (w ! 0) (w ! 1) (w ! 2) (w ! 3), drop 4 w)"

lemma get_u32_field_be [simp]: "get_u32_field (u32_be v @ rest) = (v, rest)"
  by (rule u32_be_cases [of v]) (simp add: get_u32_field_def)

subsection \<open>Streams read in chunks\<close>

text \<open>A connection handler feeds every chunk it reads to a decoder and drains the decoder; the
  locale says when the messages handed over do not depend on how the stream was cut.\<close>

fun read_all :: "('s \<Rightarrow> bytes \<Rightarrow> 's) \<Rightarrow> ('s \<Rightarrow> 'm list \<times> 's) \<Rightarrow> 's \<Rightarrow> bytes list \<Rightarrow> 'm list \<times> 's" where
  "read_all sfeed sdrain s [] = ([], s)"
| "read_all sfeed sdrain s (c # cs) =
     (let (ms, s') = sdrain (sfeed s c); (ns, s'') = read_all sfeed sdrain s' cs in (ms @ ns, s''))"

locale chunked_stream =
  fixes sfeed :: "'s \<Rightarrow> bytes \<Rightarrow> 's" and sdrain :: "'s \<Rightarrow> 'm list \<times> 's"
  assumes feed_Nil: "sfeed s [] = s"
    and feed_append: "sfeed (sfeed s a) b = sfeed s (a @ b)"
    and drain_feed: "sdrain (sfeed s c) =
      (fst (sdrain s) @ fst (sdrain (sfeed (snd (sdrain s)) c)), snd (sdrain (sfeed (snd (sdrain s)) c)))"
begin

lemma drain_idem: "sdrain (snd (sdrain s)) = ([], snd (sdrain s))"
  using drain_feed [of s "[]"] by (simp add: feed_Nil prod_eq_iff)

lemma read_all_concat:
  "sdrain s = ([], s) \<Longrightarrow> read_all sfeed sdrain s cs = sdrain (sfeed s (concat cs))"
proof (induction cs arbitrary: s)
  case (Cons c cs)
  note IH = Cons.IH [OF drain_idem [of "sfeed s c"]]
  show ?case
    using drain_feed [of "sfeed s c" "concat cs"] IH by (simp add: feed_append case_prod_beta)
qed (simp add: feed_Nil)

end

end
