(* ===== verification/Gf256.thy ===== *)
theory Gf256
  imports Prelude
begin

text \<open>
  The finite field of \<open>core/src/crypto/shamir.cpp\<close>: the log and exp tables that the
  constructor of \<open>GfTables\<close> fills, and the table-driven \<open>gf_mul\<close> and \<open>gf_div\<close>.
  The lemmas show that the loop fills the tables with the powers of the generator \<open>3\<close> and
  their logarithms, that the generator has order 255, and from that that bytes with XOR
  and \<open>gf_mul\<close> form a field; the type \<open>gf\<close> carries that field as an instance of the
  library's type class, so that the library's facts on polynomials apply to it.
\<close>

subsection \<open>The tables\<close>

record gf_tables =
  log_table :: bytes
  exp_table :: bytes

text \<open>One turn of the constructor's loop multiplies \<open>x\<close> by the primitive \<open>0x03\<close>, in
  16-bit arithmetic with two conditional reductions by \<open>0x11b\<close>.\<close>

definition gf_step :: "byte \<Rightarrow> byte" where
  "gf_step x =
     (let y = ucast x :: u16;
          y2 = push_bit 1 y;
          y2 = (if y2 AND 0x100 \<noteq> 0 then y2 XOR 0x11b else y2);
          y = y2 XOR y;
          y = (if y AND 0x100 \<noteq> 0 then y XOR 0x11b else y)
      in ucast y)"

function gf_fill :: "nat \<Rightarrow> byte \<Rightarrow> gf_tables \<Rightarrow> gf_tables" where
  "gf_fill i x t =
     (if i < 255
      then gf_fill (Suc i) (gf_step x)
             (t\<lparr>exp_table := (exp_table t)[i := x],
                log_table := (log_table t)[unat x := of_nat i]\<rparr>)
      else t)"
  by pat_completeness auto
termination
  by (relation "measure (\<lambda>(i, x, t). 255 - i)") auto

declare gf_fill.simps [simp del]

definition gf_tab :: gf_tables where
  "gf_tab =
     (let t = gf_fill 0 1 \<lparr>log_table = replicate 256 0, exp_table = replicate 256 0\<rparr>
      in t\<lparr>exp_table := (exp_table t)[255 := exp_table t ! 0]\<rparr>)"

datatype shamir_error =
    DivideByZero
  | InvalidShare
  | TooShort
  | ReservedX
  | EmptySecret
  | BadThreshold
  | NoShares
  | ZeroLengthPayload
  | ShareX0
  | LengthMismatch
  | DuplicateX

definition gf_mul :: "byte \<Rightarrow> byte \<Rightarrow> byte" where
  "gf_mul a b =
     (if a = 0 \<or> b = 0 then 0
      else exp_table gf_tab !
             ((unat (log_table gf_tab ! unat a) + unat (log_table gf_tab ! unat b)) mod 255))"

definition gf_div :: "byte \<Rightarrow> byte \<Rightarrow> shamir_error + byte" where
  "gf_div a b =
     (if a = 0 then Inr 0
      else if b = 0 then Inl DivideByZero
      else Inr (exp_table gf_tab !
             ((unat (log_table gf_tab ! unat a) + 255 - unat (log_table gf_tab ! unat b)) mod 255)))"

subsection \<open>The loop body is a linear map\<close>

lemma and_256_iff: "(y :: u16) AND 0x100 \<noteq> 0 \<longleftrightarrow> bit y 8"
proof -
  have "(0x100 :: u16) = push_bit 8 1" by simp
  then show ?thesis by (simp only: bit_iff_and_push_bit_not_eq_0)
qed

lemma bit_283_iff: "bit (0x11b :: u16) n \<longleftrightarrow> n \<in> {0, 1, 3, 4, 8}"
proof -
  have "bit (0x11b :: u16) n \<longleftrightarrow> n < 16 \<and> n \<in> {0, 1, 3, 4, 8}"
    by (cases "n < 16") (auto simp: less_Suc_eq numeral_eq_Suc dest: bit_imp_le_length)
  then show ?thesis by auto
qed

lemma bit_27_iff: "bit (0x1b :: byte) n \<longleftrightarrow> n \<in> {0, 1, 3, 4}"
proof -
  have "bit (0x1b :: byte) n \<longleftrightarrow> n < 8 \<and> n \<in> {0, 1, 3, 4}"
    by (cases "n < 8") (auto simp: less_Suc_eq numeral_eq_Suc dest: bit_imp_le_length)
  then show ?thesis by auto
qed

lemma bit_times_2:
  "bit (x * 2 :: 'a::len word) n \<longleftrightarrow> n < LENGTH('a) \<and> 0 < n \<and> bit x (n - 1)"
  by (simp add: bit_double_iff [of x n] mult.commute [of x 2] conj_commute)

lemma gf_step_eq: "gf_step x = push_bit 1 x XOR x XOR (if bit x 7 then 0x1b else 0)"
proof (rule bit_word_eqI)
  fix n assume n: "n < LENGTH(8)"
  have b8: "\<not> bit x 8" using bit_imp_le_length [of x 8] by auto
  show "bit (gf_step x) n = bit (push_bit 1 x XOR x XOR (if bit x 7 then 0x1b else 0)) n"
    using n b8
    by (auto simp: gf_step_def Let_def and_256_iff bit_times_2 bit_ucast_iff bit_xor_iff
        bit_283_iff bit_27_iff simp del: bit_numeral_word_iff)
qed

lemma gf_step_xor: "gf_step (a XOR b) = gf_step a XOR gf_step b"
  by (rule bit_word_eqI) (auto simp: gf_step_eq bit_times_2 bit_xor_iff bit_27_iff)

lemma gf_step_0 [simp]: "gf_step 0 = 0"
  by (simp add: gf_step_eq)

subsection \<open>The generator has order 255\<close>

text \<open>The same step on integers: the kernel evaluates a few hundred turns of it quickly.\<close>

definition step_int :: "int \<Rightarrow> int" where
  "step_int n = (if n < 128 then 2 * n XOR n else (2 * n - 256) XOR n XOR 0x1b)"

fun steps_int :: "nat \<Rightarrow> int \<Rightarrow> int" where
  "steps_int 0 n = n"
| "steps_int (Suc k) n = steps_int k (step_int n)"

lemma bit_7_iff: "bit (x :: byte) 7 \<longleftrightarrow> \<not> uint x < 128"
proof -
  have "uint x < 256" using uint_lt2p [of x] by simp
  moreover have "0 \<le> uint x" by simp
  moreover have "bit x 7 = odd (uint x div 2 ^ 7)"
    using bit_uint_iff [of x 7] by (simp add: bit_iff_odd)
  moreover have "n div 2 ^ 7 = (if n < 128 then 0 else 1)" if "0 \<le> n" "n < 256" for n :: int
    using that by (simp add: div_pos_geq)
  ultimately show ?thesis by simp
qed

lemma uint_gf_step: "uint (gf_step x) = step_int (uint x)"
proof -
  have "uint x < 256" using uint_lt2p [of x] by simp
  moreover have "uint (push_bit 1 x) = (2 * uint x) mod 256"
    by (simp add: push_bit_eq_mult uint_word_ariths(3) algebra_simps)
  moreover have "(2 * n) mod 256 = 2 * n - 256" if "\<not> n < 128" "n < 256" for n :: int
    using that mod_pos_pos_trivial [of "2 * n - 256" 256] minus_mod_self2 [of "2 * n" 256]
    by linarith
  ultimately show ?thesis
    by (auto simp: gf_step_eq bit_7_iff uint_xor step_int_def xor.assoc)
qed

definition gexp :: "nat \<Rightarrow> byte" where
  "gexp i = (gf_step ^^ i) 1"

lemma gexp_0 [simp]: "gexp 0 = 1"
  by (simp add: gexp_def)

lemma gexp_Suc: "gexp (Suc i) = gf_step (gexp i)"
  by (simp add: gexp_def)

lemma steps_int_eq: "steps_int k (uint x) = uint ((gf_step ^^ k) x)"
proof (induction k arbitrary: x)
  case 0
  show ?case by simp
next
  case (Suc k)
  show ?case
    using Suc.IH [of "gf_step x"] by (simp add: uint_gf_step funpow_swap1)
qed

lemma gexp_eq_1_iff: "gexp k = 1 \<longleftrightarrow> steps_int k 1 = 1"
  using steps_int_eq [of k 1] by (simp add: gexp_def word_uint_eq_iff)

lemma gexp_255: "gexp 255 = 1"
  unfolding gexp_eq_1_iff by code_simp

lemma gexp_proper_divisors: "gexp 15 \<noteq> 1" "gexp 51 \<noteq> 1" "gexp 85 \<noteq> 1"
  unfolding gexp_eq_1_iff by code_simp+

lemma gexp_add: "gexp (i + j) = (gf_step ^^ i) (gexp j)"
  by (simp add: gexp_def funpow_add)

lemma gexp_mult: "gexp i = 1 \<Longrightarrow> gexp (k * i) = 1"
  by (induction k) (auto simp: gexp_def funpow_add)

lemma gexp_mod: "gexp m = 1 \<Longrightarrow> gexp (n mod m) = gexp n"
  using gexp_add [of "n mod m" "n div m * m"] gexp_mult [of m "n div m"]
  by (simp add: gexp_def)

lemma gexp_gcd: "gexp m = 1 \<Longrightarrow> gexp n = 1 \<Longrightarrow> gexp (gcd m n) = 1"
proof (induction m n rule: gcd_nat_induct)
  case (base m)
  then show ?case by simp
next
  case (step m n)
  then show ?case by (simp add: gexp_mod gcd_red_nat [of m n])
qed

lemma proper_divisor_255:
  fixes g :: nat
  assumes "g dvd 255" and "g \<noteq> 255"
  shows "g dvd 15 \<or> g dvd 51 \<or> g dvd 85"
proof -
  have "g \<le> 255" "g \<noteq> 0" using assms(1) by (auto intro: dvd_imp_le ccontr)
  then have "int g \<in> set [1..255]" by simp
  moreover have "list_all (\<lambda>g :: int. 255 mod g = 0 \<and> g \<noteq> 255 \<longrightarrow>
      15 mod g = 0 \<or> 51 mod g = 0 \<or> 85 mod g = 0) [1..255]"
    by code_simp
  moreover have "int n mod int g = 0 \<longleftrightarrow> g dvd n" for n
    by (simp add: mod_eq_0_iff_dvd)
  from this [of 255] this [of 15] this [of 51] this [of 85]
  have "255 mod int g = 0 \<longleftrightarrow> g dvd 255" "15 mod int g = 0 \<longleftrightarrow> g dvd 15"
    "51 mod int g = 0 \<longleftrightarrow> g dvd 51" "85 mod int g = 0 \<longleftrightarrow> g dvd 85"
    by simp_all
  ultimately show ?thesis using assms by (simp only: list_all_iff) (metis of_nat_eq_iff of_nat_numeral)
qed

lemma gexp_dvd: "gexp g = 1 \<Longrightarrow> g dvd m \<Longrightarrow> gexp m = 1"
  by (metis dvd_div_mult_self gexp_mult)

lemma gexp_order: "gexp d = 1 \<Longrightarrow> 255 dvd d"
proof (rule ccontr)
  assume d: "gexp d = 1" and n: "\<not> 255 dvd d"
  define g where "g = gcd d 255"
  have g: "gexp g = 1" unfolding g_def by (rule gexp_gcd [OF d gexp_255])
  have "g dvd 255" unfolding g_def by (rule gcd_dvd2)
  moreover have "g \<noteq> 255" using n gcd_dvd1 [of d 255] unfolding g_def by metis
  ultimately have "g dvd 15 \<or> g dvd 51 \<or> g dvd 85" by (rule proper_divisor_255)
  then show False
    using gexp_dvd [OF g, of 15] gexp_dvd [OF g, of 51] gexp_dvd [OF g, of 85]
      gexp_proper_divisors by argo
qed

lemma gf_step_inj: "gf_step a = gf_step b \<Longrightarrow> a = b"
proof -
  assume "gf_step a = gf_step b"
  then have "gf_step (a XOR b) = 0" by (simp add: gf_step_xor)
  moreover have "gf_step x = 0 \<Longrightarrow> x = 0" for x :: byte
  proof (rule bit_word_eqI)
    fix n assume z: "gf_step x = 0" and "n < LENGTH(8)"
    have b: "bit (gf_step x) k = False" for k using z by simp
    have "\<not> bit x 7"
      using b [of 0] b [of 1] b [of 2] b [of 3] b [of 4] b [of 5] b [of 6] b [of 7]
      by (auto simp: gf_step_eq bit_times_2 bit_xor_iff bit_27_iff)
    then have "\<not> bit x k" if "k < 8" for k
      using that
    proof (induction k)
      case 0
      then show ?case using b [of 0] by (auto simp: gf_step_eq bit_times_2 bit_xor_iff)
    next
      case (Suc k)
      then show ?case using b [of "Suc k"] by (auto simp: gf_step_eq bit_times_2 bit_xor_iff)
    qed
    then show "bit x n = bit 0 n" using \<open>n < LENGTH(8)\<close> by simp
  qed
  ultimately have "a XOR b = 0" by blast
  then show ?thesis by (metis xor.right_neutral xor_self_eq xor.assoc xor.commute)
qed

lemma gf_step_funpow_inj: "(gf_step ^^ n) a = (gf_step ^^ n) b \<Longrightarrow> a = b"
  by (induction n) (auto dest: gf_step_inj)

lemma gexp_nonzero [simp]: "gexp i \<noteq> 0"
proof
  have z: "(gf_step ^^ i) 0 = 0" by (induction i) simp_all
  assume "gexp i = 0"
  then have "(gf_step ^^ i) 1 = (gf_step ^^ i) 0" by (simp add: gexp_def z)
  then have "(1 :: byte) = 0" by (rule gf_step_funpow_inj)
  then show False by simp
qed

lemma gexp_inj:
  assumes "i < 255" "j < 255" "gexp i = gexp j"
  shows "i = j"
proof -
  have "b = a" if le: "a \<le> b" "b < 255" and eq: "gexp a = gexp b" for a b
  proof -
    have "(gf_step ^^ a) 1 = (gf_step ^^ a) (gexp (b - a))"
      using gexp_add [of a "b - a"] eq le by (simp add: gexp_def)
    then have "gexp (b - a) = 1" by (metis gf_step_funpow_inj)
    then have "255 dvd b - a" by (rule gexp_order)
    with le show ?thesis by (auto dest: dvd_imp_le)
  qed
  with assms show ?thesis by (metis nat_le_linear)
qed

lemma gexp_surj:
  fixes a :: byte
  assumes "a \<noteq> 0"
  obtains i where "i < 255" and "a = gexp i"
proof -
  have "card (gexp ` {..<255}) = 255"
    by (subst card_image) (auto intro!: inj_onI gexp_inj)
  moreover have "card (UNIV - {0 :: byte}) = 255"
    by (simp add: card_Diff_singleton card_word)
  moreover have "gexp ` {..<255} \<subseteq> UNIV - {0}" by auto
  ultimately have "gexp ` {..<255} = UNIV - {0}"
    by (metis card_subset_eq finite_code)
  with assms that show ?thesis by blast
qed

subsection \<open>The tables hold powers and logarithms\<close>

definition fill_inv :: "nat \<Rightarrow> gf_tables \<Rightarrow> bool" where
  "fill_inv i t \<longleftrightarrow>
     length (exp_table t) = 256 \<and> length (log_table t) = 256 \<and>
     (\<forall>j<i. exp_table t ! j = gexp j \<and> log_table t ! unat (gexp j) = of_nat j)"

lemma unat_byte_less [simp]: "unat (x :: byte) < 256"
  using unsigned_less [of x] by simp

lemma gf_fill_inv:
  assumes "i \<le> 255" and "x = gexp i" and "fill_inv i t"
  shows "fill_inv 255 (gf_fill i x t)"
  using assms
proof (induction i x t rule: gf_fill.induct)
  case (1 i x t)
  show ?case
  proof (cases "i < 255")
    case True
    let ?t = "t\<lparr>exp_table := (exp_table t)[i := x], log_table := (log_table t)[unat x := of_nat i]\<rparr>"
    have ne: "unat (gexp i) \<noteq> unat (gexp j)" if "j < i" for j
      using gexp_inj [of j i] that True by (auto simp: word_unat_eq_iff)
    have "fill_inv (Suc i) ?t"
      using "1.prems" True by (auto simp: fill_inv_def less_Suc_eq nth_list_update dest: ne)
    with "1.IH" True "1.prems" show ?thesis
      by (simp add: gexp_Suc gf_fill.simps [of i "gexp i" t])
  next
    case False
    with "1.prems" show ?thesis by (simp add: gf_fill.simps [of 255 "gexp 255" t])
  qed
qed

lemma gf_tab_inv: "fill_inv 255 gf_tab"
proof -
  have "fill_inv 255 (gf_fill 0 1 \<lparr>log_table = replicate 256 0, exp_table = replicate 256 0\<rparr>)"
    by (rule gf_fill_inv) (simp_all add: fill_inv_def)
  then show ?thesis by (simp add: gf_tab_def fill_inv_def Let_def)
qed

lemma exp_table_nth: "i < 255 \<Longrightarrow> exp_table gf_tab ! i = gexp i"
  using gf_tab_inv by (simp add: fill_inv_def)

lemma log_table_gexp: "i < 255 \<Longrightarrow> unat (log_table gf_tab ! unat (gexp i)) = i"
  using gf_tab_inv by (simp add: fill_inv_def unat_of_nat)

lemma gexp_mod_255 [simp]: "gexp (n mod 255) = gexp n"
  by (rule gexp_mod [OF gexp_255])

lemma gf_mul_0 [simp]: "gf_mul 0 b = 0" "gf_mul a 0 = 0"
  by (simp_all add: gf_mul_def)

lemma gf_mul_gexp: "gf_mul (gexp i) (gexp j) = gexp (i + j)"
proof -
  have "gf_mul (gexp (i mod 255)) (gexp (j mod 255)) = gexp ((i mod 255 + j mod 255) mod 255)"
    unfolding gf_mul_def by (simp only: gexp_nonzero log_table_gexp exp_table_nth) simp
  also have "\<dots> = gexp (i + j)" by (simp only: mod_add_eq gexp_mod_255)
  finally show ?thesis by simp
qed

lemma gf_mul_funpow: "gf_mul (gexp i) b = (gf_step ^^ i) b"
proof (cases "b = 0")
  case True
  have "(gf_step ^^ i) 0 = 0" by (induction i) simp_all
  with True show ?thesis by simp
next
  case False
  then obtain j where "b = gexp j" by (rule gexp_surj)
  then show ?thesis by (simp add: gf_mul_gexp gexp_add)
qed

lemma gf_div_gexp:
  assumes "i < 255" "j < 255"
  shows "gf_div (gexp i) (gexp j) = Inr (gexp (i + 255 - j))"
proof -
  have "gf_div (gexp i) (gexp j) = Inr (gexp ((i + 255 - j) mod 255))"
    unfolding gf_div_def using assms by (simp only: gexp_nonzero log_table_gexp exp_table_nth) simp
  then show ?thesis by simp
qed

subsection \<open>Field laws\<close>

lemma gf_mul_commute: "gf_mul a b = gf_mul b a"
  by (simp add: gf_mul_def add.commute)

lemma gf_mul_1 [simp]: "gf_mul 1 b = b" "gf_mul b 1 = b"
  using gf_mul_funpow [of 0 b] gf_mul_commute [of b 1] by simp_all

lemma gf_mul_xor: "gf_mul a (b XOR c) = gf_mul a b XOR gf_mul a c"
proof (cases "a = 0")
  case False
  then obtain i where a: "a = gexp i" by (rule gexp_surj)
  have "(gf_step ^^ i) (b XOR c) = (gf_step ^^ i) b XOR (gf_step ^^ i) c"
    by (induction i) (simp_all add: gf_step_xor)
  then show ?thesis by (simp add: a gf_mul_funpow)
qed simp

lemma gf_mul_assoc: "gf_mul (gf_mul a b) c = gf_mul a (gf_mul b c)"
proof (cases "a = 0 \<or> b = 0 \<or> c = 0")
  case False
  then obtain i j k where "a = gexp i" "b = gexp j" "c = gexp k" by (metis gexp_surj)
  then show ?thesis by (simp add: gf_mul_gexp add.assoc)
qed auto

lemma gf_mul_eq_0_iff [simp]: "gf_mul a b = 0 \<longleftrightarrow> a = 0 \<or> b = 0"
proof -
  have "gf_mul a b \<noteq> 0" if "a \<noteq> 0" "b \<noteq> 0"
    using that by (metis gexp_surj gf_mul_gexp gexp_nonzero)
  then show ?thesis by auto
qed

lemma gf_div_mul:
  assumes "b \<noteq> 0"
  shows "\<exists>q. gf_div a b = Inr q \<and> gf_mul q b = a"
proof (cases "a = 0")
  case True
  then show ?thesis by (simp add: gf_div_def)
next
  case False
  then obtain i where i: "i < 255" "a = gexp i" by (rule gexp_surj)
  obtain j where j: "j < 255" "b = gexp j" using assms by (rule gexp_surj)
  have "gexp (i + 255) = gexp i" using gexp_mod_255 [of "i + 255"] by simp
  then show ?thesis using i j by (simp add: gf_div_gexp gf_mul_gexp)
qed

lemma gf_div_error_iff: "gf_div a b = Inl e \<longleftrightarrow> a \<noteq> 0 \<and> b = 0 \<and> e = DivideByZero"
  by (auto simp: gf_div_def)

subsection \<open>The field as a type\<close>

typedef gf = "UNIV :: byte set"
  morphisms of_gf to_gf by simp

setup_lifting type_definition_gf

instantiation gf :: field
begin

lift_definition zero_gf :: gf is 0 .

lift_definition one_gf :: gf is 1 .

lift_definition plus_gf :: "gf \<Rightarrow> gf \<Rightarrow> gf" is "(XOR)" .

lift_definition minus_gf :: "gf \<Rightarrow> gf \<Rightarrow> gf" is "(XOR)" .

lift_definition uminus_gf :: "gf \<Rightarrow> gf" is "\<lambda>a. a" .

lift_definition times_gf :: "gf \<Rightarrow> gf \<Rightarrow> gf" is gf_mul .

lift_definition inverse_gf :: "gf \<Rightarrow> gf" is
  "\<lambda>a. case gf_div 1 a of Inr q \<Rightarrow> q | Inl _ \<Rightarrow> 0" .

definition divide_gf :: "gf \<Rightarrow> gf \<Rightarrow> gf" where
  "divide_gf a b = a * inverse b"

instance
proof
  fix a b c :: gf
  show "a + b + c = a + (b + c)" by transfer (rule xor.assoc)
  show "a + b = b + a" by transfer (rule xor.commute)
  show "0 + a = a" by transfer simp
  show "- a + a = 0" by transfer simp
  show "a - b = a + - b" by transfer simp
  show "a * b * c = a * (b * c)" by transfer (rule gf_mul_assoc)
  show "a * b = b * a" by transfer (rule gf_mul_commute)
  show "1 * a = a" by transfer simp
  show "(a + b) * c = a * c + b * c" by transfer (metis gf_mul_commute gf_mul_xor)
  show "(0 :: gf) \<noteq> 1" by transfer simp
  show "inverse a * a = 1" if "a \<noteq> 0"
    using that by transfer (auto dest: gf_div_mul [where a = 1])
  show "a div b = a * inverse b" by (rule divide_gf_def)
  show "inverse (0 :: gf) = 0" by transfer (simp add: gf_div_def)
qed

end

lemma gf_div_eq: "b \<noteq> 0 \<Longrightarrow> gf_div a b = Inr (of_gf (to_gf a / to_gf b))"
proof -
  assume b: "b \<noteq> 0"
  then obtain q where q: "gf_div a b = Inr q" "gf_mul q b = a" using gf_div_mul by blast
  then have "to_gf q * to_gf b = to_gf a" by (simp add: times_gf.abs_eq)
  moreover have "to_gf b \<noteq> 0" using b by (simp add: zero_gf_def to_gf_inject)
  ultimately have "to_gf q = to_gf a / to_gf b" by (simp add: eq_divide_eq)
  then have "q = of_gf (to_gf a / to_gf b)" by (metis to_gf_inverse UNIV_I)
  with q show ?thesis by simp
qed

end
