(* ===== verification/Interpolation.thy ===== *)
theory Interpolation
  imports Complex_Main
begin

text \<open>
  Polynomial functions over an arbitrary field, by number of coefficients: closure
  properties, division by a root, the bound on the number of roots, and Lagrange
  interpolation. \<open>Shamir\<close> uses them for the field of \<open>Gf256\<close>.
\<close>

text \<open>\<open>polyfn n f\<close>: \<open>f\<close> is given by some polynomial with \<open>n\<close> coefficients.\<close>

fun polyfn :: "nat \<Rightarrow> ('a::field \<Rightarrow> 'a) \<Rightarrow> bool" where
  "polyfn 0 f \<longleftrightarrow> f = (\<lambda>x. 0)"
| "polyfn (Suc n) f \<longleftrightarrow> (\<exists>c g. polyfn n g \<and> f = (\<lambda>x. c + x * g x))"

lemma polyfn_SucI [intro]: "polyfn n g \<Longrightarrow> polyfn (Suc n) (\<lambda>x. c + x * g x)"
  by auto

lemma polyfn_zero: "polyfn n (\<lambda>x. 0)"
proof (induction n)
  case (Suc n)
  from polyfn_SucI [OF Suc, of 0] show ?case by simp
qed simp

lemma polyfn_Suc: "polyfn n f \<Longrightarrow> polyfn (Suc n) f"
proof (induction n arbitrary: f)
  case 0
  then show ?case using polyfn_zero [of 1] by simp
next
  case (Suc n)
  then obtain c g where "polyfn n g" "f = (\<lambda>x. c + x * g x)" by auto
  with Suc.IH show ?case by (auto simp del: polyfn.simps(2))
qed

lemma polyfn_mono: "m \<le> n \<Longrightarrow> polyfn m f \<Longrightarrow> polyfn n f"
  by (induction n rule: nat_induct_at_least) (auto intro: polyfn_Suc simp del: polyfn.simps(2))

lemma polyfn_add: "polyfn n f \<Longrightarrow> polyfn n g \<Longrightarrow> polyfn n (\<lambda>x. f x + g x)"
proof (induction n arbitrary: f g)
  case (Suc n)
  then obtain c f' d g' where "polyfn n f'" "f = (\<lambda>x. c + x * f' x)"
    and "polyfn n g'" "g = (\<lambda>x. d + x * g' x)" by auto
  moreover from this have "(\<lambda>x. f x + g x) = (\<lambda>x. (c + d) + x * (f' x + g' x))"
    by (auto simp: algebra_simps)
  ultimately show ?case using Suc.IH [of f' g'] by (metis polyfn_SucI)
qed simp

lemma polyfn_smult: "polyfn n f \<Longrightarrow> polyfn n (\<lambda>x. a * f x)"
proof (induction n arbitrary: f)
  case (Suc n)
  then obtain c f' where "polyfn n f'" "f = (\<lambda>x. c + x * f' x)" by auto
  moreover from this have "(\<lambda>x. a * f x) = (\<lambda>x. a * c + x * (a * f' x))"
    by (auto simp: algebra_simps)
  ultimately show ?case using Suc.IH [of f'] by (metis polyfn_SucI)
qed simp

lemma polyfn_sum:
  "finite A \<Longrightarrow> (\<And>i. i \<in> A \<Longrightarrow> polyfn n (f i)) \<Longrightarrow> polyfn n (\<lambda>x. \<Sum>i\<in>A. f i x)"
  by (induction A rule: finite_induct) (auto intro: polyfn_zero polyfn_add)

lemma polyfn_const: "polyfn (Suc n) (\<lambda>x. c)"
  using polyfn_SucI [OF polyfn_zero, of n c] by simp

lemma polyfn_times_linear: "polyfn n f \<Longrightarrow> polyfn (Suc n) (\<lambda>x. (x - a) * f x)"
proof -
  assume f: "polyfn n f"
  have "polyfn (Suc n) (\<lambda>x. (0 + x * f x) + (- a) * f x)"
    using f by (intro polyfn_add polyfn_SucI polyfn_smult polyfn_Suc)
  then show ?thesis by (simp add: algebra_simps)
qed

lemma polyfn_prod_linear:
  "finite A \<Longrightarrow> polyfn (Suc (card A)) (\<lambda>x. \<Prod>j\<in>A. (x - a j))"
proof (induction A rule: finite_induct)
  case empty
  show ?case using polyfn_const [of 0 1] by simp
next
  case (insert i A)
  from polyfn_times_linear [OF insert.IH, of "a i"] insert.hyps show ?case by simp
qed

text \<open>A polynomial vanishes at \<open>a\<close> up to its value there after division by \<open>x - a\<close>.\<close>

lemma polyfn_factor:
  "polyfn (Suc n) f \<Longrightarrow> \<exists>g. polyfn n g \<and> (\<forall>x. f x = f a + (x - a) * g x)"
proof (induction n arbitrary: f)
  case 0
  then show ?case by auto
next
  case (Suc n)
  then obtain c f' where f': "polyfn (Suc n) f'" "f = (\<lambda>x. c + x * f' x)" by auto
  obtain g where g: "polyfn n g" "\<And>x. f' x = f' a + (x - a) * g x"
    using Suc.IH [OF f'(1)] by blast
  have "polyfn (Suc n) (\<lambda>x. f' x + a * g x)"
    by (rule polyfn_add [OF f'(1) polyfn_smult [OF polyfn_Suc [OF g(1)]]])
  moreover have "f x = f a + (x - a) * (f' x + a * g x)" for x
  proof -
    have "f x - f a = (x - a) * f' x + a * (f' x - f' a)" by (simp add: f'(2) algebra_simps)
    also have "f' x - f' a = (x - a) * g x" using g(2) [of x] by simp
    finally show ?thesis by (simp add: algebra_simps)
  qed
  ultimately show ?case by blast
qed

lemma polyfn_roots:
  assumes "polyfn n f" and "finite S" and "n \<le> card S" and "\<And>x. x \<in> S \<Longrightarrow> f x = 0"
  shows "f x = 0"
  using assms
proof (induction n arbitrary: f S x)
  case 0
  then show ?case by simp
next
  case (Suc n)
  then obtain a where a: "a \<in> S" by fastforce
  obtain g where g: "polyfn n g" "\<And>x. f x = f a + (x - a) * g x"
    using polyfn_factor [OF Suc.prems(1)] by blast
  have "g y = 0" if "y \<in> S - {a}" for y
    using g(2) [of y] Suc.prems(4) [of y] Suc.prems(4) [OF a] that by auto
  moreover have "n \<le> card (S - {a})" using Suc.prems a by simp
  ultimately have "g x = 0" using Suc.IH [OF g(1), of "S - {a}" x] Suc.prems(2) by simp
  then show ?case using g(2) [of x] Suc.prems(4) [OF a] by simp
qed

corollary polyfn_unique:
  assumes "polyfn n f" "polyfn n g" "finite S" "n \<le> card S" "\<And>x. x \<in> S \<Longrightarrow> f x = g x"
  shows "f x = g x"
proof -
  have "polyfn n (\<lambda>x. f x + (- 1) * g x)" using assms by (intro polyfn_add polyfn_smult)
  from polyfn_roots [OF this assms(3,4), of x] assms(5) show ?thesis by simp
qed

subsection \<open>Lagrange interpolation\<close>

definition lagrange :: "'a::field list \<Rightarrow> nat \<Rightarrow> 'a \<Rightarrow> 'a" where
  "lagrange xs i z = (\<Prod>j\<in>{..<length xs} - {i}. (z - xs ! j) / (xs ! i - xs ! j))"

lemma lagrange_self: "distinct xs \<Longrightarrow> i < length xs \<Longrightarrow> lagrange xs i (xs ! i) = 1"
  by (simp add: lagrange_def nth_eq_iff_index_eq prod.neutral)

lemma lagrange_other: "i < length xs \<Longrightarrow> k < length xs \<Longrightarrow> k \<noteq> i \<Longrightarrow> lagrange xs i (xs ! k) = 0"
  unfolding lagrange_def by (rule prod_zero) auto

lemma lagrange_polyfn:
  assumes "i < length xs"
  shows "polyfn (length xs) (lagrange xs i)"
proof -
  let ?A = "{..<length xs} - {i}"
  have "polyfn (Suc (card ?A)) (\<lambda>z. \<Prod>j\<in>?A. (z - xs ! j))"
    by (rule polyfn_prod_linear) simp
  then have "polyfn (Suc (card ?A))
      (\<lambda>z. inverse (\<Prod>j\<in>?A. (xs ! i - xs ! j)) * (\<Prod>j\<in>?A. (z - xs ! j)))"
    by (rule polyfn_smult)
  moreover have "Suc (card ?A) = length xs" using assms by simp
  moreover have "lagrange xs i =
      (\<lambda>z. inverse (\<Prod>j\<in>?A. (xs ! i - xs ! j)) * (\<Prod>j\<in>?A. (z - xs ! j)))"
    unfolding lagrange_def prod_dividef by (simp add: fun_eq_iff divide_inverse)
  ultimately show ?thesis by simp
qed

lemma lagrange_sum_at:
  assumes "distinct xs" and "k < length xs"
  shows "(\<Sum>i<length xs. y i * lagrange xs i (xs ! k)) = y k"
proof -
  have "(\<Sum>i<length xs. y i * lagrange xs i (xs ! k)) = (\<Sum>i<length xs. if i = k then y k else 0)"
    using assms by (intro sum.cong) (auto simp: lagrange_self lagrange_other)
  then show ?thesis using assms by simp
qed

theorem lagrange_interpolation:
  assumes "distinct xs" and "polyfn n f" and "n \<le> length xs"
  shows "(\<Sum>i<length xs. f (xs ! i) * lagrange xs i z) = f z"
proof (rule polyfn_unique [where S = "set xs" and n = "length xs" and g = f and x = z
      and f = "\<lambda>z. \<Sum>i<length xs. f (xs ! i) * lagrange xs i z"])
  show "polyfn (length xs) (\<lambda>z. \<Sum>i<length xs. f (xs ! i) * lagrange xs i z)"
    by (intro polyfn_sum) (auto intro: polyfn_smult lagrange_polyfn)
  show "polyfn (length xs) f" using assms(2,3) by (blast intro: polyfn_mono)
  show "length xs \<le> card (set xs)" using assms(1) by (simp add: distinct_card)
  fix x assume "x \<in> set xs"
  then show "(\<Sum>i<length xs. f (xs ! i) * lagrange xs i x) = f x"
    using lagrange_sum_at [OF assms(1), of _ "\<lambda>i. f (xs ! i)"] by (auto simp: in_set_conv_nth)
qed simp

end
