(* ===== verification/Shamir.thy ===== *)
theory Shamir
  imports Gf256 Interpolation
begin

text \<open>
  Shamir secret sharing over GF(256), \<open>core/src/crypto/shamir.cpp\<close>: share encoding,
  \<open>split\<close>, which evaluates one polynomial per secret byte at \<open>x = 1..N\<close>, and \<open>combine\<close>,
  which validates the shares and interpolates at 0. Random coefficients come from libsodium's
  \<open>randombytes_buf\<close>; the argument \<open>rnd b k\<close> is the \<open>k\<close>-th byte it writes for secret byte \<open>b\<close>.
\<close>

subsection \<open>Definitions\<close>

record share =
  share_x :: byte
  share_y :: bytes

definition gf_eval :: "bytes \<Rightarrow> byte \<Rightarrow> byte" where
  "gf_eval coeffs x =
     foldl (\<lambda>acc c. gf_mul acc x XOR c) (last coeffs) (rev (butlast coeffs))"

definition encode_share :: "share \<Rightarrow> shamir_error + bytes" where
  "encode_share s =
     (if share_x s = 0 \<or> share_y s = [] then Inl InvalidShare
      else Inr (share_x s # share_y s))"

definition decode_share :: "bytes \<Rightarrow> shamir_error + share" where
  "decode_share bs =
     (if length bs < 2 then Inl TooShort
      else if bs ! 0 = 0 then Inl ReservedX
      else Inr \<lparr>share_x = bs ! 0, share_y = drop 1 bs\<rparr>)"

definition split_coeffs :: "(nat \<Rightarrow> nat \<Rightarrow> byte) \<Rightarrow> bytes \<Rightarrow> byte \<Rightarrow> nat \<Rightarrow> bytes" where
  "split_coeffs rnd secret threshold b =
     secret ! b # (if 1 < threshold then map (rnd b) [0..<unat threshold - 1] else [])"

definition split :: "(nat \<Rightarrow> nat \<Rightarrow> byte) \<Rightarrow> bytes \<Rightarrow> byte \<Rightarrow> byte \<Rightarrow> shamir_error + share list" where
  "split rnd secret threshold n =
     (if secret = [] then Inl EmptySecret
      else if threshold = 0 \<or> n = 0 \<or> n < threshold then Inl BadThreshold
      else Inr (map (\<lambda>i. let x = of_nat (i + 1) in
                   \<lparr>share_x = x,
                    share_y = map (\<lambda>b. gf_eval (split_coeffs rnd secret threshold b) x)
                                [0..<length secret]\<rparr>)
                 [0..<unat n]))"

fun combine_check :: "nat \<Rightarrow> share list \<Rightarrow> shamir_error option" where
  "combine_check L [] = None"
| "combine_check L (s # ss) =
     (if share_x s = 0 then Some ShareX0
      else if length (share_y s) \<noteq> L then Some LengthMismatch
      else if share_x s \<in> share_x ` set ss then Some DuplicateX
      else combine_check L ss)"

definition basis_terms :: "share list \<Rightarrow> nat \<Rightarrow> byte \<times> byte" where
  "basis_terms shares i =
     foldl (\<lambda>(num, den) j.
         if i = j then (num, den)
         else (gf_mul num (share_x (shares ! j)),
               gf_mul den (share_x (shares ! i) XOR share_x (shares ! j))))
       (1, 1) [0..<length shares]"

fun combine_acc :: "share list \<Rightarrow> nat \<Rightarrow> nat list \<Rightarrow> byte \<Rightarrow> shamir_error + byte" where
  "combine_acc shares b [] acc = Inr acc"
| "combine_acc shares b (i # is) acc =
     (let (num, den) = basis_terms shares i in
      case gf_div num den of
        Inl e \<Rightarrow> Inl e
      | Inr basis \<Rightarrow> combine_acc shares b is (acc XOR gf_mul (share_y (shares ! i) ! b) basis))"

definition combine :: "share list \<Rightarrow> shamir_error + bytes" where
  "combine shares =
     (if shares = [] then Inl NoShares
      else let L = length (share_y (hd shares)) in
        if L = 0 then Inl ZeroLengthPayload
        else case combine_check L shares of
          Some e \<Rightarrow> Inl e
        | None \<Rightarrow> mapM_sum (\<lambda>b. combine_acc shares b [0..<length shares] 0) [0..<L])"

subsection \<open>Share encoding\<close>

definition share_valid :: "share \<Rightarrow> bool" where
  "share_valid s \<longleftrightarrow> share_x s \<noteq> 0 \<and> share_y s \<noteq> []"

interpretation share_codec: wire_codec
  "\<lambda>s. share_x s # share_y s" "\<lambda>w. res_opt (decode_share w)" share_valid
  by unfold_locales (auto simp: share_valid_def decode_share_def Suc_le_eq not_less)

lemma encode_share_Inr_iff: "encode_share s = Inr w \<longleftrightarrow> share_valid s \<and> w = share_x s # share_y s"
  by (auto simp: encode_share_def share_valid_def)

lemma decode_encode_share:
  "encode_share s = Inr w \<Longrightarrow> decode_share w = Inr s"
  using share_codec.dec_enc [of s] by (simp add: encode_share_Inr_iff)

lemma encode_decode_share:
  "decode_share w = Inr s \<Longrightarrow> encode_share s = Inr w"
  by (cases w) (auto simp: encode_share_def decode_share_def split: if_splits)

subsection \<open>Evaluation is a polynomial over the field\<close>

lemma to_gf_xor: "to_gf (a XOR b) = to_gf a + to_gf b"
  by (simp add: plus_gf.abs_eq)

lemma to_gf_mul: "to_gf (gf_mul a b) = to_gf a * to_gf b"
  by (simp add: times_gf.abs_eq)

lemma to_gf_0 [simp]: "to_gf 0 = 0" and to_gf_1 [simp]: "to_gf 1 = 1"
  by (simp_all add: zero_gf_def one_gf_def)

lemma to_gf_eq_iff [simp]: "to_gf a = to_gf b \<longleftrightarrow> a = b"
  by (simp add: to_gf_inject)

lemma of_to_gf [simp]: "of_gf (to_gf a) = a" and to_of_gf [simp]: "to_gf (of_gf g) = g"
  by (simp_all add: to_gf_inverse of_gf_inverse)

lemma gf_uminus_eq [simp]: "- (a :: gf) = a"
  by transfer simp

lemma gf_minus_eq: "(a :: gf) - b = a + b"
  by transfer simp

fun horner :: "bytes \<Rightarrow> gf \<Rightarrow> gf" where
  "horner [] x = 0"
| "horner (c # cs) x = to_gf c + x * horner cs x"

lemma horner_polyfn: "polyfn (length cs) (horner cs)"
proof (induction cs)
  case (Cons c cs)
  then show ?case by (auto simp: fun_eq_iff)
qed (simp add: fun_eq_iff)

lemma polyfn_horner: "polyfn n f \<Longrightarrow> \<exists>cs. length cs = n \<and> f = horner cs"
proof (induction n arbitrary: f)
  case 0
  then show ?case by (auto simp: fun_eq_iff)
next
  case (Suc n)
  then obtain c g where "polyfn n g" and f: "f = (\<lambda>x. c + x * g x)" by auto
  then obtain cs where cs: "length cs = n" "g = horner cs" using Suc.IH by blast
  show ?case
    by (rule exI [of _ "of_gf c # cs"]) (simp add: cs f fun_eq_iff)
qed

lemma card_gf: "card (UNIV :: gf set) = 256"
proof -
  have "(UNIV :: gf set) = to_gf ` UNIV" by (metis to_of_gf surjI)
  then have "card (UNIV :: gf set) = card (to_gf ` UNIV)" by simp
  also have "\<dots> = card (UNIV :: byte set)" by (rule card_image) (simp add: inj_on_def)
  finally show ?thesis by (simp add: card_word)
qed

lemma finite_gf: "finite (UNIV :: gf set)"
  by (rule card_ge_0_finite) (simp add: card_gf)

lemma horner_inject:
  assumes "length as = length bs" "length as \<le> 256" "\<And>z. horner as z = horner bs z"
  shows "as = bs"
  using assms
proof (induction as bs rule: list_induct2)
  case (Cons a as b bs)
  have "a = b" using Cons.prems(2) [of 0] by simp
  then have "horner as z = horner bs z" if "z \<noteq> 0" for z
    using Cons.prems(2) [of z] that by simp
  moreover have "length as \<le> card (UNIV - {0 :: gf})" and "finite (UNIV - {0 :: gf})"
    using Cons.prems(1) finite_gf by (simp_all add: card_Diff_singleton card_gf)
  moreover have "polyfn (length as) (horner bs)"
    using horner_polyfn [of bs] Cons.hyps by simp
  ultimately have "horner as z = horner bs z" for z
    using horner_polyfn [of as] polyfn_unique [of "length as" "horner as" "horner bs" "UNIV - {0}" z]
    by blast
  with Cons \<open>a = b\<close> show ?case by simp
qed simp

lemma distinct_length_le_255:
  fixes xs :: bytes
  assumes "distinct xs" "0 \<notin> set xs"
  shows "length xs \<le> 255"
proof -
  have "card (set xs) \<le> card (UNIV - {0 :: byte})"
    using assms(2) by (intro card_mono) auto
  then show ?thesis using assms(1) by (simp add: distinct_card card_Diff_singleton card_word)
qed

lemma gf_eval_Cons: "cs \<noteq> [] \<Longrightarrow> gf_eval (c # cs) x = gf_mul (gf_eval cs x) x XOR c"
  by (simp add: gf_eval_def)

lemma gf_eval_horner: "cs \<noteq> [] \<Longrightarrow> to_gf (gf_eval cs x) = horner cs (to_gf x)"
proof (induction cs)
  case (Cons c cs)
  show ?case
  proof (cases "cs = []")
    case True
    then show ?thesis by (simp add: gf_eval_def)
  next
    case False
    with Cons.IH show ?thesis
      by (simp add: gf_eval_Cons to_gf_xor to_gf_mul mult.commute add.commute)
  qed
qed simp

lemma gf_eval_0: "gf_eval (s # cs) 0 = s"
  by (cases "cs = []") (simp_all add: gf_eval_Cons, simp add: gf_eval_def)

subsection \<open>Interpolation recovers the constant term\<close>

lemma combine_check_None_iff:
  "combine_check L ss = None \<longleftrightarrow>
     distinct (map share_x ss) \<and> (\<forall>s\<in>set ss. share_x s \<noteq> 0 \<and> length (share_y s) = L)"
  by (induction ss) auto

lemma basis_terms_prod:
  "basis_terms shares i =
     (of_gf (\<Prod>j\<in>{..<length shares} - {i}. to_gf (share_x (shares ! j))),
      of_gf (\<Prod>j\<in>{..<length shares} - {i}. to_gf (share_x (shares ! i)) - to_gf (share_x (shares ! j))))"
proof -
  have set_Diff: "{..<Suc n} - {i} = (if n = i then {..<n} - {i} else insert n ({..<n} - {i}))" for n
    by auto
  have "foldl (\<lambda>(num, den) j. if i = j then (num, den) else (gf_mul num (f j), gf_mul den (g j)))
       (1, 1) [0..<n] =
     (of_gf (\<Prod>j\<in>{..<n} - {i}. to_gf (f j)), of_gf (\<Prod>j\<in>{..<n} - {i}. to_gf (g j)))" for f g n
  proof (induction n)
    case 0
    show ?case by (simp add: one_gf.rep_eq)
  next
    case (Suc n)
    then show ?case
      by (auto simp: set_Diff times_gf.rep_eq gf_mul_commute)
  qed
  then show ?thesis
    unfolding basis_terms_def by (simp add: to_gf_xor gf_minus_eq)
qed

lemma combine_acc_sum:
  assumes dx: "distinct (map share_x shares)" and "set is \<subseteq> {..<length shares}"
  shows "combine_acc shares b is acc =
    Inr (of_gf (to_gf acc + (\<Sum>i\<leftarrow>is. to_gf (share_y (shares ! i) ! b) *
       lagrange (map (\<lambda>s. to_gf (share_x s)) shares) i 0)))"
  using assms(2)
proof (induction "is" arbitrary: acc)
  case Nil
  then show ?case by simp
next
  case (Cons i "is")
  let ?xs = "map (\<lambda>s. to_gf (share_x s)) shares"
  let ?A = "{..<length shares} - {i}"
  have i: "i < length shares" using Cons.prems by simp
  have "(\<Prod>j\<in>?A. to_gf (share_x (shares ! i)) - to_gf (share_x (shares ! j))) \<noteq> 0"
    using dx i by (auto simp: distinct_conv_nth)
  then have "gf_div (fst (basis_terms shares i)) (snd (basis_terms shares i)) = Inr (of_gf
      ((\<Prod>j\<in>?A. to_gf (share_x (shares ! j))) /
       (\<Prod>j\<in>?A. to_gf (share_x (shares ! i)) - to_gf (share_x (shares ! j)))))"
    by (simp add: basis_terms_prod gf_div_eq zero_gf.rep_eq [symmetric] of_gf_inject)
  moreover have "(\<Prod>j\<in>?A. to_gf (share_x (shares ! j))) /
       (\<Prod>j\<in>?A. to_gf (share_x (shares ! i)) - to_gf (share_x (shares ! j))) = lagrange ?xs i 0"
    using i by (simp add: lagrange_def flip: prod_dividef)
  ultimately show ?case
    using Cons by (simp add: case_prod_beta to_gf_xor to_gf_mul add.assoc)
qed

lemma combine_interpolates:
  assumes "ss \<noteq> []" and "0 < L" and "combine_check L ss = None"
    and f: "\<And>b. b < L \<Longrightarrow> polyfn (length ss) (f b)"
    and y: "\<And>s b. s \<in> set ss \<Longrightarrow> b < L \<Longrightarrow> to_gf (share_y s ! b) = f b (to_gf (share_x s))"
  shows "combine ss = Inr (map (\<lambda>b. of_gf (f b 0)) [0..<L])"
proof -
  let ?xs = "map (\<lambda>s. to_gf (share_x s)) ss"
  have dx: "distinct (map share_x ss)" and L: "length (share_y (hd ss)) = L"
    using assms(1,3) by (auto simp: combine_check_None_iff)
  have dxs: "distinct ?xs" using dx by (simp add: distinct_map inj_on_def)
  have "combine_acc ss b [0..<length ss] 0 = Inr (of_gf (f b 0))" if b: "b < L" for b
  proof -
    have "(\<Sum>i<length ss. to_gf (share_y (ss ! i) ! b) * lagrange ?xs i 0) =
        (\<Sum>i<length ?xs. f b (?xs ! i) * lagrange ?xs i 0)"
      using y b by (intro sum.cong) auto
    also have "\<dots> = f b 0"
      using lagrange_interpolation [OF dxs f [OF b]] by simp
    finally show ?thesis
      using combine_acc_sum [OF dx, of "[0..<length ss]" b 0]
      by (simp add: interv_sum_list_conv_sum_set_nat atLeast0LessThan subset_eq)
  qed
  then have "mapM_sum (\<lambda>b. combine_acc ss b [0..<length ss] 0) [0..<L] =
      Inr (map (\<lambda>b. of_gf (f b 0)) [0..<L])"
    by (intro mapM_sum_Inr) simp
  then show ?thesis using assms L by (simp add: combine_def)
qed

subsection \<open>What split produces\<close>

lemma split_Inr_iff:
  "split rnd secret threshold n = Inr shares \<longleftrightarrow>
     secret \<noteq> [] \<and> 0 < threshold \<and> threshold \<le> n \<and>
     shares = map (\<lambda>i. \<lparr>share_x = of_nat (i + 1),
                share_y = map (\<lambda>b. gf_eval (split_coeffs rnd secret threshold b) (of_nat (i + 1)))
                            [0..<length secret]\<rparr>) [0..<unat n]"
  by (auto simp: split_def Let_def word_gt_0 not_less)

lemma unat_of_nat_Suc_byte: "i < 255 \<Longrightarrow> unat (of_nat (Suc i) :: byte) = Suc i"
  by (simp only: unat_of_nat) simp

lemma of_nat_Suc_byte_eq_iff:
  "i < 255 \<Longrightarrow> j < 255 \<Longrightarrow> (of_nat (Suc i) :: byte) = of_nat (Suc j) \<longleftrightarrow> i = j"
proof
  assume i: "i < 255" and j: "j < 255" and eq: "(of_nat (Suc i) :: byte) = of_nat (Suc j)"
  from arg_cong [OF eq, of unat] have "Suc i = Suc j"
    by (simp only: unat_of_nat_Suc_byte [OF i] unat_of_nat_Suc_byte [OF j])
  then show "i = j" by simp
qed simp

lemma of_nat_Suc_byte_nonzero: "i < 255 \<Longrightarrow> (of_nat (Suc i) :: byte) \<noteq> 0"
proof
  assume i: "i < 255" and eq: "(of_nat (Suc i) :: byte) = 0"
  from arg_cong [OF eq, of unat] show False
    by (simp only: unat_of_nat_Suc_byte [OF i]) simp
qed

lemma length_split_coeffs: "0 < threshold \<Longrightarrow> length (split_coeffs rnd secret threshold b) = unat threshold"
proof -
  assume "0 < threshold"
  then have "0 < unat threshold" by (simp add: word_less_nat_alt)
  moreover have "1 < threshold \<longleftrightarrow> 1 < unat threshold" by (simp add: word_less_nat_alt)
  ultimately show ?thesis by (auto simp: split_coeffs_def)
qed

lemma split_share:
  assumes "split rnd secret threshold n = Inr shares" and "s \<in> set shares"
  shows "share_x s \<noteq> 0" and "length (share_y s) = length secret"
    and "\<And>b. b < length secret \<Longrightarrow> share_y s ! b = gf_eval (split_coeffs rnd secret threshold b) (share_x s)"
proof -
  from assms obtain i where i: "i < unat n" and s: "s = \<lparr>share_x = of_nat (Suc i),
      share_y = map (\<lambda>b. gf_eval (split_coeffs rnd secret threshold b) (of_nat (Suc i))) [0..<length secret]\<rparr>"
    by (auto simp: split_Inr_iff)
  have "i < 255" using i unat_byte_less [of n] by linarith
  then show "share_x s \<noteq> 0" using of_nat_Suc_byte_nonzero s by simp
  show "length (share_y s) = length secret" by (simp add: s)
  show "share_y s ! b = gf_eval (split_coeffs rnd secret threshold b) (share_x s)"
    if "b < length secret" for b using that by (simp add: s)
qed

lemma split_distinct_x:
  assumes "split rnd secret threshold n = Inr shares"
  shows "inj_on share_x (set shares)" and "distinct shares" and "length shares = unat n"
proof -
  have lt: "i < 255" if "i < unat n" for i using that unat_byte_less [of n] by linarith
  from assms show "inj_on share_x (set shares)"
    by (auto simp: split_Inr_iff inj_on_def of_nat_Suc_byte_eq_iff lt simp del: of_nat_Suc)
  from assms show "distinct shares" and "length shares = unat n"
    by (auto simp: split_Inr_iff distinct_map inj_on_def of_nat_Suc_byte_eq_iff lt simp del: of_nat_Suc)
qed

subsection \<open>Properties\<close>

text \<open>C11. Threshold reconstruction: after a successful \<open>split\<close>, any list of at least
  \<open>threshold\<close> different shares, in any order, is accepted by \<open>combine\<close> and yields exactly the
  secret, whatever bytes the random generator supplied.\<close>

theorem combine_split:
  assumes "split rnd secret threshold n = Inr shares"
    and "set picked \<subseteq> set shares" and "distinct picked" and "unat threshold \<le> length picked"
  shows "combine picked = Inr secret"
proof -
  let ?cs = "split_coeffs rnd secret threshold"
  have t: "0 < threshold" "secret \<noteq> []" using assms(1) by (auto simp: split_Inr_iff)
  then have "0 < unat threshold" by (simp add: word_less_nat_alt)
  then have ne: "picked \<noteq> []" using assms(4) by auto
  have cne: "?cs b \<noteq> []" for b by (simp add: split_coeffs_def)
  have "distinct (map share_x picked)"
    using split_distinct_x(1) [OF assms(1)] assms(2,3) by (auto simp: distinct_map intro: inj_on_subset)
  then have "combine_check (length secret) picked = None"
    using split_share(1,2) [OF assms(1)] assms(2) by (auto simp: combine_check_None_iff)
  moreover have "polyfn (length picked) (horner (?cs b))" for b
    using horner_polyfn [of "?cs b"] length_split_coeffs [OF t(1)] assms(4)
    by (metis polyfn_mono)
  moreover have "to_gf (share_y s ! b) = horner (?cs b) (to_gf (share_x s))"
    if "s \<in> set picked" "b < length secret" for s b
    using split_share(3) [OF assms(1)] that assms(2) cne by (auto simp: gf_eval_horner)
  ultimately have "combine picked = Inr (map (\<lambda>b. of_gf (horner (?cs b) 0)) [0..<length secret])"
    using ne t(2) by (intro combine_interpolates) auto
  moreover have "of_gf (horner (?cs b) 0) = secret ! b" for b
    by (simp add: split_coeffs_def)
  ultimately show ?thesis by (simp add: map_nth)
qed

theorem combine_split_witness:
  "\<exists>shares. split (\<lambda>b k. 7) [42, 99] 2 3 = Inr shares \<and> combine [shares ! 2, shares ! 0] = Inr [42, 99]"
proof -
  obtain shares where s: "split (\<lambda>b k. 7) [42, 99] 2 3 = Inr shares"
    by (auto simp: split_Inr_iff)
  note d = split_distinct_x [OF s]
  have "combine [shares ! 2, shares ! 0] = Inr [42, 99]"
    by (rule combine_split [OF s]) (use d in \<open>auto simp: nth_eq_iff_index_eq\<close>)
  with s show ?thesis by blast
qed

text \<open>One byte of a secret: \<open>threshold - 1\<close> points at distinct nonzero coordinates are consistent with every value of it under
  exactly one choice of the other coefficients.\<close>

lemma byte_secrecy:
  assumes "distinct xs" and "0 \<notin> set xs" and "length ys = length xs"
  shows "\<exists>!cs. length cs = length xs \<and> map (gf_eval (s # cs)) xs = ys"
proof -
  let ?zs = "0 # map to_gf xs"
  let ?vs = "to_gf s # map to_gf ys"
  have dz: "distinct ?zs"
    using assms(1,2) by (auto simp: distinct_map inj_on_def simp flip: to_gf_0)
  define f where "f z = (\<Sum>i<length ?zs. ?vs ! i * lagrange ?zs i z)" for z
  have at: "f (?zs ! i) = ?vs ! i" if "i < length ?zs" for i
    using lagrange_sum_at [OF dz that, of "\<lambda>i. ?vs ! i"] by (simp only: f_def)
  have "polyfn (length ?zs) f"
    unfolding f_def
    by (intro polyfn_sum) (auto intro!: polyfn_smult lagrange_polyfn simp del: polyfn.simps list.size)
  then obtain c cs where c: "length cs = length xs" "f = horner (c # cs)"
    by (auto dest!: polyfn_horner simp: length_Suc_conv simp del: polyfn.simps horner.simps)
  have eval: "map (gf_eval (s # as)) xs = ys \<longleftrightarrow>
      (\<forall>i<length xs. horner (s # as) (to_gf (xs ! i)) = to_gf (ys ! i))" for as
    using assms(3) gf_eval_horner [of "s # as"]
    by (auto simp: list_eq_iff_nth_eq simp flip: to_gf_eq_iff)
  have "c = s" using at [of 0] c(2) by (simp flip: to_gf_eq_iff)
  then have ex: "length cs = length xs \<and> map (gf_eval (s # cs)) xs = ys"
    using at [of "Suc _"] assms(3) c by (auto simp: eval)
  moreover have "as = cs" if as: "length as = length xs \<and> map (gf_eval (s # as)) xs = ys" for as
  proof -
    have "horner (s # as) z = horner (s # cs) z" for z
    proof (rule polyfn_unique [where S = "set ?zs" and n = "length ?zs" and x = z
          and f = "horner (s # as)" and g = "horner (s # cs)"])
      show "length ?zs \<le> card (set ?zs)" using dz distinct_card by fastforce
      show "polyfn (length ?zs) (horner (s # as))" "polyfn (length ?zs) (horner (s # cs))"
        using horner_polyfn [of "s # as"] horner_polyfn [of "s # cs"] as c(1) by (simp_all del: polyfn.simps)
      fix x assume "x \<in> set ?zs"
      then consider "x = 0" | i where "i < length xs" "x = to_gf (xs ! i)"
        by (auto simp: in_set_conv_nth)
      then show "horner (s # as) x = horner (s # cs) x"
        by cases (use as ex eval in \<open>simp, metis\<close>)
    qed simp
    moreover have "length (s # as) \<le> 256"
      using as assms(1,2) by (simp add: distinct_length_le_255)
    ultimately have "s # as = s # cs" using as c(1) by (intro horner_inject) auto
    then show ?thesis by simp
  qed
  ultimately show ?thesis by blast
qed

lemma pointwise_unique:
  assumes "\<forall>b<L. \<exists>!c. P b c"
  shows "\<exists>!R. length R = L \<and> (\<forall>b<L. P b (R ! b))"
proof -
  let ?R = "map (\<lambda>b. THE c. P b c) [0..<L]"
  have "length ?R = L \<and> (\<forall>b<L. P b (?R ! b))" using theI' [of "P _"] assms by simp
  moreover have "R = ?R" if "length R = L \<and> (\<forall>b<L. P b (R ! b))" for R
    using that assms by (intro nth_equalityI) (auto intro!: the1_equality [symmetric])
  ultimately show ?thesis by blast
qed

text \<open>The random bytes of a call of \<open>split\<close> as a table, one row for each byte of the secret.\<close>

definition table_rnd :: "bytes list \<Rightarrow> nat \<Rightarrow> nat \<Rightarrow> byte" where
  "table_rnd R b k = R ! b ! k"

lemma split_coeffs_table:
  "0 < t \<Longrightarrow> length (R ! b) = unat t - 1 \<Longrightarrow> split_coeffs (table_rnd R) secret t b = secret ! b # R ! b"
  using map_nth [of "R ! b"] by (auto simp: split_coeffs_def table_rnd_def [abs_def] word_less_nat_alt)

lemma share_mem_split:
  assumes "split rnd secret t n = Inr shares" "s \<in> set shares"
    and "split rnd' secret' t n = Inr shares'" "length secret' = length secret"
  shows "s \<in> set shares' \<longleftrightarrow> (\<forall>b<length secret. share_y s ! b = gf_eval (split_coeffs rnd' secret' t b) (share_x s))"
proof
  show "s \<in> set shares' \<Longrightarrow> \<forall>b<length secret. share_y s ! b = gf_eval (split_coeffs rnd' secret' t b) (share_x s)"
    using split_share(3) [OF assms(3)] assms(4) by auto
  assume eq: "\<forall>b<length secret. share_y s ! b = gf_eval (split_coeffs rnd' secret' t b) (share_x s)"
  obtain i where i: "i < unat n" "share_x s = of_nat (i + 1)" using assms(1,2) by (auto simp: split_Inr_iff)
  have "share_y s = map (\<lambda>b. gf_eval (split_coeffs rnd' secret' t b) (of_nat (i + 1))) [0..<length secret']"
    using eq i(2) assms(4) split_share(2) [OF assms(1,2)] by (intro nth_equalityI) simp_all
  with i show "s \<in> set shares'"
    using assms(3) by (auto simp: split_Inr_iff intro!: image_eqI [of _ _ i] share.equality)
qed

text \<open>C22. Perfect secrecy of \<open>split\<close>: whatever \<open>threshold - 1\<close> different shares of a secret an adversary holds, and
  whatever other secret of the same length it considers, exactly one choice of all the random bytes that \<open>split\<close> draws makes \<open>split\<close>
  of that other secret hand out these very shares. So, with uniformly drawn bytes, fewer shares than the threshold
  leave all secrets of that length equally likely.\<close>

theorem shamir_perfect_secrecy:
  assumes "split rnd secret threshold n = Inr shares" and "set held \<subseteq> set shares" and "distinct held"
    and "length held = unat threshold - 1" and "length secret' = length secret"
  shows "\<exists>!R. length R = length secret' \<and> (\<forall>r\<in>set R. length r = unat threshold - 1) \<and>
    (\<exists>shares'. split (table_rnd R) secret' threshold n = Inr shares' \<and> set held \<subseteq> set shares')"
proof -
  let ?L = "length secret'" and ?xs = "map share_x held"
  let ?P = "\<lambda>b cs. length cs = unat threshold - 1 \<and> map (gf_eval (secret' ! b # cs)) ?xs = map (\<lambda>s. share_y s ! b) held"
  have t: "0 < threshold" "secret \<noteq> []" "threshold \<le> n" using assms(1) by (auto simp: split_Inr_iff)
  have ne: "secret' \<noteq> []" using t(2) assms(5) by auto
  have "distinct ?xs" using assms(2,3) split_distinct_x(1) [OF assms(1)] by (auto simp: distinct_map intro: inj_on_subset)
  moreover have "0 \<notin> set ?xs" using split_share(1) [OF assms(1)] assms(2) by auto
  ultimately have "\<exists>!cs. ?P b cs" for b
    using byte_secrecy [of ?xs "map (\<lambda>s. share_y s ! b) held" "secret' ! b"] assms(4) by simp
  then have "\<exists>!R. length R = ?L \<and> (\<forall>b<?L. ?P b (R ! b))" by (intro pointwise_unique) simp
  moreover have "(length R = ?L \<and> (\<forall>b<?L. ?P b (R ! b))) \<longleftrightarrow> (length R = ?L \<and> (\<forall>r\<in>set R. length r = unat threshold - 1) \<and>
      (\<exists>shares'. split (table_rnd R) secret' threshold n = Inr shares' \<and> set held \<subseteq> set shares'))" for R
  proof (cases "length R = ?L \<and> (\<forall>b<?L. length (R ! b) = unat threshold - 1)")
    case True
    obtain shares' where sp: "split (table_rnd R) secret' threshold n = Inr shares'" using t ne by (auto simp: split_Inr_iff)
    have "set held \<subseteq> set shares' \<longleftrightarrow> (\<forall>s\<in>set held. \<forall>b<?L. share_y s ! b = gf_eval (secret' ! b # R ! b) (share_x s))"
      using share_mem_split [OF assms(1) _ sp assms(5)] assms(2,5) True split_coeffs_table [OF t(1)] by (auto simp: subset_iff)
    also have "\<dots> \<longleftrightarrow> (\<forall>b<?L. ?P b (R ! b))" using True by (auto simp: list_eq_iff_nth_eq all_set_conv_all_nth)
    finally show ?thesis using sp True by (auto simp: all_set_conv_all_nth)
  qed (auto simp: all_set_conv_all_nth)
  ultimately show ?thesis by simp
qed

text \<open>One share of three with threshold 2, and the secret it could as well be a share of.\<close>

theorem shamir_perfect_secrecy_witness:
  "\<exists>shares. split (\<lambda>b k. 7) [42, 99] 2 3 = Inr shares \<and>
    (\<exists>!R. length R = Suc 1 \<and> (\<forall>r\<in>set R. length r = 1) \<and>
      (\<exists>shares'. split (table_rnd R) [1, 2] 2 3 = Inr shares' \<and> shares ! 1 \<in> set shares'))"
proof -
  obtain shares where s: "split (\<lambda>b k. 7) [42, 99] 2 3 = Inr shares" by (auto simp: split_Inr_iff)
  from split_distinct_x(3) [OF s] have "set [shares ! 1] \<subseteq> set shares" by simp
  from shamir_perfect_secrecy [OF s this, of "[1, 2]"] s show ?thesis by simp
qed

end
