(* ===== verification/Padding.thy ===== *)
theory Padding
  imports Prelude
begin

text \<open>
  Message-size padding, \<open>core/src/crypto/padding.cpp\<close>: \<open>pad_to_bucket\<close> appends \<open>0x80\<close> and
  zeros up to the first bucket that fits, \<open>strip_padding\<close> scans back over the zeros to the
  marker. \<open>std::size_t\<close> lengths are \<open>nat\<close>.
\<close>

datatype padding_error = EmptyLadder | ExceedsLargestBucket | EmptyInput | NoMarker | ExpectedMarker

definition default_padding_buckets :: "nat list" where
  "default_padding_buckets = [256, 1024, 4096, 16384, 65536]"

definition pad_to_bucket :: "bytes \<Rightarrow> nat list \<Rightarrow> padding_error + bytes" where
  "pad_to_bucket plaintext buckets =
     (if buckets = [] then Inl EmptyLadder
      else let needed = length plaintext + 1;
               target = (case find (\<lambda>b. needed \<le> b) buckets of Some b \<Rightarrow> b | None \<Rightarrow> 0)
           in if target = 0 then Inl ExceedsLargestBucket
              else let out = replicate target 0;
                       out = plaintext @ drop (length plaintext) out
                   in Inr (out[length plaintext := 0x80]))"

definition pad_default :: "bytes \<Rightarrow> padding_error + bytes" where
  "pad_default plaintext = pad_to_bucket plaintext default_padding_buckets"

text \<open>The backward scan \<open>while (i > 0 && padded[i - 1] == 0x00) --i;\<close>.\<close>

fun strip_scan :: "bytes \<Rightarrow> nat \<Rightarrow> nat" where
  "strip_scan padded 0 = 0"
| "strip_scan padded (Suc i) = (if padded ! i = 0 then strip_scan padded i else Suc i)"

definition strip_padding :: "bytes \<Rightarrow> padding_error + bytes" where
  "strip_padding padded =
     (if padded = [] then Inl EmptyInput
      else let i = strip_scan padded (length padded)
           in if i = 0 then Inl NoMarker
              else if padded ! (i - 1) \<noteq> 0x80 then Inl ExpectedMarker
              else Inr (take (i - 1) padded))"

subsection \<open>What the two loops compute\<close>

lemma find_first_bucket:
  "find (\<lambda>b. n \<le> b) bs = Some t \<Longrightarrow> t \<in> set bs \<and> n \<le> t"
  by (auto simp: find_Some_iff)

lemma pad_to_bucket_Inr_iff:
  "pad_to_bucket p bs = Inr w \<longleftrightarrow>
     (\<exists>t. find (\<lambda>b. length p + 1 \<le> b) bs = Some t \<and>
          w = p @ 0x80 # replicate (t - length p - 1) 0)"
proof (cases "find (\<lambda>b. length p + 1 \<le> b) bs")
  case None
  then show ?thesis by (auto simp: pad_to_bucket_def Let_def)
next
  case (Some t)
  then have t: "t \<in> set bs" "length p + 1 \<le> t" by (auto dest: find_first_bucket)
  then obtain k where k: "t - length p = Suc k" by (metis Suc_diff_le Suc_eq_plus1 diff_Suc_Suc)
  have "(p @ replicate (t - length p) 0)[length p := 0x80] = p @ 0x80 # replicate k 0"
    by (simp add: k list_update_append)
  moreover have "t - length p - 1 = k" using k by simp
  ultimately show ?thesis using Some t by (auto simp: pad_to_bucket_def Let_def)
qed

lemma strip_scan_append_zeros:
  "strip_scan (xs @ replicate k 0) (length xs + k) = strip_scan xs (length xs)"
proof (induction k)
  case 0
  show ?case by simp
next
  case (Suc k)
  have eq: "strip_scan (ys @ [z]) n = strip_scan ys n" if "n \<le> length ys" for ys z n
    using that by (induction n) (auto simp: nth_append)
  have "replicate (Suc k) (0 :: byte) = replicate k 0 @ [0]" by (simp add: replicate_append_same)
  then have "strip_scan (xs @ replicate (Suc k) 0) (length xs + k) =
      strip_scan (xs @ replicate k 0) (length xs + k)"
    using eq [of "length xs + k" "xs @ replicate k 0" 0] by simp
  moreover have "(xs @ replicate (Suc k) 0) ! (length xs + k) = 0"
    by (simp only: nth_append_length_plus nth_replicate [OF lessI])
  ultimately show ?case using Suc by simp
qed

lemma strip_scan_result:
  assumes "n \<le> length xs" and "strip_scan xs n = i"
  shows "i \<le> n \<and> (\<forall>j. i \<le> j \<and> j < n \<longrightarrow> xs ! j = 0) \<and> (0 < i \<longrightarrow> xs ! (i - 1) \<noteq> 0)"
  using assms
proof (induction n)
  case (Suc n)
  then show ?case by (auto simp: less_Suc_eq split: if_splits)
qed simp

lemma strip_padding_Inr_iff:
  "strip_padding w = Inr p \<longleftrightarrow> (\<exists>k. w = p @ 0x80 # replicate k 0)"
proof
  assume ok: "strip_padding w = Inr p"
  define i where "i = strip_scan w (length w)"
  have i: "i \<noteq> 0" "w ! (i - 1) = 0x80" "p = take (i - 1) w"
    using ok by (auto simp: strip_padding_def Let_def i_def split: if_splits)
  have r: "i \<le> length w" "\<And>j. i \<le> j \<Longrightarrow> j < length w \<Longrightarrow> w ! j = 0"
    using strip_scan_result [of "length w" w i] by (auto simp: i_def)
  have "drop i w = replicate (length w - i) 0"
    using r by (intro nth_equalityI) auto
  moreover have "w = take (i - 1) w @ w ! (i - 1) # drop i w"
    using i(1) r(1) id_take_nth_drop [of "i - 1" w] by simp
  ultimately have "w = p @ 0x80 # replicate (length w - i) 0" using i by simp
  then show "\<exists>k. w = p @ 0x80 # replicate k 0" ..
next
  assume "\<exists>k. w = p @ 0x80 # replicate k 0"
  then obtain k where w: "w = (p @ [0x80]) @ replicate k 0" by auto
  have "strip_scan w (length w) = length p + 1"
    unfolding w using strip_scan_append_zeros [of "p @ [0x80]" k] by (simp add: nth_append)
  then show "strip_padding w = Inr p"
    by (simp add: strip_padding_def w nth_append)
qed

lemma pad_to_bucket_shape:
  assumes "pad_to_bucket p bs = Inr w"
  shows "\<exists>k. w = p @ 0x80 # replicate k 0" and "length w \<in> set bs"
    and "find (\<lambda>b. length p + 1 \<le> b) bs = Some (length w)"
proof -
  from assms obtain t where t: "find (\<lambda>b. length p + 1 \<le> b) bs = Some t"
    and w: "w = p @ 0x80 # replicate (t - length p - 1) 0"
    by (auto simp: pad_to_bucket_Inr_iff)
  from find_first_bucket [OF t] w have "length w = t" by simp
  with t w find_first_bucket [OF t]
  show "\<exists>k. w = p @ 0x80 # replicate k 0" and "length w \<in> set bs"
    and "find (\<lambda>b. length p + 1 \<le> b) bs = Some (length w)" by auto
qed

interpretation padding_codec: wire_codec
  "\<lambda>p. case pad_to_bucket p buckets of Inr w \<Rightarrow> w | Inl _ \<Rightarrow> []"
  "\<lambda>w. res_opt (strip_padding w)"
  "\<lambda>p. \<exists>w. pad_to_bucket p buckets = Inr w" for buckets
  by unfold_locales (auto simp: strip_padding_Inr_iff dest: pad_to_bucket_shape)

subsection \<open>Properties\<close>

text \<open>C34. Round trip and exactness: whatever \<open>pad_to_bucket\<close> produced, on any ladder, is
  stripped back to the plaintext; and \<open>strip_padding\<close> accepts exactly the byte strings made
  of a plaintext, the marker \<open>0x80\<close> and zeros, so no tampered tail slips through.\<close>

theorem strip_pad:
  "(\<forall>w. pad_to_bucket p buckets = Inr w \<longrightarrow> strip_padding w = Inr p) \<and>
   (strip_padding v = Inr q \<longleftrightarrow> (\<exists>k. v = q @ 0x80 # replicate k 0))"
  using padding_codec.dec_enc [of p buckets] by (auto simp: strip_padding_Inr_iff)

theorem strip_pad_witness:
  "pad_to_bucket [1, 0] [4, 8] = Inr [1, 0, 0x80, 0] \<and> strip_padding [1, 0, 0x80, 0] = Inr [1, 0]"
proof -
  have "pad_to_bucket [1, 0] [4, 8] = Inr [1, 0, 0x80, 0]"
    by (simp add: pad_to_bucket_def eval_nat_numeral)
  with strip_pad [of "[1, 0]" "[4, 8]"] show ?thesis by simp
qed

text \<open>Length hiding: with a strictly increasing ladder the padded length is the smallest
  bucket above the plaintext length, so it reveals only which bucket the plaintext falls
  in; padding fails exactly when the plaintext does not fit below the largest bucket.\<close>

theorem padded_length:
  assumes "sorted_wrt (<) buckets" and "buckets \<noteq> []"
  shows "(\<forall>w. pad_to_bucket p buckets = Inr w \<longrightarrow>
            length w = Min {b \<in> set buckets. length p < b}) \<and>
         ((\<exists>w. pad_to_bucket p buckets = Inr w) \<longleftrightarrow> length p < last buckets)"
proof -
  have sorted: "sorted buckets" using assms(1) by (rule strict_sorted_imp_sorted)
  have min: "t = Min {b \<in> set bs. n < b}"
    if "find (\<lambda>b. n + 1 \<le> b) bs = Some t" "sorted bs" for bs :: "nat list" and n t
    using that
  proof (induction bs)
    case (Cons b bs)
    show ?case
    proof (cases "n < b")
      case True
      with Cons.prems have "t = b" by auto
      moreover have "Min {c \<in> set (b # bs). n < c} = b"
        using True Cons.prems(2) by (intro Min_eqI) auto
      ultimately show ?thesis by simp
    next
      case False
      then have "{c \<in> set (b # bs). n < c} = {c \<in> set bs. n < c}" by auto
      with False Cons show ?thesis by simp
    qed
  qed simp
  have "(\<exists>t. find (\<lambda>b. length p + 1 \<le> b) buckets = Some t) \<longleftrightarrow> (\<exists>b\<in>set buckets. length p < b)"
    by (metis Suc_eq_plus1 Suc_le_eq find_None_iff not_None_eq)
  also have "\<dots> \<longleftrightarrow> length p < last buckets"
  proof
    assume "\<exists>b\<in>set buckets. length p < b"
    then obtain b where "b \<in> set buckets" "length p < b" by blast
    moreover from this have "b \<le> last buckets"
      using sorted assms(2) by (auto simp: in_set_conv_nth last_conv_nth intro!: sorted_nth_mono)
    ultimately show "length p < last buckets" by simp
  qed (use assms(2) in auto)
  finally have "(\<exists>w. pad_to_bucket p buckets = Inr w) \<longleftrightarrow> length p < last buckets"
    by (auto simp: pad_to_bucket_Inr_iff)
  then show ?thesis using min [OF pad_to_bucket_shape(3) sorted] by blast
qed

theorem padded_length_witness:
  "length [7, 0x80, 0] = Min {b \<in> set [3, 5]. length [7 :: byte] < b} \<and>
   \<not> (\<exists>w. pad_to_bucket [1, 2, 3, 4, 5] [3, 5] = Inr w)"
proof -
  have "pad_to_bucket [7] [3, 5] = Inr [7, 0x80, 0]"
    by (simp add: pad_to_bucket_def eval_nat_numeral)
  then show ?thesis
    using padded_length [of "[3, 5]" "[7]"] padded_length [of "[3, 5]" "[1, 2, 3, 4, 5]"] by simp
qed

end
