(* ===== verification/Frame_Codec.thy ===== *)
theory Frame_Codec
  imports Prelude
begin

text \<open>
  Length-prefixed framing, \<open>core/src/net/frame_codec.cpp\<close>, and the drain loop that the relay
  server runs after each read (\<open>server/src/relay_server.cpp\<close>). The length prefix is a 32-bit
  word, and \<open>4 + len\<close> is computed at that width as in the source.
\<close>

definition kMaxFrameBytes :: nat where
  "kMaxFrameBytes = 8 * 1024 * 1024"

definition encode_frame :: "bytes \<Rightarrow> bytes" where
  "encode_frame payload = u32_be (of_nat (length payload)) @ payload"

datatype status = kNeedMore | kFrameReady bytes | kError

record frame_decoder =
  buf :: bytes
  error :: bool
  error_msg :: string

definition decoder_init :: frame_decoder where
  "decoder_init = \<lparr>buf = [], error = False, error_msg = ''''\<rparr>"

definition feed :: "frame_decoder \<Rightarrow> bytes \<Rightarrow> frame_decoder" where
  "feed d bs = (if error d then d else d\<lparr>buf := buf d @ bs\<rparr>)"

definition try_pop :: "frame_decoder \<Rightarrow> status \<times> frame_decoder" where
  "try_pop d =
     (if error d then (kError, d)
      else if length (buf d) < 4 then (kNeedMore, d)
      else let len = rd_u32 (buf d ! 0) (buf d ! 1) (buf d ! 2) (buf d ! 3) in
        if kMaxFrameBytes < unat len
        then (kError, d\<lparr>error := True, error_msg := ''frame exceeds kMaxFrameBytes''\<rparr>)
        else if length (buf d) < unat (4 + len) then (kNeedMore, d)
        else (kFrameReady (take (unat len) (drop 4 (buf d))),
              d\<lparr>buf := drop (4 + unat len) (buf d)\<rparr>))"

lemma try_pop_buf_less:
  "try_pop d = (kFrameReady f, d') \<Longrightarrow> length (buf d') < length (buf d)"
  by (auto simp: try_pop_def Let_def split: if_splits)

text \<open>\<open>while ((st = dec.try_pop(frame)) == kFrameReady) handle_frame(c, frame);\<close> as the list of
  frames handed over and the decoder left behind. The server's loop also stops when handling a frame has asked for the
  connection to be closed: the frames after that one are then dropped with the connection, which \<open>handle_frames\<close> of the
  theory \<open>Server\<close> models on the list of frames.\<close>

function drain :: "frame_decoder \<Rightarrow> bytes list \<times> frame_decoder" where
  "drain d =
     (case try_pop d of
        (kFrameReady f, d') \<Rightarrow> (let (fs, d'') = drain d' in (f # fs, d''))
      | (_, d') \<Rightarrow> ([], d'))"
  by pat_completeness auto
termination
  by (relation "measure (\<lambda>d. length (buf d))") (auto dest: try_pop_buf_less [OF sym])

declare drain.simps [simp del]

fun read_chunks :: "frame_decoder \<Rightarrow> bytes list \<Rightarrow> bytes list \<times> frame_decoder" where
  "read_chunks d [] = ([], d)"
| "read_chunks d (c # cs) =
     (let (fs, d') = drain (feed d c); (gs, d'') = read_chunks d' cs in (fs @ gs, d''))"

subsection \<open>One frame\<close>

lemma unat_4_plus: "unat len \<le> kMaxFrameBytes \<Longrightarrow> unat (4 + len :: u32) = 4 + unat len"
  by (subst unat_add_lem [THEN iffD1]) (simp_all add: kMaxFrameBytes_def)

lemma length_u32_of_nat:
  "length p \<le> kMaxFrameBytes \<Longrightarrow> unat (of_nat (length p) :: u32) = length p"
  by (simp add: unat_of_nat kMaxFrameBytes_def)

text \<open>With no error pending, \<open>try_pop\<close> is a function of the buffer alone.\<close>

definition frame_len :: "bytes \<Rightarrow> nat" where
  "frame_len b = unat (rd_u32 (b ! 0) (b ! 1) (b ! 2) (b ! 3))"

lemma frame_len_append: "4 \<le> length b \<Longrightarrow> frame_len (b @ c) = frame_len b"
  by (auto simp: frame_len_def nth_append)

lemma try_pop_cases:
  assumes "\<not> error d"
  shows "try_pop d =
    (if length (buf d) < 4 then (kNeedMore, d)
     else if kMaxFrameBytes < frame_len (buf d)
     then (kError, d\<lparr>error := True, error_msg := ''frame exceeds kMaxFrameBytes''\<rparr>)
     else if length (buf d) < 4 + frame_len (buf d) then (kNeedMore, d)
     else (kFrameReady (take (frame_len (buf d)) (drop 4 (buf d))),
           d\<lparr>buf := drop (4 + frame_len (buf d)) (buf d)\<rparr>))"
  using assms by (simp add: try_pop_def frame_len_def Let_def unat_4_plus not_less)

lemma frame_len_encode:
  "length p \<le> kMaxFrameBytes \<Longrightarrow> frame_len (encode_frame p @ rest) = length p"
  by (rule u32_be_cases [of "of_nat (length p)"])
    (simp add: encode_frame_def frame_len_def length_u32_of_nat)

lemma try_pop_encoded:
  assumes "\<not> error d" and "buf d = encode_frame p @ rest" and "length p \<le> kMaxFrameBytes"
  shows "try_pop d = (kFrameReady p, d\<lparr>buf := rest\<rparr>)"
  using assms frame_len_encode [OF assms(3), of rest]
  by (auto simp: try_pop_cases) (simp_all add: encode_frame_def)

interpretation frame_codec: wire_codec encode_frame
  "\<lambda>w. case try_pop (feed decoder_init w) of (kFrameReady f, d) \<Rightarrow> (if buf d = [] then Some f else None) | _ \<Rightarrow> None"
  "\<lambda>p. length p \<le> kMaxFrameBytes"
  by unfold_locales (simp add: try_pop_encoded [where rest = "[]"] feed_def decoder_init_def)

subsection \<open>Draining does not depend on the chunking\<close>

lemma drain_error: "error d \<Longrightarrow> drain d = ([], d)"
  by (subst drain.simps) (simp add: try_pop_def)

lemma read_chunks_error: "error d \<Longrightarrow> read_chunks d cs = ([], d)"
  by (induction cs) (simp_all add: feed_def drain_error)

lemma try_pop_feed:
  assumes "try_pop d = (kFrameReady f, d')"
  shows "try_pop (feed d c) = (kFrameReady f, feed d' c)"
proof -
  have ne: "\<not> error d" using assms by (auto simp: try_pop_def)
  with assms show ?thesis
    by (auto simp: try_pop_cases feed_def frame_len_append not_less split: if_splits)
qed

lemma try_pop_error_feed:
  assumes "try_pop d = (kError, d')" and "\<not> error d"
  shows "fst (try_pop (feed d c)) = kError \<and> error (snd (try_pop (feed d c)))"
  using assms by (auto simp: try_pop_cases feed_def frame_len_append not_less split: if_splits)

text \<open>The three ways one turn of the drain loop ends.\<close>

lemma drain_need: "try_pop d = (kNeedMore, d') \<Longrightarrow> drain d = ([], d) \<and> d' = d"
  by (subst drain.simps) (auto simp: try_pop_def Let_def split: if_splits)

lemma drain_ready:
  "try_pop d = (kFrameReady f, d') \<Longrightarrow> drain d = (f # fst (drain d'), snd (drain d'))"
  by (subst drain.simps) (simp add: case_prod_beta)

lemma drain_err: "try_pop d = (kError, d') \<Longrightarrow> drain d = ([], d') \<and> error d'"
  by (subst drain.simps) (auto simp: try_pop_def Let_def split: if_splits)

lemmas drain_steps = drain_need drain_ready drain_err

lemma drain_feed:
  "fst (drain (feed d c)) = fst (drain d) @ fst (drain (feed (snd (drain d)) c)) \<and>
   error (snd (drain (feed d c))) = error (snd (drain (feed (snd (drain d)) c))) \<and>
   (\<not> error (snd (drain (feed d c))) \<longrightarrow>
      snd (drain (feed d c)) = snd (drain (feed (snd (drain d)) c)))"
proof (induction d rule: drain.induct)
  case (1 d)
  obtain st d' where p: "try_pop d = (st, d')" by fastforce
  show ?case
  proof (cases st)
    case kNeedMore
    then show ?thesis using p drain_need by simp
  next
    case (kFrameReady f)
    with p have p': "try_pop d = (kFrameReady f, d')" by simp
    show ?thesis
      unfolding drain_ready [OF p'] drain_ready [OF try_pop_feed [OF p']] fst_conv snd_conv append_Cons
      using "1.IH" [OF p [symmetric] kFrameReady] by metis
  next
    case kError
    have "fst (try_pop (feed d c)) = kError"
      using p kError try_pop_error_feed [of d d' c]
      by (cases "error d") (auto simp: feed_def try_pop_def)
    then obtain e where "try_pop (feed d c) = (kError, e)" by (cases "try_pop (feed d c)") auto
    then have "drain (feed d c) = ([], e)" "error e" using drain_err by auto
    moreover have "drain d = ([], d')" "error d'" using p kError drain_err by auto
    ultimately show ?thesis by (simp add: feed_def drain_error)
  qed
qed

lemma feed_append: "feed (feed d a) b = feed d (a @ b)"
  by (simp add: feed_def)

lemma drain_again: "drain (snd (drain d)) = ([], snd (drain d))"
proof (induction d rule: drain.induct)
  case (1 d)
  obtain st d' where p: "try_pop d = (st, d')" by fastforce
  with "1.IH" [OF p [symmetric]] show ?case
    by (cases st) (auto dest!: drain_steps simp: drain_error)
qed

text \<open>Reading a stream in chunks hands over the frames of the concatenated stream.\<close>

lemma read_chunks_concat:
  assumes "drain d = ([], d)"
  shows "fst (read_chunks d cs) = fst (drain (feed d (concat cs))) \<and>
    error (snd (read_chunks d cs)) = error (snd (drain (feed d (concat cs)))) \<and>
    (\<not> error (snd (read_chunks d cs)) \<longrightarrow> snd (read_chunks d cs) = snd (drain (feed d (concat cs))))"
  using assms
proof (induction cs arbitrary: d)
  case Nil
  then show ?case by (simp add: feed_def)
next
  case (Cons c cs)
  define d1 where "d1 = snd (drain (feed d c))"
  have "drain d1 = ([], d1)" unfolding d1_def by (rule drain_again)
  note IH = Cons.IH [OF this]
  note step = drain_feed [of "feed d c" "concat cs", unfolded feed_append, folded d1_def]
  have r: "read_chunks d (c # cs) = (fst (drain (feed d c)) @ fst (read_chunks d1 cs), snd (read_chunks d1 cs))"
    by (simp add: case_prod_beta d1_def)
  show ?case unfolding r concat.simps fst_conv snd_conv using IH step by metis
qed

lemma drain_encoded:
  assumes "\<forall>p\<in>set ps. length p \<le> kMaxFrameBytes" and "\<not> error d"
    and "buf d = concat (map encode_frame ps)"
  shows "drain d = (ps, d\<lparr>buf := []\<rparr>)"
  using assms
proof (induction ps arbitrary: d)
  case Nil
  then show ?case by (subst drain.simps) (simp add: try_pop_cases)
next
  case (Cons p ps)
  then have "try_pop d = (kFrameReady p, d\<lparr>buf := concat (map encode_frame ps)\<rparr>)"
    by (intro try_pop_encoded) auto
  then show ?case using Cons by (subst drain.simps) simp
qed

text \<open>A prefix of a stream of encoded frames: the decoder hands over the frames that are complete and
  keeps the bytes of the next one.\<close>

lemma drain_prefix:
  assumes "\<forall>p\<in>set ps. length p \<le> kMaxFrameBytes" and "\<not> error d"
    and "buf d @ rest = concat (map encode_frame ps)"
  shows "\<exists>m b. drain d = (take m ps, d\<lparr>buf := b\<rparr>) \<and> b @ rest = concat (map encode_frame (drop m ps))"
  using assms
proof (induction ps arbitrary: d)
  case Nil
  then have "drain d = (take 0 [], d\<lparr>buf := buf d\<rparr>)" by (subst drain.simps) (simp add: try_pop_cases)
  with Nil show ?case by (intro exI [of _ 0] exI [of _ "buf d"]) simp
next
  case (Cons p ps)
  let ?a = "buf d" and ?s = "concat (map encode_frame ps)"
  have p: "length p \<le> kMaxFrameBytes" and eq: "?a @ rest = encode_frame p @ ?s" using Cons.prems by simp_all
  show ?case
  proof (cases "length ?a < 4 + length p")
    case True
    have "4 \<le> length ?a \<Longrightarrow> frame_len ?a = length p"
      using frame_len_encode [OF p, of ?s] frame_len_append [of ?a rest] eq by simp
    then have "try_pop d = (kNeedMore, d)" using True Cons.prems(2) p by (auto simp: try_pop_cases)
    then have "drain d = (take 0 (p # ps), d\<lparr>buf := ?a\<rparr>)" using drain_need by simp
    with Cons.prems(3) show ?thesis by (intro exI [of _ 0] exI [of _ ?a]) simp
  next
    case False
    have len: "length (encode_frame p) = 4 + length p" by (simp add: encode_frame_def)
    define b where "b = drop (4 + length p) ?a"
    have a: "?a = encode_frame p @ b"
      using arg_cong [OF eq, of "take (4 + length p)"] False len
      by (simp add: b_def) (metis append_take_drop_id)
    then have pop: "try_pop d = (kFrameReady p, d\<lparr>buf := b\<rparr>)" using try_pop_encoded Cons.prems(2) p by blast
    have "b @ rest = ?s" using eq a by simp
    then obtain m b' where IH: "drain (d\<lparr>buf := b\<rparr>) = (take m ps, d\<lparr>buf := b'\<rparr>)"
        "b' @ rest = concat (map encode_frame (drop m ps))"
      using Cons.IH [of "d\<lparr>buf := b\<rparr>"] Cons.prems by auto
    then show ?thesis using drain_ready [OF pop] by (intro exI [of _ "Suc m"] exI [of _ b']) simp
  qed
qed

lemma drain_init [simp]: "drain decoder_init = ([], decoder_init)"
  by (subst drain.simps) (simp add: try_pop_def decoder_init_def)

lemma try_pop_need_bound:
  "try_pop d = (kNeedMore, d') \<Longrightarrow> length (buf d) < 4 + kMaxFrameBytes"
  by (cases "error d") (simp_all add: try_pop_cases split: if_splits, simp add: try_pop_def)

lemma drain_not_error_bound:
  "\<not> error (snd (drain d)) \<Longrightarrow> length (buf (snd (drain d))) < 4 + kMaxFrameBytes"
proof (induction d rule: drain.induct)
  case (1 d)
  obtain st d' where p: "try_pop d = (st, d')" by fastforce
  with "1.IH" [OF p [symmetric]] "1.prems" show ?case
    using try_pop_need_bound [of d d'] by (cases st) (auto dest!: drain_steps)
qed

subsection \<open>Properties\<close>

text \<open>C25. Stream round trip: the frames a peer encoded and sent come out of the decoder in
  order and complete, however the transport cut the byte stream into reads, and the decoder
  is left empty and without error.\<close>

theorem read_chunks_frames:
  assumes "\<forall>p\<in>set ps. length p \<le> kMaxFrameBytes"
    and "concat chunks = concat (map encode_frame ps)"
  shows "read_chunks decoder_init chunks = (ps, decoder_init)"
proof -
  have "drain (feed decoder_init (concat chunks)) = (ps, decoder_init)"
    using drain_encoded [of ps "feed decoder_init (concat chunks)"] assms
    by (simp add: feed_def decoder_init_def)
  then show ?thesis
    using read_chunks_concat [OF drain_init, of chunks] by (simp add: prod_eq_iff decoder_init_def)
qed

theorem read_chunks_frames_witness:
  "read_chunks decoder_init [[0, 0, 0], [2, 9], [8, 0, 0, 0, 1], [7]] = ([[9, 8], [7]], decoder_init)"
proof -
  have "encode_frame [9, 8] = [0, 0, 0, 2, 9, 8]" "encode_frame [7] = [0, 0, 0, 1, 7]"
    by code_simp+
  then show ?thesis
    by (intro read_chunks_frames) (simp_all add: kMaxFrameBytes_def)
qed

text \<open>Bounded buffering: whatever bytes a peer sends in whatever chunks, either the decoder
  has latched its error, after which it hands over nothing and buffers nothing more, or it
  holds less than one maximal frame between reads.\<close>

theorem read_chunks_bounded:
  "(\<not> error (snd (read_chunks decoder_init chunks)) \<longrightarrow>
      length (buf (snd (read_chunks decoder_init chunks))) < 4 + kMaxFrameBytes) \<and>
   (error (snd (read_chunks decoder_init chunks)) \<longrightarrow>
      read_chunks (snd (read_chunks decoder_init chunks)) later = ([], snd (read_chunks decoder_init chunks)))"
  using read_chunks_concat [OF drain_init, of chunks] drain_not_error_bound
  by (auto simp: read_chunks_error)

theorem read_chunks_bounded_witness:
  "error (snd (read_chunks decoder_init [[255, 0], [0, 0, 1]])) \<and>
   read_chunks (snd (read_chunks decoder_init [[255, 0], [0, 0, 1]])) [[0, 0, 0, 0]] =
     ([], snd (read_chunks decoder_init [[255, 0], [0, 0, 1]]))"
proof -
  have l: "rd_u32 255 0 0 0 = 0xff000000"
    by (simp add: rd_u32_def)
  have "error (snd (read_chunks decoder_init [[255, 0], [0, 0, 1]]))"
    by (simp add: decoder_init_def feed_def drain.simps try_pop_def l kMaxFrameBytes_def)
  then show ?thesis
    using read_chunks_bounded [of "[[255, 0], [0, 0, 1]]" "[[0, 0, 0, 0]]"] by simp
qed



end
