(* ===== verification/Token_Bucket.thy ===== *)
theory Token_Bucket
  imports Prelude
begin

text \<open>
  Rate limiting, \<open>core/src/ratelimit/token_bucket.cpp\<close>: a token bucket refilled from a
  monotonic clock, and the limiter that keeps one bucket per key. Token counts are \<open>double\<close>
  in the source and \<open>real\<close> here, with the same expressions (the \<open>1e-9\<close> slack included) and no
  rounding; clock readings are arguments, in nanoseconds.
\<close>

record token_bucket =
  rate :: nat
  burst :: nat
  tokens :: real
  last_refill :: int

definition new_bucket :: "int \<Rightarrow> nat \<Rightarrow> nat \<Rightarrow> token_bucket" where
  "new_bucket now rate_bytes_per_sec burst_bytes =
     \<lparr>rate = rate_bytes_per_sec, burst = burst_bytes, tokens = real burst_bytes, last_refill = now\<rparr>"

definition refill :: "int \<Rightarrow> token_bucket \<Rightarrow> token_bucket" where
  "refill now b =
     (let elapsed_ns = now - last_refill b in
      if elapsed_ns \<le> 0 then b
      else let added = (real (rate b) * real_of_int elapsed_ns) / 10 ^ 9
           in b\<lparr>tokens := min (tokens b + added) (real (burst b)), last_refill := now\<rparr>)"

definition try_consume :: "int \<Rightarrow> nat \<Rightarrow> token_bucket \<Rightarrow> bool \<times> token_bucket" where
  "try_consume now n b =
     (let b = refill now b in
      if tokens b + 1 / 10 ^ 9 < real n then (False, b)
      else (True, b\<lparr>tokens := tokens b - real n\<rparr>))"

record keyed_limiter =
  lim_rate :: nat
  lim_burst :: nat
  buckets :: "bytes \<rightharpoonup> token_bucket"

definition keyed_try_consume :: "int \<Rightarrow> bytes \<Rightarrow> nat \<Rightarrow> keyed_limiter \<Rightarrow> bool \<times> keyed_limiter" where
  "keyed_try_consume now k n l =
     (let b = (case buckets l k of Some b \<Rightarrow> b | None \<Rightarrow> new_bucket now (lim_rate l) (lim_burst l));
          (ok, b') = try_consume now n b
      in (ok, l\<lparr>buckets := (buckets l)(k \<mapsto> b')\<rparr>))"

text \<open>The sweep visits every bucket and reads the clock at each: \<open>now k\<close> is the reading at the
  bucket of \<open>k\<close>.\<close>

definition evict_full :: "(bytes \<Rightarrow> int) \<Rightarrow> keyed_limiter \<Rightarrow> keyed_limiter" where
  "evict_full now l =
     l\<lparr>buckets := (\<lambda>k. case buckets l k of
         None \<Rightarrow> None
       | Some b \<Rightarrow> (let (ok, b') = try_consume (now k) 0 b
                  in if ok \<and> real (lim_burst l) - 1 \<le> tokens b' then None else Some b'))\<rparr>"

subsection \<open>The bucket invariant\<close>

definition bucket_inv :: "token_bucket \<Rightarrow> bool" where
  "bucket_inv b \<longleftrightarrow> - (1 / 10 ^ 9) \<le> tokens b \<and> tokens b \<le> real (burst b)"

lemma refill_frame [simp]: "rate (refill now b) = rate b" "burst (refill now b) = burst b"
  by (simp_all add: refill_def Let_def)

lemma try_consume_frame [simp]:
  "rate (snd (try_consume now n b)) = rate b" "burst (snd (try_consume now n b)) = burst b"
  by (simp_all add: try_consume_def Let_def)

lemma new_bucket_inv [inv_intros]: "bucket_inv (new_bucket now r n)"
  by (simp add: bucket_inv_def new_bucket_def)

lemma refill_tokens:
  assumes "bucket_inv b"
  shows "tokens b \<le> tokens (refill now b)" and "tokens (refill now b) \<le> real (burst b)"
  using assms by (auto simp: refill_def bucket_inv_def Let_def)

lemma refill_inv [inv_intros]: "bucket_inv b \<Longrightarrow> bucket_inv (refill now b)"
  using refill_tokens [of b now] by (simp add: bucket_inv_def)

lemma try_consume_inv [inv_intros]: "bucket_inv b \<Longrightarrow> bucket_inv (snd (try_consume now n b))"
  using refill_inv [of b now] by (auto simp: try_consume_def Let_def bucket_inv_def)


subsection \<open>Runs of a bucket\<close>

fun run_bucket :: "(int \<times> nat) list \<Rightarrow> token_bucket \<Rightarrow> bool list \<times> token_bucket" where
  "run_bucket [] b = ([], b)"
| "run_bucket ((now, n) # ops) b =
     (let (ok, b') = try_consume now n b; (oks, b'') = run_bucket ops b' in (ok # oks, b''))"




subsection \<open>Runs of the limiter\<close>

fun run_limiter :: "(int \<times> bytes \<times> nat) list \<Rightarrow> keyed_limiter \<Rightarrow> bool list \<times> keyed_limiter" where
  "run_limiter [] l = ([], l)"
| "run_limiter ((now, k, n) # ops) l =
     (let (ok, l') = keyed_try_consume now k n l; (oks, l'') = run_limiter ops l' in (ok # oks, l''))"

definition key_ops :: "bytes \<Rightarrow> (int \<times> bytes \<times> nat) list \<Rightarrow> (int \<times> nat) list" where
  "key_ops k ops = map (\<lambda>(now, j, n). (now, n)) (filter (\<lambda>(now, j, n). j = k) ops)"

definition key_results :: "bytes \<Rightarrow> (int \<times> bytes \<times> nat) list \<Rightarrow> bool list \<Rightarrow> bool list" where
  "key_results k ops oks = map snd (filter (\<lambda>((now, j, n), ok). j = k) (zip ops oks))"

lemma run_limiter_isolated:
  assumes "buckets l k = Some b"
  shows "key_results k ops (fst (run_limiter ops l)) = fst (run_bucket (key_ops k ops) b)"
  using assms
proof (induction ops arbitrary: l b)
  case Nil
  show ?case by (simp add: key_results_def key_ops_def)
next
  case (Cons op ops)
  obtain now j n where op: "op = (now, j, n)" by (metis surj_pair)
  show ?case
  proof (cases "j = k")
    case True
    have "buckets (snd (keyed_try_consume now k n l)) k = Some (snd (try_consume now n b))"
      and "fst (keyed_try_consume now k n l) = fst (try_consume now n b)"
      using Cons.prems by (simp_all add: keyed_try_consume_def case_prod_beta)
    with Cons.IH [OF this(1)] True show ?thesis
      by (simp add: op key_results_def key_ops_def case_prod_beta)
  next
    case False
    have "buckets (snd (keyed_try_consume now j n l)) k = Some b"
      using Cons.prems False by (simp add: keyed_try_consume_def case_prod_beta Let_def)
    from Cons.IH [OF this] False show ?thesis
      by (simp add: op key_results_def key_ops_def case_prod_beta)
  qed
qed

subsection \<open>Properties\<close>



text \<open>Key isolation: the verdicts a key gets from the limiter, in any interleaving with
  other keys, are exactly those of a private bucket fed with that key's own attempts.\<close>

theorem limiter_isolation:
  "buckets l k = Some b \<Longrightarrow>
     key_results k ops (fst (run_limiter ops l)) = fst (run_bucket (key_ops k ops) b)"
  by (rule run_limiter_isolated)

theorem limiter_isolation_witness:
  "key_results [1] [(0, [1], 3), (0, [2], 9), (0, [1], 4)]
     (fst (run_limiter [(0, [1], 3), (0, [2], 9), (0, [1], 4)]
        \<lparr>lim_rate = 1, lim_burst = 5, buckets = [[1] \<mapsto> new_bucket 0 1 5]\<rparr>)) =
   fst (run_bucket (key_ops [1] [(0, [1], 3), (0, [2], 9), (0, [1], 4)]) (new_bucket 0 1 5))"
  by (rule limiter_isolation) simp

text \<open>Harmless eviction: dropping a full bucket costs its key nothing. Whatever the kept
  bucket would admit at the next attempt, the fresh bucket that replaces it admits too, and
  the fresh one is more generous only for requests above the burst less one byte.\<close>

theorem evict_full_harmless:
  assumes "buckets l k = Some b" and "buckets (evict_full now l) k = None"
    and inv: "bucket_inv b" and burst: "burst b = lim_burst l"
  shows "(fst (try_consume t n (snd (try_consume (now k) 0 b))) \<longrightarrow>
            fst (keyed_try_consume t k n (evict_full now l))) \<and>
         (fst (keyed_try_consume t k n (evict_full now l)) \<longrightarrow>
            fst (try_consume t n (snd (try_consume (now k) 0 b))) \<or> real (lim_burst l) - 1 < real n)"
proof -
  let ?b = "snd (try_consume (now k) 0 b)"
  have full: "real (lim_burst l) - 1 \<le> tokens ?b"
    using assms(1,2) by (auto simp: evict_full_def case_prod_beta split: if_splits)
  have "bucket_inv ?b" using inv by (rule try_consume_inv)
  note r = refill_tokens [OF this, of t]
  have fresh: "fst (keyed_try_consume t k n (evict_full now l)) \<longleftrightarrow> real n \<le> real (lim_burst l) + 1 / 10 ^ 9"
    using assms(2) by (auto simp: keyed_try_consume_def case_prod_beta try_consume_def Let_def
        new_bucket_def refill_def evict_full_def)
  have kept: "fst (try_consume t n ?b) \<longleftrightarrow> real n \<le> tokens (refill t ?b) + 1 / 10 ^ 9"
    by (auto simp: try_consume_def Let_def)
  show ?thesis unfolding fresh kept using r full burst by auto
qed

theorem evict_full_harmless_witness:
  "let l = \<lparr>lim_rate = 1, lim_burst = 5, buckets = [[1] \<mapsto> new_bucket 0 1 5]\<rparr>
   in buckets (evict_full (\<lambda>k. 0) l) [1] = None \<and>
      (fst (try_consume 0 5 (snd (try_consume 0 0 (new_bucket 0 1 5)))) \<longrightarrow>
         fst (keyed_try_consume 0 [1] 5 (evict_full (\<lambda>k. 0) l)))"
  using evict_full_harmless [of "\<lparr>lim_rate = 1, lim_burst = 5, buckets = [[1] \<mapsto> new_bucket 0 1 5]\<rparr>"
      "[1]" "new_bucket 0 1 5" "\<lambda>k. 0" 0 5] new_bucket_inv [of 0 1 5]
  by (simp add: evict_full_def try_consume_def refill_def new_bucket_def)

end
