(* ===== verification/Sodium.thy ===== *)
theory Sodium
  imports Prelude
begin

text \<open>
  What the program takes from libsodium, as a record of functions that every definition which
  calls the library receives as its argument \<open>lib\<close>, and the program's own wrappers around it:
  \<open>core/src/crypto/aead.cpp\<close> and \<open>core/src/crypto/hkdf.cpp\<close>.

  The predicates \<open>hmac_ok\<close>, \<open>xchacha_ok\<close>, \<open>aes_ok\<close> and \<open>dh_ok\<close> state the documented behaviour
  the program relies on: HMAC-SHA256 tags have 32 bytes, decryption inverts encryption, and
  Diffie-Hellman commutes and
  accepts every generated public key. \<open>toy_sodium\<close> is an executable instance that satisfies them.
\<close>

subsection \<open>The library\<close>

record sodium =
  hmac_sha256 :: "bytes \<Rightarrow> bytes \<Rightarrow> bytes"
  xchacha_enc :: "bytes \<Rightarrow> bytes \<Rightarrow> bytes \<Rightarrow> bytes \<Rightarrow> bytes"
  xchacha_dec :: "bytes \<Rightarrow> bytes \<Rightarrow> bytes \<Rightarrow> bytes \<Rightarrow> bytes option"
  aes_available :: bool
  aes_enc :: "bytes \<Rightarrow> bytes \<Rightarrow> bytes \<Rightarrow> bytes \<Rightarrow> bytes"
  aes_dec :: "bytes \<Rightarrow> bytes \<Rightarrow> bytes \<Rightarrow> bytes \<Rightarrow> bytes option"
  scalarmult_base :: "bytes \<Rightarrow> bytes"
  scalarmult :: "bytes \<Rightarrow> bytes \<Rightarrow> bytes option"

definition hmac_ok :: "sodium \<Rightarrow> bool" where
  "hmac_ok lib \<longleftrightarrow> (\<forall>k m. length (hmac_sha256 lib k m) = 32)"

definition xchacha_ok :: "sodium \<Rightarrow> bool" where
  "xchacha_ok lib \<longleftrightarrow>
     (\<forall>k n p a. length (xchacha_enc lib k n p a) = length p + 16 \<and>
                xchacha_dec lib k n (xchacha_enc lib k n p a) a = Some p)"

definition aes_ok :: "sodium \<Rightarrow> bool" where
  "aes_ok lib \<longleftrightarrow>
     (\<forall>k n p a. length (aes_enc lib k n p a) = length p + 16 \<and>
                aes_dec lib k n (aes_enc lib k n p a) a = Some p)"

definition dh_ok :: "sodium \<Rightarrow> bool" where
  "dh_ok lib \<longleftrightarrow>
     (\<forall>a. length (scalarmult_base lib a) = 32) \<and>
     (\<forall>a b. scalarmult lib a (scalarmult_base lib b) \<noteq> None \<and>
            scalarmult lib a (scalarmult_base lib b) = scalarmult lib b (scalarmult_base lib a))"

lemma hmac_okD: "hmac_ok lib \<Longrightarrow> length (hmac_sha256 lib k m) = 32"
  by (simp add: hmac_ok_def)

subsection \<open>AEAD wrappers\<close>

datatype aead_alg = kAes256Gcm | kXChaCha20Poly1305

datatype aead_error = UnsupportedAlg | HwUnavailable

definition aead_encrypt ::
  "sodium \<Rightarrow> aead_alg \<Rightarrow> bytes \<Rightarrow> bytes \<Rightarrow> bytes \<Rightarrow> bytes \<Rightarrow> aead_error + bytes" where
  "aead_encrypt lib alg key nonce plaintext aad =
     (if alg \<noteq> kAes256Gcm then Inl UnsupportedAlg
      else if \<not> aes_available lib then Inl HwUnavailable
      else Inr (aes_enc lib key nonce plaintext aad))"

definition aead_decrypt ::
  "sodium \<Rightarrow> aead_alg \<Rightarrow> bytes \<Rightarrow> bytes \<Rightarrow> bytes \<Rightarrow> bytes \<Rightarrow> aead_error + bytes option" where
  "aead_decrypt lib alg key nonce ct aad =
     (if alg \<noteq> kAes256Gcm then Inl UnsupportedAlg
      else if \<not> aes_available lib then Inl HwUnavailable
      else if length ct < 16 then Inr None
      else Inr (aes_dec lib key nonce ct aad))"

definition xchacha20_encrypt :: "sodium \<Rightarrow> bytes \<Rightarrow> bytes \<Rightarrow> bytes \<Rightarrow> bytes \<Rightarrow> bytes" where
  "xchacha20_encrypt lib key nonce plaintext aad = xchacha_enc lib key nonce plaintext aad"

definition xchacha20_decrypt :: "sodium \<Rightarrow> bytes \<Rightarrow> bytes \<Rightarrow> bytes \<Rightarrow> bytes \<Rightarrow> bytes option" where
  "xchacha20_decrypt lib key nonce ct aad =
     (if length ct < 16 then None else xchacha_dec lib key nonce ct aad)"

lemma xchacha20_roundtrip:
  "xchacha_ok lib \<Longrightarrow> xchacha20_decrypt lib k n (xchacha20_encrypt lib k n p a) a = Some p"
  by (simp add: xchacha_ok_def xchacha20_encrypt_def xchacha20_decrypt_def)

lemma aead_roundtrip:
  "aes_ok lib \<Longrightarrow> aes_available lib \<Longrightarrow>
     \<exists>c. aead_encrypt lib kAes256Gcm k n p a = Inr c \<and> aead_decrypt lib kAes256Gcm k n c a = Inr (Some p)"
  by (simp add: aes_ok_def aead_encrypt_def aead_decrypt_def)

subsection \<open>HKDF-SHA256\<close>

definition hkdf_extract :: "sodium \<Rightarrow> bytes \<Rightarrow> bytes \<Rightarrow> bytes" where
  "hkdf_extract lib salt ikm = hmac_sha256 lib (if salt = [] then replicate 32 0 else salt) ikm"

text \<open>The loop of \<open>hkdf_expand\<close>: \<open>t\<close> is the previous block, \<open>t_len\<close> how much of it is hashed,
  \<open>counter\<close> an 8-bit value, \<open>okm\<close> what has been written so far (\<open>off\<close> bytes).\<close>

function hkdf_loop :: "sodium \<Rightarrow> bytes \<Rightarrow> bytes \<Rightarrow> nat \<Rightarrow> bytes \<Rightarrow> nat \<Rightarrow> nat \<Rightarrow> byte \<Rightarrow> bytes \<Rightarrow> bytes" where
  "hkdf_loop lib prk info okm_len t t_len off counter okm =
     (if off < okm_len
      then let counter = counter + 1;
               t = hmac_sha256 lib prk ((if 0 < t_len then take t_len t else []) @ info @ [counter]);
               len = min 32 (okm_len - off)
           in hkdf_loop lib prk info okm_len t 32 (off + len) counter (okm @ take len t)
      else okm)"
  by pat_completeness auto
termination
  by (relation "measure (\<lambda>(lib, prk, info, okm_len, t, t_len, off, counter, okm). okm_len - off)") auto

declare hkdf_loop.simps [simp del]

datatype hkdf_error = OkmLenOutOfRange

definition hkdf_expand :: "sodium \<Rightarrow> bytes \<Rightarrow> bytes \<Rightarrow> nat \<Rightarrow> hkdf_error + bytes" where
  "hkdf_expand lib prk info okm_len =
     (if okm_len = 0 \<or> 255 * 32 < okm_len then Inl OkmLenOutOfRange
      else Inr (hkdf_loop lib prk info okm_len (replicate 32 0) 0 0 0 []))"

text \<open>RFC 5869, section 2.3: \<open>T(0)\<close> is empty, \<open>T(i) = HMAC(PRK, T(i-1) | info | i)\<close>, and the output
  is the first \<open>L\<close> bytes of \<open>T(1) | T(2) | ...\<close>.\<close>

fun rfc_T :: "sodium \<Rightarrow> bytes \<Rightarrow> bytes \<Rightarrow> nat \<Rightarrow> bytes" where
  "rfc_T lib prk info 0 = []"
| "rfc_T lib prk info (Suc i) =
     hmac_sha256 lib prk (rfc_T lib prk info i @ info @ [of_nat (Suc i)])"

definition rfc_okm :: "sodium \<Rightarrow> bytes \<Rightarrow> bytes \<Rightarrow> nat \<Rightarrow> bytes" where
  "rfc_okm lib prk info n = concat (map (\<lambda>i. rfc_T lib prk info (Suc i)) [0..<n])"

lemma length_rfc_okm: "hmac_ok lib \<Longrightarrow> length (rfc_okm lib prk info n) = 32 * n"
  by (induction n) (simp_all add: rfc_okm_def hmac_okD)

lemma length_rfc_T: "hmac_ok lib \<Longrightarrow> length (rfc_T lib prk info (Suc i)) = 32"
  by (simp add: hmac_okD)

lemma rfc_okm_Suc: "rfc_okm lib prk info (Suc n) = rfc_okm lib prk info n @ rfc_T lib prk info (Suc n)"
  by (simp add: rfc_okm_def)

lemma rfc_okm_prefix:
  "hmac_ok lib \<Longrightarrow> m \<le> n \<Longrightarrow> take (32 * m) (rfc_okm lib prk info n) = rfc_okm lib prk info m"
proof (induction n)
  case (Suc n)
  then show ?case
    by (cases "m = Suc n") (simp_all add: length_rfc_okm rfc_okm_Suc length_rfc_T del: rfc_T.simps)
qed (simp add: rfc_okm_def)

lemma hkdf_loop_rfc:
  assumes "hmac_ok lib" and "i = 0 \<longrightarrow> t_len = 0" and "0 < i \<longrightarrow> t_len = 32 \<and> t = rfc_T lib prk info i"
    and "off = 32 * i" and "counter = of_nat i" and "okm = rfc_okm lib prk info i" and "okm_len \<le> 32 * n"
  shows "hkdf_loop lib prk info okm_len t t_len off counter okm =
    (if off < okm_len then take okm_len (rfc_okm lib prk info n) else okm)"
  using assms
proof (induction "okm_len - off" arbitrary: i t t_len off counter okm rule: less_induct)
  case less
  let ?T = "rfc_T lib prk info (Suc i)"
  have T32: "length ?T = 32" using less.prems(1) by (simp add: hmac_okD)
  have block: "hmac_sha256 lib prk ((if 0 < t_len then take t_len t else []) @ info @ [counter + 1]) = ?T"
  proof (cases i)
    case 0
    then show ?thesis using less.prems by simp
  next
    case (Suc j)
    then have "length t = 32" "t_len = 32" "t = rfc_T lib prk info i"
      using less.prems by (simp_all add: hmac_okD)
    then show ?thesis using less.prems Suc by (simp add: add.commute)
  qed
  show ?case
  proof (cases "off < okm_len")
    case False
    then show ?thesis by (simp add: hkdf_loop.simps [of lib prk info okm_len t t_len off counter okm])
  next
    case True
    show ?thesis
    proof (cases "okm_len - off \<le> 32")
      case True
      then have len: "min 32 (okm_len - off) = okm_len - off" by simp
      have n: "Suc i \<le> n" using less.prems(4,7) \<open>off < okm_len\<close> by simp
      have "take okm_len (rfc_okm lib prk info n) =
          take okm_len (take (32 * Suc i) (rfc_okm lib prk info n))"
        using True less.prems(4) by (simp add: min_def)
      also have "\<dots> = okm @ take (okm_len - off) ?T"
        using rfc_okm_prefix [OF less.prems(1) n] less.prems(1,4,6) \<open>off < okm_len\<close>
        by (simp add: rfc_okm_Suc length_rfc_okm del: rfc_T.simps)
      finally show ?thesis
        using \<open>off < okm_len\<close> block len
        by (simp add: hkdf_loop.simps [of lib prk info okm_len t t_len off counter okm] Let_def
            hkdf_loop.simps [of lib prk info okm_len ?T 32 okm_len] del: rfc_T.simps)
    next
      case False
      then have len: "min 32 (okm_len - off) = 32" by simp
      have "hkdf_loop lib prk info okm_len t t_len off counter okm =
          hkdf_loop lib prk info okm_len ?T 32 (off + 32) (counter + 1) (okm @ ?T)"
        using \<open>off < okm_len\<close> block len T32
        by (subst hkdf_loop.simps) (simp add: Let_def del: rfc_T.simps)
      also have "\<dots> = (if off + 32 < okm_len then take okm_len (rfc_okm lib prk info n) else okm @ ?T)"
        using less.prems \<open>off < okm_len\<close>
        by (intro less.hyps [of _ "Suc i"]) (simp_all add: rfc_okm_Suc add.commute del: rfc_T.simps)
      finally have eq: "hkdf_loop lib prk info okm_len t t_len off counter okm =
          (if off + 32 < okm_len then take okm_len (rfc_okm lib prk info n) else okm @ ?T)" .
      moreover have "off + 32 < okm_len" using False by simp
      ultimately show ?thesis using \<open>off < okm_len\<close> by simp
    qed
  qed
qed

subsection \<open>An executable instance\<close>

definition toy_tag :: "bytes \<Rightarrow> bytes" where
  "toy_tag k = take 16 (k @ replicate 16 0)"

definition toy_pad :: "bytes \<Rightarrow> bytes" where
  "toy_pad a = take 31 (a @ replicate 31 0)"

definition toy_sodium :: sodium where
  "toy_sodium = \<lparr>
     hmac_sha256 = (\<lambda>k m. take 32 (m @ k @ replicate 32 0)),
     xchacha_enc = (\<lambda>k n p a. p @ toy_tag k),
     xchacha_dec = (\<lambda>k n c a. if drop (length c - 16) c = toy_tag k then Some (take (length c - 16) c) else None),
     aes_available = True,
     aes_enc = (\<lambda>k n p a. p @ toy_tag k),
     aes_dec = (\<lambda>k n c a. if drop (length c - 16) c = toy_tag k then Some (take (length c - 16) c) else None),
     scalarmult_base = (\<lambda>a. 1 # toy_pad a),
     scalarmult = (\<lambda>a b. if b = replicate 32 0 then None
        else Some (1 # map2 (XOR) (toy_pad a) (toy_pad (drop 1 b))))\<rparr>"

lemma length_toy_tag [simp]: "length (toy_tag k) = 16"
  by (simp add: toy_tag_def)

lemma toy_hmac_ok: "hmac_ok toy_sodium"
  by (auto simp: hmac_ok_def toy_sodium_def min_def)

lemma length_toy_pad [simp]: "length (toy_pad a) = 31"
  by (auto simp: toy_pad_def min_def)

lemma toy_pad_pad [simp]: "toy_pad (toy_pad a) = toy_pad a"
  by (simp add: toy_pad_def [of "toy_pad a"])

lemma toy_dh_ok: "dh_ok toy_sodium"
proof -
  have "map2 (XOR) (toy_pad a) (toy_pad b) = map2 (XOR) (toy_pad b) (toy_pad a)" for a b
    by (rule nth_equalityI) (simp_all add: xor.commute)
  moreover have "1 # xs \<noteq> replicate 32 (0 :: byte)" for xs
    by (simp add: numeral_eq_Suc)
  ultimately show ?thesis by (simp add: dh_ok_def toy_sodium_def)
qed

lemma toy_xchacha_ok: "xchacha_ok toy_sodium"
  by (simp add: xchacha_ok_def toy_sodium_def)

lemma toy_aes_ok: "aes_ok toy_sodium"
  by (simp add: aes_ok_def toy_sodium_def)

subsection \<open>Properties\<close>

text \<open>C27. HKDF refines RFC 5869: for every permitted output length the loop, with its 8-bit
  counter and its reused block buffer, returns exactly the first \<open>okm_len\<close> bytes of the
  RFC's \<open>T(1) | ... | T(255)\<close>; the counter never wraps and the output has the requested length.\<close>

theorem hkdf_expand_rfc5869:
  assumes "hmac_ok lib" and "0 < okm_len" and "okm_len \<le> 255 * 32"
  shows "hkdf_expand lib prk info okm_len = Inr (take okm_len (rfc_okm lib prk info 255)) \<and>
    length (take okm_len (rfc_okm lib prk info 255)) = okm_len"
  using assms hkdf_loop_rfc [OF assms(1), of 0 0 "replicate 32 0" prk info 0 0 "[]" okm_len 255]
  by (simp add: hkdf_expand_def length_rfc_okm) (simp add: rfc_okm_def)

theorem hkdf_expand_rfc5869_witness:
  "length (take 64 (rfc_okm toy_sodium [1] [2] 255)) = 64 \<and>
   hkdf_expand toy_sodium [1] [2] 64 = Inr (take 64 (rfc_okm toy_sodium [1] [2] 255))"
  using hkdf_expand_rfc5869 [OF toy_hmac_ok, of 64 "[1]" "[2]"] by simp

lemma hkdf_expand_length:
  assumes "hmac_ok lib" and "hkdf_expand lib prk info n = Inr okm"
  shows "length okm = n"
proof -
  have n: "0 < n" "n \<le> 255 * 32" using assms(2) by (auto simp: hkdf_expand_def split: if_splits)
  then have "hkdf_loop lib prk info n (replicate 32 0) 0 0 0 [] = take n (rfc_okm lib prk info 255)"
    using hkdf_loop_rfc [OF assms(1), of 0 0 "replicate 32 0" prk info 0 0 "[]" n 255]
    by (simp add: rfc_okm_def)
  with n assms show ?thesis by (auto simp: hkdf_expand_def length_rfc_okm)
qed

end
