(* ===== verification/Ordered_Map.thy ===== *)
theory Ordered_Map
  imports Prelude "HOL-Library.List_Lexorder" "HOL-Library.Product_Lexorder"
begin

text \<open>
  \<open>std::map\<close>, which the program uses for its key caches and registries: an association list
  kept strictly sorted by key. Keys are compared as the program compares them: byte arrays
  and strings lexicographically, pairs component by component. The locale \<open>ordered_map\<close>
  states what clients rely on; the interpretation at the end discharges it for the operations
  defined here.
\<close>

type_synonym ('k, 'v) omap = "('k \<times> 'v) list"

definition om_invar :: "('k::linorder, 'v) omap \<Rightarrow> bool" where
  "om_invar m \<longleftrightarrow> sorted_wrt (<) (map fst m)"

definition om_find :: "('k::linorder, 'v) omap \<Rightarrow> 'k \<Rightarrow> 'v option" where
  "om_find m = map_of m"

text \<open>\<open>emplace\<close> leaves an existing entry alone; \<open>operator[]\<close> with assignment overwrites it.\<close>

fun om_emplace :: "'k::linorder \<Rightarrow> 'v \<Rightarrow> ('k, 'v) omap \<Rightarrow> ('k, 'v) omap" where
  "om_emplace k v [] = [(k, v)]"
| "om_emplace k v ((j, w) # m) =
     (if k < j then (k, v) # (j, w) # m
      else if k = j then (j, w) # m
      else (j, w) # om_emplace k v m)"

fun om_assign :: "'k::linorder \<Rightarrow> 'v \<Rightarrow> ('k, 'v) omap \<Rightarrow> ('k, 'v) omap" where
  "om_assign k v [] = [(k, v)]"
| "om_assign k v ((j, w) # m) =
     (if k < j then (k, v) # (j, w) # m
      else if k = j then (k, v) # m
      else (j, w) # om_assign k v m)"

definition om_erase :: "'k::linorder \<Rightarrow> ('k, 'v) omap \<Rightarrow> ('k, 'v) omap" where
  "om_erase k m = filter (\<lambda>(j, w). j \<noteq> k) m"

text \<open>\<open>m.erase(m.begin())\<close> on a non-empty map drops the entry with the least key.\<close>

definition om_erase_begin :: "('k::linorder, 'v) omap \<Rightarrow> ('k, 'v) omap" where
  "om_erase_begin m = tl m"

locale ordered_map =
  fixes invar :: "'m \<Rightarrow> bool"
    and find :: "'m \<Rightarrow> 'k::linorder \<Rightarrow> 'v option"
    and emplace assign :: "'k \<Rightarrow> 'v \<Rightarrow> 'm \<Rightarrow> 'm"
    and erase :: "'k \<Rightarrow> 'm \<Rightarrow> 'm"
    and erase_begin :: "'m \<Rightarrow> 'm"
    and size_of :: "'m \<Rightarrow> nat"
  assumes invar_emplace: "invar m \<Longrightarrow> invar (emplace k v m)"
    and invar_assign: "invar m \<Longrightarrow> invar (assign k v m)"
    and invar_erase: "invar m \<Longrightarrow> invar (erase k m)"
    and invar_erase_begin: "invar m \<Longrightarrow> invar (erase_begin m)"
    and find_emplace: "invar m \<Longrightarrow>
      find (emplace k v m) = (if find m k = None then (find m)(k \<mapsto> v) else find m)"
    and find_assign: "invar m \<Longrightarrow> find (assign k v m) = (find m)(k \<mapsto> v)"
    and find_erase: "invar m \<Longrightarrow> find (erase k m) = (find m)(k := None)"
    and find_erase_begin: "invar m \<Longrightarrow> find m k = Some v \<Longrightarrow>
      find (erase_begin m) k = None \<Longrightarrow> find m j = Some w \<Longrightarrow> k \<le> j"
    and erase_begin_le: "invar m \<Longrightarrow> find (erase_begin m) k = Some v \<Longrightarrow> find m k = Some v"
    and size_of_card: "invar m \<Longrightarrow> size_of m = card (dom (find m)) \<and> finite (dom (find m))"
    and size_erase_begin: "size_of (erase_begin m) = size_of m - 1"
begin

text \<open>Making room before an insertion keeps a bounded cache bounded.\<close>

lemma bounded_emplace:
  assumes "invar m" and "size_of m \<le> n" and "0 < n"
  shows "size_of (emplace k v (if n \<le> size_of m then erase_begin m else m)) \<le> n"
proof -
  let ?m = "if n \<le> size_of m then erase_begin m else m"
  have inv: "invar ?m" using assms(1) by (simp add: invar_erase_begin)
  have "dom (find (emplace k v ?m)) \<subseteq> insert k (dom (find ?m))"
    using find_emplace [OF inv] by (auto split: if_splits)
  then have "card (dom (find (emplace k v ?m))) \<le> card (insert k (dom (find ?m)))"
    using size_of_card [OF inv] by (intro card_mono) auto
  also have "\<dots> \<le> Suc (card (dom (find ?m)))"
    using size_of_card [OF inv] by (simp add: card_insert_if)
  finally have "size_of (emplace k v ?m) \<le> Suc (size_of ?m)"
    using size_of_card [OF inv] size_of_card [OF invar_emplace [OF inv]] by simp
  moreover have "Suc (size_of ?m) \<le> n"
    using assms(2,3) by (auto simp: size_erase_begin)
  ultimately show ?thesis by simp
qed

end

lemma om_invar_Nil [simp]: "om_invar []"
  by (simp add: om_invar_def)

lemma om_invar_Cons: "om_invar ((k, v) # m) \<longleftrightarrow> (\<forall>j\<in>fst ` set m. k < j) \<and> om_invar m"
  by (auto simp: om_invar_def)

lemma fst_om_emplace: "fst ` set (om_emplace k v m) = insert k (fst ` set m)"
  by (induction m rule: om_emplace.induct) force+

lemma fst_om_assign: "fst ` set (om_assign k v m) = insert k (fst ` set m)"
  by (induction k v m rule: om_assign.induct) force+

lemma om_invar_emplace: "om_invar m \<Longrightarrow> om_invar (om_emplace k v m)"
  by (induction k v m rule: om_emplace.induct) (force simp: om_invar_Cons fst_om_emplace)+

lemma om_invar_assign: "om_invar m \<Longrightarrow> om_invar (om_assign k v m)"
  by (induction k v m rule: om_assign.induct) (force simp: om_invar_Cons fst_om_assign)+

lemma om_invar_erase: "om_invar m \<Longrightarrow> om_invar (om_erase k m)"
  by (induction m) (auto simp: om_invar_Cons om_erase_def)

lemma om_find_notin: "j \<notin> fst ` set m \<Longrightarrow> om_find m j = None"
  by (simp add: om_find_def map_of_eq_None_iff)

lemma om_find_emplace:
  "om_invar m \<Longrightarrow>
    om_find (om_emplace k v m) = (if om_find m k = None then (om_find m)(k \<mapsto> v) else om_find m)"
proof (induction k v m rule: om_emplace.induct)
  case (2 k v j w m)
  have "k < j \<Longrightarrow> om_find m k = None"
    using "2.prems" by (intro om_find_notin) (auto simp: om_invar_Cons)
  with 2 show ?case by (auto simp: om_find_def om_invar_Cons fun_eq_iff)
qed (simp add: om_find_def)

lemma om_find_assign: "om_invar m \<Longrightarrow> om_find (om_assign k v m) = (om_find m)(k \<mapsto> v)"
  by (induction k v m rule: om_assign.induct) (auto simp: om_find_def om_invar_Cons fun_eq_iff)

lemma om_find_erase: "om_find (om_erase k m) = (om_find m)(k := None)"
  by (induction m) (auto simp: om_find_def om_erase_def fun_eq_iff)

lemma om_invar_distinct: "om_invar m \<Longrightarrow> distinct (map fst m)"
  by (simp add: om_invar_def strict_sorted_iff)

lemma om_find_erase_begin:
  assumes "om_invar m" "om_find m k = Some v" "om_find (om_erase_begin m) k = None" "om_find m j = Some w"
  shows "k \<le> j"
  using assms
  by (cases m) (force simp: om_find_def om_erase_begin_def om_invar_Cons less_imp_le split: if_splits
      dest!: map_of_SomeD)+

lemma om_invar_erase_begin: "om_invar m \<Longrightarrow> om_invar (om_erase_begin m)"
  by (cases m) (auto simp: om_invar_Cons om_erase_begin_def)

lemma om_erase_begin_le:
  "om_invar m \<Longrightarrow> om_find (om_erase_begin m) k = Some v \<Longrightarrow> om_find m k = Some v"
  by (cases m) (force simp: om_invar_Cons om_erase_begin_def om_find_def dest: map_of_SomeD)+

lemma om_length_card: "om_invar m \<Longrightarrow> length m = card (dom (om_find m)) \<and> finite (dom (om_find m))"
  using distinct_card [of "map fst m"]
  by (simp add: om_find_def dom_map_of_conv_image_fst om_invar_distinct)

interpretation om: ordered_map om_invar om_find om_emplace om_assign om_erase om_erase_begin length
  by unfold_locales
    (blast intro: om_invar_emplace om_invar_assign om_invar_erase om_invar_erase_begin
       om_find_emplace om_find_assign om_find_erase om_find_erase_begin om_erase_begin_le,
     simp add: om_invar_assign, simp add: om_invar_erase, simp add: om_invar_erase_begin,
     simp add: om_find_emplace, simp add: om_find_assign, simp add: om_find_erase,
     rule om_find_erase_begin, assumption+, simp add: om_erase_begin_le,
     rule om_length_card, assumption, simp add: om_erase_begin_def)

lemmas om_laws = om.invar_emplace om.invar_assign om.invar_erase om.invar_erase_begin
  om.find_emplace om.find_assign om.find_erase

lemma om_find_Nil [simp]: "om_find [] = Map.empty"
  by (simp add: om_find_def)

lemma om_invar_filter: "om_invar m \<Longrightarrow> om_invar (filter P m)"
  by (induction m) (auto simp: om_invar_Cons)

end
