(* ===== verification/Ratchet.thy ===== *)
theory Ratchet
  imports Sodium Ordered_Map
begin

text \<open>
  The Double Ratchet of \<open>core/src/crypto/ratchet.cpp\<close>. The state is the source's \<open>State\<close> struct;
  counters are 32-bit words; the skipped-key cache is a \<open>std::map\<close> keyed by (peer key, index).
  Library calls go through \<open>lib\<close>, the serialized \<open>RatchetMessage\<close> through \<open>pb\<close>, and the random
  private key a DH step draws is the argument \<open>rnd\<close>. An exception that leaves a function is the
  outcome \<open>Threw\<close>, paired with the state as the exception left it.
\<close>

subsection \<open>Definitions\<close>

record ratchet_message =
  header_dh_pub :: bytes
  msg_pn :: u32
  msg_n :: u32
  msg_ciphertext :: bytes

record ratchet_state =
  dhs_pub :: bytes
  dhs_priv :: bytes
  dhr_pub :: bytes
  have_dhr :: bool
  rk :: bytes
  cks :: bytes
  ckr :: bytes
  have_cks :: bool
  have_ckr :: bool
  ns :: u32
  nr :: u32
  pn :: u32
  skipped :: "(bytes \<times> u32, bytes) omap"

definition kMaxSkip :: nat where
  "kMaxSkip = 1000"

definition zero32 :: bytes where
  "zero32 = replicate 32 0"

definition ratchet_empty :: ratchet_state where
  "ratchet_empty = \<lparr>dhs_pub = zero32, dhs_priv = zero32, dhr_pub = zero32, have_dhr = False,
     rk = zero32, cks = zero32, ckr = zero32, have_cks = False, have_ckr = False,
     ns = 0, nr = 0, pn = 0, skipped = []\<rparr>"

definition x25519_keypair :: "sodium \<Rightarrow> bytes \<Rightarrow> bytes \<times> bytes" where
  "x25519_keypair lib rnd = (scalarmult_base lib rnd, rnd)"

definition kdf_rk :: "sodium \<Rightarrow> bytes \<Rightarrow> bytes \<Rightarrow> bytes \<times> bytes" where
  "kdf_rk lib key dh_out =
     (let prk = hkdf_extract lib key dh_out
      in case hkdf_expand lib prk (str_bytes ''FinBit-RK'') 64 of
           Inr out \<Rightarrow> (take 32 out, take 32 (drop 32 out))
         | Inl _ \<Rightarrow> ([], []))"

definition kdf_ck :: "sodium \<Rightarrow> bytes \<Rightarrow> bytes \<times> bytes" where
  "kdf_ck lib ck = (hmac_sha256 lib ck [1], hmac_sha256 lib ck [2])"

definition init_alice :: "sodium \<Rightarrow> bytes \<Rightarrow> bytes \<Rightarrow> bytes \<Rightarrow> ratchet_state outcome" where
  "init_alice lib rnd shared_secret peer_dh_pub =
     (let (pub, priv) = x25519_keypair lib rnd
      in case scalarmult lib priv peer_dh_pub of
           None \<Rightarrow> Threw
         | Some dh \<Rightarrow>
             (let (new_rk, new_ck) = kdf_rk lib shared_secret dh
              in Returned (ratchet_empty\<lparr>dhs_pub := pub, dhs_priv := priv, dhr_pub := peer_dh_pub,
                   have_dhr := True, rk := new_rk, cks := new_ck, have_cks := True\<rparr>)))"

definition init_bob :: "bytes \<Rightarrow> bytes \<Rightarrow> bytes \<Rightarrow> ratchet_state" where
  "init_bob shared_secret our_priv our_pub =
     ratchet_empty\<lparr>dhs_pub := our_pub, dhs_priv := our_priv, have_dhr := False,
       rk := shared_secret, have_cks := False, have_ckr := False\<rparr>"

definition compose_aad :: "bytes \<Rightarrow> u32 \<Rightarrow> u32 \<Rightarrow> bytes \<Rightarrow> bytes" where
  "compose_aad dh_pub p n outer = dh_pub @ u32_be p @ u32_be n @ outer"

definition zero_nonce :: bytes where
  "zero_nonce = replicate 24 0"

definition ratchet_encrypt ::
  "sodium \<Rightarrow> ratchet_message pb \<Rightarrow> ratchet_state \<Rightarrow> bytes \<Rightarrow> bytes \<Rightarrow> bytes outcome \<times> ratchet_state" where
  "ratchet_encrypt lib pb s plaintext outer_aad =
     (if \<not> have_cks s then (Threw, s)
      else let (mk, new_cks) = kdf_ck lib (cks s);
               s = s\<lparr>cks := new_cks\<rparr>;
               aad = dhs_pub s @ u32_be (pn s) @ u32_be (ns s) @ outer_aad;
               ct = xchacha20_encrypt lib mk zero_nonce plaintext aad;
               msg = \<lparr>header_dh_pub = dhs_pub s, msg_pn = pn s, msg_n = ns s, msg_ciphertext = ct\<rparr>
           in (Returned (pb_ser pb msg), s\<lparr>ns := ns s + 1\<rparr>))"

function skip_loop :: "sodium \<Rightarrow> u32 \<Rightarrow> ratchet_state \<Rightarrow> ratchet_state" where
  "skip_loop lib until s =
     (if nr s < until
      then let (mk, new_ckr) = kdf_ck lib (ckr s);
               m = (if kMaxSkip \<le> length (skipped s) then om_erase_begin (skipped s) else skipped s)
           in skip_loop lib until
                (s\<lparr>ckr := new_ckr, skipped := om_emplace (dhr_pub s, nr s) mk m, nr := nr s + 1\<rparr>)
      else s)"
  by pat_completeness auto
termination
proof (relation "measure (\<lambda>(lib, until, s). unat until - unat (nr s))", goal_cases)
  case (2 lib until s x mk new_ckr m)
  then show ?case by (simp add: word_less_nat_alt unat_plus_1_less [of "nr s" until])
qed simp

declare skip_loop.simps [simp del]

text \<open>\<open>None\<close>: the skip would exceed \<open>kMaxSkip\<close> and the function throws before changing anything.\<close>

definition skip_message_keys :: "sodium \<Rightarrow> u32 \<Rightarrow> ratchet_state \<Rightarrow> ratchet_state option" where
  "skip_message_keys lib until s =
     (if \<not> have_ckr s then Some s
      else if unat (nr s) + kMaxSkip < unat until then None
      else Some (skip_loop lib until s))"

definition dh_ratchet :: "sodium \<Rightarrow> bytes \<Rightarrow> bytes \<Rightarrow> ratchet_state \<Rightarrow> unit outcome \<times> ratchet_state" where
  "dh_ratchet lib rnd header_dh s =
     (let s = s\<lparr>pn := ns s, ns := 0, nr := 0, dhr_pub := header_dh, have_dhr := True\<rparr>
      in case scalarmult lib (dhs_priv s) (dhr_pub s) of
           None \<Rightarrow> (Threw, s)
         | Some dh \<Rightarrow>
             (let (new_rk, new_ck) = kdf_rk lib (rk s) dh;
                  s = s\<lparr>rk := new_rk, ckr := new_ck, have_ckr := True\<rparr>;
                  (pub, priv) = x25519_keypair lib rnd;
                  s = s\<lparr>dhs_pub := pub, dhs_priv := priv\<rparr>
              in case scalarmult lib (dhs_priv s) (dhr_pub s) of
                   None \<Rightarrow> (Threw, s)
                 | Some dh \<Rightarrow>
                     (let (new_rk, new_ck) = kdf_rk lib (rk s) dh
                      in (Returned (), s\<lparr>rk := new_rk, cks := new_ck, have_cks := True\<rparr>))))"

text \<open>Steps 3 and 4 of \<open>decrypt\<close>: skip within the current receive chain, derive and consume the
  message key, open the ciphertext.\<close>

definition decrypt_in_chain ::
  "sodium \<Rightarrow> ratchet_message \<Rightarrow> bytes \<Rightarrow> ratchet_state \<Rightarrow> bytes option outcome \<times> ratchet_state" where
  "decrypt_in_chain lib msg outer_aad s =
     (case skip_message_keys lib (msg_n msg) s of
        None \<Rightarrow> (Returned None, s)
      | Some s \<Rightarrow>
          (let (mk, new_ckr) = kdf_ck lib (ckr s);
               s = s\<lparr>ckr := new_ckr, nr := nr s + 1\<rparr>;
               aad = compose_aad (header_dh_pub msg) (msg_pn msg) (msg_n msg) outer_aad
           in (Returned (xchacha20_decrypt lib mk zero_nonce (msg_ciphertext msg) aad), s)))"

definition ratchet_decrypt ::
  "sodium \<Rightarrow> ratchet_message pb \<Rightarrow> bytes \<Rightarrow> ratchet_state \<Rightarrow> bytes \<Rightarrow> bytes \<Rightarrow>
     bytes option outcome \<times> ratchet_state" where
  "ratchet_decrypt lib pb rnd s ratchet_msg outer_aad =
     (case pb_parse pb ratchet_msg of
        None \<Rightarrow> (Returned None, s)
      | Some msg \<Rightarrow>
          if length (header_dh_pub msg) \<noteq> 32 then (Returned None, s)
          else let header_dh = header_dh_pub msg in
            case om_find (skipped s) (header_dh, msg_n msg) of
              Some key \<Rightarrow>
                (let aad = compose_aad header_dh (msg_pn msg) (msg_n msg) outer_aad;
                     pt = xchacha20_decrypt lib key zero_nonce (msg_ciphertext msg) aad
                 in (Returned pt,
                     if pt \<noteq> None then s\<lparr>skipped := om_erase (header_dh, msg_n msg) (skipped s)\<rparr> else s))
            | None \<Rightarrow>
                if \<not> have_dhr s \<or> header_dh \<noteq> dhr_pub s
                then (case skip_message_keys lib (msg_pn msg) s of
                        None \<Rightarrow> (Returned None, s)
                      | Some s \<Rightarrow>
                          (case dh_ratchet lib rnd header_dh s of
                             (Threw, s) \<Rightarrow> (Threw, s)
                           | (Returned _, s) \<Rightarrow> decrypt_in_chain lib msg outer_aad s))
                else decrypt_in_chain lib msg outer_aad s)"

text \<open>\<open>try_decrypt\<close> restores its snapshot when \<open>decrypt\<close> returns \<open>nullopt\<close>; an exception passes
  through it.\<close>

definition ratchet_try_decrypt ::
  "sodium \<Rightarrow> ratchet_message pb \<Rightarrow> bytes \<Rightarrow> ratchet_state \<Rightarrow> bytes \<Rightarrow> bytes \<Rightarrow>
     bytes option outcome \<times> ratchet_state" where
  "ratchet_try_decrypt lib pb rnd s ratchet_msg outer_aad =
     (let snapshot = s in
      case ratchet_decrypt lib pb rnd s ratchet_msg outer_aad of
        (Returned None, s') \<Rightarrow> (Returned None, snapshot)
      | (r, s') \<Rightarrow> (r, s'))"

definition header_matches_recv_chain :: "ratchet_message pb \<Rightarrow> ratchet_state \<Rightarrow> bytes \<Rightarrow> bool" where
  "header_matches_recv_chain pb s ratchet_msg =
     (case pb_parse pb ratchet_msg of
        None \<Rightarrow> False
      | Some msg \<Rightarrow>
          if length (header_dh_pub msg) \<noteq> 32 then False
          else if \<not> have_dhr s \<or> \<not> have_ckr s then False
          else if nr s < msg_n msg \<and> kMaxSkip < unat (msg_n msg) - unat (nr s) then False
          else header_dh_pub msg = dhr_pub s)"

subsection \<open>Chains\<close>

text \<open>The \<open>i\<close>-th chain key and message key of a chain that starts at \<open>ck\<close>.\<close>

fun ck_at :: "sodium \<Rightarrow> bytes \<Rightarrow> nat \<Rightarrow> bytes" where
  "ck_at lib ck 0 = ck"
| "ck_at lib ck (Suc i) = snd (kdf_ck lib (ck_at lib ck i))"

definition mk_at :: "sodium \<Rightarrow> bytes \<Rightarrow> nat \<Rightarrow> bytes" where
  "mk_at lib ck i = fst (kdf_ck lib (ck_at lib ck i))"

lemma ck_at_shift: "ck_at lib (snd (kdf_ck lib ck)) i = ck_at lib ck (Suc i)"
  by (induction i) simp_all

lemma kdf_ck_at: "kdf_ck lib (ck_at lib ck i) = (mk_at lib ck i, ck_at lib ck (Suc i))"
  by (simp add: mk_at_def)

text \<open>The message that is number \<open>i\<close> in the chain of sender state \<open>a\<close>.\<close>

definition chain_msg :: "sodium \<Rightarrow> ratchet_state \<Rightarrow> nat \<Rightarrow> bytes \<Rightarrow> bytes \<Rightarrow> ratchet_message" where
  "chain_msg lib a i pt aad =
     \<lparr>header_dh_pub = dhs_pub a, msg_pn = pn a, msg_n = ns a + of_nat i,
      msg_ciphertext = xchacha20_encrypt lib (mk_at lib (cks a) i) zero_nonce pt
        (compose_aad (dhs_pub a) (pn a) (ns a + of_nat i) aad)\<rparr>"

fun encrypt_all ::
  "sodium \<Rightarrow> ratchet_message pb \<Rightarrow> ratchet_state \<Rightarrow> (bytes \<times> bytes) list \<Rightarrow> bytes outcome list" where
  "encrypt_all lib pb a [] = []"
| "encrypt_all lib pb a ((pt, aad) # rest) =
     (let (r, a') = ratchet_encrypt lib pb a pt aad in r # encrypt_all lib pb a' rest)"

lemma ratchet_encrypt_eq:
  "have_cks a \<Longrightarrow> ratchet_encrypt lib pb a pt aad =
     (Returned (pb_ser pb (chain_msg lib a 0 pt aad)), a\<lparr>cks := snd (kdf_ck lib (cks a)), ns := ns a + 1\<rparr>)"
  by (simp add: ratchet_encrypt_def chain_msg_def mk_at_def
      compose_aad_def case_prod_beta Let_def)

lemma chain_msg_step:
  "chain_msg lib (a\<lparr>cks := snd (kdf_ck lib (cks a)), ns := ns a + 1\<rparr>) i pt aad = chain_msg lib a (Suc i) pt aad"
  by (simp add: chain_msg_def mk_at_def ck_at_shift add.assoc)

lemma encrypt_all_eq:
  "have_cks a \<Longrightarrow> encrypt_all lib pb a pts =
     map (\<lambda>i. Returned (pb_ser pb (chain_msg lib a i (fst (pts ! i)) (snd (pts ! i))))) [0..<length pts]"
proof (induction pts arbitrary: a)
  case (Cons p pts)
  have "[0..<length (p # pts)] = 0 # map Suc [0..<length pts]"
    by (simp add: map_Suc_upt upt_conv_Cons del: upt_Suc)
  with Cons show ?case
    by (cases p) (simp add: ratchet_encrypt_eq chain_msg_step comp_def del: upt_Suc)
qed simp

subsection \<open>A receiver following one chain\<close>

text \<open>\<open>follows lib a N b K D\<close>: receiver \<open>b\<close> has advanced \<open>K\<close> steps along the chain that sender
  state \<open>a\<close> starts; of those \<open>K\<close> indices it has opened the ones in \<open>D\<close> and caches the keys of
  the others; \<open>N\<close> bounds the indices in play.\<close>

definition follows :: "sodium \<Rightarrow> ratchet_state \<Rightarrow> nat \<Rightarrow> ratchet_state \<Rightarrow> nat \<Rightarrow> nat set \<Rightarrow> bool" where
  "follows lib a N b K D \<longleftrightarrow>
     have_dhr b \<and> have_ckr b \<and> dhr_pub b = dhs_pub a \<and>
     nr b = ns a + of_nat K \<and> ckr b = ck_at lib (cks a) K \<and>
     om_invar (skipped b) \<and> length (skipped b) + (N - K) \<le> kMaxSkip \<and> K \<le> N \<and>
     (\<forall>i<N. om_find (skipped b) (dhs_pub a, ns a + of_nat i) =
        (if i < K \<and> i \<notin> D then Some (mk_at lib (cks a) i) else None))"

lemma index_eq_iff:
  fixes n :: u32
  assumes "unat n + N < 2 ^ 32" "i < N" "j < N"
  shows "n + of_nat i = n + of_nat j \<longleftrightarrow> i = j"
proof -
  have "unat (n + of_nat i) = unat n + i" "unat (n + of_nat j) = unat n + j"
    using assms by (simp_all add: unat_add_of_nat)
  then show ?thesis by (metis add_left_cancel)
qed

lemma index_less_iff:
  fixes n :: u32
  assumes "unat n + N < 2 ^ 32" "i \<le> N" "j \<le> N"
  shows "n + of_nat i < n + of_nat j \<longleftrightarrow> i < j"
  using assms by (simp add: word_less_nat_alt unat_add_of_nat)

lemma follows_skip_step:
  assumes f: "follows lib a N b K D" and K: "K < N" and n: "unat (ns a) + N < 2 ^ 32"
  shows "follows lib a N
    (b\<lparr>ckr := ck_at lib (cks a) (Suc K),
       skipped := om_emplace (dhr_pub b, nr b) (mk_at lib (cks a) K) (skipped b), nr := nr b + 1\<rparr>)
    (Suc K) (D - {K})"
proof -
  let ?m = "om_emplace (dhr_pub b, nr b) (mk_at lib (cks a) K) (skipped b)"
  have inv: "om_invar (skipped b)" and fresh: "om_find (skipped b) (dhs_pub a, ns a + of_nat K) = None"
    and b: "dhr_pub b = dhs_pub a" "nr b = ns a + of_nat K"
    using f K by (auto simp: follows_def)
  have find: "om_find ?m = (om_find (skipped b))((dhs_pub a, ns a + of_nat K) \<mapsto> mk_at lib (cks a) K)"
    using om.find_emplace [OF inv] fresh b by simp
  have "length ?m \<le> Suc (length (skipped b))"
  proof -
    have "dom (om_find ?m) = insert (dhs_pub a, ns a + of_nat K) (dom (om_find (skipped b)))"
      by (simp add: find)
    then show ?thesis
      using om_length_card [OF inv] om_length_card [OF om.invar_emplace [OF inv]] by (simp add: card_insert_if)
  qed
  then have "length ?m + (N - Suc K) \<le> kMaxSkip" using f K by (auto simp: follows_def)
  moreover have "om_find ?m (dhs_pub a, ns a + of_nat i) =
      (if i < Suc K \<and> i \<notin> D - {K} then Some (mk_at lib (cks a) i) else None)" if i: "i < N" for i
  proof -
    have "om_find (skipped b) (dhs_pub a, ns a + of_nat i) =
        (if i < K \<and> i \<notin> D then Some (mk_at lib (cks a) i) else None)"
      using f i by (simp add: follows_def)
    then show ?thesis
      unfolding find fun_upd_apply prod.inject using index_eq_iff [OF n i K] by auto
  qed
  ultimately show ?thesis
    using f K om.invar_emplace [OF inv] by (simp add: follows_def add.commute add.left_commute)
qed

lemma follows_skip_loop:
  assumes "follows lib a N b K D" and "K \<le> i" and "i < N" and "unat (ns a) + N < 2 ^ 32"
    and "\<forall>d\<in>D. d < K"
  shows "follows lib a N (skip_loop lib (ns a + of_nat i) b) i D"
  using assms
proof (induction "i - K" arbitrary: b K)
  case 0
  then have "K = i" "\<not> nr b < ns a + of_nat i" by (auto simp: follows_def)
  with 0 show ?case by (simp add: skip_loop.simps [of lib _ b])
next
  case (Suc d)
  then have K: "K < i" "K < N" by simp_all
  have b: "nr b < ns a + of_nat i" "kdf_ck lib (ckr b) = (mk_at lib (cks a) K, ck_at lib (cks a) (Suc K))"
    "\<not> kMaxSkip \<le> length (skipped b)"
    using Suc.prems K index_less_iff [OF Suc.prems(4), of K i]
    by (auto simp: follows_def kdf_ck_at simp del: ck_at.simps)
  have D: "D - {K} = D" using Suc.prems(5) by auto
  note step = follows_skip_step [OF Suc.prems(1) K(2) Suc.prems(4), unfolded D]
  have "follows lib a N (skip_loop lib (ns a + of_nat i) (b\<lparr>ckr := ck_at lib (cks a) (Suc K),
       skipped := om_emplace (dhr_pub b, nr b) (mk_at lib (cks a) K) (skipped b), nr := nr b + 1\<rparr>)) i D"
    using Suc.prems Suc.hyps(2) K by (intro Suc.hyps(1) [OF _ step]) (auto intro: less_SucI)
  then show ?case using b by (simp add: skip_loop.simps [of lib _ b] del: ck_at.simps)
qed

lemma follows_consume:
  assumes "follows lib a N b i D" and "i < N"
  shows "follows lib a N (b\<lparr>ckr := ck_at lib (cks a) (Suc i), nr := nr b + 1\<rparr>) (Suc i) (insert i D)"
  using assms by (auto simp: follows_def less_Suc_eq add.commute add.left_commute)

lemma follows_erase:
  assumes f: "follows lib a N b K D" and i: "i < K" and n: "unat (ns a) + N < 2 ^ 32"
  shows "follows lib a N (b\<lparr>skipped := om_erase (dhs_pub a, ns a + of_nat i) (skipped b)\<rparr>) K (insert i D)"
proof -
  have "i < N" using f i by (simp add: follows_def)
  have "length (om_erase (dhs_pub a, ns a + of_nat i) (skipped b)) \<le> length (skipped b)"
    by (simp add: om_erase_def)
  then show ?thesis
    using f index_eq_iff [OF n _ \<open>i < N\<close>] by (auto simp: follows_def om.find_erase om.invar_erase)
qed

text \<open>One delivery: the receiver opens message \<open>i\<close> and keeps following the chain.\<close>

lemma follows_decrypt:
  assumes ok: "xchacha_ok lib" "pb_ok pb" and len: "length (dhs_pub a) = 32"
    and n: "unat (ns a) + N < 2 ^ 32"
    and f: "follows lib a N b K D" and D: "\<forall>d\<in>D. d < K" and i: "i < N" "i \<notin> D"
  shows "\<exists>b' K'. ratchet_decrypt lib pb rnd b (pb_ser pb (chain_msg lib a i pt aad)) aad =
      (Returned (Some pt), b') \<and> follows lib a N b' K' (insert i D) \<and> (\<forall>d\<in>insert i D. d < K')"
proof (cases "i < K")
  case True
  then have "om_find (skipped b) (dhs_pub a, ns a + of_nat i) = Some (mk_at lib (cks a) i)"
    using f i by (simp add: follows_def)
  then have "ratchet_decrypt lib pb rnd b (pb_ser pb (chain_msg lib a i pt aad)) aad =
      (Returned (Some pt), b\<lparr>skipped := om_erase (dhs_pub a, ns a + of_nat i) (skipped b)\<rparr>)"
    using ok len by (simp add: ratchet_decrypt_def pb_okD chain_msg_def xchacha20_roundtrip)
  with follows_erase [OF f True n] True D show ?thesis by auto
next
  case False
  then have K: "K \<le> i" by simp
  have none: "om_find (skipped b) (dhs_pub a, ns a + of_nat i) = None" "have_dhr b" "dhr_pub b = dhs_pub a"
    "have_ckr b" "nr b = ns a + of_nat K" and NK: "N - K \<le> kMaxSkip"
    using f i False by (auto simp: follows_def)
  let ?s = "skip_loop lib (ns a + of_nat i) b"
  have fs: "follows lib a N ?s i D" by (rule follows_skip_loop [OF f K i(1) n D])
  have "unat (ns a + of_nat i) \<le> unat (nr b) + kMaxSkip"
    using NK n i K by (simp add: none(5) unat_add_of_nat)
  then have "skip_message_keys lib (ns a + of_nat i) b = Some ?s"
    using none by (simp add: skip_message_keys_def)
  moreover have "kdf_ck lib (ckr ?s) = (mk_at lib (cks a) i, ck_at lib (cks a) (Suc i))"
    using fs by (simp add: follows_def kdf_ck_at del: ck_at.simps)
  ultimately have "ratchet_decrypt lib pb rnd b (pb_ser pb (chain_msg lib a i pt aad)) aad =
      (Returned (Some pt), ?s\<lparr>ckr := ck_at lib (cks a) (Suc i), nr := nr ?s + 1\<rparr>)"
    using ok len none
    by (simp add: ratchet_decrypt_def pb_okD chain_msg_def decrypt_in_chain_def xchacha20_roundtrip
        del: ck_at.simps)
  moreover have "\<forall>d\<in>insert i D. d < Suc i" using D K by auto
  ultimately show ?thesis using follows_consume [OF fs i(1)] by blast
qed

fun decrypt_all ::
  "sodium \<Rightarrow> ratchet_message pb \<Rightarrow> bytes \<Rightarrow> ratchet_state \<Rightarrow> (bytes \<times> bytes) list \<Rightarrow>
     bytes option outcome list \<times> ratchet_state" where
  "decrypt_all lib pb rnd b [] = ([], b)"
| "decrypt_all lib pb rnd b ((m, aad) # rest) =
     (let (r, b') = ratchet_decrypt lib pb rnd b m aad; (rs, b'') = decrypt_all lib pb rnd b' rest
      in (r # rs, b''))"

lemma follows_decrypt_all:
  assumes "xchacha_ok lib" "pb_ok pb" "length (dhs_pub a) = 32" "unat (ns a) + N < 2 ^ 32"
    and "follows lib a N b K D" "\<forall>d\<in>D. d < K"
    and "distinct is" "set is \<inter> D = {}" "\<forall>i\<in>set is. i < N"
  shows "fst (decrypt_all lib pb rnd b
      (map (\<lambda>i. (pb_ser pb (chain_msg lib a i (fst (pts ! i)) (snd (pts ! i))), snd (pts ! i))) is)) =
    map (\<lambda>i. Returned (Some (fst (pts ! i)))) is"
  using assms(5-9)
proof (induction "is" arbitrary: b K D)
  case (Cons i "is")
  obtain b' K' where b': "ratchet_decrypt lib pb rnd b
        (pb_ser pb (chain_msg lib a i (fst (pts ! i)) (snd (pts ! i)))) (snd (pts ! i)) =
      (Returned (Some (fst (pts ! i))), b')"
    and f: "follows lib a N b' K' (insert i D)" "\<forall>d\<in>insert i D. d < K'"
    using follows_decrypt [OF assms(1-4) Cons.prems(1,2), where i = i and rnd = rnd
        and pt = "fst (pts ! i)" and aad = "snd (pts ! i)"] Cons.prems(4,5) by auto
  show ?case using Cons.IH [OF f] Cons.prems b' by (simp add: case_prod_beta)
qed simp

subsection \<open>Turning the ratchet\<close>

text \<open>\<open>pending lib a b\<close>: sender \<open>a\<close> has started a sending chain that receiver \<open>b\<close> has not seen yet;
  \<open>b\<close> will derive the same chain from its root key by one DH step.\<close>

definition pending :: "sodium \<Rightarrow> ratchet_state \<Rightarrow> ratchet_state \<Rightarrow> bool" where
  "pending lib a b \<longleftrightarrow>
     have_cks a \<and> ns a = 0 \<and> skipped a = [] \<and> skipped b = [] \<and>
     dhs_pub a = scalarmult_base lib (dhs_priv a) \<and> dhs_pub b = scalarmult_base lib (dhs_priv b) \<and>
     have_dhr a \<and> dhr_pub a = dhs_pub b \<and> (have_dhr b \<longrightarrow> dhs_pub a \<noteq> dhr_pub b) \<and>
     (\<exists>dh. scalarmult lib (dhs_priv b) (dhs_pub a) = Some dh \<and> kdf_rk lib (rk b) dh = (rk a, cks a)) \<and>
     (have_ckr b \<longrightarrow> pn a = nr b) \<and> (have_ckr a \<longrightarrow> ns b = nr a)"

lemma dh_okD:
  assumes "dh_ok lib"
  shows "length (scalarmult_base lib a) = 32"
    and "\<exists>d. scalarmult lib a (scalarmult_base lib b) = Some d \<and> scalarmult lib b (scalarmult_base lib a) = Some d"
  using assms by (auto simp: dh_ok_def)

lemma skip_message_keys_nop:
  "\<not> have_ckr s \<or> until \<le> nr s \<Longrightarrow> skip_message_keys lib until s = Some s"
  by (auto simp: skip_message_keys_def skip_loop.simps [of lib until s] word_le_nat_alt word_less_nat_alt)

lemma dh_ratchet_pending:
  assumes dh: "dh_ok lib" and p: "pending lib a b"
  shows "\<exists>r c. dh_ratchet lib rnd (dhs_pub a) b =
      (Returned (), b\<lparr>pn := ns b, ns := 0, nr := 0, dhr_pub := dhs_pub a, have_dhr := True,
         rk := r, ckr := cks a, have_ckr := True, dhs_pub := scalarmult_base lib rnd, dhs_priv := rnd,
         cks := c, have_cks := True\<rparr>) \<and>
    (\<exists>d. scalarmult lib (dhs_priv a) (scalarmult_base lib rnd) = Some d \<and> kdf_rk lib (rk a) d = (r, c))"
proof -
  obtain d1 where d1: "scalarmult lib (dhs_priv b) (dhs_pub a) = Some d1"
      "kdf_rk lib (rk b) d1 = (rk a, cks a)"
    using p by (auto simp: pending_def)
  obtain d2 where d2: "scalarmult lib rnd (dhs_pub a) = Some d2"
      "scalarmult lib (dhs_priv a) (scalarmult_base lib rnd) = Some d2"
    using dh_okD(2) [OF dh, of rnd "dhs_priv a"] p by (auto simp: pending_def)
  obtain r c where rc: "kdf_rk lib (rk a) d2 = (r, c)" by fastforce
  show ?thesis
    by (intro exI [of _ r] exI [of _ c]) (simp add: dh_ratchet_def d1 d2 rc x25519_keypair_def)
qed

lemma pending_turn:
  assumes ok: "xchacha_ok lib" "pb_ok pb" "dh_ok lib" and p: "pending lib a b"
    and fresh: "scalarmult_base lib rnd \<noteq> dhs_pub b"
  shows "\<exists>m a' b'. ratchet_encrypt lib pb a pt aad = (Returned m, a') \<and>
    ratchet_decrypt lib pb rnd b m aad = (Returned (Some pt), b') \<and> pending lib b' a' \<and>
    dhs_pub b' = scalarmult_base lib rnd \<and> dhs_pub a' = dhs_pub a"
proof -
  obtain r c d where t: "dh_ratchet lib rnd (dhs_pub a) b =
      (Returned (), b\<lparr>pn := ns b, ns := 0, nr := 0, dhr_pub := dhs_pub a, have_dhr := True,
         rk := r, ckr := cks a, have_ckr := True, dhs_pub := scalarmult_base lib rnd, dhs_priv := rnd,
         cks := c, have_cks := True\<rparr>)"
    and d: "scalarmult lib (dhs_priv a) (scalarmult_base lib rnd) = Some d" "kdf_rk lib (rk a) d = (r, c)"
    using dh_ratchet_pending [OF ok(3) p, of rnd] by blast
  have a: "have_cks a" "ns a = 0" "length (dhs_pub a) = 32" "skipped b = []"
    "\<not> have_dhr b \<or> dhs_pub a \<noteq> dhr_pub b"
    using p dh_okD(1) [OF ok(3)] by (auto simp: pending_def)
  have skip: "skip_message_keys lib (pn a) b = Some b"
    using p by (intro skip_message_keys_nop) (auto simp: pending_def)
  note defs = ratchet_decrypt_def decrypt_in_chain_def chain_msg_def
  have "ratchet_decrypt lib pb rnd b (pb_ser pb (chain_msg lib a 0 pt aad)) aad =
      (Returned (Some pt), b\<lparr>pn := ns b, ns := 0, nr := 1, dhr_pub := dhs_pub a, have_dhr := True,
         rk := r, ckr := snd (kdf_ck lib (cks a)), have_ckr := True,
         dhs_pub := scalarmult_base lib rnd, dhs_priv := rnd, cks := c, have_cks := True\<rparr>)"
    using a t skip ok by (simp add: defs pb_okD case_prod_beta Let_def mk_at_def skip_message_keys_nop
        xchacha20_roundtrip)
  moreover have "pending lib (b\<lparr>pn := ns b, ns := 0, nr := 1, dhr_pub := dhs_pub a, have_dhr := True,
         rk := r, ckr := snd (kdf_ck lib (cks a)), have_ckr := True,
         dhs_pub := scalarmult_base lib rnd, dhs_priv := rnd, cks := c, have_cks := True\<rparr>)
      (a\<lparr>cks := snd (kdf_ck lib (cks a)), ns := ns a + 1\<rparr>)"
    using p d fresh by (auto simp: pending_def)
  ultimately show ?thesis by (simp add: ratchet_encrypt_eq [OF a(1)])
qed

text \<open>A conversation in strict alternation: each turn one side encrypts, the other opens, drawing
  a fresh DH key, and answers in the next turn.\<close>

fun ping_pong ::
  "sodium \<Rightarrow> ratchet_message pb \<Rightarrow> ratchet_state \<Rightarrow> ratchet_state \<Rightarrow> (bytes \<times> bytes \<times> bytes) list \<Rightarrow>
     bytes option outcome list" where
  "ping_pong lib pb a b [] = []"
| "ping_pong lib pb a b ((pt, aad, rnd) # turns) =
     (case ratchet_encrypt lib pb a pt aad of
        (Threw, a') \<Rightarrow> Threw # ping_pong lib pb b a' turns
      | (Returned m, a') \<Rightarrow>
          (let (r, b') = ratchet_decrypt lib pb rnd b m aad in r # ping_pong lib pb b' a' turns))"

lemma ping_pong_pending:
  assumes "xchacha_ok lib" "pb_ok pb" "dh_ok lib" "pending lib a b"
    and "distinct (dhs_pub a # dhs_pub b # map (\<lambda>(pt, aad, rnd). scalarmult_base lib rnd) turns)"
  shows "ping_pong lib pb a b turns = map (\<lambda>(pt, aad, rnd). Returned (Some pt)) turns"
  using assms(4,5)
proof (induction turns arbitrary: a b)
  case (Cons turn turns)
  obtain pt aad rnd where t: "turn = (pt, aad, rnd)" by (metis surj_pair)
  have "scalarmult_base lib rnd \<noteq> dhs_pub b" using Cons.prems(2) by (auto simp: t)
  then obtain m a' b' where r: "ratchet_encrypt lib pb a pt aad = (Returned m, a')"
      "ratchet_decrypt lib pb rnd b m aad = (Returned (Some pt), b')" "pending lib b' a'"
      "dhs_pub b' = scalarmult_base lib rnd" "dhs_pub a' = dhs_pub a"
    using pending_turn [OF assms(1-3) Cons.prems(1)] by metis
  have "ping_pong lib pb b' a' turns = map (\<lambda>(pt, aad, rnd). Returned (Some pt)) turns"
    using Cons.prems(2) r(4,5) by (intro Cons.IH [OF r(3)]) (auto simp: t)
  with r show ?case by (auto simp: t)
qed simp

lemma init_pending:
  assumes "dh_ok lib" and "init_alice lib rnd sk (scalarmult_base lib priv) = Returned a"
  shows "pending lib a (init_bob sk priv (scalarmult_base lib priv))" and "dhs_pub a = scalarmult_base lib rnd"
  using assms dh_okD(2) [OF assms(1), of rnd priv]
  by (auto simp: init_alice_def init_bob_def pending_def x25519_keypair_def ratchet_empty_def case_prod_beta)

subsection \<open>The cache of skipped keys\<close>

definition ratchet_invar :: "ratchet_state \<Rightarrow> bool" where
  "ratchet_invar s \<longleftrightarrow> om_invar (skipped s) \<and> length (skipped s) \<le> kMaxSkip"

lemma ratchet_invar_skip_loop: "ratchet_invar s \<Longrightarrow> ratchet_invar (skip_loop lib until s)"
proof (induction lib until s rule: skip_loop.induct)
  case (1 lib until s)
  have "ratchet_invar (s\<lparr>ckr := c, skipped := om_emplace (dhr_pub s, nr s) mk
      (if kMaxSkip \<le> length (skipped s) then om_erase_begin (skipped s) else skipped s), nr := n\<rparr>)" for c mk n
    using 1(2) om.bounded_emplace [of "skipped s" kMaxSkip "(dhr_pub s, nr s)" mk]
    by (auto simp: ratchet_invar_def kMaxSkip_def om_laws)
  with 1 show ?case by (subst skip_loop.simps) (simp add: case_prod_beta Let_def)
qed

lemma ratchet_invar_skip:
  "ratchet_invar s \<Longrightarrow> skip_message_keys lib until s = Some s' \<Longrightarrow> ratchet_invar s'"
  by (auto simp: skip_message_keys_def ratchet_invar_skip_loop split: if_splits)

lemma ratchet_invar_dh: "ratchet_invar s \<Longrightarrow> ratchet_invar (snd (dh_ratchet lib rnd h s))"
  by (auto simp: dh_ratchet_def ratchet_invar_def Let_def case_prod_beta split: option.splits)

lemma ratchet_invar_in_chain: "ratchet_invar s \<Longrightarrow> ratchet_invar (snd (decrypt_in_chain lib m aad s))"
  using ratchet_invar_skip [of s lib "msg_n m"]
  by (auto simp: decrypt_in_chain_def ratchet_invar_def Let_def case_prod_beta split: option.splits)

lemma ratchet_invar_decrypt: 
  assumes "ratchet_invar s"
  shows "ratchet_invar (snd (ratchet_decrypt lib pb rnd s w aad))"
proof -
  have "ratchet_invar (s\<lparr>skipped := om_erase k (skipped s)\<rparr>)" for k
    using assms om_laws length_filter_le [of "\<lambda>(j, _). j \<noteq> k" "skipped s"]
    by (auto simp: ratchet_invar_def om_erase_def intro: le_trans [OF length_filter_le])
  moreover have "ratchet_invar (snd (case dh_ratchet lib rnd h t of (Threw, s) \<Rightarrow> (Threw, s)
      | (Returned _, s) \<Rightarrow> decrypt_in_chain lib m aad s))" if "ratchet_invar t" for h t m
    using ratchet_invar_dh [OF that, of lib rnd h]
    by (auto simp: ratchet_invar_in_chain split: prod.splits outcome.splits)
  ultimately show ?thesis
    using assms ratchet_invar_skip [OF assms]
    by (auto simp: ratchet_decrypt_def Let_def ratchet_invar_in_chain split: option.splits)
qed

subsection \<open>An executable instance of the wire format\<close>

definition toy_ratchet_pb :: "ratchet_message pb" where
  "toy_ratchet_pb = \<lparr>
     pb_ser = (\<lambda>m. put_field (header_dh_pub m) @ u32_be (msg_pn m) @ u32_be (msg_n m) @ put_field (msg_ciphertext m)),
     pb_parse = (\<lambda>w. let (h, w) = get_field w; (p, w) = get_u32_field w; (n, w) = get_u32_field w; (c, w) = get_field w
        in Some \<lparr>header_dh_pub = h, msg_pn = p, msg_n = n, msg_ciphertext = c\<rparr>)\<rparr>"

lemma toy_ratchet_pb_ok: "pb_ok toy_ratchet_pb"
  by (simp add: pb_ok_def toy_ratchet_pb_def)

subsection \<open>Properties\<close>

text \<open>C7. Out-of-order delivery: let a sender encrypt any number of messages on one chain (at
  most \<open>kMaxSkip\<close> beyond what the receiver already caches) and let the network deliver any
  selection of them in any order, each once. The receiver opens every delivered message to its
  plaintext: reordering and loss never cost another message.\<close>

theorem ratchet_out_of_order:
  assumes "xchacha_ok lib" and "pb_ok pb" and "length (dhs_pub a) = 32" and "have_cks a"
    and "unat (ns a) + length pts < 2 ^ 32" and "follows lib a (length pts) b 0 {}"
    and "distinct order" and "\<forall>i\<in>set order. i < length pts"
    and "encrypt_all lib pb a pts = map Returned sent"
  shows "fst (decrypt_all lib pb rnd b (map (\<lambda>i. (sent ! i, snd (pts ! i))) order)) =
    map (\<lambda>i. Returned (Some (fst (pts ! i)))) order"
proof -
  have eq: "map Returned sent =
      map (\<lambda>i. Returned (pb_ser pb (chain_msg lib a i (fst (pts ! i)) (snd (pts ! i))))) [0..<length pts]"
    by (rule trans [OF assms(9) [symmetric] encrypt_all_eq [OF assms(4)]])
  have len: "length sent = length pts" using arg_cong [OF eq, of length] by simp
  have "sent ! i = pb_ser pb (chain_msg lib a i (fst (pts ! i)) (snd (pts ! i)))"
    if "i \<in> set order" for i
  proof -
    have "i < length pts" using that assms(8) by blast
    with arg_cong [OF eq, of "\<lambda>l. l ! i"] len show ?thesis by simp
  qed
  then have mapeq: "map (\<lambda>i. (sent ! i, snd (pts ! i))) order =
      map (\<lambda>i. (pb_ser pb (chain_msg lib a i (fst (pts ! i)) (snd (pts ! i))), snd (pts ! i))) order"
    by simp
  show ?thesis
    unfolding mapeq by (rule follows_decrypt_all [OF assms(1,2,3,5,6)]) (use assms(7,8) in auto)
qed

definition demo_sender :: ratchet_state where
  "demo_sender = ratchet_empty\<lparr>have_cks := True\<rparr>"

definition demo_receiver :: ratchet_state where
  "demo_receiver = ratchet_empty\<lparr>have_dhr := True, have_ckr := True\<rparr>"

theorem ratchet_out_of_order_witness:
  "fst (decrypt_all toy_sodium toy_ratchet_pb [] demo_receiver
     [(pb_ser toy_ratchet_pb (chain_msg toy_sodium demo_sender 1 [8] []), []),
      (pb_ser toy_ratchet_pb (chain_msg toy_sodium demo_sender 0 [7] []), [])]) =
   [Returned (Some [8]), Returned (Some [7])]"
proof -
  have cks: "have_cks demo_sender" by (simp add: demo_sender_def)
  have f: "follows toy_sodium demo_sender (length [([7], []), ([8], [])]) demo_receiver 0 {}"
    by (simp add: follows_def demo_sender_def demo_receiver_def ratchet_empty_def kMaxSkip_def)
  have e: "encrypt_all toy_sodium toy_ratchet_pb demo_sender [([7], []), ([8], [])] = map Returned
      [pb_ser toy_ratchet_pb (chain_msg toy_sodium demo_sender 0 [7] []),
       pb_ser toy_ratchet_pb (chain_msg toy_sodium demo_sender 1 [8] [])]"
    unfolding encrypt_all_eq [OF cks] by (simp add: upt_rec)
  have d: "length (dhs_pub demo_sender) = 32" "unat (ns demo_sender) + length [([7], []), ([8], [])] < 2 ^ 32"
    by (simp_all add: demo_sender_def ratchet_empty_def zero32_def)
  show ?thesis
    using ratchet_out_of_order [OF toy_xchacha_ok toy_ratchet_pb_ok d(1) cks d(2) f _ _ e, of "[1, 0]" "[]"]
    by simp
qed

text \<open>C5. A session works in both directions: from the states that \<open>init_alice\<close> and \<open>init_bob\<close>
  create out of one shared secret, a conversation of any length in which the two sides take
  turns opens every message to its plaintext; each turn performs a DH ratchet with a fresh key.
  (The public keys drawn during the conversation are assumed different from one another.)\<close>

theorem ratchet_session:
  assumes "xchacha_ok lib" and "pb_ok pb" and "dh_ok lib"
    and "init_alice lib rnd sk (scalarmult_base lib priv) = Returned a"
    and "distinct (scalarmult_base lib rnd # scalarmult_base lib priv #
           map (\<lambda>(pt, aad, r). scalarmult_base lib r) turns)"
  shows "ping_pong lib pb a (init_bob sk priv (scalarmult_base lib priv)) turns =
    map (\<lambda>(pt, aad, r). Returned (Some pt)) turns"
  using assms init_pending [OF assms(3,4)]
  by (intro ping_pong_pending) (simp_all add: init_bob_def)

theorem ratchet_session_witness:
  "\<exists>a. init_alice toy_sodium [1] [9] (scalarmult_base toy_sodium [2]) = Returned a \<and>
   ping_pong toy_sodium toy_ratchet_pb a (init_bob [9] [2] (scalarmult_base toy_sodium [2]))
     [([7], [], [3]), ([8], [], [4])] = [Returned (Some [7]), Returned (Some [8])]"
proof -
  obtain d where "scalarmult toy_sodium [1] (scalarmult_base toy_sodium [2]) = Some d"
    using dh_okD(2) [OF toy_dh_ok] by blast
  then obtain a where "init_alice toy_sodium [1] [9] (scalarmult_base toy_sodium [2]) = Returned a"
    by (simp add: init_alice_def x25519_keypair_def case_prod_beta)
  then show ?thesis
    using ratchet_session [OF toy_xchacha_ok toy_ratchet_pb_ok toy_dh_ok, of "[1]" "[9]" "[2]" a
        "[([7], [], [3]), ([8], [], [4])]"]
    by (simp add: toy_sodium_def toy_pad_def)
qed

text \<open>C24. The skipped-key cache stays bounded: whatever bytes arrive, in whatever order, the
  cache of a ratchet that starts within the bound is a well-formed map of at most \<open>kMaxSkip\<close> keys.\<close>

theorem ratchet_cache_bounded:
  assumes "ratchet_invar s"
  shows "ratchet_invar (snd (decrypt_all lib pb rnd s msgs))"
  using assms
proof (induction msgs arbitrary: s)
  case (Cons m msgs)
  obtain w aad where "m = (w, aad)" by fastforce
  with Cons.IH [OF ratchet_invar_decrypt [OF Cons.prems]] show ?case by (simp add: case_prod_beta)
qed simp

theorem ratchet_cache_bounded_witness:
  "length (skipped (snd (decrypt_all toy_sodium toy_ratchet_pb [] demo_receiver [([1, 2, 3], []), ([], [])]))) \<le> 1000"
  using ratchet_cache_bounded [of demo_receiver toy_sodium toy_ratchet_pb "[]" "[([1, 2, 3], []), ([], [])]"]
  by (simp add: demo_receiver_def ratchet_empty_def ratchet_invar_def kMaxSkip_def)

text \<open>\<open>try_decrypt\<close> is transactional on every return: if it returns \<open>nullopt\<close> the state is the
  one before the call, and if it returns a plaintext, plaintext and state are those of \<open>decrypt\<close>.\<close>

theorem ratchet_try_decrypt_rollback:
  "(case ratchet_try_decrypt lib pb rnd s w aad of
      (Returned None, s') \<Rightarrow> s' = s \<and> fst (ratchet_decrypt lib pb rnd s w aad) = Returned None
    | (r, s') \<Rightarrow> (r, s') = ratchet_decrypt lib pb rnd s w aad)"
  by (auto simp: ratchet_try_decrypt_def split: prod.splits outcome.splits option.splits)

definition forged_message :: "sodium \<Rightarrow> bytes \<Rightarrow> bytes \<Rightarrow> bytes \<Rightarrow> ratchet_message" where
  "forged_message lib peer_pub pt aad =
     \<lparr>header_dh_pub = peer_pub, msg_pn = 0, msg_n = 0,
      msg_ciphertext = xchacha20_encrypt lib (fst (kdf_ck lib zero32)) zero_nonce pt (compose_aad peer_pub 0 0 aad)\<rparr>"

text \<open>A sender that has not yet received anything accepts forgeries: after \<open>init_alice\<close> the
  receiving chain key is still 32 zero bytes while \<open>have_dhr\<close> is set, and \<open>decrypt\<close> does not test
  \<open>have_ckr\<close>. A message whose header repeats the peer's public prekey, encrypted under the
  first message key of the all-zero chain, therefore opens. Everything it is made from is public.\<close>

theorem ratchet_initial_forgery:
  assumes "xchacha_ok lib" and "pb_ok pb" and "length peer_pub = 32"
    and "init_alice lib rnd sk peer_pub = Returned a"
  shows "fst (ratchet_decrypt lib pb rnd' a (pb_ser pb (forged_message lib peer_pub pt aad)) aad) = Returned (Some pt)"
  using assms
  by (auto simp: init_alice_def ratchet_empty_def x25519_keypair_def ratchet_decrypt_def decrypt_in_chain_def
      forged_message_def pb_okD skip_message_keys_def xchacha20_roundtrip Let_def case_prod_beta
      split: option.splits)

text \<open>A stale message costs a key: when a header names the current chain with an index below
  \<open>nr\<close> whose key is not cached (a replay, for example), \<open>decrypt\<close> still advances the receiving chain
  by one step, whatever the ciphertext and whatever it returns. The key of the next genuine message is dropped.\<close>

theorem ratchet_stale_advances:
  assumes "pb_parse pb w = Some m" and "length (header_dh_pub m) = 32"
    and "have_dhr s" and "header_dh_pub m = dhr_pub s" and "msg_n m < nr s"
    and "om_find (skipped s) (dhr_pub s, msg_n m) = None"
  shows "snd (ratchet_decrypt lib pb rnd s w aad) = s\<lparr>ckr := snd (kdf_ck lib (ckr s)), nr := nr s + 1\<rparr>"
  using assms skip_message_keys_nop [of s "msg_n m" lib]
  by (simp add: ratchet_decrypt_def decrypt_in_chain_def case_prod_beta Let_def order.strict_implies_order)

theorem ratchet_initial_forgery_witness:
  "\<exists>a. init_alice toy_sodium [1] [9] (scalarmult_base toy_sodium [2]) = Returned a \<and>
     fst (ratchet_decrypt toy_sodium toy_ratchet_pb [] a
       (pb_ser toy_ratchet_pb (forged_message toy_sodium (scalarmult_base toy_sodium [2]) [66] [])) []) =
     Returned (Some [66])"
proof -
  obtain d where "scalarmult toy_sodium [1] (scalarmult_base toy_sodium [2]) = Some d"
    using dh_okD(2) [OF toy_dh_ok] by blast
  then obtain a where "init_alice toy_sodium [1] [9] (scalarmult_base toy_sodium [2]) = Returned a"
    by (simp add: init_alice_def x25519_keypair_def case_prod_beta)
  then show ?thesis
    using ratchet_initial_forgery [OF toy_xchacha_ok toy_ratchet_pb_ok dh_okD(1) [OF toy_dh_ok]] by blast
qed

theorem ratchet_stale_advances_witness:
  "nr (snd (ratchet_decrypt toy_sodium toy_ratchet_pb [] (demo_receiver\<lparr>nr := 1\<rparr>)
     (pb_ser toy_ratchet_pb (chain_msg toy_sodium demo_sender 0 [7] [])) [])) = 2"
  using ratchet_stale_advances [OF pb_okD [OF toy_ratchet_pb_ok], of "chain_msg toy_sodium demo_sender 0 [7] []"
      "demo_receiver\<lparr>nr := 1\<rparr>" toy_sodium "[]" "[]"]
  by (simp add: demo_receiver_def demo_sender_def ratchet_empty_def chain_msg_def zero32_def)

end
