(* ===== verification/Sender_Keys.thy ===== *)
theory Sender_Keys
  imports Sodium Ordered_Map
begin

text \<open>
  Group messaging with sender keys, \<open>core/src/crypto/sender_keys.cpp\<close>: every member has a
  sending hash chain and holds one receiving chain (\<open>PerPeerChain\<close>) per other member. The
  session state is the record \<open>group_session\<close>; the operations are \<open>create_own_send_chain\<close>,
  \<open>encrypt\<close>, \<open>install_peer_distribution\<close>, \<open>decrypt\<close>, \<open>remove_peer\<close> and the binary form of the
  state. Random bytes are arguments; a reader with its offset is a parser of the remaining bytes.
\<close>

subsection \<open>Definitions\<close>

record sender_keys_distribution =
  skd_chain_id :: bytes
  skd_chain_seed :: bytes
  skd_start_index :: u32

record sender_keys_message =
  skm_chain_id :: bytes
  skm_index :: u32
  skm_ciphertext :: bytes

record per_peer_chain =
  pc_chain_id :: bytes
  pc_chain_key :: bytes
  pc_next_index :: u32
  pc_skipped :: "(bytes \<times> u32, bytes) omap"

record group_session =
  own_chain_id :: bytes
  own_chain_key :: bytes
  own_next_index :: u32
  have_own_chain :: bool
  peers :: "(bytes, per_peer_chain) omap"

definition gs_kMaxSkip :: nat where
  "gs_kMaxSkip = 1000"

definition group_empty :: group_session where
  "group_empty = \<lparr>own_chain_id = replicate 16 0, own_chain_key = replicate 32 0, own_next_index = 0,
     have_own_chain = False, peers = []\<rparr>"

definition sk_compose_aad :: "bytes \<Rightarrow> u32 \<Rightarrow> bytes \<Rightarrow> bytes" where
  "sk_compose_aad chain_id index outer = chain_id @ u32_be index @ outer"

definition derive_message_key :: "sodium \<Rightarrow> bytes \<Rightarrow> bytes" where
  "derive_message_key lib ck = hmac_sha256 lib ck [0x10]"

definition ratchet_chain_key :: "sodium \<Rightarrow> bytes \<Rightarrow> bytes" where
  "ratchet_chain_key lib ck = hmac_sha256 lib ck [0x11]"

definition create_own_send_chain ::
  "sender_keys_distribution pb \<Rightarrow> bytes \<Rightarrow> bytes \<Rightarrow> group_session \<Rightarrow> bytes \<times> group_session" where
  "create_own_send_chain pbd rnd_id rnd_key s =
     (let s = s\<lparr>own_chain_id := rnd_id, own_chain_key := rnd_key, own_next_index := 0, have_own_chain := True\<rparr>
      in (pb_ser pbd \<lparr>skd_chain_id = own_chain_id s, skd_chain_seed = own_chain_key s, skd_start_index = 0\<rparr>, s))"

definition group_encrypt ::
  "sodium \<Rightarrow> sender_keys_message pb \<Rightarrow> group_session \<Rightarrow> bytes \<Rightarrow> bytes \<Rightarrow> bytes outcome \<times> group_session" where
  "group_encrypt lib pb s plaintext outer_aad =
     (if \<not> have_own_chain s then (Threw, s)
      else let mk = derive_message_key lib (own_chain_key s);
               aad = sk_compose_aad (own_chain_id s) (own_next_index s) outer_aad;
               ct = xchacha20_encrypt lib mk (replicate 24 0) plaintext aad;
               m = \<lparr>skm_chain_id = own_chain_id s, skm_index = own_next_index s, skm_ciphertext = ct\<rparr>
           in (Returned (pb_ser pb m),
               s\<lparr>own_next_index := own_next_index s + 1, own_chain_key := ratchet_chain_key lib (own_chain_key s)\<rparr>))"

definition install_peer_distribution ::
  "sender_keys_distribution pb \<Rightarrow> group_session \<Rightarrow> bytes \<Rightarrow> bytes \<Rightarrow> unit outcome \<times> group_session" where
  "install_peer_distribution pbd s peer_id distribution =
     (case pb_parse pbd distribution of
        None \<Rightarrow> (Threw, s)
      | Some d \<Rightarrow>
          if length (skd_chain_id d) \<noteq> 16 \<or> length (skd_chain_seed d) \<noteq> 32 then (Threw, s)
          else let chain = \<lparr>pc_chain_id = skd_chain_id d, pc_chain_key = skd_chain_seed d,
                            pc_next_index = skd_start_index d, pc_skipped = []\<rparr>
               in (Returned (), s\<lparr>peers := om_assign peer_id chain (peers s)\<rparr>))"

function advance_loop :: "sodium \<Rightarrow> u32 \<Rightarrow> per_peer_chain \<Rightarrow> per_peer_chain" where
  "advance_loop lib target c =
     (if pc_next_index c < target
      then let m = (if gs_kMaxSkip \<le> length (pc_skipped c) then om_erase_begin (pc_skipped c) else pc_skipped c)
           in advance_loop lib target
                (c\<lparr>pc_skipped := om_emplace (pc_chain_id c, pc_next_index c) (derive_message_key lib (pc_chain_key c)) m,
                   pc_chain_key := ratchet_chain_key lib (pc_chain_key c),
                   pc_next_index := pc_next_index c + 1\<rparr>)
      else c)"
  by pat_completeness auto
termination
  by (relation "measure (\<lambda>(lib, target, c). unat target - unat (pc_next_index c))")
    (auto simp: word_less_nat_alt unat_plus_1_less)

declare advance_loop.simps [simp del]

definition advance_chain_to :: "sodium \<Rightarrow> u32 \<Rightarrow> per_peer_chain \<Rightarrow> per_peer_chain option" where
  "advance_chain_to lib target c =
     (if target < pc_next_index c then None
      else if gs_kMaxSkip < unat (target - pc_next_index c) then None
      else Some (advance_loop lib target c))"

definition chain_decrypt ::
  "sodium \<Rightarrow> sender_keys_message \<Rightarrow> bytes \<Rightarrow> per_peer_chain \<Rightarrow> bytes option \<times> per_peer_chain" where
  "chain_decrypt lib m outer_aad chain =
     (if pc_chain_id chain \<noteq> skm_chain_id m then (None, chain)
      else let aad = sk_compose_aad (skm_chain_id m) (skm_index m) outer_aad in
        case om_find (pc_skipped chain) (skm_chain_id m, skm_index m) of
          Some k \<Rightarrow>
            (case xchacha20_decrypt lib k (replicate 24 0) (skm_ciphertext m) aad of
               None \<Rightarrow> (None, chain)
             | Some pt \<Rightarrow> (Some pt, chain\<lparr>pc_skipped := om_erase (skm_chain_id m, skm_index m) (pc_skipped chain)\<rparr>))
        | None \<Rightarrow>
            if skm_index m < pc_next_index chain then (None, chain)
            else case advance_chain_to lib (skm_index m) chain of
                   None \<Rightarrow> (None, chain)
                 | Some chain \<Rightarrow>
                     (case xchacha20_decrypt lib (derive_message_key lib (pc_chain_key chain)) (replicate 24 0)
                             (skm_ciphertext m) aad of
                        None \<Rightarrow> (None, chain)
                      | Some pt \<Rightarrow>
                          (Some pt, chain\<lparr>pc_chain_key := ratchet_chain_key lib (pc_chain_key chain),
                                         pc_next_index := pc_next_index chain + 1\<rparr>)))"

definition group_decrypt ::
  "sodium \<Rightarrow> sender_keys_message pb \<Rightarrow> group_session \<Rightarrow> bytes \<Rightarrow> bytes \<Rightarrow> bytes \<Rightarrow> bytes option \<times> group_session" where
  "group_decrypt lib pb s peer_id sender_keys_msg outer_aad =
     (case pb_parse pb sender_keys_msg of
        None \<Rightarrow> (None, s)
      | Some m \<Rightarrow>
          if length (skm_chain_id m) \<noteq> 16 then (None, s)
          else case om_find (peers s) peer_id of
                 None \<Rightarrow> (None, s)
               | Some chain \<Rightarrow>
                   (let (pt, chain) = chain_decrypt lib m outer_aad chain
                    in (pt, s\<lparr>peers := om_assign peer_id chain (peers s)\<rparr>)))"

definition remove_peer :: "group_session \<Rightarrow> bytes \<Rightarrow> group_session" where
  "remove_peer s peer_id = s\<lparr>peers := om_erase peer_id (peers s)\<rparr>"

definition peer_count :: "group_session \<Rightarrow> nat" where
  "peer_count s = length (peers s)"

definition kStateMagic :: u32 where
  "kStateMagic = 0x46425347"

definition kStateVersion :: u32 where
  "kStateVersion = 1"

fun read_u32_be :: "bytes \<Rightarrow> (u32 \<times> bytes) option" where
  "read_u32_be (a # b # c # d # v) = Some (rd_u32 a b c d, v)"
| "read_u32_be _ = None"

definition put_bytes :: "bytes \<Rightarrow> bytes" where
  "put_bytes b = u32_be (of_nat (length b)) @ b"

definition read_bytes :: "bytes \<Rightarrow> (bytes \<times> bytes) option" where
  "read_bytes v =
     (case read_u32_be v of
        None \<Rightarrow> None
      | Some (n, v) \<Rightarrow> if length v < unat n then None else Some (take (unat n) v, drop (unat n) v))"

definition serialize_peer :: "bytes \<times> per_peer_chain \<Rightarrow> bytes" where
  "serialize_peer p =
     (case p of (peer_id, chain) \<Rightarrow>
        put_bytes peer_id @ pc_chain_id chain @ pc_chain_key chain @ u32_be (pc_next_index chain))"

definition serialize_state :: "group_session \<Rightarrow> bytes" where
  "serialize_state s =
     u32_be kStateMagic @ u32_be kStateVersion @ [if have_own_chain s then 1 else 0] @
     (if have_own_chain s then own_chain_id s @ own_chain_key s @ u32_be (own_next_index s) else []) @
     u32_be (of_nat (length (peers s))) @ concat (map serialize_peer (peers s))"

definition read_chain :: "bytes \<Rightarrow> (bytes \<times> bytes \<times> u32 \<times> bytes) option" where
  "read_chain v =
     (if length v < 16 + 32 + 4 then None
      else case read_u32_be (drop 48 v) of
             None \<Rightarrow> None
           | Some (i, rest) \<Rightarrow> Some (take 16 v, take 32 (drop 16 v), i, rest))"

fun deserialize_peers :: "nat \<Rightarrow> bytes \<Rightarrow> (bytes, per_peer_chain) omap \<Rightarrow> (bytes, per_peer_chain) omap option" where
  "deserialize_peers 0 v m = Some m"
| "deserialize_peers (Suc n) v m =
     (case read_bytes v of
        None \<Rightarrow> None
      | Some (pid, v) \<Rightarrow>
          (case read_chain v of
             None \<Rightarrow> None
           | Some (cid, ck, i, v) \<Rightarrow>
               deserialize_peers n v
                 (om_emplace pid \<lparr>pc_chain_id = cid, pc_chain_key = ck, pc_next_index = i, pc_skipped = []\<rparr> m)))"

definition deserialize_own :: "bytes \<Rightarrow> (group_session \<times> bytes) option" where
  "deserialize_own v =
     (case v of
        [] \<Rightarrow> None
      | b # v \<Rightarrow>
          if b \<noteq> 0
          then (case read_chain v of
                  None \<Rightarrow> None
                | Some (cid, ck, i, v) \<Rightarrow>
                    Some (group_empty\<lparr>own_chain_id := cid, own_chain_key := ck, own_next_index := i,
                                      have_own_chain := True\<rparr>, v))
          else Some (group_empty, v))"

definition deserialize_state :: "bytes \<Rightarrow> group_session option" where
  "deserialize_state blob =
     (case read_u32_be blob of
        None \<Rightarrow> None
      | Some (magic, v) \<Rightarrow>
          if magic \<noteq> kStateMagic then None
          else case read_u32_be v of
                 None \<Rightarrow> None
               | Some (version, v) \<Rightarrow>
                   if version \<noteq> kStateVersion then None
                   else case deserialize_own v of
                          None \<Rightarrow> None
                        | Some (s, v) \<Rightarrow>
                            (case read_u32_be v of
                               None \<Rightarrow> None
                             | Some (n_peers, v) \<Rightarrow>
                                 map_option (\<lambda>m. s\<lparr>peers := m\<rparr>) (deserialize_peers (unat n_peers) v [])))"

subsection \<open>A receiving chain against its sender\<close>

fun sk_ck_at :: "sodium \<Rightarrow> bytes \<Rightarrow> nat \<Rightarrow> bytes" where
  "sk_ck_at lib ck 0 = ck"
| "sk_ck_at lib ck (Suc i) = ratchet_chain_key lib (sk_ck_at lib ck i)"

definition sk_mk_at :: "sodium \<Rightarrow> bytes \<Rightarrow> nat \<Rightarrow> bytes" where
  "sk_mk_at lib ck i = derive_message_key lib (sk_ck_at lib ck i)"

text \<open>\<open>tracks lib cid seed start D c\<close>: chain \<open>c\<close> was installed with identifier \<open>cid\<close>, key \<open>seed\<close> and
  first index \<open>start\<close>, and it accepted the messages with indices in \<open>D\<close>. Its cache holds keys of
  indices it has passed and not accepted, and only right ones; of the last \<open>kMaxSkip\<close> indices it has
  passed it holds all that were not accepted, since room is made by dropping the least index.\<close>

definition tracks :: "sodium \<Rightarrow> bytes \<Rightarrow> bytes \<Rightarrow> u32 \<Rightarrow> u32 set \<Rightarrow> per_peer_chain \<Rightarrow> bool" where
  "tracks lib cid seed start D c \<longleftrightarrow>
     pc_chain_id c = cid \<and> start \<le> pc_next_index c \<and>
     pc_chain_key c = sk_ck_at lib seed (unat (pc_next_index c) - unat start) \<and>
     om_invar (pc_skipped c) \<and> (\<forall>x\<in>D. x < pc_next_index c) \<and>
     (\<forall>j x k. om_find (pc_skipped c) (j, x) = Some k \<longrightarrow>
        j = cid \<and> start \<le> x \<and> x < pc_next_index c \<and> x \<notin> D \<and> k = sk_mk_at lib seed (unat x - unat start)) \<and>
     (\<forall>x. start \<le> x \<longrightarrow> x < pc_next_index c \<longrightarrow> x \<notin> D \<longrightarrow> unat (pc_next_index c) \<le> unat x + gs_kMaxSkip \<longrightarrow>
        om_find (pc_skipped c) (cid, x) \<noteq> None)"

lemma tracks_cached:
  assumes "tracks lib cid seed start D c" and "om_find (pc_skipped c) (j, x) = Some k"
  shows "j = cid \<and> start \<le> x \<and> x < pc_next_index c \<and> x \<notin> D \<and> k = sk_mk_at lib seed (unat x - unat start)"
  using assms unfolding tracks_def by metis

lemma tracks_window:
  assumes "tracks lib cid seed start D c" and "start \<le> x" and "x < pc_next_index c" and "x \<notin> D"
    and "unat (pc_next_index c) \<le> unat x + gs_kMaxSkip"
  shows "om_find (pc_skipped c) (cid, x) = Some (sk_mk_at lib seed (unat x - unat start))"
proof -
  obtain k where "om_find (pc_skipped c) (cid, x) = Some k" using assms unfolding tracks_def by fast
  with tracks_cached [OF assms(1) this] show ?thesis by simp
qed

lemma tracks_not_passed:
  "tracks lib cid seed start D c \<Longrightarrow> pc_next_index c \<le> x \<Longrightarrow> om_find (pc_skipped c) (j, x) = None"
  by (cases "om_find (pc_skipped c) (j, x)") (auto dest: tracks_cached)

lemma tracks_chain_id: "tracks lib cid seed start D c \<Longrightarrow> pc_chain_id c = cid"
  by (simp add: tracks_def)

lemma tracks_fresh:
  "tracks lib cid seed start {} \<lparr>pc_chain_id = cid, pc_chain_key = seed, pc_next_index = start, pc_skipped = []\<rparr>"
  by (auto simp: tracks_def)

lemma next_index_step:
  fixes n :: u32
  assumes "n < t"
  shows "unat (n + 1) = Suc (unat n)" and "x < n + 1 \<longleftrightarrow> x < n \<or> x = n" and "n + 1 \<le> t"
proof -
  show u: "unat (n + 1) = Suc (unat n)" using assms unat_plus_1_less by (simp add: word_less_nat_alt)
  show "x < n + 1 \<longleftrightarrow> x < n \<or> x = n"
    by (auto simp: word_less_nat_alt u less_Suc_eq word_unat_eq_iff)
  show "n + 1 \<le> t" using assms by (simp add: word_less_nat_alt word_le_nat_alt u)
qed

text \<open>The entry that makes room in a full cache is more than \<open>kMaxSkip\<close> behind the next index.\<close>

lemma evicted_old:
  assumes t: "tracks lib cid seed start D c" and full: "gs_kMaxSkip \<le> length (pc_skipped c)"
    and k: "om_find (pc_skipped c) (cid, y) = Some k" "om_find (om_erase_begin (pc_skipped c)) (cid, y) = None"
  shows "unat y + gs_kMaxSkip \<le> unat (pc_next_index c)"
proof -
  let ?f = "\<lambda>n. (cid, word_of_nat n :: u32)"
  have inv: "om_invar (pc_skipped c)" using t by (simp add: tracks_def)
  have "dom (om_find (pc_skipped c)) \<subseteq> ?f ` {unat y..<unat (pc_next_index c)}"
  proof
    fix j assume "j \<in> dom (om_find (pc_skipped c))"
    then obtain i z w where j: "j = (i, z)" "om_find (pc_skipped c) (i, z) = Some w" by (cases j) auto
    have "i = cid" "z < pc_next_index c" using tracks_cached [OF t j(2)] by auto
    moreover have "(cid, y) \<le> (i, z)" using om.find_erase_begin [OF inv k j(2)] .
    ultimately show "j \<in> ?f ` {unat y..<unat (pc_next_index c)}"
      by (intro image_eqI [of _ _ "unat z"]) (auto simp: j less_eq_prod_def word_le_nat_alt word_less_nat_alt)
  qed
  then have "card (dom (om_find (pc_skipped c))) \<le> card {unat y..<unat (pc_next_index c)}"
    by (meson card_image_le card_mono finite_atLeastLessThan finite_imageI le_trans)
  with full om_length_card [OF inv] have "gs_kMaxSkip \<le> unat (pc_next_index c) - unat y" by simp
  moreover have "0 < gs_kMaxSkip" by (simp add: gs_kMaxSkip_def)
  ultimately show ?thesis by linarith
qed

lemma tracks_skip_step:
  assumes t: "tracks lib cid seed start D c" and less: "pc_next_index c < target"
    and m: "m = (if gs_kMaxSkip \<le> length (pc_skipped c) then om_erase_begin (pc_skipped c) else pc_skipped c)"
  shows "tracks lib cid seed start D
    (c\<lparr>pc_skipped := om_emplace (pc_chain_id c, pc_next_index c) (derive_message_key lib (pc_chain_key c)) m,
       pc_chain_key := ratchet_chain_key lib (pc_chain_key c), pc_next_index := pc_next_index c + 1\<rparr>)"
    (is "tracks _ _ _ _ _ ?c'")
proof -
  let ?n = "pc_next_index c"
  note step = next_index_step [OF less]
  have inv: "om_invar (pc_skipped c)" and le: "start \<le> ?n" and cid: "pc_chain_id c = cid"
    and ck: "pc_chain_key c = sk_ck_at lib seed (unat ?n - unat start)" and D: "\<forall>x\<in>D. x < ?n"
    using t by (auto simp: tracks_def)
  have im: "om_invar m" using inv by (simp add: m om.invar_erase_begin)
  have sub: "om_find (pc_skipped c) j = Some k" if "om_find m j = Some k" for j k
    using that om.erase_begin_le [OF inv] by (simp add: m split: if_splits)
  have keep: "om_find m (cid, x) \<noteq> None"
    if "om_find (pc_skipped c) (cid, x) = Some k" "unat ?n < unat x + gs_kMaxSkip" for x k
    using that evicted_old [OF t _ that(1)] by (auto simp: m)
  have fresh: "om_find m (cid, ?n) = None"
    using sub tracks_not_passed [OF t, of ?n cid] by (cases "om_find m (cid, ?n)") auto
  have find: "om_find (pc_skipped ?c') = (om_find m)((cid, ?n) \<mapsto> sk_mk_at lib seed (unat ?n - unat start))"
    using om.find_emplace [OF im] fresh by (simp add: cid ck sk_mk_at_def)
  have "unat (?n + 1) - unat start = Suc (unat ?n - unat start)"
    using le by (simp add: step(1) word_le_nat_alt Suc_diff_le)
  then have "pc_chain_key ?c' = sk_ck_at lib seed (unat (pc_next_index ?c') - unat start)" by (simp add: ck)
  moreover have "start \<le> pc_next_index ?c'" using le by (simp add: word_le_nat_alt step(1))
  moreover have "om_find (pc_skipped ?c') (cid, x) \<noteq> None"
    if "start \<le> x" "x < ?n + 1" "x \<notin> D" "unat (?n + 1) \<le> unat x + gs_kMaxSkip" for x
    using that keep [OF tracks_window [OF t, of x]] by (auto simp: find [simplified] step(1,2))
  ultimately show ?thesis
    unfolding tracks_def find
    using D le om.invar_emplace [OF im] by (auto simp: cid step(2) dest!: sub tracks_cached [OF t] split: if_splits)
qed

lemma tracks_advance:
  assumes "tracks lib cid seed start D c" and "pc_next_index c \<le> target"
  shows "tracks lib cid seed start D (advance_loop lib target c) \<and> pc_next_index (advance_loop lib target c) = target"
  using assms
proof (induction lib target c rule: advance_loop.induct)
  case (1 lib target c)
  show ?case
  proof (cases "pc_next_index c < target")
    case True
    note IH = 1(1) [OF True refl, unfolded Let_def]
    show ?thesis
      using IH [OF tracks_skip_step [OF 1(2) True refl]] next_index_step(3) [OF True] True
      by (subst (1 2) advance_loop.simps) (simp add: Let_def)
  next
    case False
    with 1(2,3) show ?thesis by (subst (1 2) advance_loop.simps) simp
  qed
qed

text \<open>Any message at all, genuine or not, leaves the chain tracking its sender. An accepted
  message has an index that was not accepted before.\<close>

lemma tracks_accept_next:
  assumes t: "tracks lib cid seed start D c" and n: "pc_next_index c < t0"
  shows "tracks lib cid seed start (insert (pc_next_index c) D)
    (c\<lparr>pc_chain_key := ratchet_chain_key lib (pc_chain_key c), pc_next_index := pc_next_index c + 1\<rparr>)"
proof -
  note step = next_index_step [OF n]
  have le: "start \<le> pc_next_index c" using t by (simp add: tracks_def)
  have "unat (pc_next_index c + 1) - unat start = Suc (unat (pc_next_index c) - unat start)"
    "start \<le> pc_next_index c + 1"
    using le by (simp_all add: step(1) word_le_nat_alt Suc_diff_le)
  then show ?thesis using t by (auto simp: tracks_def step(1,2))
qed

lemma tracks_accept_skipped:
  assumes t: "tracks lib cid seed start D c" and k: "om_find (pc_skipped c) (cid, x) = Some k"
  shows "tracks lib cid seed start (insert x D) (c\<lparr>pc_skipped := om_erase (cid, x) (pc_skipped c)\<rparr>)"
  using t tracks_cached [OF t k] om.find_erase [of "pc_skipped c"] om.invar_erase [of "pc_skipped c"]
  by (auto simp: tracks_def)

lemma tracks_chain_decrypt:
  assumes t: "tracks lib cid seed start D c"
    and bound: "skm_chain_id m = cid \<Longrightarrow> skm_index m \<noteq> - 1"
    and r: "chain_decrypt lib m aad c = (r, c')"
  shows "case r of None \<Rightarrow> tracks lib cid seed start D c'
    | Some pt \<Rightarrow> skm_index m \<notin> D \<and> skm_chain_id m = cid \<and> tracks lib cid seed start (insert (skm_index m) D) c'"
proof (cases "skm_chain_id m = cid \<and> om_find (pc_skipped c) (cid, skm_index m) = None \<and> pc_next_index c \<le> skm_index m")
  case True
  let ?c = "advance_loop lib (skm_index m) c"
  have a: "tracks lib cid seed start D ?c" "pc_next_index ?c = skm_index m"
    using tracks_advance [OF t] True by auto
  have "skm_index m < - 1" using bound True by (simp add: order_less_le)
  with tracks_accept_next [OF a(1)] a(2) have "tracks lib cid seed start (insert (skm_index m) D)
      (?c\<lparr>pc_chain_key := ratchet_chain_key lib (pc_chain_key ?c), pc_next_index := pc_next_index ?c + 1\<rparr>)"
    by simp
  moreover have "skm_index m \<notin> D" using a by (auto simp: tracks_def)
  ultimately show ?thesis
    using r a True t tracks_chain_id [OF t]
    by (auto simp: chain_decrypt_def advance_chain_to_def Let_def split: option.splits if_splits)
next
  case False
  show ?thesis
  proof (cases "skm_chain_id m = cid \<and> om_find (pc_skipped c) (cid, skm_index m) \<noteq> None")
    case hit: True
    then obtain k where k: "om_find (pc_skipped c) (cid, skm_index m) = Some k" by blast
    show ?thesis
      using r t hit k tracks_chain_id [OF t] tracks_accept_skipped [OF t k] tracks_cached [OF t k]
      by (auto simp: chain_decrypt_def Let_def split: option.splits)
  next
    case miss: False
    then have "r = None \<and> c' = c"
      using r t False by (auto simp: chain_decrypt_def Let_def tracks_def split: if_splits option.splits)
    with t show ?thesis by simp
  qed
qed

text \<open>The genuine message with index \<open>x\<close> of a chain, and that it opens when it was not accepted
  before and the receiver is within \<open>kMaxSkip\<close> of it, ahead or behind.\<close>

definition genuine_message :: "sodium \<Rightarrow> bytes \<Rightarrow> bytes \<Rightarrow> u32 \<Rightarrow> u32 \<Rightarrow> bytes \<Rightarrow> bytes \<Rightarrow> sender_keys_message" where
  "genuine_message lib cid seed start x pt aad =
     \<lparr>skm_chain_id = cid, skm_index = x,
      skm_ciphertext = xchacha20_encrypt lib (sk_mk_at lib seed (unat x - unat start)) (replicate 24 0) pt
        (sk_compose_aad cid x aad)\<rparr>"

lemma tracks_genuine:
  assumes ok: "xchacha_ok lib" and t: "tracks lib cid seed start D c" and x: "start \<le> x" "x \<notin> D"
    and ahead: "unat x \<le> unat (pc_next_index c) + gs_kMaxSkip"
    and behind: "unat (pc_next_index c) \<le> unat x + gs_kMaxSkip"
  shows "fst (chain_decrypt lib (genuine_message lib cid seed start x pt aad) aad c) = Some pt"
proof (cases "x < pc_next_index c")
  case True
  from tracks_window [OF t x(1) True x(2) behind] show ?thesis
    by (simp add: chain_decrypt_def genuine_message_def xchacha20_roundtrip [OF ok] tracks_chain_id [OF t])
next
  case False
  then have le: "pc_next_index c \<le> x" by simp
  have "unat (x - pc_next_index c) \<le> gs_kMaxSkip"
    using ahead le by (auto simp: unat_sub word_le_nat_alt)
  then have "advance_chain_to lib x c = Some (advance_loop lib x c)"
    using le by (simp add: advance_chain_to_def)
  moreover have "derive_message_key lib (pc_chain_key (advance_loop lib x c)) = sk_mk_at lib seed (unat x - unat start)"
    using tracks_advance [OF t le] by (auto simp: tracks_def sk_mk_at_def)
  ultimately show ?thesis
    using False
    by (simp add: chain_decrypt_def genuine_message_def xchacha20_roundtrip [OF ok] tracks_not_passed [OF t le]
        tracks_chain_id [OF t])
qed

subsection \<open>A session in operation\<close>

datatype group_event =
    Create_Own bytes bytes
  | Encrypt_Own bytes bytes
  | Install bytes bytes
  | Receive bytes bytes bytes
  | Remove bytes

definition group_step ::
  "sodium \<Rightarrow> sender_keys_message pb \<Rightarrow> sender_keys_distribution pb \<Rightarrow> group_session \<Rightarrow> group_event \<Rightarrow> group_session" where
  "group_step lib pb pbd s e =
     (case e of
        Create_Own i k \<Rightarrow> snd (create_own_send_chain pbd i k s)
      | Encrypt_Own pt aad \<Rightarrow> snd (group_encrypt lib pb s pt aad)
      | Install p d \<Rightarrow> snd (install_peer_distribution pbd s p d)
      | Receive p w aad \<Rightarrow> snd (group_decrypt lib pb s p w aad)
      | Remove p \<Rightarrow> remove_peer s p)"

text \<open>The index of the message that an event makes the session accept from peer \<open>p\<close>, if any.\<close>

definition accepts ::
  "sodium \<Rightarrow> sender_keys_message pb \<Rightarrow> bytes \<Rightarrow> group_session \<Rightarrow> group_event \<Rightarrow> u32 list" where
  "accepts lib pb p s e =
     (case e of
        Receive q w aad \<Rightarrow>
          (case (pb_parse pb w, fst (group_decrypt lib pb s q w aad)) of
             (Some m, Some pt) \<Rightarrow> if q = p then [skm_index m] else []
           | _ \<Rightarrow> [])
      | _ \<Rightarrow> [])"

fun accepted ::
  "sodium \<Rightarrow> sender_keys_message pb \<Rightarrow> sender_keys_distribution pb \<Rightarrow> bytes \<Rightarrow> group_session \<Rightarrow>
     group_event list \<Rightarrow> u32 list" where
  "accepted lib pb pbd p s [] = []"
| "accepted lib pb pbd p s (e # es) = accepts lib pb p s e @ accepted lib pb pbd p (group_step lib pb pbd s e) es"

text \<open>An event that neither replaces nor removes the chain of \<open>p\<close>, and does not claim the last
  32-bit index of it, after which the index would wrap.\<close>

fun keeps_chain :: "sender_keys_message pb \<Rightarrow> bytes \<Rightarrow> bytes \<Rightarrow> group_event \<Rightarrow> bool" where
  "keeps_chain pb p cid (Install q d) = (q \<noteq> p)"
| "keeps_chain pb p cid (Remove q) = (q \<noteq> p)"
| "keeps_chain pb p cid (Receive q w aad) =
     (case pb_parse pb w of
        None \<Rightarrow> True
      | Some m \<Rightarrow> q = p \<longrightarrow> skm_chain_id m = cid \<longrightarrow> skm_index m \<noteq> - 1)"
| "keeps_chain pb p cid _ = True"

text \<open>How far the session is on the chain of \<open>p\<close>.\<close>

definition chain_position :: "group_session \<Rightarrow> bytes \<Rightarrow> nat" where
  "chain_position s p = (case om_find (peers s) p of None \<Rightarrow> 0 | Some c \<Rightarrow> unat (pc_next_index c))"

definition session_tracks ::
  "sodium \<Rightarrow> bytes \<Rightarrow> bytes \<Rightarrow> bytes \<Rightarrow> u32 \<Rightarrow> u32 set \<Rightarrow> group_session \<Rightarrow> bool" where
  "session_tracks lib p cid seed start D s \<longleftrightarrow>
     om_invar (peers s) \<and> (\<exists>c. om_find (peers s) p = Some c \<and> tracks lib cid seed start D c)"

lemma session_tracks_receive:
  assumes "session_tracks lib p cid seed start D s" and "keeps_chain pb p cid (Receive q w aad)"
  shows "session_tracks lib p cid seed start (D \<union> set (accepts lib pb p s (Receive q w aad)))
      (snd (group_decrypt lib pb s q w aad)) \<and>
    distinct (accepts lib pb p s (Receive q w aad)) \<and> D \<inter> set (accepts lib pb p s (Receive q w aad)) = {}"
proof -
  obtain c where inv: "om_invar (peers s)" and c: "om_find (peers s) p = Some c" "tracks lib cid seed start D c"
    using assms(1) by (auto simp: session_tracks_def)
  show ?thesis
  proof (cases "q = p")
    case True
    show ?thesis
    proof (cases "pb_parse pb w")
      case None
      with assms(1) show ?thesis by (simp add: group_decrypt_def accepts_def)
    next
      case (Some m)
      obtain r c' where d: "chain_decrypt lib m aad c = (r, c')" by fastforce
      have "case r of None \<Rightarrow> tracks lib cid seed start D c'
        | Some pt \<Rightarrow> skm_index m \<notin> D \<and> skm_chain_id m = cid \<and> tracks lib cid seed start (insert (skm_index m) D) c'"
        using assms(2) Some True by (intro tracks_chain_decrypt [OF c(2) _ d]) simp
      with d c inv Some True assms(1) show ?thesis
        by (auto simp: group_decrypt_def accepts_def session_tracks_def om.find_assign om.invar_assign
            split: option.splits)
    qed
  next
    case False
    with c inv show ?thesis
      by (auto simp: group_decrypt_def accepts_def session_tracks_def om.find_assign om.invar_assign case_prod_beta
          split: option.splits)
  qed
qed

lemma session_tracks_step:
  assumes "session_tracks lib p cid seed start D s" and "keeps_chain pb p cid e"
  shows "session_tracks lib p cid seed start (D \<union> set (accepts lib pb p s e)) (group_step lib pb pbd s e) \<and>
    distinct (accepts lib pb p s e) \<and> D \<inter> set (accepts lib pb p s e) = {}"
proof (cases e)
  case (Receive q w aad)
  with session_tracks_receive assms show ?thesis by (simp add: group_step_def)
qed (use assms in \<open>auto simp: group_step_def accepts_def session_tracks_def create_own_send_chain_def
    group_encrypt_def install_peer_distribution_def remove_peer_def om.find_assign om.invar_assign
    om.find_erase om.invar_erase Let_def split: option.splits\<close>)

lemma session_tracks_run:
  assumes "session_tracks lib p cid seed start D s" and "\<forall>e\<in>set es. keeps_chain pb p cid e"
  shows "session_tracks lib p cid seed start (D \<union> set (accepted lib pb pbd p s es)) (foldl (group_step lib pb pbd) s es) \<and>
    distinct (accepted lib pb pbd p s es) \<and> D \<inter> set (accepted lib pb pbd p s es) = {}"
  using assms
proof (induction es arbitrary: s D)
  case (Cons e es)
  note step = session_tracks_step [OF Cons.prems(1), of pb e pbd]
  with Cons.IH [of "D \<union> set (accepts lib pb p s e)" "group_step lib pb pbd s e"] Cons.prems(2)
  show ?case by (auto simp: Un_assoc)
qed simp

subsection \<open>The binary form of the state\<close>

definition chain_sized :: "per_peer_chain \<Rightarrow> bool" where
  "chain_sized c \<longleftrightarrow> length (pc_chain_id c) = 16 \<and> length (pc_chain_key c) = 32"

text \<open>The sizes that the C++ array types and the 32-bit length fields enforce.\<close>

definition group_sized :: "group_session \<Rightarrow> bool" where
  "group_sized s \<longleftrightarrow>
     length (own_chain_id s) = 16 \<and> length (own_chain_key s) = 32 \<and> om_invar (peers s) \<and>
     length (peers s) < 2 ^ 32 \<and>
     (\<forall>(p, c)\<in>set (peers s). length p < 2 ^ 32 \<and> chain_sized c)"

definition forget_skipped :: "group_session \<Rightarrow> group_session" where
  "forget_skipped s =
     (if have_own_chain s then s else s\<lparr>own_chain_id := replicate 16 0, own_chain_key := replicate 32 0, own_next_index := 0\<rparr>)
       \<lparr>peers := map (\<lambda>(p, c). (p, c\<lparr>pc_skipped := []\<rparr>)) (peers s)\<rparr>"

lemma read_u32_be_put [simp]: "read_u32_be (u32_be x @ v) = Some (x, v)"
  by (rule u32_be_cases [of x]) simp

lemma read_bytes_put [simp]: "length b < 2 ^ 32 \<Longrightarrow> read_bytes (put_bytes b @ v) = Some (b, v)"
  by (simp add: read_bytes_def put_bytes_def unat_of_nat)

lemma serialize_state_not_Nil [simp]: "serialize_state s \<noteq> []"
  by (simp add: serialize_state_def)

lemma read_chain_put [simp]:
  "length cid = 16 \<Longrightarrow> length ck = 32 \<Longrightarrow> read_chain (cid @ ck @ u32_be i @ v) = Some (cid, ck, i, v)"
  by (simp add: read_chain_def)

lemma om_emplace_last:
  "om_invar (m @ [(k, v)]) \<Longrightarrow> om_emplace k v m = m @ [(k, v)]"
  by (induction k v m rule: om_emplace.induct) (auto simp: om_invar_Cons)

lemma om_invar_appendD: "om_invar (m @ m') \<Longrightarrow> om_invar m"
  by (induction m) (auto simp: om_invar_Cons)

lemma om_invar_map: "om_invar (map (\<lambda>(p, c). (p, f c)) m) = om_invar m"
  by (simp add: om_invar_def comp_def case_prod_beta)

lemma deserialize_peers_put:
  assumes "\<forall>(p, c)\<in>set ps. length p < 2 ^ 32 \<and> chain_sized c"
    and "om_invar (m @ map (\<lambda>(p, c). (p, c\<lparr>pc_skipped := []\<rparr>)) ps)"
  shows "deserialize_peers (length ps) (concat (map serialize_peer ps) @ v) m =
    Some (m @ map (\<lambda>(p, c). (p, c\<lparr>pc_skipped := []\<rparr>)) ps)"
  using assms
proof (induction ps arbitrary: m)
  case (Cons q ps)
  obtain p cid ck i sk where q: "q = (p, \<lparr>pc_chain_id = cid, pc_chain_key = ck, pc_next_index = i, pc_skipped = sk\<rparr>)"
    by (metis per_peer_chain.cases surj_pair)
  let ?e = "(p, \<lparr>pc_chain_id = cid, pc_chain_key = ck, pc_next_index = i, pc_skipped = []\<rparr>)"
  have "om_invar (m @ [?e])"
    using om_invar_appendD [of "m @ [?e]"] Cons.prems(2) by (simp add: q)
  then have "om_emplace p (snd ?e) m = m @ [?e]" by (simp add: om_emplace_last)
  then show ?case
    using Cons.IH [of "m @ [?e]"] Cons.prems by (simp add: q serialize_peer_def chain_sized_def)
qed simp

lemma deserialize_own_put:
  assumes "length (own_chain_id s) = 16" and "length (own_chain_key s) = 32"
  shows "deserialize_own ([if have_own_chain s then 1 else 0] @
      (if have_own_chain s then own_chain_id s @ own_chain_key s @ u32_be (own_next_index s) else []) @ v) =
    Some ((forget_skipped s)\<lparr>peers := []\<rparr>, v)"
  using assms by (cases s) (simp add: deserialize_own_def forget_skipped_def group_empty_def)

subsection \<open>Executable instances of the wire formats\<close>

definition toy_skm_pb :: "sender_keys_message pb" where
  "toy_skm_pb = \<lparr>
     pb_ser = (\<lambda>m. put_field (skm_chain_id m) @ u32_be (skm_index m) @ put_field (skm_ciphertext m)),
     pb_parse = (\<lambda>w. let (h, w) = get_field w; (n, w) = get_u32_field w; (c, w) = get_field w
        in Some \<lparr>skm_chain_id = h, skm_index = n, skm_ciphertext = c\<rparr>)\<rparr>"

definition toy_skd_pb :: "sender_keys_distribution pb" where
  "toy_skd_pb = \<lparr>
     pb_ser = (\<lambda>d. put_field (skd_chain_id d) @ put_field (skd_chain_seed d) @ u32_be (skd_start_index d)),
     pb_parse = (\<lambda>w. let (h, w) = get_field w; (c, w) = get_field w; (n, w) = get_u32_field (w @ [])
        in Some \<lparr>skd_chain_id = h, skd_chain_seed = c, skd_start_index = n\<rparr>)\<rparr>"

lemma toy_skm_pb_ok: "pb_ok toy_skm_pb"
  by (simp add: pb_ok_def toy_skm_pb_def)

lemma toy_skd_pb_ok: "pb_ok toy_skd_pb"
  using get_u32_field_be [where rest = "[]"] by (simp add: pb_ok_def toy_skd_pb_def)

lemma install_tracks:
  assumes "pb_ok pbd" "om_invar (peers s)" "length (skd_chain_id d) = 16" "length (skd_chain_seed d) = 32"
  shows "session_tracks lib p (skd_chain_id d) (skd_chain_seed d) (skd_start_index d) {}
    (snd (install_peer_distribution pbd s p (pb_ser pbd d)))"
  using assms tracks_fresh [of lib "skd_chain_id d" "skd_chain_seed d" "skd_start_index d"]
  by (simp add: install_peer_distribution_def pb_okD session_tracks_def om.find_assign om.invar_assign)

subsection \<open>Properties\<close>

text \<open>C23. Group messages survive reordering, loss and forgery: after the distribution of a member
  is installed, let any events happen in the session (arbitrary, also forged, messages from anybody,
  own messages, other members joining and leaving) that neither install a distribution for that
  member again nor remove it, and claim no index \<open>2^32 - 1\<close> on its chain. Then every genuine message
  of the member whose index was not accepted before opens to its plaintext, provided the receiver is
  then at most \<open>kMaxSkip\<close> indices before or behind it. The chain may have moved on by any distance since the
  installation, and the cache of skipped keys may have overflowed any number of times.\<close>

theorem group_genuine_opens:
  assumes "xchacha_ok lib" and "pb_ok pb" and "pb_ok pbd" and "om_invar (peers s)"
    and "length (skd_chain_id d) = 16" and "length (skd_chain_seed d) = 32"
    and "snd (install_peer_distribution pbd s p (pb_ser pbd d)) = s0"
    and "\<forall>e\<in>set es. keeps_chain pb p (skd_chain_id d) e"
    and "foldl (group_step lib pb pbd) s0 es = s1"
    and "skd_start_index d \<le> x" and "x \<notin> set (accepted lib pb pbd p s0 es)"
    and "unat x \<le> chain_position s1 p + gs_kMaxSkip" and "chain_position s1 p \<le> unat x + gs_kMaxSkip"
  shows "fst (group_decrypt lib pb s1 p
      (pb_ser pb (genuine_message lib (skd_chain_id d) (skd_chain_seed d) (skd_start_index d) x pt aad)) aad) = Some pt"
proof -
  have "session_tracks lib p (skd_chain_id d) (skd_chain_seed d) (skd_start_index d) {} s0"
    using install_tracks [OF assms(3-6)] assms(7) by blast
  from session_tracks_run [OF this assms(8), where pbd = pbd] assms(9)
  obtain c where "om_find (peers s1) p = Some c"
    and "tracks lib (skd_chain_id d) (skd_chain_seed d) (skd_start_index d) (set (accepted lib pb pbd p s0 es)) c"
    by (auto simp: session_tracks_def)
  with tracks_genuine [OF assms(1) this(2) assms(10,11)] assms(5,12,13) show ?thesis
    by (simp add: group_decrypt_def pb_okD [OF assms(2)] case_prod_beta genuine_message_def chain_position_def)
qed

text \<open>C15. Replay rejection: from the installation of the distribution of a member on, and until it
  is installed again or the member removed, no index of its chain is accepted twice, whatever
  messages arrive, from whomever and with whatever claimed indices other than \<open>2^32 - 1\<close>.\<close>

theorem group_no_replay:
  assumes "pb_ok pbd" and "om_invar (peers s)"
    and "length (skd_chain_id d) = 16" and "length (skd_chain_seed d) = 32"
    and "snd (install_peer_distribution pbd s p (pb_ser pbd d)) = s0"
    and "\<forall>e\<in>set es. keeps_chain pb p (skd_chain_id d) e"
  shows "distinct (accepted lib pb pbd p s0 es)"
  using session_tracks_run [OF _ assms(6)] install_tracks [OF assms(1-4)] assms(5) by blast

text \<open>Saving and restoring a session gives back the session, except that the cached keys of
  skipped messages are gone: messages that were still in flight then cannot be opened any more.\<close>

theorem group_state_roundtrip:
  assumes "group_sized s"
  shows "deserialize_state (serialize_state s) = Some (forget_skipped s)"
proof -
  have sz: "length (own_chain_id s) = 16" "length (own_chain_key s) = 32" "om_invar (peers s)"
    "length (peers s) < 2 ^ 32" "\<forall>(p, c)\<in>set (peers s). length p < 2 ^ 32 \<and> chain_sized c"
    using assms by (auto simp: group_sized_def)
  have "deserialize_peers (length (peers s)) (concat (map serialize_peer (peers s))) [] =
      Some (map (\<lambda>(p, c). (p, c\<lparr>pc_skipped := []\<rparr>)) (peers s))"
    using deserialize_peers_put [OF sz(5), of "[]" "[]"] sz(3)
    by (simp add: om_invar_map [where f = "\<lambda>c. c\<lparr>pc_skipped := []\<rparr>"])
  then show ?thesis
    using sz(4) deserialize_own_put [OF sz(1,2)]
    by (simp add: deserialize_state_def serialize_state_def forget_skipped_def unat_of_nat)
qed

fun group_encrypt_all ::
  "sodium \<Rightarrow> sender_keys_message pb \<Rightarrow> group_session \<Rightarrow> (bytes \<times> bytes) list \<Rightarrow> bytes outcome list" where
  "group_encrypt_all lib pb s [] = []"
| "group_encrypt_all lib pb s ((pt, aad) # rest) =
     (let (r, s') = group_encrypt lib pb s pt aad in r # group_encrypt_all lib pb s' rest)"

lemma group_encrypt_all_from:
  assumes "have_own_chain s" and "own_next_index s = of_nat k" and "own_chain_key s = sk_ck_at lib seed k"
    and "own_chain_id s = cid" and "k + length pts < 2 ^ 32"
  shows "group_encrypt_all lib pb s pts =
    map (\<lambda>i. Returned (pb_ser pb (genuine_message lib cid seed 0 (of_nat (k + i)) (fst (pts ! i)) (snd (pts ! i)))))
      [0..<length pts]"
  using assms
proof (induction pts arbitrary: s k)
  case (Cons p pts)
  obtain pt aad where p: "p = (pt, aad)" by fastforce
  have k: "unat (of_nat k :: u32) = k" using Cons.prems(5) by (simp add: unat_of_nat)
  have up: "[0..<length (p # pts)] = 0 # map Suc [0..<length pts]"
    by (simp add: map_Suc_upt upt_conv_Cons del: upt_Suc)
  let ?s = "s\<lparr>own_next_index := own_next_index s + 1, own_chain_key := ratchet_chain_key lib (own_chain_key s)\<rparr>"
  have "group_encrypt_all lib pb ?s pts =
      map (\<lambda>i. Returned (pb_ser pb (genuine_message lib cid seed 0 (of_nat (Suc k + i)) (fst (pts ! i)) (snd (pts ! i)))))
        [0..<length pts]"
    using Cons.prems by (intro Cons.IH) (simp_all add: add.commute)
  moreover have "group_encrypt lib pb s pt aad = (Returned (pb_ser pb (genuine_message lib cid seed 0 (of_nat k) pt aad)), ?s)"
    using Cons.prems by (simp add: group_encrypt_def genuine_message_def sk_mk_at_def k)
  ultimately show ?case unfolding up by (simp add: p comp_def ac_simps)
qed simp

text \<open>What a member sends is what the others expect: after \<open>create_own_send_chain\<close>, and as long
  as the 32-bit index does not wrap, the messages that \<open>encrypt\<close> produces are in order the genuine
  messages of the chain in the distribution it returned.\<close>

theorem group_encrypt_genuine:
  assumes "length pts < 2 ^ 32"
  shows "\<exists>s'. create_own_send_chain pbd cid seed s =
      (pb_ser pbd \<lparr>skd_chain_id = cid, skd_chain_seed = seed, skd_start_index = 0\<rparr>, s') \<and>
    group_encrypt_all lib pb s' pts =
      map (\<lambda>i. Returned (pb_ser pb (genuine_message lib cid seed 0 (of_nat i) (fst (pts ! i)) (snd (pts ! i)))))
        [0..<length pts]"
  using assms group_encrypt_all_from [where k = 0] by (simp add: create_own_send_chain_def)

theorem group_encrypt_genuine_witness:
  "\<exists>s'. create_own_send_chain toy_skd_pb [1] [2] group_empty =
      (pb_ser toy_skd_pb \<lparr>skd_chain_id = [1], skd_chain_seed = [2], skd_start_index = 0\<rparr>, s') \<and>
    group_encrypt_all toy_sodium toy_skm_pb s' [([5], [])] =
      [Returned (pb_ser toy_skm_pb (genuine_message toy_sodium [1] [2] 0 0 [5] []))]"
  using group_encrypt_genuine [of "[([5], [])]" toy_skd_pb "[1]" "[2]" group_empty toy_sodium toy_skm_pb] by simp

definition demo_dist :: sender_keys_distribution where
  "demo_dist = \<lparr>skd_chain_id = replicate 16 1, skd_chain_seed = replicate 32 2, skd_start_index = 0\<rparr>"

lemma demo_dist_ok:
  "length (skd_chain_id demo_dist) = 16" "length (skd_chain_seed demo_dist) = 32" "om_invar (peers group_empty)"
  by (simp_all add: demo_dist_def group_empty_def)

abbreviation demo_message :: "u32 \<Rightarrow> bytes \<Rightarrow> bytes" where
  "demo_message x pt \<equiv>
     pb_ser toy_skm_pb (genuine_message toy_sodium (skd_chain_id demo_dist) (skd_chain_seed demo_dist)
       (skd_start_index demo_dist) x pt [])"

text \<open>Message 5 arrives first, then a forged message with index 7; message 3 still opens.\<close>

theorem group_genuine_opens_witness:
  "fst (group_decrypt toy_sodium toy_skm_pb
      (foldl (group_step toy_sodium toy_skm_pb toy_skd_pb)
        (snd (install_peer_distribution toy_skd_pb group_empty [9] (pb_ser toy_skd_pb demo_dist)))
        [Receive [9] (demo_message 5 [6]) [], Receive [9] (demo_message 7 [6]) [1]]) [9] (demo_message 3 [5]) []) = Some [5]"
  by (rule group_genuine_opens [OF toy_xchacha_ok toy_skm_pb_ok toy_skd_pb_ok demo_dist_ok(3,1,2) refl _ refl])
    (simp add: pb_okD [OF toy_skm_pb_ok] genuine_message_def, code_simp+)

theorem group_no_replay_witness:
  "distinct (accepted toy_sodium toy_skm_pb toy_skd_pb [9]
      (snd (install_peer_distribution toy_skd_pb group_empty [9] (pb_ser toy_skd_pb demo_dist)))
      [Receive [9] (demo_message 3 [5]) [], Receive [9] (demo_message 3 [5]) [], Receive [9] (demo_message 900000 [5]) []])"
  by (rule group_no_replay [OF toy_skd_pb_ok demo_dist_ok(3,1,2) refl])
    (simp add: pb_okD [OF toy_skm_pb_ok] genuine_message_def demo_dist_def)

theorem group_state_roundtrip_witness:
  "deserialize_state (serialize_state (group_empty\<lparr>have_own_chain := True, own_next_index := 7\<rparr>)) =
     Some (group_empty\<lparr>have_own_chain := True, own_next_index := 7\<rparr>)"
  using group_state_roundtrip [of "group_empty\<lparr>have_own_chain := True, own_next_index := 7\<rparr>"]
  by (simp add: group_sized_def group_empty_def forget_skipped_def)

end
