(* ===== verification/Websocket.thy ===== *)
theory Websocket
  imports Prelude
begin

text \<open>
  The WebSocket layer, \<open>core/src/net/websocket.cpp\<close>: the accept hash of RFC 6455 with its inline
  SHA-1, both handshake parsers, the frame builders of server and client, and the streaming frame
  parser with masking and fragmentation. Header text is kept as bytes. The base64 encoder of
  libsodium is the argument \<open>b64\<close>; the random mask of a client frame is an argument.
\<close>

subsection \<open>SHA-1 and the accept value\<close>

definition kMagicGuid :: bytes where
  "kMagicGuid = str_bytes ''258EAFA5-E914-47DA-95CA-C5AB0DC85B11''"

definition kMaxMessageBytes :: nat where
  "kMaxMessageBytes = 8 * 1024 * 1024"

definition rotl :: "nat \<Rightarrow> u32 \<Rightarrow> u32" where
  "rotl n v = push_bit n v OR drop_bit (32 - n) v"

text \<open>\<open>while (msg.size() % 64 != 56) msg.push_back(0)\<close> appends this many zeros.\<close>

definition sha1_pad :: "bytes \<Rightarrow> bytes" where
  "sha1_pad m = m @ [0x80] @ replicate ((55 + 64 - length m mod 64) mod 64) 0 @ u64_be (of_nat (length m * 8))"

definition sha1_words :: "bytes \<Rightarrow> u32 list" where
  "sha1_words block = map (\<lambda>i. rd_u32 (block ! (i * 4)) (block ! (i * 4 + 1)) (block ! (i * 4 + 2)) (block ! (i * 4 + 3))) [0..<16]"

definition sha1_schedule :: "bytes \<Rightarrow> u32 list" where
  "sha1_schedule block =
     foldl (\<lambda>w i. w @ [rotl 1 (w ! (i - 3) XOR w ! (i - 8) XOR w ! (i - 14) XOR w ! (i - 16))])
       (sha1_words block) [16..<80]"

definition sha1_fk :: "nat \<Rightarrow> u32 \<Rightarrow> u32 \<Rightarrow> u32 \<Rightarrow> u32 \<times> u32" where
  "sha1_fk i b c d =
     (if i < 20 then ((b AND c) OR (NOT b AND d), 0x5A827999)
      else if i < 40 then (b XOR c XOR d, 0x6ED9EBA1)
      else if i < 60 then ((b AND c) OR (b AND d) OR (c AND d), 0x8F1BBCDC)
      else (b XOR c XOR d, 0xCA62C1D6))"

definition sha1_round ::
  "u32 list \<Rightarrow> u32 \<times> u32 \<times> u32 \<times> u32 \<times> u32 \<Rightarrow> nat \<Rightarrow> u32 \<times> u32 \<times> u32 \<times> u32 \<times> u32" where
  "sha1_round w h i =
     (case h of (a, b, c, d, e) \<Rightarrow>
        let (f, k) = sha1_fk i b c d; t = rotl 5 a + f + e + k + w ! i
        in (t, a, rotl 30 b, c, d))"

definition sha1_block ::
  "u32 \<times> u32 \<times> u32 \<times> u32 \<times> u32 \<Rightarrow> bytes \<Rightarrow> u32 \<times> u32 \<times> u32 \<times> u32 \<times> u32" where
  "sha1_block h block =
     (case (h, foldl (sha1_round (sha1_schedule block)) h [0..<80]) of
        ((h0, h1, h2, h3, h4), (a, b, c, d, e)) \<Rightarrow> (h0 + a, h1 + b, h2 + c, h3 + d, h4 + e))"

fun sha1_blocks ::
  "nat \<Rightarrow> u32 \<times> u32 \<times> u32 \<times> u32 \<times> u32 \<Rightarrow> bytes \<Rightarrow> u32 \<times> u32 \<times> u32 \<times> u32 \<times> u32" where
  "sha1_blocks 0 h msg = h"
| "sha1_blocks (Suc n) h msg = sha1_blocks n (sha1_block h (take 64 msg)) (drop 64 msg)"

definition sha1 :: "bytes \<Rightarrow> bytes" where
  "sha1 m =
     (let msg = sha1_pad m in
      case sha1_blocks (length msg div 64) (0x67452301, 0xEFCDAB89, 0x98BADCFE, 0x10325476, 0xC3D2E1F0) msg of
        (h0, h1, h2, h3, h4) \<Rightarrow> u32_be h0 @ u32_be h1 @ u32_be h2 @ u32_be h3 @ u32_be h4)"

definition compute_accept :: "(bytes \<Rightarrow> bytes) \<Rightarrow> bytes \<Rightarrow> bytes" where
  "compute_accept b64 client_key = b64 (sha1 (client_key @ kMagicGuid))"

subsection \<open>Header text\<close>

definition tolower :: "byte \<Rightarrow> byte" where
  "tolower c = (if 0x41 \<le> c \<and> c \<le> 0x5A then c + 0x20 else c)"

definition isspace :: "byte \<Rightarrow> bool" where
  "isspace c = (c = 0x20 \<or> (0x09 \<le> c \<and> c \<le> 0x0D))"

text \<open>\<open>std::search\<close> and \<open>std::string::find\<close>: the first position at which the needle starts.\<close>

fun find_sub :: "bytes \<Rightarrow> bytes \<Rightarrow> nat option" where
  "find_sub needle [] = (if needle = [] then Some 0 else None)"
| "find_sub needle (c # s) =
     (if take (length needle) (c # s) = needle then Some 0 else map_option Suc (find_sub needle s))"

definition icontains :: "bytes \<Rightarrow> bytes \<Rightarrow> bool" where
  "icontains haystack needle = (find_sub (map tolower needle) (map tolower haystack) \<noteq> None)"

definition trim_ws :: "bytes \<Rightarrow> bytes" where
  "trim_ws s = rev (dropWhile isspace (rev (dropWhile isspace s)))"

definition crlf :: bytes where
  "crlf = [0x0D, 0x0A]"

text \<open>\<open>headers.substr(pos + needle.size(), eol - pos - needle.size())\<close> with \<open>eol = headers.find("\r\n", pos)\<close>.\<close>

definition header_value :: "bytes \<Rightarrow> nat \<Rightarrow> nat \<Rightarrow> bytes" where
  "header_value headers pos n =
     (case find_sub crlf (drop pos headers) of
        Some k \<Rightarrow> take (k - n) (drop (pos + n) headers)
      | None \<Rightarrow> drop (pos + n) headers)"

subsection \<open>Handshakes\<close>

datatype hs_status = HsNeedMore | HsAccepted | HsRejected

record handshake_parser =
  hp_buf :: bytes
  hp_headers_end :: nat
  hp_client_key :: bytes
  hp_reason :: string

definition handshake_init :: handshake_parser where
  "handshake_init = \<lparr>hp_buf = [], hp_headers_end = 0, hp_client_key = [], hp_reason = ''''\<rparr>"

definition hp_feed :: "handshake_parser \<Rightarrow> bytes \<Rightarrow> hs_status \<times> handshake_parser" where
  "hp_feed p bs =
     (let p = p\<lparr>hp_buf := hp_buf p @ bs\<rparr> in
      case find_sub (crlf @ crlf) (hp_buf p) of
        None \<Rightarrow>
          if 16384 < length (hp_buf p) then (HsRejected, p\<lparr>hp_reason := ''headers too large''\<rparr>)
          else (HsNeedMore, p)
      | Some it \<Rightarrow>
          (let p = p\<lparr>hp_headers_end := it + 4\<rparr>;
               headers = take (hp_headers_end p) (hp_buf p) in
           if \<not> icontains headers (str_bytes ''Upgrade: websocket'') \<and>
              \<not> icontains headers (str_bytes ''upgrade: websocket'')
           then (HsRejected, p\<lparr>hp_reason := ''not a WebSocket upgrade''\<rparr>)
           else let needle = str_bytes ''sec-websocket-key:'' in
             case find_sub needle (map tolower headers) of
               None \<Rightarrow> (HsRejected, p\<lparr>hp_reason := ''missing Sec-WebSocket-Key''\<rparr>)
             | Some pos \<Rightarrow>
                 (let p = p\<lparr>hp_client_key := trim_ws (header_value headers pos (length needle))\<rparr> in
                  if hp_client_key p = [] then (HsRejected, p\<lparr>hp_reason := ''empty Sec-WebSocket-Key''\<rparr>)
                  else (HsAccepted, p))))"

definition trailing :: "handshake_parser \<Rightarrow> bytes" where
  "trailing p = drop (hp_headers_end p) (hp_buf p)"

definition build_101_response :: "bytes \<Rightarrow> bytes" where
  "build_101_response accept =
     str_bytes ''HTTP/1.1 101 Switching Protocols'' @ crlf @ str_bytes ''Upgrade: websocket'' @ crlf @
     str_bytes ''Connection: Upgrade'' @ crlf @ str_bytes ''Sec-WebSocket-Accept: '' @ accept @ crlf @ crlf"

record client_handshake_parser =
  ch_expected_accept :: bytes
  ch_buf :: bytes
  ch_headers_end :: nat
  ch_reason :: string

definition client_handshake_init :: "(bytes \<Rightarrow> bytes) \<Rightarrow> bytes \<Rightarrow> client_handshake_parser" where
  "client_handshake_init b64 expected_key =
     \<lparr>ch_expected_accept = compute_accept b64 expected_key, ch_buf = [], ch_headers_end = 0, ch_reason = ''''\<rparr>"

definition ch_feed :: "client_handshake_parser \<Rightarrow> bytes \<Rightarrow> hs_status \<times> client_handshake_parser" where
  "ch_feed p bs =
     (let p = p\<lparr>ch_buf := ch_buf p @ bs\<rparr> in
      case find_sub (crlf @ crlf) (ch_buf p) of
        None \<Rightarrow>
          if 16384 < length (ch_buf p) then (HsRejected, p\<lparr>ch_reason := ''response headers too large''\<rparr>)
          else (HsNeedMore, p)
      | Some it \<Rightarrow>
          (let p = p\<lparr>ch_headers_end := it + 4\<rparr>;
               headers = take (ch_headers_end p) (ch_buf p) in
           if take 5 headers \<noteq> str_bytes ''HTTP/'' \<or> find_sub (str_bytes '' 101 '') headers = None
           then (HsRejected, p\<lparr>ch_reason := ''server did not return 101 Switching Protocols''\<rparr>)
           else if \<not> icontains headers (str_bytes ''Upgrade: websocket'')
           then (HsRejected, p\<lparr>ch_reason := ''missing Upgrade: websocket in response''\<rparr>)
           else let needle = str_bytes ''sec-websocket-accept:'' in
             case find_sub needle (map tolower headers) of
               None \<Rightarrow> (HsRejected, p\<lparr>ch_reason := ''missing Sec-WebSocket-Accept''\<rparr>)
             | Some pos \<Rightarrow>
                 (let got = trim_ws (header_value headers pos (length needle)) in
                  if ch_expected_accept p = [] \<or> got \<noteq> ch_expected_accept p
                  then (HsRejected, p\<lparr>ch_reason := ''Sec-WebSocket-Accept mismatch''\<rparr>)
                  else (HsAccepted, p))))"

subsection \<open>Frames\<close>

definition build_server_binary_frame :: "bytes \<Rightarrow> bytes" where
  "build_server_binary_frame payload =
     0x82 #
     (if length payload < 126 then [of_nat (length payload)]
      else if length payload \<le> 0xFFFF then 126 # u16_be (of_nat (length payload))
      else 127 # u64_be (of_nat (length payload))) @ payload"

definition build_close_frame :: bytes where
  "build_close_frame = [0x88, 0x00]"

definition apply_mask :: "bytes \<Rightarrow> bytes \<Rightarrow> bytes" where
  "apply_mask mkey xs = map (\<lambda>i. xs ! i XOR mkey ! (i mod 4)) [0..<length xs]"

definition build_masked_frame :: "bytes \<Rightarrow> byte \<Rightarrow> bytes \<Rightarrow> bytes" where
  "build_masked_frame mkey opcode payload =
     (0x80 OR opcode) #
     (if length payload < 126 then [0x80 OR of_nat (length payload)]
      else if length payload \<le> 0xFFFF then (0x80 OR 126) # u16_be (of_nat (length payload))
      else (0x80 OR 127) # u64_be (of_nat (length payload))) @ mkey @ apply_mask mkey payload"

definition build_client_binary_frame :: "bytes \<Rightarrow> bytes \<Rightarrow> bytes" where
  "build_client_binary_frame mkey payload = build_masked_frame mkey 0x2 payload"

definition build_client_close_frame :: "bytes \<Rightarrow> bytes" where
  "build_client_close_frame mkey = build_masked_frame mkey 0x8 []"

datatype pop_status = WsNeedMore | WsFrameReady bytes | WsClose | WsError

record frame_parser =
  expect_masked :: bool
  fp_buf :: bytes
  partial :: bytes
  in_fragment :: bool
  fp_error :: string

definition frame_parser_init :: "bool \<Rightarrow> frame_parser" where
  "frame_parser_init expect = \<lparr>expect_masked = expect, fp_buf = [], partial = [], in_fragment = False, fp_error = ''''\<rparr>"

definition fp_feed :: "frame_parser \<Rightarrow> bytes \<Rightarrow> frame_parser" where
  "fp_feed p bs = (if fp_error p \<noteq> '''' then p else p\<lparr>fp_buf := fp_buf p @ bs\<rparr>)"

text \<open>The extended payload length: \<open>None\<close> when its bytes have not arrived, otherwise the payload
  length and the header length so far.\<close>

definition ws_length :: "bytes \<Rightarrow> (nat \<times> nat) option" where
  "ws_length b =
     (let l = unat (b ! 1 AND 0x7f) in
      if l = 126 then if length b < 2 + 2 then None else Some (unat (rd_u16 (b ! 2) (b ! 3)), 4)
      else if l = 127 then if length b < 2 + 8 then None else Some (unat (rd_u64 (take 8 (drop 2 b))), 10)
      else Some (l, 2))"

datatype ws_head = HeadNeed | HeadError string | HeadFrame bool byte bytes bytes

text \<open>The head of the loop of \<open>try_pop\<close>, up to and including the erasure of the frame: final flag,
  opcode, unmasked payload and the remaining buffer.\<close>

definition ws_head :: "bool \<Rightarrow> bytes \<Rightarrow> ws_head" where
  "ws_head expect b =
     (if length b < 2 then HeadNeed
      else let fin = (b ! 0 AND 0x80 \<noteq> 0); opcode = b ! 0 AND 0x0f; mask = (b ! 1 AND 0x80 \<noteq> 0) in
        if expect \<and> \<not> mask then HeadError ''client frame missing mask''
        else case ws_length b of
          None \<Rightarrow> HeadNeed
        | Some (payload_len, header_len) \<Rightarrow>
            if kMaxMessageBytes < payload_len then HeadError ''frame payload too large''
            else let mask_bytes = (if mask then 4 else 0) in
              if length b < header_len + mask_bytes + payload_len then HeadNeed
              else let mask_key = (if mask then take 4 (drop header_len b) else replicate 4 0);
                       off = header_len + mask_bytes
                   in HeadFrame fin opcode (apply_mask mask_key (take payload_len (drop off b)))
                        (drop (off + payload_len) b))"

lemma ws_head_shorter: "ws_head e b = HeadFrame fin opc pl rest \<Longrightarrow> length rest < length b"
  by (auto simp: ws_head_def ws_length_def Let_def split: if_splits option.splits)

definition ws_fail :: "string \<Rightarrow> frame_parser \<Rightarrow> pop_status \<times> frame_parser" where
  "ws_fail msg p = (WsError, p\<lparr>fp_error := msg\<rparr>)"

text \<open>What the loop does with a frame: go on (\<open>Inl\<close>) or return (\<open>Inr\<close>).\<close>

definition ws_frame :: "bool \<Rightarrow> byte \<Rightarrow> bytes \<Rightarrow> frame_parser \<Rightarrow> frame_parser + pop_status \<times> frame_parser" where
  "ws_frame fin opcode payload p =
     (if opcode = 0x8 then Inr (WsClose, p)
      else if opcode = 0x9 then Inl p
      else if opcode = 0xA then Inl p
      else if opcode = 0x0 \<and> \<not> in_fragment p then Inr (ws_fail ''continuation without prior data frame'' p)
      else if opcode = 0x1 \<or> opcode = 0x2 \<or> opcode = 0x0
      then let p = (if opcode \<noteq> 0x0 then p\<lparr>partial := [], in_fragment := True\<rparr> else p);
               p = p\<lparr>partial := partial p @ payload\<rparr> in
           if kMaxMessageBytes < length (partial p) then Inr (ws_fail ''fragmented message too large'' p)
           else if fin then Inr (WsFrameReady (partial p), p\<lparr>in_fragment := False, partial := []\<rparr>)
           else Inl p
      else Inr (ws_fail ''unknown opcode'' p))"

lemma ws_frame_buf: "ws_frame fin opc pl p = Inl p' \<Longrightarrow> fp_buf p' = fp_buf p"
  by (auto simp: ws_frame_def Let_def split: if_splits)

function ws_loop :: "frame_parser \<Rightarrow> pop_status \<times> frame_parser" where
  "ws_loop p =
     (case ws_head (expect_masked p) (fp_buf p) of
        HeadNeed \<Rightarrow> (WsNeedMore, p)
      | HeadError msg \<Rightarrow> ws_fail msg p
      | HeadFrame fin opcode payload rest \<Rightarrow>
          (case ws_frame fin opcode payload (p\<lparr>fp_buf := rest\<rparr>) of
             Inl p \<Rightarrow> ws_loop p
           | Inr r \<Rightarrow> r))"
  by pat_completeness auto
termination
  by (relation "measure (\<lambda>p. length (fp_buf p))") (auto dest!: ws_head_shorter ws_frame_buf)

declare ws_loop.simps [simp del]

definition ws_try_pop :: "frame_parser \<Rightarrow> pop_status \<times> frame_parser" where
  "ws_try_pop p = (if fp_error p \<noteq> '''' then (WsError, p) else ws_loop p)"

text \<open>The read loop of the relay server on an upgraded connection: drain all complete messages;
  a close frame or an error ends the connection (\<open>None\<close>).\<close>

lemma ws_frame_buf_Inr: "ws_frame fin opc pl p = Inr (st, p') \<Longrightarrow> fp_buf p' = fp_buf p"
  by (auto simp: ws_frame_def ws_fail_def Let_def split: if_splits)

lemma ws_loop_shorter: "ws_loop p = (WsFrameReady f, p') \<Longrightarrow> length (fp_buf p') < length (fp_buf p)"
proof (induction p rule: ws_loop.induct)
  case (1 p)
  show ?case
  proof (cases "ws_head (expect_masked p) (fp_buf p)")
    case (HeadFrame fin opc pl rest)
    note sh = ws_head_shorter [OF HeadFrame]
    show ?thesis
    proof (cases "ws_frame fin opc pl (p\<lparr>fp_buf := rest\<rparr>)")
      case (Inl q)
      with 1(2) HeadFrame have "ws_loop q = (WsFrameReady f, p')" by (simp add: ws_loop.simps [of p])
      from 1(1) [OF HeadFrame Inl this] sh ws_frame_buf [OF Inl] show ?thesis by simp
    next
      case (Inr r)
      with 1(2) HeadFrame sh ws_frame_buf_Inr show ?thesis by (auto simp: ws_loop.simps [of p])
    qed
  qed (use 1(2) in \<open>simp_all add: ws_loop.simps [of p] ws_fail_def\<close>)
qed

lemma ws_try_pop_shorter: "ws_try_pop p = (WsFrameReady f, p') \<Longrightarrow> length (fp_buf p') < length (fp_buf p)"
  by (auto simp: ws_try_pop_def ws_loop_shorter split: if_splits)

function ws_drain_parser :: "frame_parser \<Rightarrow> bytes list \<times> frame_parser option" where
  "ws_drain_parser p =
     (case ws_try_pop p of
        (WsFrameReady f, p') \<Rightarrow> (let (fs, r) = ws_drain_parser p' in (f # fs, r))
      | (WsNeedMore, p') \<Rightarrow> ([], Some p')
      | (_, p') \<Rightarrow> ([], None))"
  by pat_completeness auto
termination
  by (relation "measure (\<lambda>p. length (fp_buf p))") (auto dest: ws_try_pop_shorter [OF sym])

declare ws_drain_parser.simps [simp del]

fun ws_feed :: "frame_parser option \<Rightarrow> bytes \<Rightarrow> frame_parser option" where
  "ws_feed None bs = None"
| "ws_feed (Some p) bs = Some (fp_feed p bs)"

fun ws_drain :: "frame_parser option \<Rightarrow> bytes list \<times> frame_parser option" where
  "ws_drain None = ([], None)"
| "ws_drain (Some p) = ws_drain_parser p"

subsection \<open>More bytes never change what was complete\<close>

lemma ws_length_append: "2 \<le> length b \<Longrightarrow> ws_length b = Some r \<Longrightarrow> ws_length (b @ c) = Some r"
  by (auto simp: ws_length_def Let_def nth_append split: if_splits)

lemma ws_head_append:
  assumes "ws_head e b \<noteq> HeadNeed"
  shows "ws_head e (b @ c) = (case ws_head e b of HeadFrame fin opc pl rest \<Rightarrow> HeadFrame fin opc pl (rest @ c) | h \<Rightarrow> h)"
proof -
  have l: "2 \<le> length b" using assms by (auto simp: ws_head_def split: if_splits)
  then have n: "(b @ c) ! 0 = b ! 0" "(b @ c) ! Suc 0 = b ! Suc 0" by (auto simp: nth_append)
  show ?thesis
  proof (cases "ws_length b")
    case None
    with assms l show ?thesis by (auto simp: ws_head_def n Let_def split: if_splits)
  next
    case (Some r)
    with assms l ws_length_append [OF l Some, of c] show ?thesis
      by (cases r) (auto simp: ws_head_def n Let_def split: if_splits)
  qed
qed

abbreviation more_buf :: "bytes \<Rightarrow> frame_parser \<Rightarrow> frame_parser" where
  "more_buf c p \<equiv> p\<lparr>fp_buf := fp_buf p @ c\<rparr>"

lemma ws_frame_append:
  "ws_frame fin opc pl (more_buf c p) = map_sum (more_buf c) (apsnd (more_buf c)) (ws_frame fin opc pl p)"
  by (simp add: ws_frame_def ws_fail_def Let_def)

lemma ws_loop_append:
  assumes "ws_loop p = (st, p')"
  shows "ws_loop (more_buf c p) = (if st = WsNeedMore then ws_loop (more_buf c p') else (st, more_buf c p'))"
  using assms
proof (induction p rule: ws_loop.induct)
  case (1 p)
  show ?case
  proof (cases "ws_head (expect_masked p) (fp_buf p)")
    case HeadNeed
    with 1(2) have "st = WsNeedMore" "p' = p" by (simp_all add: ws_loop.simps [of p])
    then show ?thesis by simp
  next
    case (HeadError msg)
    with 1(2) ws_head_append [of "expect_masked p" "fp_buf p" c] show ?thesis
      by (auto simp: ws_loop.simps [of p] ws_loop.simps [of "more_buf c p"] ws_fail_def)
  next
    case (HeadFrame fin opc pl rest)
    have h: "ws_head (expect_masked p) (fp_buf p @ c) = HeadFrame fin opc pl (rest @ c)"
      using ws_head_append [of "expect_masked p" "fp_buf p" c] HeadFrame by simp
    have f: "ws_frame fin opc pl (p\<lparr>fp_buf := rest @ c\<rparr>) =
        map_sum (more_buf c) (apsnd (more_buf c)) (ws_frame fin opc pl (p\<lparr>fp_buf := rest\<rparr>))"
      using ws_frame_append [where c = c and p = "p\<lparr>fp_buf := rest\<rparr>"] by simp
    show ?thesis
    proof (cases "ws_frame fin opc pl (p\<lparr>fp_buf := rest\<rparr>)")
      case (Inl q)
      with 1(2) HeadFrame have "ws_loop q = (st, p')" by (simp add: ws_loop.simps [of p])
      with 1(1) [OF HeadFrame Inl] Inl h f show ?thesis by (simp add: ws_loop.simps [of "more_buf c p"])
    next
      case (Inr r)
      with 1(2) HeadFrame have r: "r = (st, p')" by (simp add: ws_loop.simps [of p])
      moreover have "st \<noteq> WsNeedMore"
        using Inr r by (auto simp: ws_frame_def ws_fail_def Let_def split: if_splits)
      ultimately show ?thesis using Inr h f by (simp add: ws_loop.simps [of "more_buf c p"])
    qed
  qed
qed

lemma ws_frame_no_error:
  "ws_frame fin opc pl p = Inl p' \<Longrightarrow> fp_error p' = fp_error p"
  "ws_frame fin opc pl p = Inr (st, p') \<Longrightarrow> st \<noteq> WsError \<Longrightarrow> fp_error p' = fp_error p"
  by (auto simp: ws_frame_def ws_fail_def Let_def split: if_splits)

lemma ws_loop_no_error:
  "ws_loop p = (st, p') \<Longrightarrow> st \<noteq> WsError \<Longrightarrow> fp_error p' = fp_error p"
proof (induction p rule: ws_loop.induct)
  case (1 p)
  show ?case
  proof (cases "ws_head (expect_masked p) (fp_buf p)")
    case (HeadFrame fin opc pl rest)
    with 1 show ?thesis
      using ws_frame_no_error [of fin opc pl "p\<lparr>fp_buf := rest\<rparr>"]
      by (cases "ws_frame fin opc pl (p\<lparr>fp_buf := rest\<rparr>)") (auto simp: ws_loop.simps [of p])
  qed (use 1(2,3) in \<open>simp_all add: ws_loop.simps [of p] ws_fail_def\<close>)
qed

lemma ws_drain_parser_feed:
  assumes "fp_error p = ''''"
  shows "ws_drain_parser (more_buf c p) =
    (fst (ws_drain_parser p) @ fst (ws_drain (ws_feed (snd (ws_drain_parser p)) c)),
     snd (ws_drain (ws_feed (snd (ws_drain_parser p)) c)))"
  using assms
proof (induction p rule: ws_drain_parser.induct)
  case (1 p)
  obtain st p' where l: "ws_loop p = (st, p')" by fastforce
  have t: "ws_try_pop p = (st, p')" "ws_try_pop (more_buf c p) = ws_loop (more_buf c p)"
    using l 1(2) by (simp_all add: ws_try_pop_def)
  note a = ws_loop_append [OF l, of c]
  have e: "st \<noteq> WsError \<Longrightarrow> fp_error p' = ''''" using ws_loop_no_error [OF l] 1(2) by simp
  show ?case
  proof (cases st)
    case WsNeedMore
    then show ?thesis
      using a e t by (simp add: ws_drain_parser.simps [of p] ws_drain_parser.simps [of "more_buf c p"]
          ws_drain_parser.simps [of "more_buf c p'"] fp_feed_def ws_try_pop_def)
  next
    case (WsFrameReady f)
    with 1(1) [OF t(1) [symmetric]] e
    have IH: "ws_drain_parser (more_buf c p') =
      (fst (ws_drain_parser p') @ fst (ws_drain (ws_feed (snd (ws_drain_parser p')) c)),
       snd (ws_drain (ws_feed (snd (ws_drain_parser p')) c)))" by simp
    have d: "ws_drain_parser p = (f # fst (ws_drain_parser p'), snd (ws_drain_parser p'))"
      using t(1) WsFrameReady by (subst ws_drain_parser.simps) (simp add: case_prod_beta)
    have "ws_drain_parser (more_buf c p) = (f # fst (ws_drain_parser (more_buf c p')), snd (ws_drain_parser (more_buf c p')))"
      using t(2) a WsFrameReady by (subst ws_drain_parser.simps) (simp add: case_prod_beta)
    then show ?thesis unfolding d IH by simp
  next
    case WsClose
    then show ?thesis
      using a t by (simp add: ws_drain_parser.simps [of p] ws_drain_parser.simps [of "more_buf c p"])
  next
    case WsError
    then show ?thesis
      using a t by (simp add: ws_drain_parser.simps [of p] ws_drain_parser.simps [of "more_buf c p"])
  qed
qed

interpretation ws: chunked_stream ws_feed ws_drain
proof
  fix s :: "frame_parser option" and a b c :: bytes
  show "ws_feed s [] = s" by (cases s) (simp_all add: fp_feed_def)
  show "ws_feed (ws_feed s a) b = ws_feed s (a @ b)" by (cases s) (simp_all add: fp_feed_def)
  show "ws_drain (ws_feed s c) =
      (fst (ws_drain s) @ fst (ws_drain (ws_feed (snd (ws_drain s)) c)), snd (ws_drain (ws_feed (snd (ws_drain s)) c)))"
  proof (cases s)
    case (Some p)
    show ?thesis
    proof (cases "fp_error p = ''''")
      case True
      with Some ws_drain_parser_feed [of p c] show ?thesis by (simp add: fp_feed_def)
    next
      case False
      then have "ws_drain_parser p = ([], None)" by (subst ws_drain_parser.simps) (simp add: ws_try_pop_def)
      with Some False show ?thesis by (simp add: fp_feed_def)
    qed
  qed simp
qed

subsection \<open>Frames of the builders\<close>

lemma apply_mask_involution: "apply_mask k (apply_mask k xs) = xs"
  by (rule nth_equalityI) (simp_all add: apply_mask_def xor.assoc)

lemma length_apply_mask [simp]: "length (apply_mask k xs) = length xs"
  by (simp add: apply_mask_def)

lemma apply_mask_zero: "apply_mask (replicate 4 0) xs = xs"
  by (rule nth_equalityI) (simp_all add: apply_mask_def)

lemma low_bits:
  fixes x :: byte
  assumes "unat x < 2 ^ n"
  shows "x AND mask n = x"
proof -
  have "unat (take_bit n x) = unat x" using assms by (simp add: unsigned_take_bit_eq take_bit_nat_eq_self)
  then show ?thesis by (simp add: take_bit_eq_mask [symmetric] word_unat_eq_iff)
qed

lemma header_bits:
  fixes x :: byte
  shows "unat x < 128 \<Longrightarrow> (0x80 OR x) AND 0x7f = x" and "(0x80 OR x) AND 0x80 = 0x80"
    and "unat x < 128 \<Longrightarrow> x AND 0x80 = 0" and "unat x < 128 \<Longrightarrow> x AND 0x7f = x"
    and "unat x < 16 \<Longrightarrow> (0x80 OR x) AND 0x0f = x"
proof -
  have m: "mask 7 = (0x7f :: byte)" "mask 4 = (0x0f :: byte)" by (simp_all add: mask_eq_exp_minus_1)
  have 7: "x AND 0x7f = x" if "unat x < 128" using low_bits [of x 7] that by (simp add: m)
  have 4: "x AND 0x0f = x" if "unat x < 16" using low_bits [of x 4] that by (simp add: m)
  show "unat x < 128 \<Longrightarrow> x AND 0x7f = x" by (rule 7)
  show "unat x < 128 \<Longrightarrow> (0x80 OR x) AND 0x7f = x" using 7 by (simp add: bit.conj_disj_distrib2)
  show "unat x < 16 \<Longrightarrow> (0x80 OR x) AND 0x0f = x" using 4 by (simp add: bit.conj_disj_distrib2)
  show "x AND 0x80 = 0" if "unat x < 128"
  proof -
    have "x AND 0x80 = (x AND 0x7f) AND 0x80" using 7 [OF that] by simp
    also have "\<dots> = x AND (0x7f AND 0x80)" by (rule and.assoc)
    finally show ?thesis by simp
  qed
  show "(0x80 OR x) AND 0x80 = 0x80"
    by (simp add: and.commute [of _ "0x80"])
qed

lemma u16_be_cases:
  obtains a b where "u16_be v = [a, b]" and "rd_u16 a b = v"
  using rd_u16_be [of v] by (simp add: u16_be_def)

text \<open>The length field of a frame, with or without the mask bit \<open>m\<close>, is read back as written.\<close>

lemma ws_length_read:
  assumes "n \<le> kMaxMessageBytes" and m: "m = 0 \<or> m = 0x80"
  shows "ws_length (b0 # (if n < 126 then [m OR of_nat n] else if n \<le> 0xFFFF then (m OR 126) # u16_be (of_nat n)
      else (m OR 127) # u64_be (of_nat n)) @ rest) = Some (n, if n < 126 then 2 else if n \<le> 0xFFFF then 4 else 10)"
proof -
  have l: "unat ((m OR x) AND 0x7f) = unat x" if "unat x < 128" for x :: byte
    using m header_bits(1,4) [OF that] by auto
  consider "n < 126" | "126 \<le> n" "n \<le> 0xFFFF" | "0xFFFF < n" by linarith
  then show ?thesis
  proof cases
    case 1
    then have "unat (of_nat n :: byte) = n" by (simp add: unat_of_nat)
    with 1 l [of "of_nat n"] show ?thesis by (simp add: ws_length_def)
  next
    case 2
    obtain a b where ab: "u16_be (of_nat n) = [a, b]" "rd_u16 a b = of_nat n" by (rule u16_be_cases)
    have "unat (of_nat n :: u16) = n" using 2 by (simp add: unat_of_nat)
    with 2 ab l [of 126] show ?thesis by (simp add: ws_length_def)
  next
    case 3
    have "unat (of_nat n :: u64) = n" using assms(1) by (simp add: unat_of_nat kMaxMessageBytes_def)
    with 3 l [of 127] show ?thesis by (simp add: ws_length_def)
  qed
qed

lemma ws_head_masked:
  assumes "length k = 4" "length payload \<le> kMaxMessageBytes" "unat opc < 16"
  shows "ws_head e (build_masked_frame k opc payload @ rest) = HeadFrame True opc payload rest"
proof -
  let ?n = "length payload"
  let ?b = "build_masked_frame k opc payload @ rest"
  have len: "ws_length ?b = Some (?n, if ?n < 126 then 2 else if ?n \<le> 0xFFFF then 4 else 10)"
    using ws_length_read [OF assms(2), of "0x80"] by (simp add: build_masked_frame_def)
  have b1: "?b ! 1 AND 0x80 \<noteq> 0" by (simp add: build_masked_frame_def header_bits(2))
  have b0: "?b ! 0 AND 0x80 \<noteq> 0" "?b ! 0 AND 0x0f = opc"
    using header_bits(5) [OF assms(3)] by (simp_all add: build_masked_frame_def header_bits(2))
  show ?thesis
    using assms len b0 b1
    by (auto simp: ws_head_def Let_def) (simp_all add: build_masked_frame_def apply_mask_involution)
qed

lemma ws_head_server:
  assumes "length payload \<le> kMaxMessageBytes"
  shows "ws_head False (build_server_binary_frame payload @ rest) = HeadFrame True 0x2 payload rest"
proof -
  let ?n = "length payload"
  let ?b = "build_server_binary_frame payload @ rest"
  have len: "ws_length ?b = Some (?n, if ?n < 126 then 2 else if ?n \<le> 0xFFFF then 4 else 10)"
    using ws_length_read [OF assms, of 0 "0x82" "payload @ rest"] by (simp add: build_server_binary_frame_def cong: if_cong)
  have "unat (of_nat ?n :: byte) < 128" if "?n < 126" using that by (simp add: unat_of_nat)
  then have b1: "?b ! 1 AND 0x80 = 0" by (simp add: build_server_binary_frame_def header_bits(3))
  have b0: "?b ! 0 AND 0x80 \<noteq> 0" "?b ! 0 AND 0x0f = 0x2" by (simp_all add: build_server_binary_frame_def)
  show ?thesis
    using assms len b0 b1
    by (auto simp: ws_head_def Let_def) (simp_all add: build_server_binary_frame_def apply_mask_zero)
qed

text \<open>A whole binary message in one frame passes through the parser in any state.\<close>

lemma ws_try_pop_frame:
  assumes "fp_error p = ''''" "ws_head (expect_masked p) (fp_buf p) = HeadFrame True 0x2 payload rest"
    "length payload \<le> kMaxMessageBytes"
  shows "ws_try_pop p = (WsFrameReady payload, p\<lparr>fp_buf := rest, in_fragment := False, partial := []\<rparr>)"
  using assms by (simp add: ws_try_pop_def ws_loop.simps [of p] ws_frame_def)

lemma ws_drain_masked:
  assumes "\<forall>(k, pl)\<in>set ms. length k = 4 \<and> length pl \<le> kMaxMessageBytes"
    and "fp_error p = ''''" "fp_buf p = concat (map (\<lambda>(k, pl). build_client_binary_frame k pl) ms)"
    and "\<not> in_fragment p" "partial p = []"
  shows "ws_drain_parser p = (map snd ms, Some (p\<lparr>fp_buf := []\<rparr>))"
  using assms
proof (induction ms arbitrary: p)
  case Nil
  then have "ws_try_pop p = (WsNeedMore, p)" by (simp add: ws_try_pop_def ws_loop.simps [of p] ws_head_def)
  with Nil show ?case by (subst ws_drain_parser.simps) simp
next
  case (Cons m ms)
  obtain k pl where m: "m = (k, pl)" by fastforce
  let ?rest = "concat (map (\<lambda>(k, pl). build_client_binary_frame k pl) ms)"
  have "ws_head (expect_masked p) (fp_buf p) = HeadFrame True 0x2 pl ?rest"
    using Cons.prems(1,3) by (simp add: m build_client_binary_frame_def ws_head_masked)
  then have t: "ws_try_pop p = (WsFrameReady pl, p\<lparr>fp_buf := ?rest, in_fragment := False, partial := []\<rparr>)"
    using Cons.prems by (intro ws_try_pop_frame) (auto simp: m)
  have "ws_drain_parser (p\<lparr>fp_buf := ?rest, in_fragment := False, partial := []\<rparr>) =
      (map snd ms, Some (p\<lparr>fp_buf := []\<rparr>))"
    using Cons.prems by (subst Cons.IH) auto
  with t show ?case by (subst ws_drain_parser.simps) (simp add: m)
qed

subsection \<open>Bounded buffering\<close>

definition parser_bounded :: "frame_parser \<Rightarrow> bool" where
  "parser_bounded p \<longleftrightarrow> length (partial p) \<le> kMaxMessageBytes"

lemma ws_frame_bounded:
  assumes "parser_bounded p"
  shows "ws_frame fin opc pl p = Inl q \<Longrightarrow> parser_bounded q"
    and "ws_frame fin opc pl p = Inr (st, q) \<Longrightarrow> st \<noteq> WsError \<Longrightarrow> parser_bounded q"
    and "ws_frame fin opc pl p = Inr (WsFrameReady f, q) \<Longrightarrow> length f \<le> kMaxMessageBytes"
    and "ws_frame fin opc pl p \<noteq> Inr (WsNeedMore, q)"
  using assms by (auto simp: ws_frame_def ws_fail_def parser_bounded_def Let_def split: if_splits)

lemma ws_head_need: "ws_head e b = HeadNeed \<Longrightarrow> length b < 14 + kMaxMessageBytes"
  by (auto simp: ws_head_def ws_length_def Let_def split: if_splits option.splits)

lemma ws_loop_bounded:
  "parser_bounded p \<Longrightarrow> ws_loop p = (st, q) \<Longrightarrow>
     (st \<noteq> WsError \<longrightarrow> parser_bounded q) \<and> (st = WsNeedMore \<longrightarrow> length (fp_buf q) < 14 + kMaxMessageBytes) \<and>
     (\<forall>f. st = WsFrameReady f \<longrightarrow> length f \<le> kMaxMessageBytes)"
proof (induction p rule: ws_loop.induct)
  case (1 p)
  show ?case
  proof (cases "ws_head (expect_masked p) (fp_buf p)")
    case HeadNeed
    with 1 ws_head_need [OF HeadNeed] show ?thesis by (auto simp: ws_loop.simps [of p])
  next
    case (HeadError msg)
    with 1 show ?thesis by (auto simp: ws_loop.simps [of p] ws_fail_def)
  next
    case (HeadFrame fin opc pl rest)
    have b: "parser_bounded (p\<lparr>fp_buf := rest\<rparr>)" using 1(2) by (simp add: parser_bounded_def)
    show ?thesis
    proof (cases "ws_frame fin opc pl (p\<lparr>fp_buf := rest\<rparr>)")
      case (Inl r)
      with 1 HeadFrame ws_frame_bounded(1) [OF b Inl] show ?thesis by (simp add: ws_loop.simps [of p])
    next
      case (Inr r)
      with 1(3) HeadFrame have "r = (st, q)" by (simp add: ws_loop.simps [of p])
      with Inr ws_frame_bounded(2-4) [OF b] show ?thesis by blast
    qed
  qed
qed

lemma ws_drain_bounded:
  "parser_bounded p \<Longrightarrow>
     (\<forall>f\<in>set (fst (ws_drain_parser p)). length f \<le> kMaxMessageBytes) \<and>
     (\<forall>q. snd (ws_drain_parser p) = Some q \<longrightarrow> parser_bounded q \<and> length (fp_buf q) < 14 + kMaxMessageBytes)"
proof (induction p rule: ws_drain_parser.induct)
  case (1 p)
  show ?case
  proof (cases "fp_error p = ''''")
    case True
    obtain st q where l: "ws_loop p = (st, q)" by fastforce
    then have t: "ws_try_pop p = (st, q)" using True by (simp add: ws_try_pop_def)
    note lb = ws_loop_bounded [OF 1(2) l]
    show ?thesis
      using 1(1) [OF t [symmetric]] lb t
      by (cases st) (auto simp: ws_drain_parser.simps [of p] case_prod_beta)
  next
    case False
    then show ?thesis by (auto simp: ws_drain_parser.simps [of p] ws_try_pop_def)
  qed
qed

lemma ws_drain_init: "ws_drain (Some (frame_parser_init e)) = ([], Some (frame_parser_init e))"
proof -
  have "ws_head e [] = HeadNeed" by (simp add: ws_head_def)
  then have "ws_try_pop (frame_parser_init e) = (WsNeedMore, frame_parser_init e)"
    by (simp add: ws_try_pop_def ws_loop.simps [of "frame_parser_init e"]) (simp add: frame_parser_init_def)
  then show ?thesis by (simp add: ws_drain_parser.simps [of "frame_parser_init e"])
qed

subsection \<open>Properties\<close>

text \<open>C26. WebSocket round trip: binary messages that a client frames and masks, with any masks,
  come out of the server's parser in order, complete and unmasked, however the transport cut
  the byte stream; the connection stays open and the parser is left as it started.\<close>

theorem ws_client_to_server:
  assumes "\<forall>(k, pl)\<in>set ms. length k = 4 \<and> length pl \<le> kMaxMessageBytes"
    and "concat chunks = concat (map (\<lambda>(k, pl). build_client_binary_frame k pl) ms)"
  shows "read_all ws_feed ws_drain (Some (frame_parser_init True)) chunks =
    (map snd ms, Some (frame_parser_init True))"
  unfolding ws.read_all_concat [OF ws_drain_init]
  using ws_drain_masked [OF assms(1), of "fp_feed (frame_parser_init True) (concat chunks)"] assms(2)
  by (simp add: fp_feed_def frame_parser_init_def)

theorem ws_client_to_server_witness:
  "read_all ws_feed ws_drain (Some (frame_parser_init True))
     [[0x82, 0x82, 1, 2], [3, 4, 8], [10, 0x82, 0x80, 0, 0, 0, 0]] = ([[9, 8], []], Some (frame_parser_init True))"
proof -
  have "concat [[0x82, 0x82, 1, 2], [3, 4, 8], [10, 0x82, 0x80, 0, 0, 0, 0]] =
      concat (map (\<lambda>(k, pl). build_client_binary_frame k pl) [([1, 2, 3, 4], [9, 8]), ([0, 0, 0, 0], [])])"
    by (simp add: build_client_binary_frame_def build_masked_frame_def apply_mask_def upt_rec)
  from ws_client_to_server [OF _ this] show ?thesis by (simp add: kMaxMessageBytes_def)
qed

text \<open>Bounded memory of the frame parser: whatever bytes arrive in whatever chunks, no message
  handed over exceeds \<open>kMaxMessageBytes\<close>, and while the connection is open the parser holds less
  than one maximal frame (14 header bytes) and at most one maximal partial message.\<close>

theorem ws_parser_bounded:
  "(\<forall>f\<in>set (fst (read_all ws_feed ws_drain (Some (frame_parser_init e)) chunks)). length f \<le> kMaxMessageBytes) \<and>
   (case snd (read_all ws_feed ws_drain (Some (frame_parser_init e)) chunks) of None \<Rightarrow> True
    | Some q \<Rightarrow> length (partial q) \<le> kMaxMessageBytes \<and> length (fp_buf q) < 14 + kMaxMessageBytes)"
proof -
  have "parser_bounded (fp_feed (frame_parser_init e) (concat chunks))"
    by (simp add: parser_bounded_def fp_feed_def frame_parser_init_def)
  from ws_drain_bounded [OF this] show ?thesis
    unfolding ws.read_all_concat [OF ws_drain_init]
    by (auto simp: parser_bounded_def split: option.splits)
qed

theorem ws_parser_bounded_witness:
  "fst (read_all ws_feed ws_drain (Some (frame_parser_init True)) [[0x82, 0x82, 1, 2], [3, 4, 8, 10]]) = [[9, 8]] \<and>
   length (hd (fst (read_all ws_feed ws_drain (Some (frame_parser_init True)) [[0x82, 0x82, 1, 2], [3, 4, 8, 10]]))) \<le> kMaxMessageBytes"
proof -
  have "fst (read_all ws_feed ws_drain (Some (frame_parser_init True)) [[0x82, 0x82, 1, 2], [3, 4, 8, 10]]) = [[9, 8]]"
    by (simp add: ws.read_all_concat [OF ws_drain_init] frame_parser_init_def fp_feed_def
        ws_drain_parser.simps ws_try_pop_def ws_loop.simps ws_head_def ws_length_def apply_mask_def
        kMaxMessageBytes_def upt_rec ws_frame_def)
  with ws_parser_bounded [of True "[[0x82, 0x82, 1, 2], [3, 4, 8, 10]]"] show ?thesis by simp
qed

end
