(* ===== verification/Unordered_Map.thy ===== *)
theory Unordered_Map
  imports Prelude "HOL-Library.AList"
begin

text \<open>
  \<open>std::unordered_map\<close> as an association list with distinct keys. The order of the list stands
  for the iteration order, which the container leaves unspecified. \<open>um_find\<close> is \<open>find\<close>, \<open>um_put\<close>
  is \<open>m[k] = v\<close>, \<open>um_erase\<close> is \<open>erase(k)\<close>; the vector valued maps of the relay use \<open>m[k]\<close> with its
  default value, \<open>um_at\<close>.
\<close>

type_synonym ('k, 'v) umap = "('k \<times> 'v) list"

definition um_find :: "('k, 'v) umap \<Rightarrow> 'k \<Rightarrow> 'v option" where
  "um_find m k = map_of m k"

definition um_put :: "'k \<Rightarrow> 'v \<Rightarrow> ('k, 'v) umap \<Rightarrow> ('k, 'v) umap" where
  "um_put k v m = AList.update k v m"

definition um_erase :: "'k \<Rightarrow> ('k, 'v) umap \<Rightarrow> ('k, 'v) umap" where
  "um_erase k m = AList.delete k m"

definition um_at :: "('k, 'v list) umap \<Rightarrow> 'k \<Rightarrow> 'v list" where
  "um_at m k = (case um_find m k of None \<Rightarrow> [] | Some v \<Rightarrow> v)"

definition um_ok :: "('k, 'v) umap \<Rightarrow> bool" where
  "um_ok m \<longleftrightarrow> distinct (map fst m)"

lemma um_find_Nil [simp]: "um_find [] k = None"
  by (simp add: um_find_def)

lemma um_find_put [simp]: "um_find (um_put k v m) j = (if j = k then Some v else um_find m j)"
  by (simp add: um_find_def um_put_def update_conv')

lemma um_find_erase [simp]: "um_find (um_erase k m) j = (if j = k then None else um_find m j)"
  by (simp add: um_find_def um_erase_def delete_conv')

lemma um_at_put [simp]: "um_at (um_put k v m) j = (if j = k then v else um_at m j)"
  by (simp add: um_at_def)

lemma um_at_erase [simp]: "um_at (um_erase k m) j = (if j = k then [] else um_at m j)"
  by (simp add: um_at_def)

lemma um_at_Nil [simp]: "um_at [] k = []"
  by (simp add: um_at_def)

lemma um_ok_Nil [simp]: "um_ok []"
  by (simp add: um_ok_def)

lemma um_ok_put [simp]: "um_ok m \<Longrightarrow> um_ok (um_put k v m)"
  by (simp add: um_ok_def um_put_def distinct_update)

lemma um_ok_erase [simp]: "um_ok m \<Longrightarrow> um_ok (um_erase k m)"
  by (simp add: um_ok_def um_erase_def distinct_delete)

lemma um_find_mem: "um_ok m \<Longrightarrow> (k, v) \<in> set m \<longleftrightarrow> um_find m k = Some v"
  by (simp add: um_ok_def um_find_def)

end
