(* ===== verification/Membership.thy ===== *)
theory Membership
  imports Unordered_Map
begin

text \<open>
  The two-way membership index that the relay keeps twice, for channel subscriptions and for
  call rooms (\<open>server/src/relay.cpp\<close>): a map from group to connections and a map from connection
  to groups, so that a disconnect can be undone without scanning. The locale \<open>membership\<close> states
  what clients of such an index rely on; the operations of the relay interpret it.
\<close>

subsection \<open>Operations\<close>

record ('m, 'g) index =
  members_of :: "('g, 'm list) umap"
  groups_of :: "('m, 'g list) umap"

definition index_empty :: "('m, 'g) index" where
  "index_empty = \<lparr>members_of = [], groups_of = []\<rparr>"

text \<open>\<open>if (std::find(v.begin(), v.end(), x) == v.end()) v.push_back(x)\<close>\<close>

definition push_unique :: "'a \<Rightarrow> 'a list \<Rightarrow> 'a list" where
  "push_unique x v = (if x \<in> set v then v else v @ [x])"

text \<open>\<open>v.erase(std::remove(v.begin(), v.end(), x), v.end()); if (v.empty()) m.erase(it)\<close>, when the key is present.\<close>

definition remove_at :: "'k \<Rightarrow> 'a \<Rightarrow> ('k, 'a list) umap \<Rightarrow> ('k, 'a list) umap" where
  "remove_at k x m =
     (case um_find m k of
        None \<Rightarrow> m
      | Some v \<Rightarrow> (let v = removeAll x v in if v = [] then um_erase k m else um_put k v m))"

definition index_join :: "'m \<Rightarrow> 'g \<Rightarrow> ('m, 'g) index \<Rightarrow> ('m, 'g) index" where
  "index_join fd key i =
     i\<lparr>members_of := um_put key (push_unique fd (um_at (members_of i) key)) (members_of i),
       groups_of := um_put fd (push_unique key (um_at (groups_of i) fd)) (groups_of i)\<rparr>"

definition index_leave :: "'m \<Rightarrow> 'g \<Rightarrow> ('m, 'g) index \<Rightarrow> ('m, 'g) index" where
  "index_leave fd key i =
     i\<lparr>members_of := remove_at key fd (members_of i), groups_of := remove_at fd key (groups_of i)\<rparr>"

definition index_drop :: "'m \<Rightarrow> ('m, 'g) index \<Rightarrow> ('m, 'g) index" where
  "index_drop fd i =
     (case um_find (groups_of i) fd of
        None \<Rightarrow> i
      | Some keys \<Rightarrow>
          i\<lparr>members_of := foldl (\<lambda>m key. remove_at key fd m) (members_of i) keys,
            groups_of := um_erase fd (groups_of i)\<rparr>)"

definition index_members :: "('m, 'g) index \<Rightarrow> 'g \<Rightarrow> 'm list" where
  "index_members i key = um_at (members_of i) key"

definition index_groups :: "('m, 'g) index \<Rightarrow> 'm \<Rightarrow> 'g list" where
  "index_groups i fd = um_at (groups_of i) fd"

subsection \<open>The interface\<close>

locale membership =
  fixes invar :: "'i \<Rightarrow> bool"
    and join leave :: "'m \<Rightarrow> 'g \<Rightarrow> 'i \<Rightarrow> 'i"
    and drop_all :: "'m \<Rightarrow> 'i \<Rightarrow> 'i"
    and members :: "'i \<Rightarrow> 'g \<Rightarrow> 'm list"
    and groups :: "'i \<Rightarrow> 'm \<Rightarrow> 'g list"
  assumes invar_join: "invar i \<Longrightarrow> invar (join m g i)"
    and invar_leave: "invar i \<Longrightarrow> invar (leave m g i)"
    and invar_drop: "invar i \<Longrightarrow> invar (drop_all m i)"
    and members_join: "invar i \<Longrightarrow> set (members (join m g i) h) = (if h = g then insert m (set (members i h)) else set (members i h))"
    and members_leave: "invar i \<Longrightarrow> set (members (leave m g i) h) = (if h = g then set (members i h) - {m} else set (members i h))"
    and members_drop: "invar i \<Longrightarrow> set (members (drop_all m i) h) = set (members i h) - {m}"
    and groups_iff: "invar i \<Longrightarrow> g \<in> set (groups i m) \<longleftrightarrow> m \<in> set (members i g)"
    and members_distinct: "invar i \<Longrightarrow> distinct (members i g)"
begin

text \<open>The relation that an index stands for, and what the operations do to it.\<close>

definition rel :: "'i \<Rightarrow> ('m \<times> 'g) set" where
  "rel i = {(m, g). m \<in> set (members i g)}"

lemma rel_join: "invar i \<Longrightarrow> rel (join m g i) = insert (m, g) (rel i)"
  by (auto simp: rel_def members_join split: if_splits)

lemma rel_leave: "invar i \<Longrightarrow> rel (leave m g i) = rel i - {(m, g)}"
  by (auto simp: rel_def members_leave split: if_splits)

lemma rel_drop: "invar i \<Longrightarrow> rel (drop_all m i) = rel i - {m} \<times> UNIV"
  by (auto simp: rel_def members_drop)

lemma drop_groups:
  assumes "invar i"
  shows "groups (drop_all m i) m = []"
proof -
  have "g \<notin> set (groups (drop_all m i) m)" for g
    using groups_iff [OF invar_drop [OF assms]] members_drop [OF assms] by simp
  then show ?thesis by (metis list.set_intros(1) neq_Nil_conv)
qed

end

subsection \<open>The index satisfies it\<close>

definition index_ok :: "('m, 'g) index \<Rightarrow> bool" where
  "index_ok i \<longleftrightarrow>
     (\<forall>g m. g \<in> set (um_at (groups_of i) m) \<longleftrightarrow> m \<in> set (um_at (members_of i) g)) \<and>
     (\<forall>g. distinct (um_at (members_of i) g)) \<and> (\<forall>m. distinct (um_at (groups_of i) m)) \<and>
     (\<forall>g. um_find (members_of i) g \<noteq> Some []) \<and> (\<forall>m. um_find (groups_of i) m \<noteq> Some [])"

lemma set_push_unique [simp]: "set (push_unique x v) = insert x (set v)"
  by (auto simp: push_unique_def)

lemma distinct_push_unique [simp]: "distinct (push_unique x v) = distinct v"
  by (auto simp: push_unique_def)

lemma push_unique_not_Nil [simp]: "push_unique x v \<noteq> []"
  by (auto simp: push_unique_def)

lemma um_at_remove_at [simp]: "um_at (remove_at k x m) j = (if j = k then removeAll x (um_at m k) else um_at m j)"
  by (auto simp: remove_at_def um_at_def Let_def split: option.splits)

lemma remove_at_no_Nil: "\<forall>j. um_find m j \<noteq> Some [] \<Longrightarrow> um_find (remove_at k x m) j \<noteq> Some []"
  by (auto simp: remove_at_def Let_def split: option.splits)

lemma um_at_fold_remove:
  "um_at (foldl (\<lambda>m key. remove_at key x m) m keys) j = (if j \<in> set keys then removeAll x (um_at m j) else um_at m j)"
  by (induction keys arbitrary: m) auto

lemma fold_remove_no_Nil:
  "\<forall>j. um_find m j \<noteq> Some [] \<Longrightarrow> um_find (foldl (\<lambda>m key. remove_at key x m) m keys) j \<noteq> Some []"
  by (induction keys arbitrary: m) (auto simp: remove_at_no_Nil)

lemma index_ok_empty [simp]: "index_ok index_empty"
  by (simp add: index_ok_def index_empty_def)

lemma um_at_drop:
  assumes "index_ok i"
  shows "um_at (members_of (index_drop fd i)) g = removeAll fd (um_at (members_of i) g)"
    and "um_at (groups_of (index_drop fd i)) m = (if m = fd then [] else um_at (groups_of i) m)"
proof -
  have out: "fd \<notin> set (um_at (members_of i) g)" if "g \<notin> set (um_at (groups_of i) fd)"
    using assms that by (auto simp: index_ok_def)
  then show "um_at (members_of (index_drop fd i)) g = removeAll fd (um_at (members_of i) g)"
    by (cases "um_find (groups_of i) fd") (auto simp: index_drop_def um_at_fold_remove um_at_def [of "groups_of i"])
  show "um_at (groups_of (index_drop fd i)) m = (if m = fd then [] else um_at (groups_of i) m)"
    by (cases "um_find (groups_of i) fd") (auto simp: index_drop_def um_at_def [of "groups_of i"])
qed

interpretation idx: membership index_ok index_join index_leave index_drop index_members index_groups
proof
  fix i :: "('m, 'g) index" and m :: 'm and g h :: 'g
  assume ok: "index_ok i"
  note d = um_at_drop [OF ok]
  show "index_ok (index_join m g i)"
    using ok by (auto simp: index_ok_def index_join_def)
  show "index_ok (index_leave m g i)"
    using ok by (auto simp: index_ok_def index_leave_def remove_at_no_Nil distinct_removeAll)
  have "um_find (members_of (index_drop m i)) g \<noteq> Some []" "um_find (groups_of (index_drop m i)) n \<noteq> Some []" for g n
    using ok by (auto simp: index_ok_def index_drop_def fold_remove_no_Nil split: option.splits)
  then show "index_ok (index_drop m i)"
    using ok by (auto simp: index_ok_def d distinct_removeAll)
  show "set (index_members (index_join m g i) h) =
      (if h = g then insert m (set (index_members i h)) else set (index_members i h))"
    by (simp add: index_members_def index_join_def)
  show "set (index_members (index_leave m g i) h) =
      (if h = g then set (index_members i h) - {m} else set (index_members i h))"
    by (simp add: index_members_def index_leave_def)
  show "set (index_members (index_drop m i) h) = set (index_members i h) - {m}"
    by (simp add: index_members_def d)
  show "g \<in> set (index_groups i m) \<longleftrightarrow> m \<in> set (index_members i g)"
    using ok by (simp add: index_ok_def index_members_def index_groups_def)
  show "distinct (index_members i g)"
    using ok by (simp add: index_ok_def index_members_def)
qed

end
