(* ===== verification/Directory.thy ===== *)
theory Directory
  imports Unordered_Map
begin

text \<open>
  The user directory of the relay, \<open>server/src/directory.cpp\<close>, and the server tables of the
  SQLite store it mirrors to (\<open>srv_*\<close> of \<open>core/src/store/sqlite_store.cpp\<close>). A table is the list
  of its rows in insertion order; \<open>INSERT ... ON CONFLICT DO UPDATE\<close> is \<open>um_put\<close> on the primary key.
  Directory and offline queue share one store, so every operation takes and returns it; \<open>None\<close>
  means that persistence is off.
\<close>

subsection \<open>The server tables\<close>

record srv_tables =
  srv_offline :: "(bytes \<times> bytes \<times> u64) list"
  srv_directory :: "(bytes, bytes) umap"
  srv_prekey_bundles :: "(bytes, bytes) umap"

definition srv_offline_enqueue :: "bytes \<Rightarrow> bytes \<Rightarrow> u64 \<Rightarrow> srv_tables \<Rightarrow> srv_tables" where
  "srv_offline_enqueue rcpt envelope ts t = t\<lparr>srv_offline := srv_offline t @ [(rcpt, envelope, ts)]\<rparr>"

definition srv_offline_drain :: "bytes \<Rightarrow> srv_tables \<Rightarrow> bytes list \<times> srv_tables" where
  "srv_offline_drain rcpt t =
     (map (\<lambda>(r, e, ts). e) (filter (\<lambda>(r, e, ts). r = rcpt) (srv_offline t)),
      t\<lparr>srv_offline := filter (\<lambda>(r, e, ts). r \<noteq> rcpt) (srv_offline t)\<rparr>)"

definition srv_register_user :: "bytes \<Rightarrow> bytes \<Rightarrow> srv_tables \<Rightarrow> srv_tables" where
  "srv_register_user username pubkey t = t\<lparr>srv_directory := um_put (c_str username) pubkey (srv_directory t)\<rparr>"

definition srv_resolve_username :: "bytes \<Rightarrow> srv_tables \<Rightarrow> bytes option" where
  "srv_resolve_username username t = um_find (srv_directory t) (c_str username)"

definition srv_reverse_resolve_pubkey :: "bytes \<Rightarrow> srv_tables \<Rightarrow> bytes option" where
  "srv_reverse_resolve_pubkey pubkey t = map_option fst (List.find (\<lambda>(n, p). p = pubkey) (srv_directory t))"

definition srv_put_prekey_bundle :: "bytes \<Rightarrow> bytes \<Rightarrow> srv_tables \<Rightarrow> srv_tables" where
  "srv_put_prekey_bundle owner bundle t = t\<lparr>srv_prekey_bundles := um_put owner bundle (srv_prekey_bundles t)\<rparr>"

definition srv_get_prekey_bundle :: "bytes \<Rightarrow> srv_tables \<Rightarrow> bytes option" where
  "srv_get_prekey_bundle owner t = um_find (srv_prekey_bundles t) owner"

subsection \<open>The directory\<close>

record directory =
  name_to_pub :: "(bytes, bytes) umap"
  name_to_bundle :: "(bytes, bytes) umap"
  dir_store :: "srv_tables option"

definition directory_init :: "srv_tables option \<Rightarrow> directory" where
  "directory_init st = \<lparr>name_to_pub = [], name_to_bundle = [], dir_store = st\<rparr>"

definition register_user :: "bytes \<Rightarrow> bytes \<Rightarrow> directory \<Rightarrow> bool \<times> directory" where
  "register_user username pubkey d =
     (case um_find (name_to_pub d) username of
        Some p \<Rightarrow> (length p = length pubkey \<and> p = pubkey, d)
      | None \<Rightarrow>
          (True, d\<lparr>name_to_pub := um_put username pubkey (name_to_pub d),
                   dir_store := map_option (srv_register_user username pubkey) (dir_store d)\<rparr>))"

definition put_bundle :: "bytes \<Rightarrow> bytes \<Rightarrow> directory \<Rightarrow> directory" where
  "put_bundle key blob d =
     d\<lparr>name_to_bundle := um_put key blob (name_to_bundle d),
       dir_store := map_option (srv_put_prekey_bundle key blob) (dir_store d)\<rparr>"

definition get_bundle :: "bytes \<Rightarrow> directory \<Rightarrow> bytes option \<times> directory" where
  "get_bundle key d =
     (case um_find (name_to_bundle d) key of
        Some b \<Rightarrow> (Some b, d)
      | None \<Rightarrow>
          (case Option.bind (dir_store d) (srv_get_prekey_bundle key) of
             Some b \<Rightarrow> (Some b, d\<lparr>name_to_bundle := um_put key b (name_to_bundle d)\<rparr>)
           | None \<Rightarrow> (None, d)))"

definition resolve :: "bytes \<Rightarrow> directory \<Rightarrow> bytes option \<times> directory" where
  "resolve username d =
     (case um_find (name_to_pub d) username of
        Some p \<Rightarrow> (Some p, d)
      | None \<Rightarrow>
          (case Option.bind (dir_store d) (srv_resolve_username username) of
             Some p \<Rightarrow> (Some p, d\<lparr>name_to_pub := um_put username p (name_to_pub d)\<rparr>)
           | None \<Rightarrow> (None, d)))"

definition reverse_resolve :: "bytes \<Rightarrow> directory \<Rightarrow> bytes option \<times> directory" where
  "reverse_resolve pubkey d =
     (case List.find (\<lambda>(n, p). length p = length pubkey \<and> p = pubkey) (name_to_pub d) of
        Some (n, p) \<Rightarrow> (Some n, d)
      | None \<Rightarrow>
          (case Option.bind (dir_store d) (srv_reverse_resolve_pubkey pubkey) of
             Some n \<Rightarrow> (Some n, d\<lparr>name_to_pub := um_put n pubkey (name_to_pub d)\<rparr>)
           | None \<Rightarrow> (None, d)))"

subsection \<open>A running directory\<close>

datatype dir_event =
    Register bytes bytes
  | PutBundle bytes bytes
  | GetBundle bytes
  | Resolve bytes
  | ReverseResolve bytes

fun dir_step :: "directory \<Rightarrow> dir_event \<Rightarrow> directory" where
  "dir_step d (Register u k) = snd (register_user u k d)"
| "dir_step d (PutBundle k b) = put_bundle k b d"
| "dir_step d (GetBundle k) = snd (get_bundle k d)"
| "dir_step d (Resolve u) = snd (resolve u d)"
| "dir_step d (ReverseResolve k) = snd (reverse_resolve k d)"

text \<open>What the directory knows agrees with what the store would answer.\<close>

definition dir_ok :: "directory \<Rightarrow> bool" where
  "dir_ok d \<longleftrightarrow> um_ok (name_to_pub d) \<and> (\<forall>u k. um_find (name_to_pub d) u = Some k \<longrightarrow> 0 \<notin> set u) \<and>
     (\<forall>t. dir_store d = Some t \<longrightarrow>
        um_ok (srv_directory t) \<and>
        (\<forall>u k. um_find (srv_directory t) u = Some k \<longrightarrow> 0 \<notin> set u) \<and>
        (\<forall>u k. um_find (name_to_pub d) u = Some k \<longrightarrow> um_find (srv_directory t) u = Some k))"

fun nul_free :: "dir_event \<Rightarrow> bool" where
  "nul_free (Register u k) = (0 \<notin> set u)"
| "nul_free (Resolve u) = (0 \<notin> set u)"
| "nul_free _ = True"

lemma find_row:
  assumes "um_ok m" and "List.find (\<lambda>(n, p). p = k) m = Some (n, p)"
  shows "um_find m n = Some k"
  using assms by (auto simp: find_Some_iff um_find_mem [symmetric] in_set_conv_nth)

lemma srv_reverse_row:
  "um_ok (srv_directory t) \<Longrightarrow> srv_reverse_resolve_pubkey k t = Some n \<Longrightarrow> um_find (srv_directory t) n = Some k"
  by (auto simp: srv_reverse_resolve_pubkey_def dest: find_row)

lemma dir_ok_init: "um_ok (srv_directory t) \<Longrightarrow> \<forall>u k. um_find (srv_directory t) u = Some k \<longrightarrow> 0 \<notin> set u \<Longrightarrow>
  dir_ok (directory_init (Some t))" "dir_ok (directory_init None)"
  by (simp_all add: dir_ok_def directory_init_def)

lemma dir_ok_learn:
  "dir_ok d \<Longrightarrow> dir_store d = Some t \<Longrightarrow> um_find (srv_directory t) u = Some k \<Longrightarrow>
     dir_ok (d\<lparr>name_to_pub := um_put u k (name_to_pub d)\<rparr>)"
  by (auto simp: dir_ok_def)

lemma dir_ok_step:
  assumes "dir_ok d" "nul_free e"
  shows "dir_ok (dir_step d e)"
proof (cases e)
  case (Register u k)
  with assms show ?thesis
    by (auto simp: register_user_def dir_ok_def srv_register_user_def split: option.splits if_splits)
next
  case (PutBundle k b)
  with assms show ?thesis by (auto simp: put_bundle_def dir_ok_def srv_put_prekey_bundle_def)
next
  case (GetBundle k)
  with assms show ?thesis by (auto simp: get_bundle_def dir_ok_def split: option.splits)
next
  case (Resolve u)
  with assms show ?thesis
    by (auto simp: resolve_def srv_resolve_username_def bind_eq_Some_conv intro: dir_ok_learn split: option.splits)
next
  case (ReverseResolve k)
  with assms show ?thesis
    by (auto simp: reverse_resolve_def bind_eq_Some_conv dir_ok_def [of d] intro!: dir_ok_learn srv_reverse_row split: option.splits)
qed

lemma dir_step_keeps:
  assumes "dir_ok d" "um_find (name_to_pub d) u = Some k"
  shows "um_find (name_to_pub (dir_step d e)) u = Some k"
proof (cases e)
  case (ReverseResolve k')
  have "n = u \<Longrightarrow> k' = k" if "dir_store d = Some t" "srv_reverse_resolve_pubkey k' t = Some n" for t n
    using srv_reverse_row [OF _ that(2)] that(1) assms by (auto simp: dir_ok_def)
  with ReverseResolve assms show ?thesis by (auto simp: reverse_resolve_def bind_eq_Some_conv split: option.splits)
qed (use assms in \<open>auto simp: register_user_def put_bundle_def get_bundle_def resolve_def split: option.splits\<close>)

lemma dir_run:
  "dir_ok d \<Longrightarrow> \<forall>e\<in>set es. nul_free e \<Longrightarrow>
     dir_ok (foldl dir_step d es) \<and>
     (\<forall>u k. um_find (name_to_pub d) u = Some k \<longrightarrow> um_find (name_to_pub (foldl dir_step d es)) u = Some k)"
  by (induction es arbitrary: d) (auto simp: dir_ok_step dir_step_keeps)

subsection \<open>Properties\<close>

text \<open>C35. A username stays with its key for the lifetime of the server process: once a name is
  registered, no later operation changes its key, lookups keep answering that key, and
  registration by any other key is refused. (Names contain no zero byte.)\<close>

theorem directory_binding_permanent:
  assumes "dir_ok d" and "register_user u k d = (True, d1)" and "0 \<notin> set u"
    and "\<forall>e\<in>set es. nul_free e" and "k' \<noteq> k"
  shows "fst (resolve u (foldl dir_step d1 es)) = Some k \<and>
    register_user u k' (foldl dir_step d1 es) = (False, foldl dir_step d1 es)"
proof -
  have "dir_ok d1" using dir_ok_step [OF assms(1), of "Register u k"] assms(2,3) by simp
  moreover have "um_find (name_to_pub d1) u = Some k"
    using assms(2) by (auto simp: register_user_def split: option.splits)
  ultimately have "um_find (name_to_pub (foldl dir_step d1 es)) u = Some k"
    using dir_run assms(4) by blast
  then show ?thesis using assms(5) by (simp add: resolve_def register_user_def)
qed

theorem directory_binding_permanent_witness:
  "fst (resolve [97] (foldl dir_step (snd (register_user [97] [1] (directory_init None))) [Register [97] [2], Resolve [98]])) = Some [1]"
proof -
  have "register_user [97] [1] (directory_init None) = (True, snd (register_user [97] [1] (directory_init None)))"
    by (simp add: register_user_def directory_init_def)
  from directory_binding_permanent [OF dir_ok_init(2) this, of "[Register [97] [2], Resolve [98]]" "[2]"]
  show ?thesis by simp
qed

text \<open>A name that \<open>reverse_resolve\<close> reports resolves to the key it was asked about.\<close>

theorem reverse_resolve_sound:
  assumes "dir_ok d" and "reverse_resolve k d = (Some n, d')"
  shows "fst (resolve n d') = Some k"
proof (cases "List.find (\<lambda>(n, p). length p = length k \<and> p = k) (name_to_pub d)")
  case None
  with assms(2) show ?thesis by (auto simp: reverse_resolve_def resolve_def split: option.splits)
next
  case (Some r)
  then obtain p where "r = (n, p)" "d' = d" using assms(2) by (cases r) (auto simp: reverse_resolve_def)
  moreover have eq: "(\<lambda>(n :: bytes, p). length p = length k \<and> p = k) = (\<lambda>(n, p). p = k)" by auto
  ultimately have "um_find (name_to_pub d) n = Some k"
    using Some assms(1) find_row [of "name_to_pub d" k n p] unfolding eq by (auto simp: dir_ok_def)
  with \<open>d' = d\<close> show ?thesis by (simp add: resolve_def)
qed

theorem reverse_resolve_sound_witness:
  "\<exists>d'. reverse_resolve [1] (snd (register_user [97] [1] (directory_init None))) = (Some [97], d') \<and>
     fst (resolve [97] d') = Some [1]"
proof -
  have ok: "dir_ok (snd (register_user [97] [1] (directory_init None)))"
    using dir_ok_step [OF dir_ok_init(2), of "Register [97] [1]"] by simp
  have "reverse_resolve [1] (snd (register_user [97] [1] (directory_init None))) =
      (Some [97], snd (register_user [97] [1] (directory_init None)))"
    by (simp add: reverse_resolve_def register_user_def directory_init_def um_put_def)
  with reverse_resolve_sound [OF ok this] show ?thesis by blast
qed

text \<open>A restart gives usernames away: with persistence on, a server process that has not yet
  looked up a name registers it for any key that asks, although the store holds another key for
  it, and overwrites the stored row. \<open>register_user\<close> consults only the in-memory map.\<close>

theorem directory_restart_takeover:
  assumes "register_user u k (directory_init (Some t)) = (True, d1)"
    and "dir_store d1 = Some t1" and "k' \<noteq> k"
  shows "srv_resolve_username u t1 = Some k \<and>
    (\<exists>d2. register_user u k' (directory_init (Some t1)) = (True, d2) \<and> fst (resolve u d2) = Some k' \<and>
       Option.bind (dir_store d2) (srv_resolve_username u) = Some k')"
  using assms by (auto simp: register_user_def directory_init_def srv_register_user_def
      srv_resolve_username_def resolve_def)

theorem directory_restart_takeover_witness:
  "\<exists>d2. register_user [97] [2] (directory_init (Some \<lparr>srv_offline = [], srv_directory = [([97], [1])], srv_prekey_bundles = []\<rparr>)) =
      (True, d2) \<and> fst (resolve [97] d2) = Some [2]"
  using directory_restart_takeover [of "[97]" "[1]" "\<lparr>srv_offline = [], srv_directory = [], srv_prekey_bundles = []\<rparr>"
      _ "\<lparr>srv_offline = [], srv_directory = [([97], [1])], srv_prekey_bundles = []\<rparr>" "[2]"]
  by (auto simp: register_user_def directory_init_def srv_register_user_def c_str_def um_put_def)

end
