(* ===== verification/Relay.thy ===== *)
theory Relay
  imports Membership Directory
begin

text \<open>
  The connection book of the relay, \<open>server/src/relay.cpp\<close>: which connection serves which user,
  the offline queues, channel subscriptions and call rooms. Connections are file descriptors
  (\<open>int\<close>), users, channels and rooms are byte strings. The optional SQLite store that makes the
  offline queue persistent is passed in and out.
\<close>

subsection \<open>Operations\<close>

record relay =
  user_to_fd :: "(bytes, int) umap"
  fd_to_user :: "(int, bytes) umap"
  offline :: "(bytes, bytes list) umap"
  channels :: "(int, bytes) index"
  rooms :: "(int, bytes) index"

definition kMaxQueued :: nat where
  "kMaxQueued = 1024"

definition relay_init :: relay where
  "relay_init = \<lparr>user_to_fd = [], fd_to_user = [], offline = [], channels = index_empty, rooms = index_empty\<rparr>"

definition bind_user :: "int \<Rightarrow> bytes \<Rightarrow> relay \<Rightarrow> relay" where
  "bind_user fd key r =
     (let r = (case um_find (user_to_fd r) key of
                 Some old \<Rightarrow> r\<lparr>fd_to_user := um_erase old (fd_to_user r)\<rparr>
               | None \<Rightarrow> r)
      in r\<lparr>user_to_fd := um_put key fd (user_to_fd r), fd_to_user := um_put fd key (fd_to_user r)\<rparr>)"

definition unbind :: "int \<Rightarrow> relay \<Rightarrow> relay" where
  "unbind fd r =
     (case um_find (fd_to_user r) fd of
        None \<Rightarrow> r
      | Some user \<Rightarrow>
          (let r = (if um_find (user_to_fd r) user = Some fd
                    then r\<lparr>user_to_fd := um_erase user (user_to_fd r)\<rparr> else r)
           in r\<lparr>fd_to_user := um_erase fd (fd_to_user r)\<rparr>))"

definition lookup_fd :: "bytes \<Rightarrow> relay \<Rightarrow> int" where
  "lookup_fd key r = (case um_find (user_to_fd r) key of None \<Rightarrow> - 1 | Some fd \<Rightarrow> fd)"

definition enqueue_offline ::
  "u64 \<Rightarrow> bytes \<Rightarrow> bytes \<Rightarrow> srv_tables option \<Rightarrow> relay \<Rightarrow> relay \<times> srv_tables option" where
  "enqueue_offline now_ms key envelope st r =
     (case st of
        Some t \<Rightarrow> (r, Some (srv_offline_enqueue key envelope now_ms t))
      | None \<Rightarrow>
          (let q = um_at (offline r) key;
               q = (if kMaxQueued \<le> length q then tl q else q)
           in (r\<lparr>offline := um_put key (q @ [envelope]) (offline r)\<rparr>, None)))"

definition drain_offline :: "bytes \<Rightarrow> srv_tables option \<Rightarrow> relay \<Rightarrow> bytes list \<times> relay \<times> srv_tables option" where
  "drain_offline key st r =
     (case st of
        Some t \<Rightarrow> (let (rows, t) = srv_offline_drain key t in (rows, r, Some t))
      | None \<Rightarrow>
          (case um_find (offline r) key of
             None \<Rightarrow> ([], r, None)
           | Some q \<Rightarrow> (q, r\<lparr>offline := um_erase key (offline r)\<rparr>, None)))"

definition channel_subscribe :: "int \<Rightarrow> bytes \<Rightarrow> relay \<Rightarrow> relay" where
  "channel_subscribe fd group_id r = r\<lparr>channels := index_join fd group_id (channels r)\<rparr>"

definition channel_unsubscribe :: "int \<Rightarrow> bytes \<Rightarrow> relay \<Rightarrow> relay" where
  "channel_unsubscribe fd group_id r = r\<lparr>channels := index_leave fd group_id (channels r)\<rparr>"

definition channel_subscribers :: "bytes \<Rightarrow> relay \<Rightarrow> int list" where
  "channel_subscribers group_id r = index_members (channels r) group_id"

definition unbind_all_channels :: "int \<Rightarrow> relay \<Rightarrow> relay" where
  "unbind_all_channels fd r = r\<lparr>channels := index_drop fd (channels r)\<rparr>"

definition room_join :: "int \<Rightarrow> bytes \<Rightarrow> relay \<Rightarrow> relay" where
  "room_join fd room_id r = r\<lparr>rooms := index_join fd room_id (rooms r)\<rparr>"

definition room_leave :: "int \<Rightarrow> bytes \<Rightarrow> relay \<Rightarrow> relay" where
  "room_leave fd room_id r = r\<lparr>rooms := index_leave fd room_id (rooms r)\<rparr>"

definition room_member_fds :: "bytes \<Rightarrow> relay \<Rightarrow> int list" where
  "room_member_fds room_id r = index_members (rooms r) room_id"

definition room_member_rooms :: "int \<Rightarrow> relay \<Rightarrow> bytes list" where
  "room_member_rooms fd r = index_groups (rooms r) fd"

definition unbind_all_rooms :: "int \<Rightarrow> relay \<Rightarrow> relay" where
  "unbind_all_rooms fd r = r\<lparr>rooms := index_drop fd (rooms r)\<rparr>"

lemmas relay_frame_defs = bind_user_def unbind_def enqueue_offline_def drain_offline_def channel_subscribe_def
  channel_unsubscribe_def unbind_all_channels_def room_join_def room_leave_def unbind_all_rooms_def

subsection \<open>Invariant\<close>

text \<open>The two directions of the user table agree, and both indexes are consistent.\<close>

definition relay_ok :: "relay \<Rightarrow> bool" where
  "relay_ok r \<longleftrightarrow>
     (\<forall>u f. um_find (user_to_fd r) u = Some f \<longleftrightarrow> um_find (fd_to_user r) f = Some u) \<and>
     index_ok (channels r) \<and> index_ok (rooms r)"

lemma relay_ok_init [simp]: "relay_ok relay_init"
  by (simp add: relay_ok_def relay_init_def)

lemma relay_ok_inj:
  "relay_ok r \<Longrightarrow> um_find (fd_to_user r) f = Some u \<Longrightarrow> um_find (fd_to_user r) g = Some u \<Longrightarrow> f = g"
  by (metis relay_ok_def option.inject)

lemma relay_ok_offline:
  "relay_ok r \<Longrightarrow> um_find (user_to_fd r) u = None \<Longrightarrow> um_find (fd_to_user r) f \<noteq> Some u"
  by (metis relay_ok_def option.distinct(1))

lemma bind_user_tables:
  assumes "relay_ok r" and "um_find (fd_to_user r) fd = None \<or> um_find (fd_to_user r) fd = Some key"
  shows "um_find (user_to_fd (bind_user fd key r)) u = (if u = key then Some fd else um_find (user_to_fd r) u)"
    and "um_find (fd_to_user (bind_user fd key r)) f =
      (if f = fd then Some key else if um_find (fd_to_user r) f = Some key then None else um_find (fd_to_user r) f)"
  using assms relay_ok_inj [OF assms(1)] relay_ok_offline [OF assms(1), of key] by (auto simp: bind_user_def relay_ok_def Let_def split: option.splits)

lemma relay_ok_bind:
  assumes "relay_ok r" and "um_find (fd_to_user r) fd = None \<or> um_find (fd_to_user r) fd = Some key"
  shows "relay_ok (bind_user fd key r)"
proof -
  have "channels (bind_user fd key r) = channels r" "rooms (bind_user fd key r) = rooms r"
    by (auto simp: bind_user_def Let_def split: option.splits)
  with assms bind_user_tables [OF assms] show ?thesis by (auto simp: relay_ok_def split: if_splits)
qed

lemma unbind_tables:
  assumes "relay_ok r"
  shows "um_find (user_to_fd (unbind fd r)) u = (if um_find (user_to_fd r) u = Some fd then None else um_find (user_to_fd r) u)"
    and "um_find (fd_to_user (unbind fd r)) f = (if f = fd then None else um_find (fd_to_user r) f)"
  using assms by (auto simp: unbind_def relay_ok_def Let_def split: option.splits)

lemma relay_ok_unbind: "relay_ok r \<Longrightarrow> relay_ok (unbind fd r)"
proof -
  assume ok: "relay_ok r"
  have "channels (unbind fd r) = channels r" "rooms (unbind fd r) = rooms r"
    by (auto simp: unbind_def Let_def split: option.splits)
  with ok unbind_tables [OF ok] relay_ok_inj [OF ok] show ?thesis by (auto simp: relay_ok_def split: if_splits)
qed

lemma relay_ok_ops:
  "relay_ok r \<Longrightarrow> relay_ok (channel_subscribe fd g r)" "relay_ok r \<Longrightarrow> relay_ok (channel_unsubscribe fd g r)"
  "relay_ok r \<Longrightarrow> relay_ok (unbind_all_channels fd r)" "relay_ok r \<Longrightarrow> relay_ok (room_join fd g r)"
  "relay_ok r \<Longrightarrow> relay_ok (room_leave fd g r)" "relay_ok r \<Longrightarrow> relay_ok (unbind_all_rooms fd r)"
  "relay_ok r \<Longrightarrow> relay_ok (fst (enqueue_offline now u e st r))" "relay_ok r \<Longrightarrow> relay_ok (fst (snd (drain_offline u st r)))"
  by (auto simp: relay_ok_def relay_frame_defs Let_def case_prod_beta idx.invar_join idx.invar_leave idx.invar_drop
      split: option.splits)

subsection \<open>Operation sequences and their abstract meaning\<close>

datatype relay_op =
    Bind int bytes
  | Subscribe int bytes
  | Unsubscribe int bytes
  | JoinRoom int bytes
  | LeaveRoom int bytes
  | Disconnect int

text \<open>\<open>Disconnect\<close> is what \<open>close_conn\<close> does to the relay.\<close>

fun relay_step :: "relay \<Rightarrow> relay_op \<Rightarrow> relay" where
  "relay_step r (Bind fd u) = bind_user fd u r"
| "relay_step r (Subscribe fd g) = channel_subscribe fd g r"
| "relay_step r (Unsubscribe fd g) = channel_unsubscribe fd g r"
| "relay_step r (JoinRoom fd g) = room_join fd g r"
| "relay_step r (LeaveRoom fd g) = room_leave fd g r"
| "relay_step r (Disconnect fd) = unbind_all_rooms fd (unbind_all_channels fd (unbind fd r))"

record relay_spec =
  online :: "bytes \<Rightarrow> int option"
  subscribed :: "(int \<times> bytes) set"
  in_room :: "(int \<times> bytes) set"

fun spec_step :: "relay_spec \<Rightarrow> relay_op \<Rightarrow> relay_spec" where
  "spec_step s (Bind fd u) = s\<lparr>online := (online s)(u \<mapsto> fd)\<rparr>"
| "spec_step s (Subscribe fd g) = s\<lparr>subscribed := insert (fd, g) (subscribed s)\<rparr>"
| "spec_step s (Unsubscribe fd g) = s\<lparr>subscribed := subscribed s - {(fd, g)}\<rparr>"
| "spec_step s (JoinRoom fd g) = s\<lparr>in_room := insert (fd, g) (in_room s)\<rparr>"
| "spec_step s (LeaveRoom fd g) = s\<lparr>in_room := in_room s - {(fd, g)}\<rparr>"
| "spec_step s (Disconnect fd) =
     s\<lparr>online := (\<lambda>u. if online s u = Some fd then None else online s u),
       subscribed := subscribed s - {fd} \<times> UNIV, in_room := in_room s - {fd} \<times> UNIV\<rparr>"

definition relay_abs :: "relay \<Rightarrow> relay_spec" where
  "relay_abs r = \<lparr>online = um_find (user_to_fd r), subscribed = idx.rel (channels r), in_room = idx.rel (rooms r)\<rparr>"

text \<open>A connection is bound once: the server refuses a second hello.\<close>

fun binds_fresh :: "relay \<Rightarrow> relay_op list \<Rightarrow> bool" where
  "binds_fresh r [] = True"
| "binds_fresh r (ops # rest) =
     ((case ops of Bind fd u \<Rightarrow> um_find (fd_to_user r) fd \<in> {None, Some u} | _ \<Rightarrow> True) \<and> binds_fresh (relay_step r ops) rest)"

lemma relay_step_refines:
  assumes "relay_ok r" and "case ops of Bind fd u \<Rightarrow> um_find (fd_to_user r) fd \<in> {None, Some u} | _ \<Rightarrow> True"
  shows "relay_ok (relay_step r ops) \<and> relay_abs (relay_step r ops) = spec_step (relay_abs r) ops"
proof (cases ops)
  case (Bind fd u)
  then have fresh: "um_find (fd_to_user r) fd = None \<or> um_find (fd_to_user r) fd = Some u" using assms(2) by auto
  show ?thesis
    using relay_ok_bind [OF assms(1) fresh] bind_user_tables(1) [OF assms(1) fresh] Bind
    by (auto simp: relay_abs_def fun_eq_iff bind_user_def Let_def split: option.splits)
next
  case (Disconnect fd)
  have ok: "relay_ok (unbind fd r)" by (rule relay_ok_unbind [OF assms(1)])
  have "channels (unbind fd r) = channels r" "rooms (unbind fd r) = rooms r"
    by (auto simp: unbind_def Let_def split: option.splits)
  then show ?thesis
    using Disconnect ok assms(1) unbind_tables(1) [OF assms(1)]
    by (auto simp: relay_ok_ops relay_abs_def unbind_all_channels_def unbind_all_rooms_def idx.rel_drop relay_ok_def
        idx.invar_drop fun_eq_iff)
qed (use assms(1) in \<open>auto simp: relay_ok_ops relay_abs_def channel_subscribe_def channel_unsubscribe_def room_join_def
    room_leave_def idx.rel_join idx.rel_leave idx.invar_join idx.invar_leave relay_ok_def\<close>)
lemma relay_run_refines:
  "relay_ok r \<Longrightarrow> binds_fresh r ops \<Longrightarrow>
     relay_ok (foldl relay_step r ops) \<and> relay_abs (foldl relay_step r ops) = foldl spec_step (relay_abs r) ops"
  by (induction ops arbitrary: r) (simp_all add: relay_step_refines)

subsection \<open>Offline queues\<close>

fun enqueue_all :: "(u64 \<times> bytes \<times> bytes) list \<Rightarrow> relay \<times> srv_tables option \<Rightarrow> relay \<times> srv_tables option" where
  "enqueue_all [] rs = rs"
| "enqueue_all ((now, u, e) # rest) rs = enqueue_all rest (enqueue_offline now u e (snd rs) (fst rs))"

definition last_n :: "nat \<Rightarrow> 'a list \<Rightarrow> 'a list" where
  "last_n n xs = drop (length xs - n) xs"

lemma last_n_snoc:
  assumes "0 < n"
  shows "last_n n (xs @ [x]) = (if n \<le> length (last_n n xs) then tl (last_n n xs) else last_n n xs) @ [x]"
proof (cases "n \<le> length xs")
  case True
  have "tl (drop k xs) = drop (Suc k) xs" for k by (metis drop_Suc tl_drop)
  with True assms show ?thesis by (simp add: last_n_def Suc_diff_le)
qed (simp add: last_n_def)

lemma enqueue_all_memory:
  "um_at (offline r) u = last_n kMaxQueued sent \<Longrightarrow>
     snd (enqueue_all evs (r, None)) = None \<and>
     um_at (offline (fst (enqueue_all evs (r, None)))) u =
       last_n kMaxQueued (sent @ map (snd \<circ> snd) (filter (\<lambda>(now, v, e). v = u) evs))"
proof (induction evs arbitrary: r sent)
  case (Cons ev evs)
  obtain now v e where ev: "ev = (now, v, e)" by (metis surj_pair)
  obtain r' where r: "enqueue_offline now v e None r = (r', None)" by (simp add: enqueue_offline_def Let_def)
  have "um_at (offline r') u = last_n kMaxQueued (sent @ (if v = u then [e] else []))"
  proof (cases "v = u")
    case True
    have "0 < kMaxQueued" by (simp add: kMaxQueued_def)
    then show ?thesis
      using last_n_snoc [of kMaxQueued sent e] r by (auto simp: True enqueue_offline_def Let_def Cons.prems)
  qed (use r in \<open>auto simp: enqueue_offline_def Let_def Cons.prems\<close>)
  from Cons.IH [OF this] show ?case by (simp add: ev r)
qed simp

lemma enqueue_all_store:
  "snd (enqueue_all evs (r, Some t)) =
     Some (t\<lparr>srv_offline := srv_offline t @ map (\<lambda>(now, u, e). (u, e, now)) evs\<rparr>)"
  by (induction evs arbitrary: r t) (auto simp: enqueue_offline_def srv_offline_enqueue_def)

subsection \<open>Properties\<close>

text \<open>C16. The connection book refines its specification: over any sequence of logins, channel and
  room joins and leaves and disconnects (a connection logs in once), the hash tables represent
  a map from users to their latest live connection and two membership relations; \<open>lookup\<close>,
  \<open>channel_subscribers\<close> and \<open>room_member_fds\<close> answer from these, without duplicates.\<close>

theorem relay_refines_spec:
  assumes "binds_fresh relay_init ops"
  shows "let r = foldl relay_step relay_init ops;
             s = foldl spec_step \<lparr>online = Map.empty, subscribed = {}, in_room = {}\<rparr> ops
         in lookup_fd u r = (case online s u of None \<Rightarrow> - 1 | Some fd \<Rightarrow> fd) \<and>
            set (channel_subscribers g r) = {fd. (fd, g) \<in> subscribed s} \<and> distinct (channel_subscribers g r) \<and>
            set (room_member_fds g r) = {fd. (fd, g) \<in> in_room s} \<and> distinct (room_member_fds g r) \<and>
            set (room_member_rooms fd r) = {g. (fd, g) \<in> in_room s}"
proof -
  let ?r = "foldl relay_step relay_init ops"
  have "relay_abs relay_init = \<lparr>online = Map.empty, subscribed = {}, in_room = {}\<rparr>"
    by (simp add: relay_abs_def relay_init_def idx.rel_def index_members_def index_empty_def fun_eq_iff)
  with relay_run_refines [OF relay_ok_init assms]
  have ok: "relay_ok ?r"
    and abs: "foldl spec_step \<lparr>online = Map.empty, subscribed = {}, in_room = {}\<rparr> ops = relay_abs ?r" by simp_all
  have "index_ok (channels ?r)" "index_ok (rooms ?r)" using ok by (simp_all add: relay_ok_def)
  then show ?thesis
    unfolding abs Let_def
    by (auto simp: relay_abs_def lookup_fd_def channel_subscribers_def room_member_fds_def room_member_rooms_def
        idx.rel_def idx.members_distinct idx.groups_iff)
qed

theorem relay_refines_spec_witness:
  "lookup_fd [7] (foldl relay_step relay_init [Bind 4 [7], Subscribe 4 [1], Bind 5 [7], Disconnect 4]) = 5 \<and>
   channel_subscribers [1] (foldl relay_step relay_init [Bind 4 [7], Subscribe 4 [1], Bind 5 [7], Disconnect 4]) = []"
  using relay_refines_spec [of "[Bind 4 [7], Subscribe 4 [1], Bind 5 [7], Disconnect 4]" "[7]" "[1]" 0]
  by (simp add: bind_user_def channel_subscribe_def relay_init_def Let_def)

text \<open>Offline delivery: what a recipient drains after any sequence of queued envelopes is, in
  order, exactly what was queued for it: everything when the queue is persistent, the last
  \<open>kMaxQueued\<close> envelopes when it is in memory. Draining empties the queue.\<close>

theorem offline_fifo:
  "(case enqueue_all evs (relay_init, st) of (r, st') \<Rightarrow>
      let mine = map (snd \<circ> snd) (filter (\<lambda>(now, v, e). v = u) evs) in
      case drain_offline u st' r of (envs, r', st'') \<Rightarrow>
        envs = (case st of None \<Rightarrow> last_n kMaxQueued mine
                | Some t \<Rightarrow> map (\<lambda>(r, e, ts). e) (filter (\<lambda>(r, e, ts). r = u) (srv_offline t)) @ mine) \<and>
        fst (drain_offline u st'' r') = [])"
proof (cases st)
  case None
  have "um_at (offline relay_init) u = last_n kMaxQueued []" by (simp add: relay_init_def last_n_def)
  from enqueue_all_memory [OF this, of evs]
  show ?thesis
    by (cases "enqueue_all evs (relay_init, None)")
      (auto simp: None drain_offline_def um_at_def Let_def split: option.splits)
next
  case (Some t)
  obtain r st' where e: "enqueue_all evs (relay_init, st) = (r, st')" by fastforce
  have "st' = Some (t\<lparr>srv_offline := srv_offline t @ map (\<lambda>(now, u, e). (u, e, now)) evs\<rparr>)"
    using enqueue_all_store [of evs relay_init t] e Some by simp
  moreover have "map (\<lambda>(r, e, ts). e) (filter (\<lambda>(r, e, ts). r = u) (map (\<lambda>(now, u, e). (u, e, now)) evs)) =
      map (snd \<circ> snd) (filter (\<lambda>(now, v, e). v = u) evs)"
    by (induction evs) auto
  ultimately show ?thesis
    unfolding e by (auto simp: Some drain_offline_def srv_offline_drain_def filter_empty_conv)
qed

end
