(* ===== verification/Messages.thy ===== *)
theory Messages
  imports Prelude
begin

text \<open>
  The protocol messages that more than one component handles, with the fields of
  \<open>core/proto/handshake.proto\<close> and \<open>core/proto/envelope.proto\<close>.
\<close>

record prekey_bundle =
  identity_pubkey :: bytes
  signed_prekey :: bytes
  signed_prekey_sig :: bytes
  one_time_prekey :: bytes
  one_time_prekey_id :: u32
  published_at_ms :: u64
  pq_pubkey :: bytes
  pq_pubkey_sig :: bytes
  pq_sig_pubkey :: bytes
  pq_sig_pubkey_sig :: bytes
  signed_prekey_sig_pq :: bytes
  pq_pubkey_sig_pq :: bytes

datatype recipient = NoRecipient | UserPubkey bytes | ChannelGroupId bytes | BroadcastTopic bytes

record envelope =
  envelope_id :: bytes
  timestamp_ms :: u64
  sender_pubkey :: bytes
  ciphertext :: bytes
  env_aad :: bytes
  aead_alg :: u32
  protocol_version :: u32
  env_signature :: bytes
  pq_ct :: bytes
  rcpt :: recipient

text \<open>\<open>core/proto/dm_payload.proto\<close>: what the ratchet encrypts. The submessages that are passed on to
  other components stay serialized.\<close>

datatype dm_body =
    NoBody | DmText bytes | DmAttachment bytes bytes bytes | DmRoomKey bytes u32 bytes
  | DmShamirPush bytes u64 u32 u32 bytes | DmShamirRequest u64 bytes
  | DmChannelKey bytes | DmMediaSignal bytes | DmMlsInvite bytes | DmMlsKeyPackage bytes | DmMlsWelcome bytes
  | DmMlsCommit bytes | DmMlsProposal bytes

record dm_payload =
  dm_body :: dm_body
  sealed_sender_pubkey :: bytes
  sealed_sender_sig :: bytes
  ttl_ms :: u64

text \<open>An executable encoding of payloads, for concrete instances: nine fields, the first a tag.\<close>

fun body_fields :: "dm_body \<Rightarrow> byte \<times> bytes \<times> bytes \<times> bytes \<times> bytes \<times> bytes" where
  "body_fields NoBody = (0, [], [], [], [], [])"
| "body_fields (DmText x) = (1, x, [], [], [], [])"
| "body_fields (DmAttachment m f c) = (2, m, f, c, [], [])"
| "body_fields (DmRoomKey r e x) = (3, r, u32_be e, x, [], [])"
| "body_fields (DmShamirPush x i t n l) = (4, x, u64_be i, u32_be t, u32_be n, l)"
| "body_fields (DmShamirRequest i r) = (5, u64_be i, r, [], [], [])"
| "body_fields (DmChannelKey x) = (6, x, [], [], [], [])"
| "body_fields (DmMediaSignal x) = (7, x, [], [], [], [])"
| "body_fields (DmMlsInvite x) = (8, x, [], [], [], [])"
| "body_fields (DmMlsKeyPackage x) = (9, x, [], [], [], [])"
| "body_fields (DmMlsWelcome x) = (10, x, [], [], [], [])"
| "body_fields (DmMlsCommit x) = (11, x, [], [], [], [])"
| "body_fields (DmMlsProposal x) = (12, x, [], [], [], [])"

definition fields_body :: "byte \<Rightarrow> bytes \<Rightarrow> bytes \<Rightarrow> bytes \<Rightarrow> bytes \<Rightarrow> bytes \<Rightarrow> dm_body" where
  "fields_body t a b c d e =
     (if t = 1 then DmText a else if t = 2 then DmAttachment a b c else if t = 3 then DmRoomKey a (fst (get_u32_field b)) c
      else if t = 4 then DmShamirPush a (rd_u64 b) (fst (get_u32_field c)) (fst (get_u32_field d)) e
      else if t = 5 then DmShamirRequest (rd_u64 a) b else if t = 6 then DmChannelKey a else if t = 7 then DmMediaSignal a
      else if t = 8 then DmMlsInvite a else if t = 9 then DmMlsKeyPackage a else if t = 10 then DmMlsWelcome a
      else if t = 11 then DmMlsCommit a else if t = 12 then DmMlsProposal a else NoBody)"

definition toy_dm_pb :: "dm_payload pb" where
  "toy_dm_pb = \<lparr>
     pb_ser = (\<lambda>p. case body_fields (dm_body p) of (t, a, b, c, d, e) \<Rightarrow>
        t # put_field a @ put_field b @ put_field c @ put_field d @ put_field e @
        put_field (sealed_sender_pubkey p) @ put_field (sealed_sender_sig p) @ put_field (u64_be (ttl_ms p))),
     pb_parse = (\<lambda>w. case w of [] \<Rightarrow> None | t # w \<Rightarrow>
        (let (a, w) = get_field w; (b, w) = get_field w; (c, w) = get_field w; (d, w) = get_field w; (e, w) = get_field w;
             (k, w) = get_field w; (s, w) = get_field w; (l, w) = get_field w
         in Some \<lparr>dm_body = fields_body t a b c d e, sealed_sender_pubkey = k, sealed_sender_sig = s, ttl_ms = rd_u64 l\<rparr>))\<rparr>"

lemma get_u32_field_end [simp]: "get_u32_field (u32_be v) = (v, [])"
  using get_u32_field_be [of v "[]"] by simp

lemma fields_body_inverse: "body_fields x = (t, a, b, c, d, e) \<Longrightarrow> fields_body t a b c d e = x"
  by (cases x) (auto simp: fields_body_def)

lemma toy_dm_pb_ok: "pb_ok toy_dm_pb"
  by (auto simp: pb_ok_def toy_dm_pb_def fields_body_inverse split: prod.splits)

end
