(* ===== verification/Username.thy ===== *)
theory Username
  imports Prelude
begin

text \<open>
  The grammar of usernames, \<open>is_valid_username\<close> of \<open>core/src/identity/username_log.cpp\<close>, which the
  relay server, the username log and the client share.
\<close>

definition kUsernameMinBytes :: nat where
  "kUsernameMinBytes = 3"

definition kUsernameMaxBytes :: nat where
  "kUsernameMaxBytes = 32"

definition edge_bad :: "byte \<Rightarrow> bool" where
  "edge_bad c = (c = 0x2E \<or> c = 0x2D)"

definition is_valid_username :: "bytes \<Rightarrow> bool" where
  "is_valid_username s =
     (if length s < kUsernameMinBytes \<or> kUsernameMaxBytes < length s then False
      else if edge_bad (hd s) \<or> edge_bad (last s) then False
      else list_all (\<lambda>c. (0x61 \<le> c \<and> c \<le> 0x7A) \<or> (0x30 \<le> c \<and> c \<le> 0x39) \<or> c = 0x2E \<or> c = 0x5F \<or> c = 0x2D) s)"

lemma valid_username_no_nul: "is_valid_username s \<Longrightarrow> 0 \<notin> set s"
  by (auto simp: is_valid_username_def list_all_iff split: if_splits)

end
