(* ===== verification/Server.thy ===== *)
theory Server
  imports Relay Messages Token_Bucket Frame_Codec Websocket Username
begin

text \<open>
  The relay server, \<open>server/src/relay_server.cpp\<close>: its connections, the frame handler with one
  definition per message kind, the roster broadcast, closing a connection, and the processing of
  the bytes one read returned. The generated protocol-buffer classes, Ed25519 verification, base64
  and the random source are fields of the parameter \<open>lib\<close>; the clocks are fields of the state that
  the environment sets before an event. Log output, TLS and the sockets themselves are left out:
  a connection's \<open>write_buf\<close> holds what it is sent.
\<close>

subsection \<open>Messages\<close>

record peer_envelope =
  pe_kind :: u32
  pe_recipient :: bytes
  pe_payload :: bytes
  pe_sender :: bytes

record room_member =
  rm_identity :: bytes
  rm_has_audio :: bool
  rm_has_video :: bool
  rm_uplink_class :: u32

datatype control_code = RATE_EXCEEDED | USERNAME_TAKEN

datatype frame =
    FEnvelope envelope
  | FControl control_code bytes bytes u64
  | FHello bytes bytes
  | FServerHello bool bytes bytes
  | FKeyUpload prekey_bundle
  | FKeyFetch bytes u64
  | FKeyFetchResp bool "prekey_bundle option" u64
  | FRegisterReq bytes bytes
  | FRegisterResp bool bytes
  | FChanSubscribe bytes
  | FChanUnsubscribe bytes
  | FHelloAck bytes
  | FUsernameLookup bytes
  | FUsernameResp bytes bytes bool
  | FRoomJoin bytes u32
  | FRoomLeave bytes
  | FRoomRoster bytes u32 "room_member list"
  | FPeer peer_envelope
  | FOther

text \<open>\<open>bundle_partial\<close>: what a parse that fails has put into the bundle before it fails.\<close>

record server_lib =
  frame_pb :: "frame pb"
  envelope_pb :: "envelope pb"
  bundle_pb :: "prekey_bundle pb"
  bundle_partial :: "bytes \<Rightarrow> prekey_bundle"
  ed_verify :: "bytes \<Rightarrow> bytes \<Rightarrow> bytes \<Rightarrow> bool"
  random32 :: "nat \<Rightarrow> bytes"
  base64 :: "bytes \<Rightarrow> bytes"

subsection \<open>State\<close>

datatype transport = kTcp | kWs

record conn =
  transport :: transport
  dec :: frame_decoder
  ws_handshake :: handshake_parser
  ws_parser :: frame_parser
  ws_upgraded :: bool
  write_buf :: bytes
  claimed_user_pub :: bytes
  bound_user_pub :: bytes
  challenge :: bytes
  challenge_issued :: bool
  authenticated :: bool
  claimed_username :: bytes
  room_uplink_class :: u32
  wants_close :: bool

record server =
  dir :: directory
  book :: relay
  limiter :: keyed_limiter
  conns :: "(int, conn) umap"
  drawn :: nat
  now_ns :: int
  now_ms :: u64

definition new_conn :: "transport \<Rightarrow> conn" where
  "new_conn tx = \<lparr>transport = tx, dec = decoder_init, ws_handshake = handshake_init, ws_parser = frame_parser_init True,
     ws_upgraded = False, write_buf = [], claimed_user_pub = [], bound_user_pub = [], challenge = replicate 32 0,
     challenge_issued = False, authenticated = False, claimed_username = [], room_uplink_class = 0, wants_close = False\<rparr>"

definition kIdentitySigBytes :: nat where
  "kIdentitySigBytes = 64"

text \<open>Changing the connection that \<open>Conn& c\<close> refers to.\<close>

definition upd_conn :: "int \<Rightarrow> (conn \<Rightarrow> conn) \<Rightarrow> server \<Rightarrow> server" where
  "upd_conn fd f s =
     (case um_find (conns s) fd of None \<Rightarrow> s | Some c \<Rightarrow> s\<lparr>conns := um_put fd (f c) (conns s)\<rparr>)"

subsection \<open>Sending\<close>

definition enqueue_write :: "bytes \<Rightarrow> conn \<Rightarrow> conn" where
  "enqueue_write payload c =
     (if transport c = kWs then c\<lparr>write_buf := write_buf c @ build_server_binary_frame payload\<rparr>
      else c\<lparr>write_buf := write_buf c @ encode_frame payload\<rparr>)"

definition send_frame :: "server_lib \<Rightarrow> int \<Rightarrow> frame \<Rightarrow> server \<Rightarrow> server" where
  "send_frame lib fd f s = upd_conn fd (enqueue_write (pb_ser (frame_pb lib) f)) s"

definition send_server_hello :: "server_lib \<Rightarrow> int \<Rightarrow> bool \<Rightarrow> string \<Rightarrow> bytes \<Rightarrow> server \<Rightarrow> server" where
  "send_server_hello lib fd ok detail chal s = send_frame lib fd (FServerHello ok (str_bytes detail) chal) s"

definition set_close :: "int \<Rightarrow> server \<Rightarrow> server" where
  "set_close fd s = upd_conn fd (\<lambda>c. c\<lparr>wants_close := True\<rparr>) s"

definition roster_members :: "int list \<Rightarrow> server \<Rightarrow> room_member list" where
  "roster_members fds s =
     List.map_filter (\<lambda>fd. map_option (\<lambda>c. \<lparr>rm_identity = bound_user_pub c, rm_has_audio = True, rm_has_video = False,
        rm_uplink_class = room_uplink_class c\<rparr>) (um_find (conns s) fd)) fds"

definition broadcast_room_roster :: "server_lib \<Rightarrow> bytes \<Rightarrow> server \<Rightarrow> server" where
  "broadcast_room_roster lib room_id s =
     (let fds = room_member_fds room_id (book s) in
      if fds = [] then s
      else let f = FRoomRoster room_id 1 (roster_members fds s)
           in foldl (\<lambda>s fd. send_frame lib fd f s) s fds)"

definition close_conn :: "server_lib \<Rightarrow> int \<Rightarrow> server \<Rightarrow> server" where
  "close_conn lib fd s =
     (let rooms_left = room_member_rooms fd (book s);
          s = s\<lparr>book := unbind_all_rooms fd (unbind_all_channels fd (unbind fd (book s))),
                conns := um_erase fd (conns s)\<rparr>
      in foldl (\<lambda>s rid. broadcast_room_roster lib rid s) s rooms_left)"

subsection \<open>The frame handler\<close>

definition handle_hello :: "server_lib \<Rightarrow> int \<Rightarrow> conn \<Rightarrow> bytes \<Rightarrow> bytes \<Rightarrow> server \<Rightarrow> server" where
  "handle_hello lib fd c pubkey username s =
     (if authenticated c \<or> bound_user_pub c \<noteq> [] then set_close fd s
      else if length pubkey \<noteq> 32
      then set_close fd (send_server_hello lib fd False ''bad pubkey size'' [] s)
      else let s = upd_conn fd (\<lambda>c. c\<lparr>claimed_user_pub := pubkey\<rparr>) s in
        if username \<noteq> [] \<and> \<not> is_valid_username username
        then set_close fd (send_server_hello lib fd False
               ''username does not match the v0 grammar ([a-z0-9._-], 3..32 bytes, no edge dots/dashes)'' [] s)
        else let chal = random32 lib (drawn s);
                 s = upd_conn fd (\<lambda>c. c\<lparr>claimed_username := username, challenge := chal, challenge_issued := True,
                                       authenticated := False\<rparr>) (s\<lparr>drawn := drawn s + 1\<rparr>)
             in send_server_hello lib fd True ''challenge'' chal s)"

definition deliver_pending :: "server_lib \<Rightarrow> int \<Rightarrow> bytes list \<Rightarrow> server \<Rightarrow> server" where
  "deliver_pending lib fd pending s =
     foldl (\<lambda>s env_bytes. case pb_parse (envelope_pb lib) env_bytes of
              None \<Rightarrow> s
            | Some env \<Rightarrow> send_frame lib fd (FEnvelope env) s) s pending"

definition complete_login :: "server_lib \<Rightarrow> int \<Rightarrow> bytes \<Rightarrow> server \<Rightarrow> server" where
  "complete_login lib fd pub s =
     (let s = upd_conn fd (\<lambda>c. c\<lparr>bound_user_pub := pub, authenticated := True\<rparr>) s;
          (pending, r, st) = drain_offline pub (dir_store (dir s)) (bind_user fd pub (book s));
          s = s\<lparr>book := r, dir := (dir s)\<lparr>dir_store := st\<rparr>\<rparr>
      in deliver_pending lib fd pending s)"

definition handle_hello_ack :: "server_lib \<Rightarrow> int \<Rightarrow> conn \<Rightarrow> bytes \<Rightarrow> server \<Rightarrow> server" where
  "handle_hello_ack lib fd c sig s =
     (if \<not> challenge_issued c \<or> length (claimed_user_pub c) \<noteq> 32 then set_close fd s
      else if length sig \<noteq> kIdentitySigBytes then set_close fd s
      else if \<not> ed_verify lib (claimed_user_pub c) (challenge c) sig then set_close fd s
      else if claimed_username c \<noteq> []
      then (case register_user (claimed_username c) (claimed_user_pub c) (dir s) of
              (False, d) \<Rightarrow>
                set_close fd (send_frame lib fd
                  (FControl USERNAME_TAKEN
                     (str_bytes ''username '' @ [39] @ claimed_username c @ [39] @ str_bytes '' is registered to a different identity'')
                     [] 0) (s\<lparr>dir := d\<rparr>))
            | (True, d) \<Rightarrow> complete_login lib fd (claimed_user_pub c) (s\<lparr>dir := d\<rparr>))
      else complete_login lib fd (claimed_user_pub c) s)"

definition handle_key_upload :: "server_lib \<Rightarrow> conn \<Rightarrow> prekey_bundle \<Rightarrow> server \<Rightarrow> server" where
  "handle_key_upload lib c bundle s =
     s\<lparr>dir := put_bundle (bound_user_pub c) (pb_ser (bundle_pb lib) bundle) (dir s)\<rparr>"

definition handle_key_fetch :: "server_lib \<Rightarrow> int \<Rightarrow> bytes \<Rightarrow> u64 \<Rightarrow> server \<Rightarrow> server" where
  "handle_key_fetch lib fd username request_id s =
     (let (pub, d) = resolve username (dir s) in
      case pub of
        None \<Rightarrow> send_frame lib fd (FKeyFetchResp False None request_id) (s\<lparr>dir := d\<rparr>)
      | Some pub \<Rightarrow>
          (let (bundle, d) = get_bundle pub d in
           case bundle of
             None \<Rightarrow> send_frame lib fd (FKeyFetchResp False None request_id) (s\<lparr>dir := d\<rparr>)
           | Some blob \<Rightarrow>
               (let b = pb_parse (bundle_pb lib) blob;
                    sent = (case b of Some b \<Rightarrow> b | None \<Rightarrow> bundle_partial lib blob)
                in send_frame lib fd (FKeyFetchResp (b \<noteq> None) (Some sent) request_id) (s\<lparr>dir := d\<rparr>))))"

definition handle_chan_subscribe :: "int \<Rightarrow> bytes \<Rightarrow> server \<Rightarrow> server" where
  "handle_chan_subscribe fd gid s = (if length gid = 32 then s\<lparr>book := channel_subscribe fd gid (book s)\<rparr> else s)"

definition handle_chan_unsubscribe :: "int \<Rightarrow> bytes \<Rightarrow> server \<Rightarrow> server" where
  "handle_chan_unsubscribe fd gid s = (if length gid = 32 then s\<lparr>book := channel_unsubscribe fd gid (book s)\<rparr> else s)"

definition handle_room_join :: "server_lib \<Rightarrow> int \<Rightarrow> bytes \<Rightarrow> u32 \<Rightarrow> server \<Rightarrow> server" where
  "handle_room_join lib fd room_id uplink s =
     (if length room_id \<noteq> 32 then s
      else let s = upd_conn fd (\<lambda>c. c\<lparr>room_uplink_class := uplink\<rparr>) s
           in broadcast_room_roster lib room_id (s\<lparr>book := room_join fd room_id (book s)\<rparr>))"

definition handle_room_leave :: "server_lib \<Rightarrow> int \<Rightarrow> bytes \<Rightarrow> server \<Rightarrow> server" where
  "handle_room_leave lib fd room_id s =
     (if length room_id \<noteq> 32 then s
      else broadcast_room_roster lib room_id (s\<lparr>book := room_leave fd room_id (book s)\<rparr>))"

text \<open>The anti-spoof rewrite: a claimed sender is replaced by the authenticated one, a sealed
  sender (empty field) stays sealed.\<close>

definition stamp_sender :: "conn \<Rightarrow> envelope \<Rightarrow> envelope" where
  "stamp_sender c env =
     (if bound_user_pub c \<noteq> [] \<and> sender_pubkey env \<noteq> [] then env\<lparr>sender_pubkey := bound_user_pub c\<rparr> else env)"

definition charge :: "conn \<Rightarrow> envelope \<Rightarrow> server \<Rightarrow> bool \<times> server" where
  "charge c env s =
     (if bound_user_pub c \<noteq> []
      then let (ok, l) = keyed_try_consume (now_ns s) (bound_user_pub c) (length (ciphertext env)) (limiter s)
           in (ok, s\<lparr>limiter := l\<rparr>)
      else (True, s))"

definition handle_channel_envelope :: "server_lib \<Rightarrow> int \<Rightarrow> conn \<Rightarrow> envelope \<Rightarrow> bytes \<Rightarrow> server \<Rightarrow> server" where
  "handle_channel_envelope lib fd c env gid s =
     (let (ok, s) = charge c env s in
      if \<not> ok then s
      else if length gid \<noteq> 32 then s
      else let subs = channel_subscribers gid (book s); f = FEnvelope (stamp_sender c env)
           in foldl (\<lambda>s sfd. if sfd = fd then s else send_frame lib sfd f s) s subs)"

definition handle_user_envelope :: "server_lib \<Rightarrow> int \<Rightarrow> conn \<Rightarrow> envelope \<Rightarrow> bytes \<Rightarrow> server \<Rightarrow> server" where
  "handle_user_envelope lib fd c env rcpt_pub s =
     (let (ok, s) = charge c env s in
      if \<not> ok then send_frame lib fd (FControl RATE_EXCEEDED [] (envelope_id env) 1000) s
      else let dst_fd = lookup_fd rcpt_pub (book s); fwd = stamp_sender c env in
        if 0 \<le> dst_fd then send_frame lib dst_fd (FEnvelope fwd) s
        else let (r, st) = enqueue_offline (now_ms s) rcpt_pub (pb_ser (envelope_pb lib) fwd) (dir_store (dir s)) (book s)
             in s\<lparr>book := r, dir := (dir s)\<lparr>dir_store := st\<rparr>\<rparr>)"

definition handle_envelope :: "server_lib \<Rightarrow> int \<Rightarrow> conn \<Rightarrow> envelope \<Rightarrow> server \<Rightarrow> server" where
  "handle_envelope lib fd c env s =
     (case rcpt env of
        ChannelGroupId gid \<Rightarrow> handle_channel_envelope lib fd c env gid s
      | UserPubkey pub \<Rightarrow> handle_user_envelope lib fd c env pub s
      | _ \<Rightarrow> s)"

definition handle_peer :: "server_lib \<Rightarrow> int \<Rightarrow> conn \<Rightarrow> peer_envelope \<Rightarrow> server \<Rightarrow> server" where
  "handle_peer lib fd c pe s =
     (if \<not> authenticated c then s
      else let f = FPeer (pe\<lparr>pe_sender := bound_user_pub c\<rparr>) in
        if pe_recipient pe = []
        then foldl (\<lambda>s ofd. send_frame lib ofd f s) s
               (map fst (filter (\<lambda>(ofd, oc). ofd \<noteq> fd \<and> authenticated oc) (conns s)))
        else if length (pe_recipient pe) = 32
        then (case List.find (\<lambda>(ofd, oc). ofd \<noteq> fd \<and> authenticated oc \<and> length (bound_user_pub oc) = 32 \<and>
                     bound_user_pub oc = pe_recipient pe) (conns s) of
                None \<Rightarrow> s
              | Some (ofd, oc) \<Rightarrow> send_frame lib ofd f s)
        else s)"

definition handle_username_lookup :: "server_lib \<Rightarrow> int \<Rightarrow> bytes \<Rightarrow> server \<Rightarrow> server" where
  "handle_username_lookup lib fd pubkey s =
     (if length pubkey = 32
      then let (name, d) = reverse_resolve pubkey (dir s) in
        case name of
          Some n \<Rightarrow> send_frame lib fd (FUsernameResp pubkey n True) (s\<lparr>dir := d\<rparr>)
        | None \<Rightarrow> send_frame lib fd (FUsernameResp pubkey [] False) (s\<lparr>dir := d\<rparr>)
      else send_frame lib fd (FUsernameResp pubkey [] False) s)"

definition handle_register_req :: "server_lib \<Rightarrow> int \<Rightarrow> conn \<Rightarrow> bytes \<Rightarrow> bytes \<Rightarrow> server \<Rightarrow> server" where
  "handle_register_req lib fd c claim_pub username s =
     (if claim_pub \<noteq> bound_user_pub c
      then send_frame lib fd (FRegisterResp False (str_bytes ''claim pubkey must equal authenticated pubkey'')) s
      else let (ok, d) = register_user username (bound_user_pub c) (dir s)
           in send_frame lib fd (FRegisterResp ok (str_bytes (if ok then ''ok'' else ''username taken''))) (s\<lparr>dir := d\<rparr>))"

fun is_auth_frame :: "frame \<Rightarrow> bool" where
  "is_auth_frame (FHello _ _) = True"
| "is_auth_frame (FHelloAck _) = True"
| "is_auth_frame _ = False"

definition dispatch :: "server_lib \<Rightarrow> int \<Rightarrow> conn \<Rightarrow> frame \<Rightarrow> server \<Rightarrow> server" where
  "dispatch lib fd c f s =
     (case f of
        FHello pubkey username \<Rightarrow> handle_hello lib fd c pubkey username s
      | FHelloAck sig \<Rightarrow> handle_hello_ack lib fd c sig s
      | FKeyUpload bundle \<Rightarrow> handle_key_upload lib c bundle s
      | FKeyFetch username request_id \<Rightarrow> handle_key_fetch lib fd username request_id s
      | FChanSubscribe gid \<Rightarrow> handle_chan_subscribe fd gid s
      | FChanUnsubscribe gid \<Rightarrow> handle_chan_unsubscribe fd gid s
      | FRoomJoin room_id uplink \<Rightarrow> handle_room_join lib fd room_id uplink s
      | FRoomLeave room_id \<Rightarrow> handle_room_leave lib fd room_id s
      | FEnvelope env \<Rightarrow> handle_envelope lib fd c env s
      | FPeer pe \<Rightarrow> handle_peer lib fd c pe s
      | FUsernameLookup pubkey \<Rightarrow> handle_username_lookup lib fd pubkey s
      | FRegisterReq claim_pub username \<Rightarrow> handle_register_req lib fd c claim_pub username s
      | _ \<Rightarrow> s)"

definition handle_frame :: "server_lib \<Rightarrow> int \<Rightarrow> bytes \<Rightarrow> server \<Rightarrow> server" where
  "handle_frame lib fd bs s =
     (case um_find (conns s) fd of
        None \<Rightarrow> s
      | Some c \<Rightarrow>
          (case pb_parse (frame_pb lib) bs of
             None \<Rightarrow> set_close fd s
           | Some f \<Rightarrow> if \<not> authenticated c \<and> \<not> is_auth_frame f then s else dispatch lib fd c f s))"

subsection \<open>Connections\<close>

text \<open>Accepting a connection, and one read. The loop that pops a frame and handles it is the list
  of frames popped, handled in order until a handler asks to close: no handler touches a decoder,
  and a connection that is closed takes its decoder with it.\<close>

definition accept_conn :: "int \<Rightarrow> transport \<Rightarrow> server \<Rightarrow> server" where
  "accept_conn fd tx s =
     (case um_find (conns s) fd of
        None \<Rightarrow> s\<lparr>conns := um_put fd (new_conn tx) (conns s)\<rparr>
      | Some _ \<Rightarrow> s)"

fun handle_frames :: "server_lib \<Rightarrow> int \<Rightarrow> bytes list \<Rightarrow> server \<Rightarrow> bool \<times> server" where
  "handle_frames lib fd [] s = (True, s)"
| "handle_frames lib fd (f # fs) s =
     (let s = handle_frame lib fd f s in
      case um_find (conns s) fd of
        Some c \<Rightarrow> if wants_close c then (False, close_conn lib fd s) else handle_frames lib fd fs s
      | None \<Rightarrow> (False, s))"

definition drain_ws :: "server_lib \<Rightarrow> int \<Rightarrow> frame_parser \<Rightarrow> server \<Rightarrow> server" where
  "drain_ws lib fd p s =
     (let (frames, p') = ws_drain_parser p;
          s = upd_conn fd (\<lambda>c. c\<lparr>ws_parser := (case p' of Some q \<Rightarrow> q | None \<Rightarrow> p)\<rparr>) s;
          (open, s) = handle_frames lib fd frames s
      in if open \<and> p' = None then close_conn lib fd s else s)"

definition on_read :: "server_lib \<Rightarrow> int \<Rightarrow> bytes \<Rightarrow> server \<Rightarrow> server" where
  "on_read lib fd incoming s =
     (case um_find (conns s) fd of
        None \<Rightarrow> s
      | Some c \<Rightarrow>
          if transport c = kWs \<and> \<not> ws_upgraded c
          then (case hp_feed (ws_handshake c) incoming of
                  (HsRejected, h) \<Rightarrow> close_conn lib fd s
                | (HsNeedMore, h) \<Rightarrow> upd_conn fd (\<lambda>c. c\<lparr>ws_handshake := h\<rparr>) s
                | (HsAccepted, h) \<Rightarrow>
                    (let resp = build_101_response (compute_accept (base64 lib) (hp_client_key h));
                         s = upd_conn fd (\<lambda>c. c\<lparr>ws_handshake := h, write_buf := write_buf c @ resp, ws_upgraded := True\<rparr>) s
                     in drain_ws lib fd (fp_feed (ws_parser c) (trailing h)) s))
          else if transport c = kWs then drain_ws lib fd (fp_feed (ws_parser c) incoming) s
          else let (frames, d) = drain (feed (dec c) incoming);
                   s = upd_conn fd (\<lambda>c. c\<lparr>dec := d\<rparr>) s;
                   (open, s) = handle_frames lib fd frames s
               in if open \<and> error d then close_conn lib fd s else s)"

datatype server_event =
    Accept int transport
  | Read int bytes
  | Hangup int
  | Flushed int nat
  | Tick int u64

fun server_step :: "server_lib \<Rightarrow> server \<Rightarrow> server_event \<Rightarrow> server" where
  "server_step lib s (Accept fd tx) = accept_conn fd tx s"
| "server_step lib s (Read fd bs) = on_read lib fd bs s"
| "server_step lib s (Hangup fd) = close_conn lib fd s"
| "server_step lib s (Flushed fd n) = upd_conn fd (\<lambda>c. c\<lparr>write_buf := drop n (write_buf c)\<rparr>) s"
| "server_step lib s (Tick ns ms) = s\<lparr>now_ns := ns, now_ms := ms\<rparr>"

definition kDefaultSustainedBytesPerSec :: nat where
  "kDefaultSustainedBytesPerSec = 50 * 1024"

definition kDefaultBurstBytes :: nat where
  "kDefaultBurstBytes = 500 * 1024"

definition server_init :: "srv_tables option \<Rightarrow> server" where
  "server_init st =
     \<lparr>dir = directory_init st, book = relay_init,
      limiter = \<lparr>lim_rate = kDefaultSustainedBytesPerSec, lim_burst = kDefaultBurstBytes, buckets = Map.empty\<rparr>,
      conns = [], drawn = 0, now_ns = 0, now_ms = 0\<rparr>"

subsection \<open>What sending leaves alone\<close>

text \<open>The part of a connection that decides who it is. Everything that only sends keeps it, and
  keeps the connection book.\<close>

definition core :: "conn \<Rightarrow> bool \<times> bytes \<times> bytes \<times> bool \<times> bytes" where
  "core c = (authenticated c, bound_user_pub c, challenge c, challenge_issued c, claimed_user_pub c)"

definition cores :: "server \<Rightarrow> int \<Rightarrow> (bool \<times> bytes \<times> bytes \<times> bool \<times> bytes) option" where
  "cores s fd = map_option core (um_find (conns s) fd)"

lemma core_enqueue [simp]: "core (enqueue_write b c) = core c"
  by (simp add: core_def enqueue_write_def)

lemma cores_upd_conn: "(\<And>c. core (f c) = core c) \<Longrightarrow> cores (upd_conn fd f s) = cores s"
  by (auto simp: cores_def upd_conn_def fun_eq_iff split: option.splits)

lemma book_upd_conn [simp]: "book (upd_conn fd f s) = book s" "dir (upd_conn fd f s) = dir s"
    "limiter (upd_conn fd f s) = limiter s" "now_ns (upd_conn fd f s) = now_ns s" "drawn (upd_conn fd f s) = drawn s"
  by (simp_all add: upd_conn_def split: option.splits)

lemma send_frame_keeps [simp]:
  "cores (send_frame lib fd f s) = cores s" "book (send_frame lib fd f s) = book s" "dir (send_frame lib fd f s) = dir s"
  "limiter (send_frame lib fd f s) = limiter s"
  by (simp_all add: send_frame_def cores_upd_conn)

lemma foldl_keeps: "(\<And>s x. g (f s x) = g s) \<Longrightarrow> g (foldl f s xs) = g s"
  by (induction xs arbitrary: s) simp_all

lemma foldl_send_keeps [simp]:
  "cores (foldl (\<lambda>s fd. send_frame lib fd f s) s fds) = cores s"
  "book (foldl (\<lambda>s fd. send_frame lib fd f s) s fds) = book s"
  by (rule foldl_keeps; simp)+

lemma broadcast_keeps [simp]:
  "cores (broadcast_room_roster lib r s) = cores s" "book (broadcast_room_roster lib r s) = book s"
  by (simp_all add: broadcast_room_roster_def Let_def)

lemma set_close_keeps [simp]:
  "cores (set_close fd s) = cores s" "book (set_close fd s) = book s"
  by (simp_all add: set_close_def cores_upd_conn core_def)

lemma deliver_pending_keeps [simp]:
  "cores (deliver_pending lib fd es s) = cores s" "book (deliver_pending lib fd es s) = book s"
  by (simp_all add: deliver_pending_def, (rule foldl_keeps; simp split: option.split)+)

lemma hello_keeps [simp]:
  "cores (send_server_hello lib fd ok d ch s) = cores s" "book (send_server_hello lib fd ok d ch s) = book s"
  by (simp_all add: send_server_hello_def)

lemma cores_fields [simp]:
  "cores (s\<lparr>dir := d\<rparr>) = cores s" "cores (s\<lparr>book := b\<rparr>) = cores s" "cores (s\<lparr>limiter := l\<rparr>) = cores s"
  "cores (s\<lparr>drawn := n\<rparr>) = cores s" "cores (s\<lparr>now_ns := t, now_ms := u\<rparr>) = cores s"
  by (simp_all add: cores_def fun_eq_iff)

lemma charge_keeps: "charge c env s = (ok, s') \<Longrightarrow> cores s' = cores s \<and> book s' = book s \<and> dir s' = dir s \<and> conns s' = conns s"
  by (auto simp: charge_def case_prod_beta split: if_splits)

subsection \<open>Who is connected\<close>

definition conn_ok :: "server_lib \<Rightarrow> bool \<times> bytes \<times> bytes \<times> bool \<times> bytes \<Rightarrow> bool" where
  "conn_ok lib k \<longleftrightarrow>
     (case k of (auth, bound, chal, issued, claimed) \<Rightarrow>
        (auth \<longleftrightarrow> bound \<noteq> []) \<and>
        (auth \<longrightarrow> length bound = 32 \<and> claimed = bound \<and>
           (\<exists>sig. length sig = kIdentitySigBytes \<and> ed_verify lib bound chal sig)))"

text \<open>The invariant: the book is consistent; a connection is bound to a user only after it proved
  possession of that key; every user table, channel and room entry belongs to such a connection.\<close>

definition server_ok :: "server_lib \<Rightarrow> server \<Rightarrow> bool" where
  "server_ok lib s \<longleftrightarrow>
     relay_ok (book s) \<and>
     (\<forall>fd k. cores s fd = Some k \<longrightarrow> conn_ok lib k) \<and>
     (\<forall>fd u. um_find (fd_to_user (book s)) fd = Some u \<longrightarrow> (\<exists>x. cores s fd = Some (True, u, x))) \<and>
     (\<forall>fd g. (fd, g) \<in> idx.rel (channels (book s)) \<union> idx.rel (rooms (book s)) \<longrightarrow> (\<exists>u x. cores s fd = Some (True, u, x)))"

lemma server_okI:
  assumes "relay_ok (book s)" and "\<And>fd k. cores s fd = Some k \<Longrightarrow> conn_ok lib k"
    and "\<And>fd u. um_find (fd_to_user (book s)) fd = Some u \<Longrightarrow> \<exists>x. cores s fd = Some (True, u, x)"
    and "\<And>fd g. (fd, g) \<in> idx.rel (channels (book s)) \<union> idx.rel (rooms (book s)) \<Longrightarrow> \<exists>u x. cores s fd = Some (True, u, x)"
  shows "server_ok lib s"
  using assms unfolding server_ok_def by blast

lemma server_okD:
  assumes "server_ok lib s"
  shows "relay_ok (book s)" "index_ok (channels (book s))" "index_ok (rooms (book s))"
    and "cores s fd = Some k \<Longrightarrow> conn_ok lib k"
    and "um_find (fd_to_user (book s)) fd = Some u \<Longrightarrow> \<exists>x. cores s fd = Some (True, u, x)"
    and "(fd, g) \<in> idx.rel (channels (book s)) \<union> idx.rel (rooms (book s)) \<Longrightarrow> \<exists>u x. cores s fd = Some (True, u, x)"
  using assms unfolding server_ok_def relay_ok_def by blast+

lemma server_ok_same: "book s' = book s \<Longrightarrow> cores s' = cores s \<Longrightarrow> server_ok lib s' = server_ok lib s"
  by (simp add: server_ok_def)

lemma server_ok_init: "server_ok lib (server_init st)"
  by (simp add: server_ok_def server_init_def cores_def relay_init_def idx.rel_def index_members_def index_empty_def)
     (simp add: relay_init_def [symmetric] index_empty_def [symmetric])

lemma conns_upd [simp]:
  "um_find (conns (upd_conn fd f s)) g = (if g = fd then map_option f (um_find (conns s) fd) else um_find (conns s) g)"
  by (auto simp: upd_conn_def split: option.splits)

lemma cores_upd: "cores (upd_conn fd f s) g = (if g = fd then map_option (core \<circ> f) (um_find (conns s) fd) else cores s g)"
  by (auto simp: cores_def upd_conn_def split: option.splits)

text \<open>Replacing the connection book by one that is consistent and names no connection that was
  not named before, except the authenticated connection \<open>fd\<close> itself.\<close>

lemma server_ok_book:
  assumes ok: "server_ok lib s" and c: "cores s fd = Some (True, x)"
    and book: "relay_ok b" "fd_to_user b = fd_to_user (book s)"
    and rel: "idx.rel (channels b) \<union> idx.rel (rooms b) \<subseteq>
      idx.rel (channels (book s)) \<union> idx.rel (rooms (book s)) \<union> {fd} \<times> UNIV"
  shows "server_ok lib (s\<lparr>book := b\<rparr>)"
proof (rule server_okI)
  fix f g assume "(f, g) \<in> idx.rel (channels (book (s\<lparr>book := b\<rparr>))) \<union> idx.rel (rooms (book (s\<lparr>book := b\<rparr>)))"
  then have "(f, g) \<in> idx.rel (channels (book s)) \<union> idx.rel (rooms (book s)) \<or> f = fd" using rel by auto
  then show "\<exists>u x. cores (s\<lparr>book := b\<rparr>) f = Some (True, u, x)"
    using server_okD(6) [OF ok, of f g] c by (cases x) auto
qed (use server_okD [OF ok] book in simp_all)

lemma core_of_conn: "um_find (conns s) fd = Some c \<Longrightarrow> cores s fd = Some (core c)"
  by (simp add: cores_def)

text \<open>Changing the identity part of one connection that is named nowhere.\<close>

lemma server_ok_unnamed:
  assumes ok: "server_ok lib s" and book: "book s' = book s" and other: "\<And>f. f \<noteq> fd \<Longrightarrow> cores s' f = cores s f"
    and old: "cores s fd = Some (False, x)" and new: "\<And>k. cores s' fd = Some k \<Longrightarrow> conn_ok lib k"
  shows "server_ok lib s'"
proof (rule server_okI)
  show "relay_ok (book s')" using server_okD(1) [OF ok] by (simp add: book)
  show "conn_ok lib k" if "cores s' f = Some k" for f k
    using that new other [of f] server_okD(4) [OF ok, of f k] by (cases "f = fd") auto
  show "\<exists>x. cores s' f = Some (True, u, x)" if "um_find (fd_to_user (book s')) f = Some u" for f u
    using server_okD(5) [OF ok, of f u] that other [of f] old by (cases "f = fd") (auto simp: book)
  show "\<exists>u x. cores s' f = Some (True, u, x)" if "(f, g) \<in> idx.rel (channels (book s')) \<union> idx.rel (rooms (book s'))" for f g
    using server_okD(6) [OF ok, of f g] that other [of f] old by (cases "f = fd") (auto simp: book)
qed

lemma server_ok_hello:
  assumes ok: "server_ok lib s" and c: "um_find (conns s) fd = Some c"
  shows "server_ok lib (handle_hello lib fd c pk un s)"
proof (cases "authenticated c \<or> bound_user_pub c \<noteq> [] \<or> length pk \<noteq> 32")
  case True
  then have "book (handle_hello lib fd c pk un s) = book s" "cores (handle_hello lib fd c pk un s) = cores s"
    by (auto simp: handle_hello_def)
  with ok server_ok_same show ?thesis by blast
next
  case False
  let ?s = "handle_hello lib fd c pk un s"
  show ?thesis
  proof (rule server_ok_unnamed [OF ok])
    show "book ?s = book s" using False by (auto simp: handle_hello_def Let_def)
    show "cores ?s f = cores s f" if "f \<noteq> fd" for f
      using False that by (auto simp: handle_hello_def Let_def cores_upd)
    show "cores s fd = Some (False, snd (core c))"
      using False core_of_conn [OF c] by (simp add: core_def)
    show "conn_ok lib k" if "cores ?s fd = Some k" for k
      using that False c
      by (auto simp: handle_hello_def Let_def cores_upd conn_ok_def core_def split: if_splits)
  qed
qed

lemma drain_offline_tables:
  "drain_offline u st r = (es, r', st') \<Longrightarrow> user_to_fd r' = user_to_fd r \<and> fd_to_user r' = fd_to_user r \<and>
     channels r' = channels r \<and> rooms r' = rooms r"
  by (auto simp: drain_offline_def case_prod_beta split: option.splits)

lemma server_ok_fresh:
  assumes ok: "server_ok lib s" and c: "um_find (conns s) fd = Some c"
  shows "um_find (fd_to_user (book s)) fd = None \<or> um_find (fd_to_user (book s)) fd = Some (claimed_user_pub c)"
proof (cases "um_find (fd_to_user (book s)) fd")
  case (Some u)
  then obtain x where "core c = (True, u, x)" using server_okD(5) [OF ok Some] core_of_conn [OF c] by auto
  moreover have "conn_ok lib (core c)" using server_okD(4) [OF ok] core_of_conn [OF c] by simp
  ultimately show ?thesis using Some by (auto simp: conn_ok_def core_def)
qed simp

lemma server_ok_login:
  assumes ok: "server_ok lib s" and c: "um_find (conns s) fd = Some c"
    and len: "length (claimed_user_pub c) = 32" and sig: "length sig = kIdentitySigBytes"
    and ver: "ed_verify lib (claimed_user_pub c) (challenge c) sig"
  shows "server_ok lib (complete_login lib fd (claimed_user_pub c) s)"
proof -
  let ?pub = "claimed_user_pub c" and ?b = "book s"
  let ?s = "complete_login lib fd ?pub s"
  obtain es r st where dr: "drain_offline ?pub (dir_store (dir s)) (bind_user fd ?pub ?b) = (es, r, st)"
    by (metis surj_pair)
  have book: "book ?s = r" by (simp add: complete_login_def dr)
  have cores: "cores ?s f = (if f = fd then Some (True, ?pub, challenge c, challenge_issued c, ?pub) else cores s f)" for f
    using c by (simp add: complete_login_def dr cores_upd core_def)
  note rel = server_okD(1) [OF ok] and fresh = server_ok_fresh [OF ok c]
  have tab: "um_find (fd_to_user r) f = Some u \<Longrightarrow> f = fd \<and> u = ?pub \<or> um_find (fd_to_user ?b) f = Some u" for f u
    using drain_offline_tables [OF dr] bind_user_tables(2) [OF rel fresh, of f] by (auto split: if_splits)
  have idx: "channels r = channels ?b" "rooms r = rooms ?b"
    using drain_offline_tables [OF dr] by (auto simp: bind_user_def Let_def split: option.splits)
  show ?thesis
  proof (rule server_okI)
    show "relay_ok (book ?s)"
      using relay_ok_ops(8) [OF relay_ok_bind [OF rel fresh], of ?pub "dir_store (dir s)"] by (simp add: dr book)
    show "conn_ok lib k" if "cores ?s f = Some k" for f k
      using that len sig ver server_okD(4) [OF ok, of f k] by (auto simp: cores conn_ok_def split: if_splits)
    show "\<exists>x. cores ?s f = Some (True, u, x)" if "um_find (fd_to_user (book ?s)) f = Some u" for f u
      using tab [of f u] that server_okD(5) [OF ok, of f u] server_ok_fresh [OF ok c]
      by (cases "f = fd") (auto simp: cores book)
    show "\<exists>u x. cores ?s f = Some (True, u, x)" if "(f, g) \<in> idx.rel (channels (book ?s)) \<union> idx.rel (rooms (book ?s))" for f g
      using that server_okD(6) [OF ok, of f g] by (cases "f = fd") (auto simp: cores book idx)
  qed
qed

lemma server_ok_hello_ack:
  assumes ok: "server_ok lib s" and c: "um_find (conns s) fd = Some c"
  shows "server_ok lib (handle_hello_ack lib fd c sig s)"
proof -
  have keep: "server_ok lib s'" if "book s' = book s" "cores s' = cores s" for s'
    using ok server_ok_same [OF that] by simp
  have login: "server_ok lib (complete_login lib fd (claimed_user_pub c) (s\<lparr>dir := d\<rparr>))"
    if "length (claimed_user_pub c) = 32" "length sig = kIdentitySigBytes" "ed_verify lib (claimed_user_pub c) (challenge c) sig" for d
    using that c by (intro server_ok_login [OF keep, of _ fd c sig]) simp_all
  have "s = s\<lparr>dir := dir s\<rparr>" by simp
  then show ?thesis
    using login [of "dir s"]
    by (auto simp: handle_hello_ack_def keep login split: prod.splits bool.splits)
qed

lemma server_ok_rooms:
  assumes ok: "server_ok lib s" and c: "um_find (conns s) fd = Some c" and auth: "authenticated c"
  shows "server_ok lib (handle_chan_subscribe fd g s)" "server_ok lib (handle_chan_unsubscribe fd g s)"
    "server_ok lib (handle_room_join lib fd g up s)" "server_ok lib (handle_room_leave lib fd g s)"
proof -
  have x: "cores s fd = Some (True, snd (core c))" using core_of_conn [OF c] auth by (simp add: core_def)
  note d = server_okD(1-3) [OF ok]
  note rels = idx.rel_join [OF d(2)] idx.rel_leave [OF d(2)] idx.rel_join [OF d(3)] idx.rel_leave [OF d(3)]
  have b: "server_ok lib (t\<lparr>book := channel_subscribe fd g (book s)\<rparr>)" "server_ok lib (t\<lparr>book := channel_unsubscribe fd g (book s)\<rparr>)"
    "server_ok lib (t\<lparr>book := room_join fd g (book s)\<rparr>)" "server_ok lib (t\<lparr>book := room_leave fd g (book s)\<rparr>)"
    if t: "book t = book s" "cores t = cores s" for t
  proof -
    have okt: "server_ok lib t" using ok server_ok_same [OF t] by simp
    have xt: "cores t fd = Some (True, snd (core c))" using x t by simp
    note bk = server_ok_book [OF okt xt]
    show "server_ok lib (t\<lparr>book := channel_subscribe fd g (book s)\<rparr>)"
      by (rule bk [OF relay_ok_ops(1) [OF d(1)]]) (auto simp: t channel_subscribe_def rels)
    show "server_ok lib (t\<lparr>book := channel_unsubscribe fd g (book s)\<rparr>)"
      by (rule bk [OF relay_ok_ops(2) [OF d(1)]]) (auto simp: t channel_unsubscribe_def rels)
    show "server_ok lib (t\<lparr>book := room_join fd g (book s)\<rparr>)"
      by (rule bk [OF relay_ok_ops(4) [OF d(1)]]) (auto simp: t room_join_def rels)
    show "server_ok lib (t\<lparr>book := room_leave fd g (book s)\<rparr>)"
      by (rule bk [OF relay_ok_ops(5) [OF d(1)]]) (auto simp: t room_leave_def rels)
  qed
  let ?t = "upd_conn fd (\<lambda>c. c\<lparr>room_uplink_class := up\<rparr>) s"
  have t: "cores ?t = cores s" "book ?t = book s" by (simp_all add: cores_upd_conn core_def)
  show "server_ok lib (handle_chan_subscribe fd g s)" "server_ok lib (handle_chan_unsubscribe fd g s)"
    using ok b(1,2) [OF refl refl] by (simp_all add: handle_chan_subscribe_def handle_chan_unsubscribe_def)
  show "server_ok lib (handle_room_join lib fd g up s)" "server_ok lib (handle_room_leave lib fd g s)"
    using ok b(3) [OF t(2,1)] b(4) [OF refl refl]
    by (simp_all add: handle_room_join_def handle_room_leave_def server_ok_same [OF broadcast_keeps(2,1)] Let_def)
qed

lemma foldl_skip_send_keeps [simp]:
  "cores (foldl (\<lambda>s sfd. if sfd = fd then s else send_frame lib sfd f s) s fds) = cores s"
  "book (foldl (\<lambda>s sfd. if sfd = fd then s else send_frame lib sfd f s) s fds) = book s"
  by (rule foldl_keeps; simp)+

lemma enqueue_offline_tables:
  "enqueue_offline now u e st r = (r', st') \<Longrightarrow> user_to_fd r' = user_to_fd r \<and> fd_to_user r' = fd_to_user r \<and>
     channels r' = channels r \<and> rooms r' = rooms r"
  by (auto simp: enqueue_offline_def Let_def split: option.splits)

text \<open>Handlers that touch neither identities nor memberships.\<close>

lemma server_ok_tables:
  assumes "server_ok lib s" "cores s' = cores s" "user_to_fd (book s') = user_to_fd (book s)"
    "fd_to_user (book s') = fd_to_user (book s)" "channels (book s') = channels (book s)" "rooms (book s') = rooms (book s)"
  shows "server_ok lib s'"
  using assms by (simp add: server_ok_def relay_ok_def)

lemma server_ok_envelope:
  assumes ok: "server_ok lib s"
  shows "server_ok lib (handle_envelope lib fd c env s)"
proof -
  obtain b s1 where ch: "charge c env s = (b, s1)" by fastforce
  note k = charge_keeps [OF ch]
  have "server_ok lib (handle_channel_envelope lib fd c env g s)" for g
    by (rule server_ok_tables [OF ok]) (use k in \<open>auto simp: handle_channel_envelope_def ch Let_def\<close>)
  moreover have "server_ok lib (handle_user_envelope lib fd c env u s)" for u
  proof -
    obtain r st where e: "enqueue_offline (now_ms s1) u (pb_ser (envelope_pb lib) (stamp_sender c env))
        (dir_store (dir s)) (book s) = (r, st)" by fastforce
    show ?thesis
      by (rule server_ok_tables [OF ok])
        (use k enqueue_offline_tables [OF e] in \<open>auto simp: handle_user_envelope_def ch Let_def e\<close>)
  qed
  ultimately show ?thesis using ok by (simp add: handle_envelope_def split: recipient.split)
qed

lemma server_ok_peer: "server_ok lib s \<Longrightarrow> server_ok lib (handle_peer lib fd c pe s)"
  by (erule server_ok_tables) (auto simp: handle_peer_def Let_def split: option.splits prod.splits)

lemma server_ok_directory:
  "server_ok lib s \<Longrightarrow> server_ok lib (handle_key_upload lib c b s)"
  "server_ok lib s \<Longrightarrow> server_ok lib (handle_key_fetch lib fd un rid s)"
  "server_ok lib s \<Longrightarrow> server_ok lib (handle_username_lookup lib fd pk s)"
  "server_ok lib s \<Longrightarrow> server_ok lib (handle_register_req lib fd c cp un s)"
  by (erule server_ok_tables; auto simp: handle_key_upload_def handle_key_fetch_def handle_username_lookup_def
      handle_register_req_def Let_def split: option.splits prod.splits)+

lemma server_ok_handle_frame:
  assumes "server_ok lib s"
  shows "server_ok lib (handle_frame lib fd bs s)"
proof (cases "um_find (conns s) fd")
  case None
  with assms show ?thesis by (simp add: handle_frame_def)
next
  case (Some c)
  have "server_ok lib (set_close fd s)" using assms server_ok_same [OF set_close_keeps(2,1)] by simp
  with assms Some show ?thesis
    using server_ok_hello [OF assms Some] server_ok_hello_ack [OF assms Some] server_ok_rooms [OF assms Some]
      server_ok_envelope [OF assms] server_ok_peer [OF assms] server_ok_directory [OF assms]
    by (auto simp: handle_frame_def dispatch_def split: option.splits frame.splits)
qed

lemma close_conn_state:
  "book (close_conn lib fd s) = unbind_all_rooms fd (unbind_all_channels fd (unbind fd (book s)))"
  "cores (close_conn lib fd s) f = (if f = fd then None else cores s f)"
proof -
  let ?t = "s\<lparr>book := unbind_all_rooms fd (unbind_all_channels fd (unbind fd (book s))), conns := um_erase fd (conns s)\<rparr>"
  have "book (close_conn lib fd s) = book ?t" "cores (close_conn lib fd s) = cores ?t"
    unfolding close_conn_def Let_def by (rule foldl_keeps; simp)+
  then show "book (close_conn lib fd s) = unbind_all_rooms fd (unbind_all_channels fd (unbind fd (book s)))"
    "cores (close_conn lib fd s) f = (if f = fd then None else cores s f)"
    by (simp_all add: cores_def)
qed

lemma server_ok_close:
  assumes ok: "server_ok lib s"
  shows "server_ok lib (close_conn lib fd s)"
proof (rule server_okI)
  note d = server_okD(1-3) [OF ok]
  let ?b = "book (close_conn lib fd s)"
  have keep: "channels (unbind fd (book s)) = channels (book s)" "rooms (unbind fd (book s)) = rooms (book s)"
    by (auto simp: unbind_def Let_def split: option.splits)
  have tab: "fd_to_user ?b = fd_to_user (unbind fd (book s))" "channels ?b = index_drop fd (channels (book s))"
    "rooms ?b = index_drop fd (rooms (book s))"
    by (simp_all add: close_conn_state unbind_all_rooms_def unbind_all_channels_def keep)
  show "relay_ok ?b" by (simp add: close_conn_state relay_ok_ops relay_ok_unbind d)
  show "conn_ok lib k" if "cores (close_conn lib fd s) f = Some k" for f k
    using that server_okD(4) [OF ok, of f k] by (simp add: close_conn_state split: if_splits)
  show "\<exists>x. cores (close_conn lib fd s) f = Some (True, u, x)" if "um_find (fd_to_user ?b) f = Some u" for f u
    using that [unfolded tab] server_okD(5) [OF ok, of f u] by (simp add: unbind_tables(2) [OF d(1)] close_conn_state(2) split: if_splits)
  show "\<exists>u x. cores (close_conn lib fd s) f = Some (True, u, x)" if "(f, g) \<in> idx.rel (channels ?b) \<union> idx.rel (rooms ?b)" for f g
    using that [unfolded tab] server_okD(6) [OF ok, of f g] by (auto simp: idx.rel_drop d close_conn_state(2))
qed

lemma server_ok_handle_frames: "server_ok lib s \<Longrightarrow> server_ok lib (snd (handle_frames lib fd fs s))"
  by (induction fs arbitrary: s)
    (auto simp: Let_def server_ok_handle_frame server_ok_close split: option.splits)

lemma server_ok_upd:
  assumes "server_ok lib s" "\<And>c. core (f c) = core c"
  shows "server_ok lib (upd_conn fd f s)"
  using assms server_ok_same [OF book_upd_conn(1) cores_upd_conn] by blast

lemma server_ok_drain_ws: "server_ok lib s \<Longrightarrow> server_ok lib (drain_ws lib fd p s)"
  by (auto simp: drain_ws_def case_prod_beta Let_def core_def
      intro!: server_ok_close server_ok_handle_frames server_ok_upd)

lemma server_ok_on_read:
  assumes "server_ok lib s"
  shows "server_ok lib (on_read lib fd bs s)"
  using assms
  by (auto simp: on_read_def case_prod_beta Let_def core_def
      intro!: server_ok_close server_ok_handle_frames server_ok_upd server_ok_drain_ws
      split: option.splits hs_status.splits prod.splits)

lemma server_ok_accept:
  assumes ok: "server_ok lib s"
  shows "server_ok lib (accept_conn fd tx s)"
proof (cases "um_find (conns s) fd")
  case None
  let ?s = "accept_conn fd tx s"
  have s: "book ?s = book s" "cores ?s f = (if f = fd then Some (core (new_conn tx)) else cores s f)" for f
    using None by (simp_all add: accept_conn_def cores_def)
  have no: "cores s fd = None" using None by (simp add: cores_def)
  show ?thesis
  proof (rule server_okI)
    show "relay_ok (book ?s)" using server_okD(1) [OF ok] by (simp add: s)
    show "conn_ok lib k" if "cores ?s f = Some k" for f k
      using that server_okD(4) [OF ok, of f k] by (auto simp: s core_def new_conn_def conn_ok_def split: if_splits)
    show "\<exists>x. cores ?s f = Some (True, u, x)" if "um_find (fd_to_user (book ?s)) f = Some u" for f u
      using that server_okD(5) [OF ok, of f u] no by (auto simp: s)
    show "\<exists>u x. cores ?s f = Some (True, u, x)" if "(f, g) \<in> idx.rel (channels (book ?s)) \<union> idx.rel (rooms (book ?s))" for f g
      using that server_okD(6) [OF ok, of f g] no by (auto simp: s)
  qed
qed (use ok in \<open>simp add: accept_conn_def\<close>)

lemma server_ok_step: "server_ok lib s \<Longrightarrow> server_ok lib (server_step lib s e)"
  by (cases e) (auto simp: server_ok_accept server_ok_on_read server_ok_close core_def intro: server_ok_upd,
      simp add: server_ok_def)

lemma server_ok_run: "server_ok lib s \<Longrightarrow> server_ok lib (foldl (server_step lib) s evs)"
  by (induction evs arbitrary: s) (simp_all add: server_ok_step)

subsection \<open>A small run\<close>

definition demo_lib :: server_lib where
  "demo_lib = \<lparr>
     frame_pb = \<lparr>pb_ser = (\<lambda>f. case f of FEnvelope e \<Rightarrow> 9 # ciphertext e @ sender_pubkey e | _ \<Rightarrow> []),
       pb_parse = (\<lambda>w. if w = [1] then Some (FHello (replicate 32 7) []) else if w = [2] then Some (FHelloAck (replicate 64 0))
          else if w = [3] then Some (FEnvelope \<lparr>envelope_id = [], timestamp_ms = 0, sender_pubkey = [5], ciphertext = [8], env_aad = [],
             aead_alg = 1, protocol_version = 1, env_signature = [], pq_ct = [], rcpt = UserPubkey (replicate 32 7)\<rparr>) else None)\<rparr>,
     envelope_pb = \<lparr>pb_ser = ciphertext, pb_parse = (\<lambda>w. None)\<rparr>,
     bundle_pb = \<lparr>pb_ser = signed_prekey, pb_parse = (\<lambda>w. None)\<rparr>,
     bundle_partial = (\<lambda>w. \<lparr>identity_pubkey = [], signed_prekey = [], signed_prekey_sig = [], one_time_prekey = [], one_time_prekey_id = 0,
       published_at_ms = 0, pq_pubkey = [], pq_pubkey_sig = [], pq_sig_pubkey = [], pq_sig_pubkey_sig = [], signed_prekey_sig_pq = [],
       pq_pubkey_sig_pq = []\<rparr>),
     ed_verify = (\<lambda>k m sig. sig = replicate 64 0), random32 = (\<lambda>n. replicate 32 (of_nat n)), base64 = id\<rparr>"

text \<open>One client connects, says hello and answers the challenge.\<close>

definition demo_login :: "server_event list" where
  "demo_login = [Accept 4 kTcp, Read 4 (encode_frame [1] @ encode_frame [2])]"

lemma drain_two: "drain (feed decoder_init (encode_frame [1] @ encode_frame [2])) = ([[1], [2]], decoder_init)"
  using drain_encoded [of "[[1], [2]]" "feed decoder_init (encode_frame [1] @ encode_frame [2])"]
  by (simp add: feed_def decoder_init_def kMaxFrameBytes_def)

lemma error_init: "error decoder_init = False"
  by (simp add: decoder_init_def)

lemma demo_login_state:
  "\<exists>c. um_find (conns (foldl (server_step demo_lib) (server_init None) demo_login)) 4 = Some c \<and>
       authenticated c \<and> transport c = kTcp \<and> bound_user_pub c = replicate 32 7 \<and>
       book (foldl (server_step demo_lib) (server_init None) demo_login) =
         relay_init\<lparr>user_to_fd := [(replicate 32 7, 4)], fd_to_user := [(4, replicate 32 7)]\<rparr> \<and>
       now_ns (foldl (server_step demo_lib) (server_init None) demo_login) = 0 \<and>
       limiter (foldl (server_step demo_lib) (server_init None) demo_login) = limiter (server_init None)"
  unfolding demo_login_def foldl.simps server_step.simps accept_conn_def
  by (simp add: server_init_def on_read_def new_conn_def drain_two error_init upd_conn_def um_put_def um_find_def handle_frame_def
      demo_lib_def dispatch_def handle_hello_def send_server_hello_def send_frame_def enqueue_write_def Let_def
      handle_hello_ack_def kIdentitySigBytes_def complete_login_def drain_offline_def relay_init_def bind_user_def
      deliver_pending_def directory_init_def)

end
