(* ===== verification/Routing.thy ===== *)
theory Routing
  imports Server
begin

text \<open>
  What the relay server guarantees to its clients: who may be reached, what an unauthenticated
  connection can touch, and where an envelope goes. All of it rests on the invariant \<open>server_ok\<close>
  of the server's states.
\<close>

subsection \<open>What a frame leaves alone\<close>

lemma send_frame_conns:
  "um_find (conns (send_frame lib fd f s)) g =
     (if g = fd then map_option (enqueue_write (pb_ser (frame_pb lib) f)) (um_find (conns s) fd) else um_find (conns s) g)"
  by (simp add: send_frame_def)

lemma set_close_conns: "g \<noteq> fd \<Longrightarrow> um_find (conns (set_close fd s)) g = um_find (conns s) g"
  by (simp add: set_close_def)

lemma send_hello_conns: "g \<noteq> fd \<Longrightarrow> um_find (conns (send_server_hello lib fd ok d ch s)) g = um_find (conns s) g"
  by (simp add: send_server_hello_def send_frame_conns)

lemma set_close_rest [simp]: "dir (set_close fd s) = dir s" "limiter (set_close fd s) = limiter s"
  by (simp_all add: set_close_def)

lemma send_hello_rest [simp]:
  "dir (send_server_hello lib fd ok d ch s) = dir s" "limiter (send_server_hello lib fd ok d ch s) = limiter s"
  by (simp_all add: send_server_hello_def)

lemma server_ok_reach: "server_ok lib (foldl (server_step lib) (server_init st) evs)"
  by (rule server_ok_run [OF server_ok_init])

lemma authenticated_conn:
  assumes "server_ok lib s" and "um_find (conns s) fd = Some c" and "authenticated c"
  shows "length (bound_user_pub c) = 32 \<and>
    (\<exists>sig. length sig = kIdentitySigBytes \<and> ed_verify lib (bound_user_pub c) (challenge c) sig)"
  using server_okD(4) [OF assms(1) core_of_conn [OF assms(2)]] assms(3) by (auto simp: core_def conn_ok_def)

lemma bound_conn:
  assumes ok: "server_ok lib s" and u: "um_find (user_to_fd (book s)) u = Some fd"
  obtains c sig where "um_find (conns s) fd = Some c" "authenticated c" "bound_user_pub c = u" "length u = 32"
    "length sig = kIdentitySigBytes" "ed_verify lib u (challenge c) sig"
proof -
  have "um_find (fd_to_user (book s)) fd = Some u" using server_okD(1) [OF ok] u by (simp add: relay_ok_def)
  then obtain x where k: "cores s fd = Some (True, u, x)" using server_okD(5) [OF ok] by blast
  moreover from k have "conn_ok lib (True, u, x)" by (rule server_okD(4) [OF ok])
  ultimately show thesis using that by (auto simp: cores_def core_def conn_ok_def split: prod.splits)
qed

subsection \<open>Properties\<close>

text \<open>C8. Only a key holder is reachable: in every state the server can get into, over any sequence
  of accepts, reads, disconnects and flushes, a user table entry points to a live authenticated
  connection bound to that very 32-byte key, and some 64-byte signature over the challenge the
  server issued to that connection verified under the key. The same holds of every channel and room
  member: it is a live authenticated connection bound to a 32-byte key under which a 64-byte
  signature over the challenge issued to it verified.\<close>

theorem server_authenticates:
  assumes "s = foldl (server_step lib) (server_init st) evs"
  shows "(um_find (user_to_fd (book s)) u = Some fd \<longrightarrow>
      (\<exists>c sig. um_find (conns s) fd = Some c \<and> authenticated c \<and> bound_user_pub c = u \<and> length u = 32 \<and>
        length sig = 64 \<and> ed_verify lib u (challenge c) sig)) \<and>
    (fd \<in> set (channel_subscribers g (book s)) \<union> set (room_member_fds g (book s)) \<longrightarrow>
      (\<exists>c sig. um_find (conns s) fd = Some c \<and> authenticated c \<and> length (bound_user_pub c) = 32 \<and>
        length sig = 64 \<and> ed_verify lib (bound_user_pub c) (challenge c) sig))"
proof (intro conjI impI)
  have ok: "server_ok lib s" using server_ok_reach assms by simp
  show "\<exists>c sig. um_find (conns s) fd = Some c \<and> authenticated c \<and> bound_user_pub c = u \<and> length u = 32 \<and>
        length sig = 64 \<and> ed_verify lib u (challenge c) sig" if "um_find (user_to_fd (book s)) u = Some fd"
    using bound_conn [OF ok that] by (metis kIdentitySigBytes_def)
  assume "fd \<in> set (channel_subscribers g (book s)) \<union> set (room_member_fds g (book s))"
  then have "(fd, g) \<in> idx.rel (channels (book s)) \<union> idx.rel (rooms (book s))"
    by (auto simp: idx.rel_def channel_subscribers_def room_member_fds_def)
  then obtain v x where "cores s fd = Some (True, v, x)" using server_okD(6) [OF ok] by blast
  then obtain c where "um_find (conns s) fd = Some c" "authenticated c" by (auto simp: cores_def core_def)
  with authenticated_conn [OF ok this] show "\<exists>c sig. um_find (conns s) fd = Some c \<and> authenticated c \<and>
      length (bound_user_pub c) = 32 \<and> length sig = 64 \<and> ed_verify lib (bound_user_pub c) (challenge c) sig"
    by (metis kIdentitySigBytes_def)
qed

theorem server_authenticates_witness:
  "\<exists>c sig. um_find (conns (foldl (server_step demo_lib) (server_init None) demo_login)) 4 = Some c \<and> authenticated c \<and>
     bound_user_pub c = replicate 32 7 \<and> length sig = 64 \<and> ed_verify demo_lib (replicate 32 7) (challenge c) sig"
  using server_authenticates [OF refl, of demo_lib None demo_login "replicate 32 7" 4] demo_login_state
  by (auto simp: um_find_def)

text \<open>C19. Isolation before authentication: a frame from a connection that has not authenticated, other
  than a HelloAck whose signature over the issued challenge verifies, leaves the directory, the
  connection book (routes, offline queues, channels, rooms), the rate limiter and every other
  connection as they were, and the connection itself stays unauthenticated.\<close>

theorem preauth_isolation:
  assumes c: "um_find (conns s) fd = Some c" and "\<not> authenticated c"
    and nack: "\<And>sig. pb_parse (frame_pb lib) bs = Some (FHelloAck sig) \<Longrightarrow>
      challenge_issued c \<Longrightarrow> \<not> ed_verify lib (claimed_user_pub c) (challenge c) sig"
  shows "let s' = handle_frame lib fd bs s in
    dir s' = dir s \<and> book s' = book s \<and> limiter s' = limiter s \<and>
    (g \<noteq> fd \<longrightarrow> um_find (conns s') g = um_find (conns s) g) \<and>
    (\<exists>c'. um_find (conns s') fd = Some c' \<and> \<not> authenticated c')"
proof -
  consider "pb_parse (frame_pb lib) bs = None" | f where "pb_parse (frame_pb lib) bs = Some f" "\<not> is_auth_frame f"
    | pk un where "pb_parse (frame_pb lib) bs = Some (FHello pk un)" | sig where "pb_parse (frame_pb lib) bs = Some (FHelloAck sig)"
    by (metis is_auth_frame.elims(2) option.exhaust)
  then show ?thesis
  proof cases
    case 3
    then show ?thesis
      using assms(1,2) by (auto simp: handle_frame_def dispatch_def handle_hello_def Let_def set_close_conns send_hello_conns
          set_close_def send_server_hello_def send_frame_conns enqueue_write_def)
  next
    case (4 sig)
    then have "handle_frame lib fd bs s = set_close fd s"
      using c nack [OF 4] assms(2) by (auto simp: handle_frame_def dispatch_def handle_hello_ack_def)
    then show ?thesis using c assms(2) by (auto simp: set_close_conns) (simp add: set_close_def)
  qed (use c assms(2) in \<open>auto simp: handle_frame_def Let_def set_close_conns\<close>, simp add: set_close_def)
qed

theorem preauth_isolation_witness:
  "dir (handle_frame demo_lib 4 [3] (accept_conn 4 kTcp (server_init None))) = directory_init None \<and>
   book (handle_frame demo_lib 4 [3] (accept_conn 4 kTcp (server_init None))) = relay_init"
  using preauth_isolation [of "accept_conn 4 kTcp (server_init None)" 4 "new_conn kTcp" demo_lib "[3]" 0]
  by (simp add: accept_conn_def server_init_def new_conn_def Let_def um_find_def um_put_def demo_lib_def)

text \<open>C9. Direct messages: when an authenticated connection sends an envelope to a user and the rate
  limiter admits it, the envelope goes to exactly one place. If the recipient is online it is
  appended to the output of the connection bound to the recipient's key and of no other; if not,
  it is put in the recipient's offline queue and no connection changes. Either way its sender
  field is the authenticated key of the sending connection, unless the sender left it empty.\<close>

theorem envelope_routed:
  assumes ok: "server_ok lib s" and c: "um_find (conns s) fd = Some c" and auth: "authenticated c"
    and parse: "pb_parse (frame_pb lib) bs = Some (FEnvelope env)" and rcpt: "rcpt env = UserPubkey u"
    and admit: "fst (keyed_try_consume (now_ns s) (bound_user_pub c) (length (ciphertext env)) (limiter s))"
  shows "let s' = handle_frame lib fd bs s; d = lookup_fd u (book s);
             fwd = (if sender_pubkey env = [] then env else env\<lparr>sender_pubkey := bound_user_pub c\<rparr>) in
    if 0 \<le> d
    then book s' = book s \<and> dir s' = dir s \<and>
      (\<exists>dc. um_find (conns s) d = Some dc \<and> bound_user_pub dc = u \<and> authenticated dc \<and>
        um_find (conns s') d = Some (enqueue_write (pb_ser (frame_pb lib) (FEnvelope fwd)) dc)) \<and>
      (g \<noteq> d \<longrightarrow> um_find (conns s') g = um_find (conns s) g)
    else conns s' = conns s \<and>
      (book s', dir_store (dir s')) =
        enqueue_offline (now_ms s) u (pb_ser (envelope_pb lib) fwd) (dir_store (dir s)) (book s)"
proof -
  let ?fwd = "if sender_pubkey env = [] then env else env\<lparr>sender_pubkey := bound_user_pub c\<rparr>"
  obtain l where "keyed_try_consume (now_ns s) (bound_user_pub c) (length (ciphertext env)) (limiter s) = (True, l)"
    using admit by (cases "keyed_try_consume (now_ns s) (bound_user_pub c) (length (ciphertext env)) (limiter s)") auto
  then have "charge c env s = (True, if bound_user_pub c \<noteq> [] then s\<lparr>limiter := l\<rparr> else s)" by (simp add: charge_def)
  then obtain s1 where ch: "charge c env s = (True, s1)" and ms: "now_ms s1 = now_ms s" by (simp split: if_splits)
  note k = charge_keeps [OF ch]
  have bound: "bound_user_pub c \<noteq> []"
    using server_okD(4) [OF ok core_of_conn [OF c]] auth by (simp add: conn_ok_def core_def)
  have fwd: "stamp_sender c env = ?fwd" by (simp add: stamp_sender_def bound)
  have h: "handle_frame lib fd bs s = handle_user_envelope lib fd c env u s"
    by (simp add: handle_frame_def c parse auth dispatch_def handle_envelope_def rcpt)
  show ?thesis
  proof (cases "0 \<le> lookup_fd u (book s)")
    case True
    then have "um_find (user_to_fd (book s)) u = Some (lookup_fd u (book s))"
      by (auto simp: lookup_fd_def split: option.splits)
    then obtain dc where "um_find (conns s) (lookup_fd u (book s)) = Some dc" "authenticated dc" "bound_user_pub dc = u"
      by (rule bound_conn [OF ok])
    then show ?thesis
      using True k by (auto simp: h handle_user_envelope_def ch Let_def fwd send_frame_conns)
  next
    case False
    then show ?thesis using k ms by (simp add: h handle_user_envelope_def ch Let_def fwd split: prod.splits)
  qed
qed

theorem envelope_routed_witness:
  "\<exists>dc s'. s' = handle_frame demo_lib 4 [3] (foldl (server_step demo_lib) (server_init None) demo_login) \<and>
     bound_user_pub dc = replicate 32 7 \<and>
     um_find (conns s') 4 = Some (enqueue_write (9 # 8 # replicate 32 7) dc)"
proof -
  let ?s = "foldl (server_step demo_lib) (server_init None) demo_login"
  let ?e = "\<lparr>envelope_id = [], timestamp_ms = 0, sender_pubkey = [5], ciphertext = [8], env_aad = [],
             aead_alg = 1, protocol_version = 1, env_signature = [], pq_ct = [], rcpt = UserPubkey (replicate 32 7)\<rparr>"
  obtain c where c: "um_find (conns ?s) 4 = Some c" "authenticated c" "bound_user_pub c = replicate 32 7"
    and b: "book ?s = relay_init\<lparr>user_to_fd := [(replicate 32 7, 4)], fd_to_user := [(4, replicate 32 7)]\<rparr>"
    and l: "now_ns ?s = 0" "limiter ?s = limiter (server_init None)"
    using demo_login_state by blast
  have p: "pb_parse (frame_pb demo_lib) [3] = Some (FEnvelope ?e)" by (simp add: demo_lib_def)
  have d: "lookup_fd (replicate 32 7) (book ?s) = 4" by (simp add: b lookup_fd_def um_find_def)
  have "fst (keyed_try_consume (now_ns ?s) (bound_user_pub c) (length (ciphertext ?e)) (limiter ?s))"
    unfolding l by (simp add: keyed_try_consume_def server_init_def kDefaultBurstBytes_def kDefaultSustainedBytesPerSec_def
        new_bucket_def try_consume_def refill_def Let_def split: prod.splits)
  note r = envelope_routed [OF server_ok_reach c(1,2) p _ this, of "replicate 32 7" 0]
  have ser: "pb_ser (frame_pb demo_lib) (FEnvelope (?e\<lparr>sender_pubkey := replicate 32 7\<rparr>)) = 9 # 8 # replicate 32 7"
    by (simp add: demo_lib_def)
  from r ser show ?thesis unfolding d c(3) Let_def by auto
qed

end
