(* ===== verification/Kademlia.thy ===== *)
theory Kademlia
  imports Ordered_Map
begin

text \<open>
  The routing table of the distributed hash table, \<open>core/src/p2p/kademlia.cpp\<close>: node
  identifiers and their XOR distance, the bucket of a distance, recording a peer and the nearest
  peers to a target. \<open>std::sort\<close> is the stable sort of the library; on peers with different
  identifiers the two give the same list. SHA-256 is a parameter.
\<close>

subsection \<open>Operations\<close>

definition kNodeIdBytes :: nat where
  "kNodeIdBytes = 20"

definition kBucketSize :: nat where
  "kBucketSize = 16"

definition kAddressBits :: nat where
  "kAddressBits = 8 * kNodeIdBytes"

record peer_info =
  peer_id :: bytes
  peer_addr :: bytes
  peer_pubkey :: bytes

definition node_id_from_pubkey :: "(bytes \<Rightarrow> bytes) \<Rightarrow> bytes \<Rightarrow> bytes" where
  "node_id_from_pubkey sha256 pubkey = take kNodeIdBytes (sha256 pubkey)"

definition xor_distance :: "bytes \<Rightarrow> bytes \<Rightarrow> bytes" where
  "xor_distance a b = map2 (XOR) a b"

text \<open>The scan from the most significant bit of a byte; it is only run on a byte with a bit set.\<close>

fun high_bit_from :: "nat \<Rightarrow> byte \<Rightarrow> nat" where
  "high_bit_from 0 b = 0"
| "high_bit_from (Suc n) b = (if bit b (Suc n) then Suc n else high_bit_from n b)"

definition high_bit :: "byte \<Rightarrow> nat" where
  "high_bit b = high_bit_from 7 b"

fun bucket_index :: "bytes \<Rightarrow> nat" where
  "bucket_index [] = kAddressBits"
| "bucket_index (b # rest) = (if b = 0 then bucket_index rest else length rest * 8 + high_bit b)"

record routing_table =
  self_id :: bytes
  rt_buckets :: "peer_info list list"

definition rt_new :: "bytes \<Rightarrow> routing_table" where
  "rt_new self = \<lparr>self_id = self, rt_buckets = replicate kAddressBits []\<rparr>"

definition observe_bucket :: "peer_info \<Rightarrow> peer_info list \<Rightarrow> bool \<times> peer_info list" where
  "observe_bucket peer b =
     (case List.extract (\<lambda>p. peer_id p = peer_id peer) b of
        Some (before, p, after) \<Rightarrow> (False, before @ after @ [p\<lparr>peer_addr := peer_addr peer\<rparr>])
      | None \<Rightarrow> if length b < kBucketSize then (True, b @ [peer]) else (True, b[0 := peer]))"

definition observe :: "peer_info \<Rightarrow> routing_table \<Rightarrow> bool \<times> routing_table" where
  "observe peer t =
     (if peer_id peer = self_id t then (False, t)
      else let idx = bucket_index (xor_distance (self_id t) (peer_id peer)) in
        if length (rt_buckets t) \<le> idx then (False, t)
        else let (added, b) = observe_bucket peer (rt_buckets t ! idx)
             in (added, t\<lparr>rt_buckets := (rt_buckets t)[idx := b]\<rparr>))"

definition rt_all :: "routing_table \<Rightarrow> peer_info list" where
  "rt_all t = concat (rt_buckets t)"

definition rt_size :: "routing_table \<Rightarrow> nat" where
  "rt_size t = foldl (\<lambda>n b. n + length b) 0 (rt_buckets t)"

definition closest :: "bytes \<Rightarrow> nat \<Rightarrow> routing_table \<Rightarrow> peer_info list" where
  "closest target limit t = take limit (sort_key (\<lambda>p. xor_distance (peer_id p) target) (rt_all t))"

subsection \<open>Distances as numbers\<close>

definition num :: "bytes \<Rightarrow> nat" where
  "num d = foldl (\<lambda>a b. 256 * a + unat b) 0 d"

lemma num_acc: "foldl (\<lambda>a b. 256 * a + unat b) a d = a * 256 ^ length d + num d"
proof (induction d arbitrary: a)
  case (Cons b d)
  show ?case using Cons [of "256 * a + unat b"] Cons [of "unat b"]
    by (simp add: num_def algebra_simps)
qed (simp add: num_def)

lemma num_Cons [simp]: "num (b # d) = unat b * 256 ^ length d + num d"
  using num_acc [of "unat b" d] by (simp add: num_def)

lemma num_Nil [simp]: "num [] = 0"
  by (simp add: num_def)

lemma num_less_pow: "num d < 256 ^ length d"
proof (induction d)
  case (Cons b d)
  have "Suc (unat b) \<le> 256" using unsigned_less [of b, where 'a = nat] by simp
  then have "Suc (unat b) * 256 ^ length d \<le> 256 * 256 ^ length d" by (rule mult_right_mono) simp
  moreover have "256 ^ length (b # d) = (256::nat) * 256 ^ length d" by simp
  ultimately have "256 ^ length d + unat b * 256 ^ length d \<le> 256 ^ length (b # d)" by (simp only: mult_Suc)
  with Cons show ?case unfolding num_Cons by linarith
qed simp


lemma length_xor [simp]: "length (xor_distance a b) = min (length a) (length b)"
  by (simp add: xor_distance_def)

lemma xor_distance_0: "length a = length b \<Longrightarrow> num (xor_distance a b) = 0 \<longleftrightarrow> a = b"
proof (induction a b rule: list_induct2)
  case (Cons x a y b)
  have "x XOR y = 0 \<longleftrightarrow> x = y" by (metis xor.right_neutral xor.assoc xor_self_eq)
  with Cons show ?case by (simp add: xor_distance_def unat_eq_0)
qed (simp add: xor_distance_def)

lemma xor_distance_inj:
  assumes "length a = length t" "length b = length t"
  shows "xor_distance a t = xor_distance b t \<longleftrightarrow> a = b"
proof
  show "xor_distance a t = xor_distance b t \<Longrightarrow> a = b"
    using assms
  proof (induction t arbitrary: a b)
    case (Cons z t)
    then obtain x a' y b' where "a = x # a'" "b = y # b'" by (metis length_Suc_conv)
    moreover have "x XOR z = y XOR z \<Longrightarrow> x = y" by (drule arg_cong [of _ _ "\<lambda>w. w XOR z"]) (simp add: xor.assoc)
    ultimately show ?case using Cons by (auto simp: xor_distance_def)
  qed simp
qed simp

lemma high_bit_from_bounds:
  assumes "b \<noteq> 0" and "\<forall>i>n. \<not> bit b i"
  shows "high_bit_from n b \<le> n \<and> 2 ^ high_bit_from n b \<le> unat b \<and> unat b < 2 ^ Suc (high_bit_from n b)"
  using assms
proof (induction n)
  case 0
  then obtain i where "bit b i" by (metis bit_word_eqI bit_0_eq bot_apply bot_bool_def)
  with 0 have "bit b 0" by (cases i) auto
  then have "b = 1" using 0 by (intro bit_word_eqI) (auto simp: bit_1_iff intro: gr0I)
  then show ?case by simp
next
  case (Suc n)
  show ?case
  proof (cases "bit b (Suc n)")
    case True
    have up: "take_bit (Suc (Suc n)) (unat b) = unat b"
      by (rule bit_eqI) (use Suc.prems(2) in \<open>auto simp: bit_simps not_less_eq\<close>)
    have "unat b < 2 ^ Suc (Suc n)" using up by (metis take_bit_nat_less_exp)
    moreover have "2 ^ Suc n \<le> unat b"
    proof (rule ccontr)
      assume "\<not> 2 ^ Suc n \<le> unat b"
      then have "unat b div 2 ^ Suc n = 0" by simp
      moreover have "bit (unat b) (Suc n)" using True by (simp add: bit_unsigned_iff)
      ultimately show False by (simp only: bit_iff_odd even_zero not_True_eq_False)
    qed
    ultimately show ?thesis using True by simp
  next
    case False
    then have "\<forall>i>n. \<not> bit b i" using Suc.prems(2) by (metis Suc_lessI)
    with False Suc show ?thesis by simp
  qed
qed

lemma high_bit_bounds:
  assumes "b \<noteq> 0"
  shows "high_bit b \<le> 7 \<and> 2 ^ high_bit b \<le> unat b \<and> unat b < 2 ^ Suc (high_bit b)"
proof -
  have "\<forall>i>7. \<not> bit b i" by (auto dest: bit_imp_le_length)
  from high_bit_from_bounds [OF assms this] show ?thesis by (simp add: high_bit_def)
qed

text \<open>The bucket of a distance is its binary logarithm.\<close>

lemma bucket_index_log:
  assumes "num d \<noteq> 0"
  shows "bucket_index d < 8 * length d \<and> 2 ^ bucket_index d \<le> num d \<and> num d < 2 ^ Suc (bucket_index d)"
  using assms
proof (induction d)
  case (Cons b d)
  have pow: "(256::nat) ^ n = 2 ^ (n * 8)" for n
    using power_mult [of "2::nat" 8 n] by (simp add: mult.commute)
  show ?case
  proof (cases "b = 0")
    case False
    let ?h = "high_bit b" and ?n = "length d * 8"
    note h = high_bit_bounds [OF False]
    have "(2::nat) ^ (?n + ?h) = 2 ^ ?h * 2 ^ ?n" by (simp add: power_add)
    also have "\<dots> \<le> unat b * 2 ^ ?n" using h by (intro mult_right_mono) simp_all
    finally have lo: "2 ^ (?n + ?h) \<le> num (b # d)" by (simp add: pow)
    have "Suc (unat b) * 2 ^ ?n \<le> 2 ^ Suc ?h * 2 ^ ?n" using h by (intro mult_right_mono) simp_all
    then have "num (b # d) < 2 ^ Suc ?h * 2 ^ ?n" using num_less_pow [of d] by (simp add: pow)
    then have "num (b # d) < 2 ^ Suc (?n + ?h)" by (simp add: power_add mult.commute)
    with lo h False show ?thesis by simp
  qed (use Cons in auto)
qed simp

subsection \<open>The table invariant\<close>

text \<open>Every peer sits in the bucket of its distance, at most once, never the node itself, and no
  bucket is larger than \<open>kBucketSize\<close>.\<close>

definition bucket_ok :: "bytes \<Rightarrow> nat \<Rightarrow> peer_info list \<Rightarrow> bool" where
  "bucket_ok self i b \<longleftrightarrow>
     length b \<le> kBucketSize \<and> distinct (map peer_id b) \<and>
     (\<forall>p\<in>set b. length (peer_id p) = kNodeIdBytes \<and> peer_id p \<noteq> self \<and>
        bucket_index (xor_distance self (peer_id p)) = i)"

definition table_ok :: "routing_table \<Rightarrow> bool" where
  "table_ok t \<longleftrightarrow>
     length (self_id t) = kNodeIdBytes \<and> length (rt_buckets t) = kAddressBits \<and>
     (\<forall>i<kAddressBits. bucket_ok (self_id t) i (rt_buckets t ! i))"

lemma table_ok_new: "length self = kNodeIdBytes \<Longrightarrow> table_ok (rt_new self)"
  by (simp add: table_ok_def rt_new_def bucket_ok_def)

lemma bucket_ok_observe:
  assumes ok: "bucket_ok self i b" and "length (peer_id peer) = kNodeIdBytes" "peer_id peer \<noteq> self"
    "bucket_index (xor_distance self (peer_id peer)) = i"
  shows "bucket_ok self i (snd (observe_bucket peer b))"
proof (cases "List.extract (\<lambda>p. peer_id p = peer_id peer) b")
  case None
  then have new: "peer_id peer \<notin> peer_id ` set b" by (auto simp: extract_None_iff)
  have res: "snd (observe_bucket peer b) = (if length b < kBucketSize then b @ [peer] else b[0 := peer])"
    using None by (simp add: observe_bucket_def)
  show ?thesis
  proof (cases "length b < kBucketSize")
    case True
    then show ?thesis using assms new unfolding res bucket_ok_def by auto
  next
    case False
    then obtain p ps where b: "b = p # ps" by (cases b) (auto simp: kBucketSize_def)
    show ?thesis using False assms new unfolding res [unfolded b] bucket_ok_def b by auto
  qed
next
  case (Some x)
  then obtain xs p ys where x: "x = (xs, p, ys)" by (cases x)
  have res: "snd (observe_bucket peer b) = xs @ ys @ [p\<lparr>peer_addr := peer_addr peer\<rparr>]"
    using Some x by (simp add: observe_bucket_def)
  have b: "b = xs @ p # ys" using Some x by (simp add: extract_Some_iff)
  from ok show ?thesis unfolding res [unfolded b] b bucket_ok_def by auto
qed

lemma table_ok_observe:
  assumes ok: "table_ok t" and len: "length (peer_id peer) = kNodeIdBytes"
  shows "table_ok (snd (observe peer t))" "self_id (snd (observe peer t)) = self_id t"
proof -
  let ?i = "bucket_index (xor_distance (self_id t) (peer_id peer))"
  show "table_ok (snd (observe peer t))"
  proof (cases "peer_id peer = self_id t \<or> length (rt_buckets t) \<le> ?i")
    case False
    then have "bucket_ok (self_id t) ?i (snd (observe_bucket peer (rt_buckets t ! ?i)))"
      using ok len by (intro bucket_ok_observe) (auto simp: table_ok_def)
    with False ok show ?thesis
      by (auto simp: observe_def table_ok_def Let_def nth_list_update split: prod.split)
  qed (use ok in \<open>auto simp: observe_def Let_def\<close>)
  show "self_id (snd (observe peer t)) = self_id t"
    by (auto simp: observe_def Let_def split: prod.splits)
qed

lemma table_ok_run:
  assumes "table_ok t" and "\<forall>p\<in>set ps. length (peer_id p) = kNodeIdBytes"
  shows "table_ok (foldl (\<lambda>t p. snd (observe p t)) t ps) \<and> self_id (foldl (\<lambda>t p. snd (observe p t)) t ps) = self_id t"
  using assms by (induction ps arbitrary: t) (simp_all add: table_ok_observe)

lemma in_concat_nth: "p \<in> set (concat bs) \<longleftrightarrow> (\<exists>i<length bs. p \<in> set (bs ! i))"
  by (metis UN_iff in_set_conv_nth set_concat)

lemma distinct_buckets:
  assumes "\<forall>i<length bs. distinct (map f (bs ! i)) \<and> (\<forall>p\<in>set (bs ! i). g (f p) = i + k)"
  shows "distinct (map f (concat bs))"
  using assms
proof (induction bs arbitrary: k)
  case (Cons b bs)
  have "\<forall>i<length bs. distinct (map f (bs ! i)) \<and> (\<forall>p\<in>set (bs ! i). g (f p) = i + Suc k)"
    using Cons.prems by (metis add_Suc_right add_Suc_shift length_Cons Suc_less_eq nth_Cons_Suc)
  moreover have "g (f p) > k" if "p \<in> set (concat bs)" for p
    using that calculation by (auto simp: in_concat_nth simp del: set_concat)
  moreover have "g (f p) = k" "distinct (map f b)" if "p \<in> set b" for p using Cons.prems that by force+
  moreover have "distinct (map f b)" using Cons.prems by force
  ultimately show ?case using Cons.IH by (fastforce simp: image_iff)
qed simp

lemma table_distinct: "table_ok t \<Longrightarrow> distinct (map peer_id (rt_all t))"
  unfolding rt_all_def
  by (rule distinct_buckets [where g = "\<lambda>i. bucket_index (xor_distance (self_id t) i)" and k = 0])
    (auto simp: table_ok_def bucket_ok_def)

lemma rt_size_all: "rt_size t = length (rt_all t)"
proof -
  have "foldl (\<lambda>n b. n + length b) k bs = k + length (concat bs)" for k and bs :: "peer_info list list"
    by (induction bs arbitrary: k) simp_all
  then show ?thesis by (simp add: rt_size_def rt_all_def)
qed

lemma rt_all_id: "table_ok t \<Longrightarrow> p \<in> set (rt_all t) \<Longrightarrow> length (peer_id p) = kNodeIdBytes"
  by (auto simp: rt_all_def table_ok_def bucket_ok_def in_concat_nth simp del: set_concat)

subsection \<open>Properties\<close>

text \<open>C36. The routing table is well formed whatever peers are observed: every peer is stored once, in
  the bucket whose index is the binary logarithm of its XOR distance to the node, the node itself
  is not stored, no bucket exceeds \<open>kBucketSize\<close> entries, so the table holds at most 2560 peers.\<close>

theorem routing_table_invariant:
  assumes "length self = kNodeIdBytes" and "\<forall>p\<in>set ps. length (peer_id p) = kNodeIdBytes"
  shows "let t = foldl (\<lambda>t p. snd (observe p t)) (rt_new self) ps in
    distinct (map peer_id (rt_all t)) \<and> rt_size t \<le> 160 * 16 \<and>
    (\<forall>i<160. length (rt_buckets t ! i) \<le> 16 \<and>
       (\<forall>p\<in>set (rt_buckets t ! i). peer_id p \<noteq> self \<and>
          2 ^ i \<le> num (xor_distance self (peer_id p)) \<and> num (xor_distance self (peer_id p)) < 2 ^ Suc i))"
proof -
  let ?t = "foldl (\<lambda>t p. snd (observe p t)) (rt_new self) ps"
  have ok: "table_ok ?t" and self: "self_id ?t = self"
    using table_ok_run [OF table_ok_new [OF assms(1)] assms(2)] by (simp_all add: rt_new_def)
  have b: "bucket_ok self i (rt_buckets ?t ! i)" if "i < 160" for i
    using ok self that by (simp add: table_ok_def kAddressBits_def kNodeIdBytes_def)
  have n: "length (rt_buckets ?t) = 160" using ok by (simp add: table_ok_def kAddressBits_def kNodeIdBytes_def)
  have log: "2 ^ i \<le> num (xor_distance self (peer_id p)) \<and> num (xor_distance self (peer_id p)) < 2 ^ Suc i \<and> peer_id p \<noteq> self"
    if "i < 160" "p \<in> set (rt_buckets ?t ! i)" for i p
  proof -
    have p: "length (peer_id p) = length self" "peer_id p \<noteq> self" "bucket_index (xor_distance self (peer_id p)) = i"
      using b [OF that(1)] that(2) assms(1) by (auto simp: bucket_ok_def)
    then have "num (xor_distance self (peer_id p)) \<noteq> 0" using xor_distance_0 [of self "peer_id p"] by auto
    from bucket_index_log [OF this] p show ?thesis by simp
  qed
  have "length (concat bs) \<le> length bs * n" if "\<And>i. i < length bs \<Longrightarrow> length (bs ! i) \<le> n" for n and bs :: "peer_info list list"
    using that by (induction bs) (force simp: add_mono)+
  from this [of "rt_buckets ?t" 16] have "length (rt_all ?t) \<le> 160 * 16"
    using b n by (simp add: rt_all_def bucket_ok_def kBucketSize_def)
  with b log table_distinct [OF ok] show ?thesis
    by (simp add: Let_def rt_size_all bucket_ok_def kBucketSize_def)
qed

theorem routing_table_invariant_witness:
  "rt_size (foldl (\<lambda>t p. snd (observe p t)) (rt_new (replicate 20 0))
     [\<lparr>peer_id = replicate 20 1, peer_addr = [], peer_pubkey = []\<rparr>]) \<le> 160 * 16"
  using routing_table_invariant [of "replicate 20 0" "[\<lparr>peer_id = replicate 20 1, peer_addr = [], peer_pubkey = []\<rparr>]"]
  by (simp add: kNodeIdBytes_def Let_def)



lemma observe_full:
  assumes "peer_id q \<noteq> self_id t" "i = bucket_index (xor_distance (self_id t) (peer_id q))" "i < length (rt_buckets t)"
    and "length (rt_buckets t ! i) = kBucketSize" "peer_id q \<notin> peer_id ` set (rt_buckets t ! i)"
  shows "observe q t = (True, t\<lparr>rt_buckets := (rt_buckets t)[i := q # tl (rt_buckets t ! i)]\<rparr>)"
proof -
  obtain p ps where b: "rt_buckets t ! i = p # ps" using assms(4) by (cases "rt_buckets t ! i") (auto simp: kBucketSize_def)
  have "List.extract (\<lambda>p. peer_id p = peer_id q) (rt_buckets t ! i) = None"
    unfolding extract_None_iff using assms(5) by (metis imageI)
  then have "observe_bucket q (rt_buckets t ! i) = (True, q # ps)"
    using assms(4) b by (simp add: observe_bucket_def)
  with assms(1-3) b show ?thesis by (simp add: observe_def Let_def)
qed

text \<open>Eviction from a full bucket keeps replacing its front slot: of two new peers seen one after
  the other, the second takes the place of the first, although buckets are documented to be
  ordered with the least recently seen peer in front and the fifteen other peers, all seen
  earlier, stay.\<close>

theorem full_bucket_evicts_newest:
  assumes "peer_id q \<noteq> self_id t" "peer_id r \<noteq> self_id t" "peer_id r \<noteq> peer_id q"
    and "i = bucket_index (xor_distance (self_id t) (peer_id q))" "i = bucket_index (xor_distance (self_id t) (peer_id r))"
    and "i < length (rt_buckets t)" "length (rt_buckets t ! i) = kBucketSize"
    and "peer_id q \<notin> peer_id ` set (rt_buckets t ! i)" "peer_id r \<notin> peer_id ` set (rt_buckets t ! i)"
  shows "rt_buckets (snd (observe r (snd (observe q t)))) ! i = r # tl (rt_buckets t ! i)"
proof -
  let ?t = "snd (observe q t)"
  have t: "self_id ?t = self_id t" "rt_buckets ?t = (rt_buckets t)[i := q # tl (rt_buckets t ! i)]"
    using observe_full [OF assms(1,4,6-8)] by simp_all
  have "set (tl (rt_buckets t ! i)) \<subseteq> set (rt_buckets t ! i)" by (cases "rt_buckets t ! i") auto
  then have "observe r ?t = (True, ?t\<lparr>rt_buckets := (rt_buckets ?t)[i := r # tl (rt_buckets ?t ! i)]\<rparr>)"
    using assms by (intro observe_full) (auto simp: t kBucketSize_def)
  then show ?thesis using assms(6) by (simp add: t)
qed

definition demo_peer :: "nat \<Rightarrow> peer_info" where
  "demo_peer k = \<lparr>peer_id = (128 + of_nat k) # replicate 19 0, peer_addr = [], peer_pubkey = []\<rparr>"

lemma demo_peer_id: "j < 100 \<Longrightarrow> k < 100 \<Longrightarrow> peer_id (demo_peer j) = peer_id (demo_peer k) \<longleftrightarrow> j = k"
  by (auto simp: demo_peer_def unat_of_nat dest!: arg_cong [of _ _ unat])

theorem full_bucket_evicts_newest_witness:
  "rt_buckets (snd (observe (demo_peer 17) (snd (observe (demo_peer 16)
     \<lparr>self_id = replicate 20 0, rt_buckets = replicate 159 [] @ [map demo_peer [0..<16]]\<rparr>)))) ! 159 =
   demo_peer 17 # map demo_peer [1..<16]"
proof -
  have new: "peer_id (demo_peer k) \<noteq> peer_id (demo_peer 0)" "peer_id (demo_peer k) \<notin> peer_id ` demo_peer ` {Suc 0..<16}"
    if "16 \<le> k" "k < 100" for k using that by (auto simp: demo_peer_id)
  have self: "peer_id (demo_peer 16) \<noteq> replicate 20 0" "peer_id (demo_peer 17) \<noteq> replicate 20 0"
    by code_simp+
  have idx: "159 = bucket_index (xor_distance (replicate 20 0) (peer_id (demo_peer 16)))"
    "159 = bucket_index (xor_distance (replicate 20 0) (peer_id (demo_peer 17)))" by code_simp+
  have "[0..<16] = 0 # [1..<16]" by (simp add: upt_rec)
  then show ?thesis
    using full_bucket_evicts_newest [of "demo_peer 16"
        "\<lparr>self_id = replicate 20 0, rt_buckets = replicate 159 [] @ [map demo_peer [0..<16]]\<rparr>" "demo_peer 17" 159]
      new [of 16] new [of 17] self idx demo_peer_id [of 17 16]
    by (simp add: kBucketSize_def nth_append)
qed

text \<open>A known peer with fewer than \<open>limit\<close> nearer ones is among the nearest.\<close>

lemma take_sort_key_mem:
  assumes "x \<in> set xs" "inj_on f (set xs)" "distinct xs" "card {y \<in> set xs. f y < f x} < limit"
  shows "x \<in> set (take limit (sort_key f xs))"
proof -
  let ?s = "sort_key f xs"
  obtain i where i: "i < length ?s" "?s ! i = x" using assms(1) by (metis in_set_conv_nth set_sort)
  have "f (?s ! j) < f x" if "j < i" for j
  proof -
    have "sorted (map f ?s)" by simp
    then have "f (?s ! j) \<le> f x" using sorted_nth_mono [of "map f ?s" j i] that i by simp
    moreover have "?s ! j \<noteq> ?s ! i" using nth_eq_iff_index_eq [of ?s j i] assms(3) that i(1) by simp
    then have "f (?s ! j) \<noteq> f x" using assms(2) i that by (metis inj_onD nth_mem order.strict_trans set_sort)
    ultimately show ?thesis by simp
  qed
  moreover have "?s ! j \<in> set xs" if "j < i" for j using nth_mem [of j ?s] that i(1) by simp
  ultimately have "(!) ?s ` {..<i} \<subseteq> {y \<in> set xs. f y < f x}" by auto
  then have "card ((!) ?s ` {..<i}) \<le> card {y \<in> set xs. f y < f x}" by (intro card_mono) auto
  moreover have "card ((!) ?s ` {..<i}) = i"
    using assms(3) i(1) by (subst card_image) (auto intro!: inj_onI simp: nth_eq_iff_index_eq)
  ultimately have "i < limit" using assms(4) by simp
  then show ?thesis using i by (metis in_set_conv_nth length_take min_less_iff_conj nth_take)
qed

lemma closest_mem:
  assumes ok: "table_ok t" and target: "length target = kNodeIdBytes" and p: "p \<in> set (rt_all t)"
    and near: "card {q \<in> set (rt_all t). xor_distance (peer_id q) target < xor_distance (peer_id p) target} < limit"
  shows "p \<in> set (closest target limit t)"
  unfolding closest_def
proof (rule take_sort_key_mem [OF p _ _ near])
  have len: "length (peer_id q) = length target" if "q \<in> set (rt_all t)" for q using rt_all_id [OF ok that] target by simp
  show "inj_on (\<lambda>p. xor_distance (peer_id p) target) (set (rt_all t))"
    using table_distinct [OF ok] xor_distance_inj [OF len len] by (auto simp: distinct_map inj_on_def)
  show "distinct (rt_all t)" using table_distinct [OF ok] by (simp add: distinct_map)
qed

end
