(* ===== verification/Blob_Store.thy ===== *)
theory Blob_Store
  imports Ordered_Map
begin

text \<open>
  The mailbox a peer keeps for offline contacts, \<open>core/src/p2p/offline_relay.cpp\<close>. The system
  clock is the argument \<open>clock\<close>; sums of timestamps wrap like \<open>std::uint64_t\<close>.
\<close>

subsection \<open>Operations\<close>

definition kMaxBlobsPerRecipient :: nat where
  "kMaxBlobsPerRecipient = 256"

definition kDefaultBlobTtlMs :: u64 where
  "kDefaultBlobTtlMs = 7 * 24 * 60 * 60 * 1000"

record blob =
  blob_bytes :: bytes
  deposited_at_ms :: u64

type_synonym blob_store = "(bytes, blob list) omap"

datatype deposit_result = kAccepted | kRejectedFormat | kRejectedFull

definition now_ms_or :: "u64 \<Rightarrow> u64 \<Rightarrow> u64" where
  "now_ms_or clock override_ms = (if override_ms \<noteq> 0 then override_ms else clock)"

definition deposit :: "u64 \<Rightarrow> bytes \<Rightarrow> bytes \<Rightarrow> u64 \<Rightarrow> blob_store \<Rightarrow> deposit_result \<times> blob_store" where
  "deposit clock recipient payload now s =
     (if length recipient \<noteq> 32 then (kRejectedFormat, s)
      else if payload = [] then (kRejectedFormat, s)
      else let t = now_ms_or clock now; s = om_emplace recipient [] s; q = the (om_find s recipient) in
        if kMaxBlobsPerRecipient \<le> length q then (kRejectedFull, s)
        else (kAccepted, om_assign recipient (q @ [\<lparr>blob_bytes = payload, deposited_at_ms = t\<rparr>]) s))"

definition fetch_and_clear :: "u64 \<Rightarrow> bytes \<Rightarrow> u64 \<Rightarrow> blob_store \<Rightarrow> bytes list \<times> blob_store" where
  "fetch_and_clear clock recipient now s =
     (if length recipient \<noteq> 32 then ([], s)
      else let t = now_ms_or clock now in
        case om_find s recipient of
          None \<Rightarrow> ([], s)
        | Some q \<Rightarrow> (map blob_bytes (filter (\<lambda>b. t < deposited_at_ms b + kDefaultBlobTtlMs) q), om_erase recipient s))"

fun prune_queue :: "u64 \<Rightarrow> u64 \<Rightarrow> blob list \<Rightarrow> nat \<times> blob list" where
  "prune_queue t ttl [] = (0, [])"
| "prune_queue t ttl (b # q) =
     (let (n, q') = prune_queue t ttl q in
      if deposited_at_ms b + ttl \<le> t then (Suc n, q') else (n, b # q'))"

fun prune_all :: "u64 \<Rightarrow> u64 \<Rightarrow> blob_store \<Rightarrow> nat \<times> blob_store" where
  "prune_all t ttl [] = (0, [])"
| "prune_all t ttl ((k, q) # s) =
     (let (n, q') = prune_queue t ttl q; (m, s') = prune_all t ttl s
      in (n + m, if q' = [] then s' else (k, q') # s'))"

definition prune_expired :: "u64 \<Rightarrow> u64 \<Rightarrow> u64 \<Rightarrow> blob_store \<Rightarrow> nat \<times> blob_store" where
  "prune_expired clock now ttl s = prune_all (now_ms_or clock now) ttl s"

definition total_blobs :: "blob_store \<Rightarrow> nat" where
  "total_blobs s = foldl (\<lambda>n (k, q). n + length q) 0 s"

definition recipients :: "blob_store \<Rightarrow> nat" where
  "recipients s = length s"

subsection \<open>Queues\<close>

definition queue_of :: "blob_store \<Rightarrow> bytes \<Rightarrow> blob list" where
  "queue_of s u = (case om_find s u of None \<Rightarrow> [] | Some q \<Rightarrow> q)"

definition store_ok :: "blob_store \<Rightarrow> bool" where
  "store_ok s \<longleftrightarrow> om_invar s \<and> (\<forall>u. length (queue_of s u) \<le> kMaxBlobsPerRecipient)"

lemma deposit_queue:
  assumes "om_invar s"
  shows "om_invar (snd (deposit clock u p now s))"
    and "queue_of (snd (deposit clock u p now s)) v =
      (if v = u \<and> length u = 32 \<and> p \<noteq> [] \<and> length (queue_of s u) < kMaxBlobsPerRecipient
       then queue_of s u @ [\<lparr>blob_bytes = p, deposited_at_ms = now_ms_or clock now\<rparr>] else queue_of s v)"
  using assms
  by (auto simp: deposit_def Let_def queue_of_def om_laws split: option.splits)

lemma fetch_queue:
  assumes "om_invar s"
  shows "om_invar (snd (fetch_and_clear clock u now s))"
    and "queue_of (snd (fetch_and_clear clock u now s)) v = (if v = u \<and> length u = 32 then [] else queue_of s v)"
    and "fst (fetch_and_clear clock u now s) =
      (if length u = 32
       then map blob_bytes (filter (\<lambda>b. now_ms_or clock now < deposited_at_ms b + kDefaultBlobTtlMs) (queue_of s u)) else [])"
  using assms
  by (auto simp: fetch_and_clear_def Let_def queue_of_def om_laws split: option.splits)

lemma prune_queue_filter:
  "prune_queue t ttl q =
     (length (filter (\<lambda>b. deposited_at_ms b + ttl \<le> t) q), filter (\<lambda>b. t < deposited_at_ms b + ttl) q)"
  by (induction q) (auto simp: not_le)

lemma prune_all_filter:
  "prune_all t ttl s =
     (length (filter (\<lambda>b. deposited_at_ms b + ttl \<le> t) (concat (map snd s))),
      filter (\<lambda>(k, q). q \<noteq> []) (map (\<lambda>(k, q). (k, filter (\<lambda>b. t < deposited_at_ms b + ttl) q)) s))"
  by (induction t ttl s rule: prune_all.induct) (auto simp: prune_queue_filter)

lemma om_invar_filter_map:
  assumes "om_invar s"
  shows "om_invar (filter P (map (\<lambda>(k, q). (k, f q)) s))"
  using assms by (induction s) (force simp: om_invar_Cons)+

lemma queue_of_filter_map:
  "om_invar s \<Longrightarrow> f [] = [] \<Longrightarrow> queue_of (filter (\<lambda>(k, q). q \<noteq> []) (map (\<lambda>(k, q). (k, f q)) s)) u = f (queue_of s u)"
proof (induction s)
  case (Cons e s)
  obtain k q where e: "e = (k, q)" by (cases e)
  have "om_find s k = None" using Cons.prems e by (intro om_find_notin) (auto simp: om_invar_Cons)
  then have "u = k \<Longrightarrow> queue_of s u = []" by (simp add: queue_of_def)
  with Cons e show ?case by (auto simp: queue_of_def om_find_def om_invar_Cons)
qed (simp add: queue_of_def)

lemma prune_queue_of:
  assumes "om_invar s"
  shows "om_invar (snd (prune_expired clock now ttl s))"
    "queue_of (snd (prune_expired clock now ttl s)) u =
       filter (\<lambda>b. now_ms_or clock now < deposited_at_ms b + ttl) (queue_of s u)"
  using om_invar_filter_map [OF assms] queue_of_filter_map [OF assms]
  by (simp_all add: prune_expired_def prune_all_filter)

subsection \<open>Properties\<close>

datatype blob_event =
    Deposit u64 bytes bytes u64
  | Fetch u64 bytes u64
  | Prune u64 u64 u64

fun blob_step :: "blob_store \<Rightarrow> blob_event \<Rightarrow> blob_store" where
  "blob_step s (Deposit clock u p now) = snd (deposit clock u p now s)"
| "blob_step s (Fetch clock u now) = snd (fetch_and_clear clock u now s)"
| "blob_step s (Prune clock now ttl) = snd (prune_expired clock now ttl s)"

text \<open>What the events say should be waiting for \<open>u\<close>, without any map.\<close>

fun mailbox :: "bytes \<Rightarrow> blob list \<Rightarrow> blob_event \<Rightarrow> blob list" where
  "mailbox u q (Deposit clock v p now) =
     (if v = u \<and> length u = 32 \<and> p \<noteq> [] \<and> length q < 256
      then q @ [\<lparr>blob_bytes = p, deposited_at_ms = now_ms_or clock now\<rparr>] else q)"
| "mailbox u q (Fetch clock v now) = (if v = u \<and> length u = 32 then [] else q)"
| "mailbox u q (Prune clock now ttl) = filter (\<lambda>b. now_ms_or clock now < deposited_at_ms b + ttl) q"

lemma blob_step_mailbox:
  assumes "om_invar s"
  shows "om_invar (blob_step s e) \<and> queue_of (blob_step s e) u = mailbox u (queue_of s u) e"
  using assms by (cases e) (simp_all add: deposit_queue fetch_queue prune_queue_of kMaxBlobsPerRecipient_def)

lemma blob_run_mailbox:
  "om_invar s \<Longrightarrow> om_invar (foldl blob_step s es) \<and> queue_of (foldl blob_step s es) u = foldl (mailbox u) (queue_of s u) es"
  by (induction es arbitrary: s) (simp_all add: blob_step_mailbox)

lemma mailbox_bound: "length q \<le> 256 \<Longrightarrow> length (mailbox u q e) \<le> 256"
  by (cases e) (auto intro: order_trans [OF length_filter_le])

lemma mailbox_run_bound: "length q \<le> 256 \<Longrightarrow> length (foldl (mailbox u) q es) \<le> 256"
  by (induction es arbitrary: q) (simp_all add: mailbox_bound)

text \<open>C37. The mailbox of every recipient is an independent bounded queue: over any interleaving of
  deposits, fetches and prunings for any recipients, a fetch returns, oldest first, exactly the
  unexpired blobs deposited for that recipient since its last fetch that found fewer than 256
  waiting, and leaves nothing behind.\<close>

theorem blob_store_mailboxes:
  assumes "length u = 32"
  shows "let s = foldl blob_step [] es; q = foldl (mailbox u) [] es in
    length q \<le> 256 \<and>
    fst (fetch_and_clear clock u now s) =
      map blob_bytes (filter (\<lambda>b. now_ms_or clock now < deposited_at_ms b + kDefaultBlobTtlMs) q) \<and>
    fst (fetch_and_clear clock' u now' (snd (fetch_and_clear clock u now s))) = []"
proof -
  let ?s = "foldl blob_step [] es"
  have s: "om_invar ?s" "queue_of ?s u = foldl (mailbox u) [] es"
    using blob_run_mailbox [of "[]" es u] by (simp_all add: queue_of_def)
  then show ?thesis
    using assms mailbox_run_bound [of "[]" u es] by (simp add: Let_def fetch_queue)
qed

theorem blob_store_mailboxes_witness:
  "fst (fetch_and_clear 0 (replicate 32 1) 20 (foldl blob_step [] [Deposit 0 (replicate 32 1) [7] 5, Deposit 0 (replicate 32 2) [8] 6])) = [[7]]"
  using blob_store_mailboxes [of "replicate 32 1" "[Deposit 0 (replicate 32 1) [7] 5, Deposit 0 (replicate 32 2) [8] 6]" 0 20 0 0]
  by (simp add: now_ms_or_def kDefaultBlobTtlMs_def Let_def)

end
