(* ===== verification/Topology.thy ===== *)
theory Topology
  imports Ordered_Map "HOL-Library.Multiset"
begin

text \<open>
  Group calls without a media server, \<open>core/src/media/forwarder.cpp\<close> and
  \<open>core/src/media/active_speaker.cpp\<close>: electing the participant that forwards, who dials whom, which
  video is forwarded in which quality, the distribution tree and the edges of the forwarding graph.
  Audio levels are real numbers. A comparator that sorts by (level descending, key ascending) is
  the key \<open>(- level, key)\<close>; keys are unique, so the order of \<open>std::sort\<close> is determined.
\<close>

subsection \<open>Electing a forwarder\<close>

record forwarder_candidate =
  cand_pubkey :: bytes
  uplink_class :: int

definition better :: "forwarder_candidate \<Rightarrow> forwarder_candidate \<Rightarrow> bool" where
  "better c best \<longleftrightarrow>
     uplink_class best < uplink_class c \<or> uplink_class c = uplink_class best \<and> cand_pubkey c < cand_pubkey best"

definition elect_step :: "forwarder_candidate option \<Rightarrow> forwarder_candidate \<Rightarrow> forwarder_candidate option" where
  "elect_step best c =
     (if uplink_class c \<le> 0 then best
      else case best of None \<Rightarrow> Some c | Some b \<Rightarrow> if better c b then Some c else best)"

definition elect_forwarder :: "forwarder_candidate list \<Rightarrow> nat \<Rightarrow> bytes" where
  "elect_forwarder candidates mesh_threshold =
     (if length candidates < mesh_threshold then []
      else case foldl elect_step None candidates of None \<Rightarrow> [] | Some best \<Rightarrow> cand_pubkey best)"

record forwarder_plan =
  plan_forwarder :: bytes
  i_am_forwarder :: bool
  plan_mesh :: bool
  dial :: "bytes list"

definition plan_topology :: "bytes list \<Rightarrow> bytes \<Rightarrow> bytes \<Rightarrow> forwarder_plan" where
  "plan_topology participants my_pubkey forwarder =
     (if forwarder = []
      then \<lparr>plan_forwarder = forwarder, i_am_forwarder = False, plan_mesh = True,
             dial = sort (filter (\<lambda>p. p \<noteq> my_pubkey) participants)\<rparr>
      else if forwarder = my_pubkey
      then \<lparr>plan_forwarder = forwarder, i_am_forwarder = True, plan_mesh = False,
             dial = sort (filter (\<lambda>p. p \<noteq> my_pubkey) participants)\<rparr>
      else \<lparr>plan_forwarder = forwarder, i_am_forwarder = False, plan_mesh = False, dial = sort [forwarder]\<rparr>)"

subsection \<open>Audio and video selection\<close>

definition talkers :: "(bytes, real) omap \<Rightarrow> real \<Rightarrow> (real \<times> bytes) list" where
  "talkers levels floor_db = map (\<lambda>(k, l). (l, k)) (filter (\<lambda>(k, l). floor_db \<le> l) levels)"

definition rank :: "(real \<times> bytes) list \<Rightarrow> (real \<times> bytes) list" where
  "rank = sort_key (\<lambda>(l, k). (- l, k))"

definition select_active_speakers :: "(bytes, real) omap \<Rightarrow> nat \<Rightarrow> real \<Rightarrow> bytes set" where
  "select_active_speakers levels max_active floor_db =
     (let talking = talkers levels floor_db in
      if length talking \<le> max_active then set (map fst levels)
      else set (map snd (take max_active (rank talking))))"

datatype video_quality = kDrop | kThumbnail | kHigh

definition give :: "nat \<Rightarrow> nat \<times> (bytes, video_quality) omap \<Rightarrow> bytes \<Rightarrow> nat \<times> (bytes, video_quality) omap" where
  "give max_thumbnail = (\<lambda>(thumbs, out) key.
     if om_find out key \<noteq> None then (thumbs, out)
     else if thumbs < max_thumbnail then (Suc thumbs, om_assign key kThumbnail out)
     else (thumbs, om_assign key kDrop out))"

definition plan_forwarded_video :: "(bytes, real) omap \<Rightarrow> nat \<Rightarrow> nat \<Rightarrow> real \<Rightarrow> (bytes, video_quality) omap" where
  "plan_forwarded_video levels max_high max_thumbnail floor_db =
     (let talking = rank (talkers levels floor_db);
          out = foldl (\<lambda>out (l, k). om_assign k kHigh out) [] (take max_high talking);
          st = foldl (give max_thumbnail) (0, out) (map snd (drop max_high talking))
      in snd (foldl (give max_thumbnail) st (map fst levels)))"

subsection \<open>The distribution tree\<close>

record tree_node =
  node_pubkey :: bytes
  node_parent :: bytes
  node_depth :: int

definition attach :: "nat \<Rightarrow> tree_node list \<times> nat \<times> nat \<Rightarrow> forwarder_candidate \<Rightarrow> tree_node list \<times> nat \<times> nat" where
  "attach fanout = (\<lambda>(out, parent_idx, children_of_parent) c.
     let (parent_idx, children_of_parent) =
           (if children_of_parent = fanout then (Suc parent_idx, 0) else (parent_idx, children_of_parent));
         node = \<lparr>node_pubkey = cand_pubkey c, node_parent = node_pubkey (out ! parent_idx),
                 node_depth = node_depth (out ! parent_idx) + 1\<rparr>
     in (out @ [node], parent_idx, Suc children_of_parent))"

definition rank_candidates :: "forwarder_candidate list \<Rightarrow> forwarder_candidate list" where
  "rank_candidates = sort_key (\<lambda>c. (- uplink_class c, cand_pubkey c))"

definition build_distribution_tree :: "forwarder_candidate list \<Rightarrow> nat \<Rightarrow> tree_node list" where
  "build_distribution_tree nodes fanout =
     (let fanout = (if fanout < 1 then 1 else fanout) in
      case rank_candidates nodes of
        [] \<Rightarrow> []
      | first # rest \<Rightarrow>
          fst (foldl (attach fanout) ([\<lparr>node_pubkey = cand_pubkey first, node_parent = [], node_depth = 0\<rparr>], 0, 0) rest))"

subsection \<open>Forwarding edges\<close>

text \<open>The set of leaves is the strictly sorted list its iteration yields; an edge is a pair
  (source, subscriber), ordered lexicographically.\<close>

type_synonym forwarder_routing = "bytes list"

definition add_leaf :: "bytes \<Rightarrow> forwarder_routing \<Rightarrow> (bytes \<times> bytes) list \<times> forwarder_routing" where
  "add_leaf leaf leaves =
     (if leaf = [] \<or> leaf \<in> set leaves then ([], leaves)
      else (sort (concat (map (\<lambda>other. [(leaf, other), (other, leaf)]) leaves)), insort leaf leaves))"

definition remove_leaf :: "bytes \<Rightarrow> forwarder_routing \<Rightarrow> (bytes \<times> bytes) list \<times> forwarder_routing" where
  "remove_leaf leaf leaves =
     (if leaf \<notin> set leaves then ([], leaves)
      else let leaves = remove1 leaf leaves
           in (sort (concat (map (\<lambda>other. [(leaf, other), (other, leaf)]) leaves)), leaves))"

definition edges :: "forwarder_routing \<Rightarrow> (bytes \<times> bytes) list" where
  "edges leaves = sort (concat (map (\<lambda>a. map (\<lambda>b. (a, b)) (filter (\<lambda>b. a \<noteq> b) leaves)) leaves))"

definition subscribers_of :: "bytes \<Rightarrow> forwarder_routing \<Rightarrow> bytes list" where
  "subscribers_of src leaves = (if src \<notin> set leaves then [] else filter (\<lambda>other. other \<noteq> src) leaves)"

definition leaf_count :: "forwarder_routing \<Rightarrow> nat" where
  "leaf_count leaves = length leaves"

definition has_leaf :: "bytes \<Rightarrow> forwarder_routing \<Rightarrow> bool" where
  "has_leaf leaf leaves \<longleftrightarrow> leaf \<in> set leaves"

subsection \<open>The election\<close>

definition best_of :: "forwarder_candidate set \<Rightarrow> forwarder_candidate option \<Rightarrow> bool" where
  "best_of cs r \<longleftrightarrow>
     (case r of None \<Rightarrow> \<forall>c\<in>cs. uplink_class c \<le> 0
      | Some b \<Rightarrow> b \<in> cs \<and> 0 < uplink_class b \<and> (\<forall>c\<in>cs. 0 < uplink_class c \<longrightarrow> \<not> better c b))"

lemma better_trans: "better c d \<Longrightarrow> \<not> better e d \<Longrightarrow> \<not> better e c"
  by (auto simp: better_def)

lemma better_irrefl [simp]: "\<not> better c c"
  by (simp add: better_def)

lemma elect_step_best:
  assumes "best_of cs r"
  shows "best_of (insert c cs) (elect_step r c)"
proof (cases r)
  case None
  with assms show ?thesis by (auto simp: best_of_def elect_step_def)
next
  case (Some b)
  with assms have b: "b \<in> cs" "0 < uplink_class b" "\<And>e. e \<in> cs \<Longrightarrow> 0 < uplink_class e \<Longrightarrow> \<not> better e b"
    by (simp_all add: best_of_def)
  show ?thesis
  proof (cases "0 < uplink_class c \<and> better c b")
    case True
    then have "elect_step r c = Some c" by (simp add: elect_step_def Some)
    with True b(3) better_trans [of c b] show ?thesis by (auto simp: best_of_def)
  next
    case False
    then have "elect_step r c = Some b" by (auto simp: elect_step_def Some)
    with False b show ?thesis by (auto simp: best_of_def)
  qed
qed

lemma elect_fold_best: "best_of cs r \<Longrightarrow> best_of (cs \<union> set xs) (foldl elect_step r xs)"
proof (induction xs arbitrary: cs r)
  case (Cons x xs)
  from Cons.IH [OF elect_step_best [OF Cons.prems, of x]] show ?case by simp
qed simp

lemma best_of_unique: "best_of cs (Some a) \<Longrightarrow> best_of cs (Some b) \<Longrightarrow> cand_pubkey a = cand_pubkey b"
  by (fastforce simp: best_of_def better_def)

lemma best_of_None: "best_of cs None \<Longrightarrow> \<not> best_of cs (Some b)"
  by (auto simp: best_of_def)

lemma elect_best: "best_of (set cs) (foldl elect_step None cs)"
  using elect_fold_best [of "{}" None cs] by (simp add: best_of_def)

lemma elect_set:
  assumes "set cs = set cs'" "length cs = length cs'"
  shows "elect_forwarder cs n = elect_forwarder cs' n"
proof -
  let ?e = "foldl elect_step None"
  note best = elect_best [of cs] elect_best [of cs', folded assms(1)]
  show ?thesis
  proof (cases "?e cs")
    case None
    then have "?e cs' = None" using best best_of_None by (cases "?e cs'") auto
    with None assms(2) show ?thesis by (simp add: elect_forwarder_def)
  next
    case (Some b)
    then obtain b' where b': "?e cs' = Some b'" using best best_of_None by (cases "?e cs'") auto
    have "best_of (set cs) (Some b)" "best_of (set cs) (Some b')" using best Some b' by simp_all
    then have "cand_pubkey b = cand_pubkey b'" by (rule best_of_unique)
    with Some b' assms(2) show ?thesis by (simp add: elect_forwarder_def)
  qed
qed

lemma elect_mem: "elect_forwarder cs n = [] \<or> elect_forwarder cs n \<in> cand_pubkey ` set cs"
proof (cases "foldl elect_step None cs")
  case (Some b)
  then have "b \<in> set cs" using elect_best [of cs] by (simp add: best_of_def)
  with Some show ?thesis by (simp add: elect_forwarder_def)
qed (simp add: elect_forwarder_def)

lemma dial_set:
  "set (dial (plan_topology ps me f)) = (if f = [] \<or> f = me then set ps - {me} else {f})"
  by (auto simp: plan_topology_def)

subsection \<open>The forwarding graph\<close>

definition leaves_ok :: "forwarder_routing \<Rightarrow> bool" where
  "leaves_ok ls \<longleftrightarrow> sorted ls \<and> distinct ls"

lemma set_edges: "set (edges ls) = {(a, b). a \<in> set ls \<and> b \<in> set ls \<and> a \<noteq> b}"
  by (auto simp: edges_def)

lemma set_spokes: "set (sort (concat (map (\<lambda>x. [(l, x), (x, l)]) ls))) = {l} \<times> set ls \<union> set ls \<times> {l}"
  by auto

lemma add_leaf_edges:
  assumes "leaves_ok ls" "add_leaf l ls = (added, ls')"
  shows "leaves_ok ls'" "set (edges ls') = set (edges ls) \<union> set added" "set (edges ls) \<inter> set added = {}"
  using assms by (auto simp: add_leaf_def set_edges leaves_ok_def distinct_insort set_insort_key sorted_insort split: if_splits)

lemma remove_leaf_edges:
  assumes "leaves_ok ls" "remove_leaf l ls = (removed, ls')"
  shows "leaves_ok ls'" "set (edges ls') = set (edges ls) - set removed" "set removed \<subseteq> set (edges ls)"
  using assms by (auto simp: remove_leaf_def set_edges leaves_ok_def sorted_remove1 Let_def split: if_splits)

subsection \<open>The shape of the tree\<close>

definition tree_ok :: "nat \<Rightarrow> tree_node list \<Rightarrow> bool" where
  "tree_ok f t \<longleftrightarrow>
     (t \<noteq> [] \<longrightarrow> node_depth (t ! 0) = 0 \<and> node_parent (t ! 0) = []) \<and>
     (\<forall>i. 0 < i \<and> i < length t \<longrightarrow>
        node_parent (t ! i) = node_pubkey (t ! ((i - 1) div f)) \<and> node_depth (t ! i) = node_depth (t ! ((i - 1) div f)) + 1)"

definition cursor_ok :: "nat \<Rightarrow> nat \<Rightarrow> nat \<times> nat \<Rightarrow> bool" where
  "cursor_ok f n pc \<longleftrightarrow> (if n = 0 then pc = (0, 0) else pc = ((n - 1) div f, Suc ((n - 1) mod f)))"

lemma cursor_step:
  assumes "0 < f" "cursor_ok f n (p, c)"
  shows "(if c = f then (Suc p, 0) else (p, c)) = (n div f, n mod f)"
proof (cases n)
  case (Suc m)
  with assms show ?thesis by (auto simp: cursor_ok_def div_Suc mod_Suc split: if_splits)
qed (use assms in \<open>simp add: cursor_ok_def\<close>)

lemma attach_ok:
  assumes "0 < f" "tree_ok f out" "out \<noteq> []" "cursor_ok f (length out - 1) (p, c)" "attach f (out, p, c) x = (out', p', c')"
  shows "tree_ok f out' \<and> out' \<noteq> [] \<and> cursor_ok f (length out' - 1) (p', c') \<and>
    map node_pubkey out' = map node_pubkey out @ [cand_pubkey x]"
proof -
  let ?n = "length out - 1"
  have n: "length out = Suc ?n" using assms(3) by simp
  have par: "?n div f < length out" using assms(3) by (metis div_le_dividend le_imp_less_Suc n)
  have out': "out' = out @ [\<lparr>node_pubkey = cand_pubkey x, node_parent = node_pubkey (out ! (?n div f)),
      node_depth = node_depth (out ! (?n div f)) + 1\<rparr>]" and pc: "p' = ?n div f" "c' = Suc (?n mod f)"
    using assms(5) cursor_step [OF assms(1,4)] by (auto simp: attach_def Let_def split: if_splits)
  have small: "(i - 1) div f < length out" if "i < Suc (length out)" for i
    using that assms(3) le_less_trans [OF div_le_dividend, of "i - 1" "length out" f] by (cases i) auto
  have "tree_ok f out'"
    using assms(2,3) small par by (auto simp: tree_ok_def out' nth_append less_Suc_eq)
  moreover have "cursor_ok f (length out' - 1) (p', c')"
    using assms(3) by (simp add: cursor_ok_def out' pc)
  ultimately show ?thesis by (simp add: out')
qed

lemma attach_fold:
  assumes "0 < f" "tree_ok f out" "out \<noteq> []" "cursor_ok f (length out - 1) (p, c)"
  shows "tree_ok f (fst (foldl (attach f) (out, p, c) xs)) \<and>
    map node_pubkey (fst (foldl (attach f) (out, p, c) xs)) = map node_pubkey out @ map cand_pubkey xs"
  using assms(2-4)
proof (induction xs arbitrary: out p c)
  case (Cons x xs)
  obtain out' p' c' where a: "attach f (out, p, c) x = (out', p', c')" by (metis surj_pair)
  from attach_ok [OF assms(1) Cons.prems a] Cons.IH [of out' p' c'] show ?case by (simp add: a)
qed simp

lemma build_tree_ok:
  "tree_ok (max 1 f) (build_distribution_tree nodes f) \<and>
   map node_pubkey (build_distribution_tree nodes f) = map cand_pubkey (rank_candidates nodes)"
proof (cases "rank_candidates nodes")
  case (Cons x xs)
  let ?r = "[\<lparr>node_pubkey = cand_pubkey x, node_parent = [], node_depth = 0\<rparr>]"
  have "build_distribution_tree nodes f = fst (foldl (attach (max 1 f)) (?r, 0, 0) xs)"
    using Cons by (simp add: build_distribution_tree_def Let_def max_def)
  moreover have "tree_ok (max 1 f) ?r" "cursor_ok (max 1 f) (length ?r - 1) (0, 0)"
    by (auto simp: tree_ok_def cursor_ok_def)
  ultimately show ?thesis using attach_fold [of "max 1 f" ?r 0 0 xs] Cons by simp
qed (simp add: build_distribution_tree_def tree_ok_def)

lemma tree_depth:
  assumes "tree_ok f t" "2 \<le> f" "i < length t"
  shows "0 \<le> node_depth (t ! i) \<and> 2 ^ nat (node_depth (t ! i)) \<le> i + 1"
  using assms(3)
proof (induction i rule: less_induct)
  case (less i)
  show ?case
  proof (cases "i = 0")
    case True
    with less.prems assms(1) show ?thesis by (auto simp: tree_ok_def)
  next
    case False
    let ?j = "(i - 1) div f"
    have j: "?j < i" "2 * ?j \<le> i - 1"
      using False assms(2) div_le_mono2 [of 2 f "i - 1"] by (auto intro: le_less_trans [OF div_le_dividend])
    have d: "node_depth (t ! i) = node_depth (t ! ?j) + 1" using assms(1) less.prems False by (simp add: tree_ok_def)
    have "0 \<le> node_depth (t ! ?j) \<and> 2 ^ nat (node_depth (t ! ?j)) \<le> ?j + 1" using less j by simp
    moreover from this have "2 * 2 ^ nat (node_depth (t ! ?j)) \<le> i + 1" using j(2) False by linarith
    ultimately show ?thesis using d by (simp add: nat_add_distrib)
  qed
qed

lemma tree_children: "0 < f \<Longrightarrow> card {i. 0 < i \<and> (i - 1) div f = j} = f"
proof -
  assume f: "0 < f"
  have "{i. 0 < i \<and> (i - 1) div f = j} = {Suc (j * f)..<Suc (j * f + f)}"
  proof (intro set_eqI iffI)
    fix i assume "i \<in> {i. 0 < i \<and> (i - 1) div f = j}"
    then have "0 < i" "i - 1 = j * f + (i - 1) mod f" using div_mult_mod_eq [of "i - 1" f] by auto
    moreover have "(i - 1) mod f < f" using f by simp
    ultimately have "j * f \<le> i - 1" "i - 1 < j * f + f" by linarith+
    with \<open>0 < i\<close> show "i \<in> {Suc (j * f)..<Suc (j * f + f)}" by auto
  next
    fix i assume "i \<in> {Suc (j * f)..<Suc (j * f + f)}"
    then show "i \<in> {i. 0 < i \<and> (i - 1) div f = j}" using f by (auto intro!: div_nat_eqI simp: mult.commute)
  qed
  then show ?thesis by simp
qed

subsection \<open>Properties\<close>

text \<open>Everybody agrees on the topology of a call: two participants that see the same candidates,
  in whatever order, elect the same forwarder, and each dials the other exactly when the other
  dials it; every pair is connected directly or through the forwarder.\<close>

theorem topology_agreement:
  assumes "set cs = set cs'" "length cs = length cs'" and "a \<in> cand_pubkey ` set cs" "b \<in> cand_pubkey ` set cs" "a \<noteq> b"
  shows "let f = elect_forwarder cs n; f' = elect_forwarder cs' n;
             dial_a = dial (plan_topology (map cand_pubkey cs) a f); dial_b = dial (plan_topology (map cand_pubkey cs') b f')
         in f = f' \<and> (f = [] \<or> f \<in> cand_pubkey ` set cs) \<and> (b \<in> set dial_a \<longleftrightarrow> a \<in> set dial_b) \<and> (b \<in> set dial_a \<or> f \<in> set dial_a \<and> f \<in> set dial_b)"
proof -
  have img: "cand_pubkey ` set cs' = cand_pubkey ` set cs" using assms(1) by simp
  obtain A where A: "cand_pubkey ` set cs = A" by blast
  show ?thesis
    using assms(3-5) elect_mem [of cs n] unfolding Let_def elect_set [OF assms(1,2), of n, symmetric] dial_set set_map img A by auto
qed

theorem topology_agreement_witness:
  "elect_forwarder [\<lparr>cand_pubkey = [1], uplink_class = 1\<rparr>, \<lparr>cand_pubkey = [2], uplink_class = 3\<rparr>] 2 =
   elect_forwarder [\<lparr>cand_pubkey = [2], uplink_class = 3\<rparr>, \<lparr>cand_pubkey = [1], uplink_class = 1\<rparr>] 2"
  using topology_agreement [of "[\<lparr>cand_pubkey = [1], uplink_class = 1\<rparr>, \<lparr>cand_pubkey = [2], uplink_class = 3\<rparr>]"
      "[\<lparr>cand_pubkey = [2], uplink_class = 3\<rparr>, \<lparr>cand_pubkey = [1], uplink_class = 1\<rparr>]" "[1]" "[2]" 2]
  by (auto simp: Let_def)

text \<open>The distribution tree is balanced: it holds every candidate once, strongest first; the
  parent of the \<open>i\<close>-th node is node \<open>(i - 1) div fanout\<close>, which makes at most \<open>fanout\<close> children per
  node; the root has no parent and depth 0, every other node is one deeper than its parent, and
  from fan-out 2 on the depth of the \<open>i\<close>-th node is at most the binary logarithm of \<open>i + 1\<close>.\<close>

theorem distribution_tree_balanced:
  "let t = build_distribution_tree nodes fanout; f = max 1 fanout in
    map node_pubkey t = map cand_pubkey (rank_candidates nodes) \<and>
    mset (rank_candidates nodes) = mset nodes \<and>
    sorted (map (\<lambda>c. (- uplink_class c, cand_pubkey c)) (rank_candidates nodes)) \<and>
    (i < length t \<and> i = 0 \<longrightarrow> node_parent (t ! i) = [] \<and> node_depth (t ! i) = 0) \<and>
    (i < length t \<and> 0 < i \<longrightarrow> node_parent (t ! i) = node_pubkey (t ! ((i - 1) div f)) \<and>
       node_depth (t ! i) = node_depth (t ! ((i - 1) div f)) + 1) \<and>
    card {i. 0 < i \<and> (i - 1) div f = j} = f \<and>
    (2 \<le> fanout \<and> i < length t \<longrightarrow> 2 ^ nat (node_depth (t ! i)) \<le> i + 1)"
proof -
  let ?t = "build_distribution_tree nodes fanout" and ?f = "max 1 fanout"
  have ok: "tree_ok ?f ?t" "map node_pubkey ?t = map cand_pubkey (rank_candidates nodes)" using build_tree_ok by blast+
  have "mset (rank_candidates nodes) = mset nodes" "sorted (map (\<lambda>c. (- uplink_class c, cand_pubkey c)) (rank_candidates nodes))"
    by (simp_all add: rank_candidates_def)
  moreover have "2 ^ nat (node_depth (?t ! i)) \<le> i + 1" if "2 \<le> fanout" "i < length ?t"
    using tree_depth [OF ok(1), of i] that by simp
  ultimately show ?thesis using ok tree_children [of ?f j] by (auto simp: Let_def tree_ok_def)
qed

theorem distribution_tree_balanced_witness:
  "map node_pubkey (build_distribution_tree [\<lparr>cand_pubkey = [1], uplink_class = 1\<rparr>, \<lparr>cand_pubkey = [2], uplink_class = 3\<rparr>] 2) = [[2], [1]]"
  using distribution_tree_balanced [of "[\<lparr>cand_pubkey = [1], uplink_class = 1\<rparr>, \<lparr>cand_pubkey = [2], uplink_class = 3\<rparr>]" 2 0 0]
  by (simp add: Let_def rank_candidates_def)

datatype leaf_event = Join bytes | Leave bytes

fun wire_step :: "forwarder_routing \<times> (bytes \<times> bytes) set \<Rightarrow> leaf_event \<Rightarrow> forwarder_routing \<times> (bytes \<times> bytes) set" where
  "wire_step (ls, w) (Join l) = (let (added, ls) = add_leaf l ls in (ls, w \<union> set added))"
| "wire_step (ls, w) (Leave l) = (let (removed, ls) = remove_leaf l ls in (ls, w - set removed))"

lemma wire_run:
  "leaves_ok ls \<Longrightarrow> foldl wire_step (ls, set (edges ls)) es = (ls', w) \<Longrightarrow> leaves_ok ls' \<and> w = set (edges ls')"
proof (induction es arbitrary: ls)
  case (Cons e es)
  obtain ls1 w1 where e: "wire_step (ls, set (edges ls)) e = (ls1, w1)" by fastforce
  have "leaves_ok ls1 \<and> w1 = set (edges ls1)"
  proof (cases e)
    case (Join l)
    obtain d ls2 where "add_leaf l ls = (d, ls2)" by fastforce
    with add_leaf_edges [OF Cons.prems(1) this] e Join show ?thesis by simp
  next
    case (Leave l)
    obtain d ls2 where "remove_leaf l ls = (d, ls2)" by fastforce
    with remove_leaf_edges [OF Cons.prems(1) this] e Leave show ?thesis by simp
  qed
  with Cons.IH [of ls1] Cons.prems(2) e show ?case by simp
qed simp

text \<open>The edge deltas of the forwarding graph are exact: starting from no leaves, over any
  sequence of joins and leaves, wiring what \<open>add_leaf\<close> returns and tearing down what
  \<open>remove_leaf\<close> returns keeps precisely the edges between distinct current leaves; nothing is
  wired twice and nothing is torn down that was not wired.\<close>

theorem forwarding_deltas_exact:
  "let (ls, w) = foldl wire_step ([], {}) es in
     w = set (edges ls) \<and> w = {(a, b). a \<in> set ls \<and> b \<in> set ls \<and> a \<noteq> b} \<and>
     set (fst (add_leaf l ls)) \<inter> w = {} \<and> set (fst (remove_leaf l ls)) \<subseteq> w \<and>
     set (subscribers_of a ls) = {b. (a, b) \<in> w}"
proof -
  obtain ls w where r: "foldl wire_step ([], {}) es = (ls, w)" by fastforce
  have ok: "leaves_ok ls" "w = set (edges ls)"
    using wire_run [of "[]" es ls w] r by (simp_all add: leaves_ok_def edges_def)
  have "set (edges ls) \<inter> set (fst (add_leaf l ls)) = {}" "set (fst (remove_leaf l ls)) \<subseteq> set (edges ls)"
    using add_leaf_edges(3) [OF ok(1) prod.collapse [symmetric]] remove_leaf_edges(3) [OF ok(1) prod.collapse [symmetric]] by auto
  then show ?thesis using ok by (auto simp: r set_edges subscribers_of_def)
qed

end
