(* ===== verification/Username_Log.thy ===== *)
theory Username_Log
  imports Username Ordered_Map
begin

text \<open>
  The signed username log, \<open>core/src/identity/username_log.cpp\<close>, and its synchronisation between
  peers, \<open>core/src/identity/username_gossip.cpp\<close>. The table \<open>username_claims\<close> is the list of its
  rows in insertion order; each SQL statement is written out over it. SQLite keeps a timestamp as a
  signed 64-bit integer; \<open>hex\<close> of two signatures compares like the signatures. Ed25519 and the
  random source are arguments.
\<close>

subsection \<open>Claims\<close>

record user_claim =
  claim_username :: bytes
  claim_pubkey :: bytes
  claim_timestamp_ms :: u64
  claim_nonce :: bytes
  claim_signature :: bytes

datatype claim_error = BadArgument | SignFailed

definition kAcceptedClockSkewMs :: u64 where
  "kAcceptedClockSkewMs = 5 * 60 * 1000"

definition kCanonicalMagic :: bytes where
  "kCanonicalMagic = str_bytes ''fb.identity.UserClaim:v1'' @ [10]"

definition canonical_signing_bytes :: "bytes \<Rightarrow> bytes \<Rightarrow> u64 \<Rightarrow> bytes \<Rightarrow> claim_error + bytes" where
  "canonical_signing_bytes username pubkey timestamp_ms nonce =
     (if length pubkey \<noteq> 32 then Inl BadArgument
      else if length nonce \<noteq> 16 then Inl BadArgument
      else Inr (kCanonicalMagic @ u16_be (of_nat (length username)) @ username @ 32 # pubkey @
                u64_be timestamp_ms @ 16 # nonce))"

definition build_claim ::
  "(bytes \<Rightarrow> bytes \<Rightarrow> bytes option) \<Rightarrow> bytes \<Rightarrow> bytes \<Rightarrow> bytes \<Rightarrow> bytes \<Rightarrow> u64 \<Rightarrow> claim_error + user_claim" where
  "build_claim sign random16 username sig_pub sig_priv timestamp_ms =
     (if \<not> is_valid_username username then Inl BadArgument
      else if length sig_pub \<noteq> 32 then Inl BadArgument
      else if length sig_priv \<noteq> 64 then Inl BadArgument
      else case canonical_signing_bytes username sig_pub timestamp_ms random16 of
             Inl e \<Rightarrow> Inl e
           | Inr signing_bytes \<Rightarrow>
               (case sign sig_priv signing_bytes of
                  None \<Rightarrow> Inl SignFailed
                | Some sig \<Rightarrow> Inr \<lparr>claim_username = username, claim_pubkey = sig_pub, claim_timestamp_ms = timestamp_ms,
                                  claim_nonce = random16, claim_signature = sig\<rparr>))"

definition verify_claim_signature :: "(bytes \<Rightarrow> bytes \<Rightarrow> bytes \<Rightarrow> bool) \<Rightarrow> user_claim \<Rightarrow> bool" where
  "verify_claim_signature verify c =
     (if length (claim_pubkey c) \<noteq> 32 then False
      else if length (claim_signature c) \<noteq> 64 then False
      else if length (claim_nonce c) \<noteq> 16 then False
      else case canonical_signing_bytes (claim_username c) (claim_pubkey c) (claim_timestamp_ms c) (claim_nonce c) of
             Inl e \<Rightarrow> False
           | Inr signing_bytes \<Rightarrow> verify (claim_pubkey c) signing_bytes (claim_signature c))"

subsection \<open>The log\<close>

type_synonym username_log = "user_claim list"

datatype append_result = kAccepted | kAlreadyKnown | kRejectedFormat | kRejectedSig | kRejectedClock

definition append_claim ::
  "(bytes \<Rightarrow> bytes \<Rightarrow> bytes \<Rightarrow> bool) \<Rightarrow> u64 \<Rightarrow> user_claim \<Rightarrow> u64 \<Rightarrow> username_log \<Rightarrow> append_result \<times> username_log" where
  "append_claim verify clock claim now_ms rows =
     (if \<not> is_valid_username (claim_username claim) then (kRejectedFormat, rows)
      else if length (claim_pubkey claim) \<noteq> 32 then (kRejectedFormat, rows)
      else if length (claim_nonce claim) \<noteq> 16 then (kRejectedFormat, rows)
      else if length (claim_signature claim) \<noteq> 64 then (kRejectedFormat, rows)
      else let now_ms = (if now_ms = 0 then clock else now_ms) in
        if now_ms + kAcceptedClockSkewMs < claim_timestamp_ms claim then (kRejectedClock, rows)
        else if \<not> verify_claim_signature verify claim then (kRejectedSig, rows)
        else if \<exists>r\<in>set rows. claim_username r = c_str (claim_username claim) \<and> claim_pubkey r = claim_pubkey claim
        then (kAlreadyKnown, rows)
        else (kAccepted, rows @ [claim\<lparr>claim_username := c_str (claim_username claim)\<rparr>]))"

definition claim_rank :: "user_claim \<Rightarrow> int \<times> bytes" where
  "claim_rank c = (sint (claim_timestamp_ms c), claim_signature c)"

definition log_resolve :: "bytes \<Rightarrow> username_log \<Rightarrow> bytes option" where
  "log_resolve username rows =
     (case sort_key claim_rank (filter (\<lambda>r. claim_username r = c_str username) rows) of
        [] \<Rightarrow> None
      | r # _ \<Rightarrow> if length (claim_pubkey r) = 32 then Some (claim_pubkey r) else None)"

definition usernames_of :: "bytes \<Rightarrow> username_log \<Rightarrow> bytes list" where
  "usernames_of pubkey rows =
     map claim_username (sort_key (\<lambda>r. sint (claim_timestamp_ms r)) (filter (\<lambda>r. claim_pubkey r = pubkey) rows))"

text \<open>A negative \<open>LIMIT\<close> means no limit.\<close>

definition claims_since :: "u64 \<Rightarrow> u64 \<Rightarrow> username_log \<Rightarrow> user_claim list" where
  "claims_since since_ms limit rows =
     (let hits = sort_key (\<lambda>r. sint (claim_timestamp_ms r)) (filter (\<lambda>r. sint since_ms < sint (claim_timestamp_ms r)) rows)
      in if sint limit < 0 then hits else take (nat (sint limit)) hits)"

definition total_claims :: "username_log \<Rightarrow> nat" where
  "total_claims rows = length rows"

subsection \<open>Gossip\<close>

definition kClaimsPageMax :: nat where
  "kClaimsPageMax = 256"

datatype gossip_body =
    NoBody
  | ClaimsRequest u64 u32
  | ClaimsResponse "user_claim list" bool u64 bytes

record gossip_message =
  gm_body :: gossip_body
  gm_request_id :: bytes

record username_gossip =
  ug_log :: username_log
  accepted_count :: nat

definition sync_with :: "gossip_message pb \<Rightarrow> bytes \<Rightarrow> u64 \<Rightarrow> bytes \<times> bytes" where
  "sync_with codec random16 since_ms =
     (random16, pb_ser codec \<lparr>gm_body = ClaimsRequest since_ms (of_nat kClaimsPageMax), gm_request_id = random16\<rparr>)"

definition claims_page :: "u64 \<Rightarrow> u32 \<Rightarrow> username_log \<Rightarrow> user_claim list \<times> bool \<times> u64" where
  "claims_page since max_records rows =
     (let want_max = (if 0 < max_records then min (unat max_records) kClaimsPageMax else kClaimsPageMax);
          claims = claims_since since (of_nat (want_max + 1)) rows;
          truncated = want_max < length claims;
          claims = (if truncated then butlast claims else claims);
          max_seen = foldl (\<lambda>m c. if m < claim_timestamp_ms c then claim_timestamp_ms c else m) since claims
      in (claims, truncated, max_seen))"

definition merge_claim :: "(bytes \<Rightarrow> bytes \<Rightarrow> bytes \<Rightarrow> bool) \<Rightarrow> u64 \<Rightarrow> username_gossip \<Rightarrow> user_claim \<Rightarrow> username_gossip" where
  "merge_claim verify clock g c =
     (let (r, rows) = append_claim verify clock c 0 (ug_log g)
      in g\<lparr>ug_log := rows, accepted_count := (if r = kAccepted then accepted_count g + 1 else accepted_count g)\<rparr>)"

definition gossip_on_message ::
  "(bytes \<Rightarrow> bytes \<Rightarrow> bytes \<Rightarrow> bool) \<Rightarrow> u64 \<Rightarrow> gossip_message pb \<Rightarrow> bytes \<Rightarrow> username_gossip \<Rightarrow> bytes option \<times> username_gossip" where
  "gossip_on_message verify clock codec wire g =
     (case pb_parse codec wire of
        None \<Rightarrow> (None, g)
      | Some msg \<Rightarrow>
          (case gm_body msg of
             ClaimsRequest since max_records \<Rightarrow>
               (let (claims, truncated, max_seen) = claims_page since max_records (ug_log g)
                in (Some (pb_ser codec \<lparr>gm_body = ClaimsResponse claims truncated max_seen (gm_request_id msg),
                                         gm_request_id = gm_request_id msg\<rparr>), g))
           | ClaimsResponse claims truncated max_seen rid \<Rightarrow> (None, foldl (merge_claim verify clock) g claims)
           | NoBody \<Rightarrow> (None, g)))"

subsection \<open>What the log holds\<close>

definition acceptable :: "(bytes \<Rightarrow> bytes \<Rightarrow> bytes \<Rightarrow> bool) \<Rightarrow> u64 \<Rightarrow> u64 \<Rightarrow> user_claim \<Rightarrow> bool" where
  "acceptable verify clock now_ms c \<longleftrightarrow>
     is_valid_username (claim_username c) \<and> verify_claim_signature verify c \<and>
     \<not> (if now_ms = 0 then clock else now_ms) + kAcceptedClockSkewMs < claim_timestamp_ms c"

definition claim_key :: "user_claim \<Rightarrow> bytes \<times> bytes" where
  "claim_key c = (claim_username c, claim_pubkey c)"

text \<open>A log that received \<open>arrivals\<close>, and the claims among them that pass every check.\<close>

definition log_run :: "(bytes \<Rightarrow> bytes \<Rightarrow> bytes \<Rightarrow> bool) \<Rightarrow> (u64 \<times> u64 \<times> user_claim) list \<Rightarrow> username_log" where
  "log_run verify arrivals = foldl (\<lambda>rows (clock, now, c). snd (append_claim verify clock c now rows)) [] arrivals"


lemma verify_lengths:
  "verify_claim_signature verify c \<Longrightarrow> length (claim_pubkey c) = 32 \<and> length (claim_nonce c) = 16 \<and> length (claim_signature c) = 64"
  by (auto simp: verify_claim_signature_def split: if_splits)

lemma append_claim_rows:
  "snd (append_claim verify clock c now rows) =
     (if acceptable verify clock now c \<and> claim_key c \<notin> claim_key ` set rows then rows @ [c] else rows)"
proof (cases "acceptable verify clock now c")
  case True
  then have "c_str (claim_username c) = claim_username c"
    using valid_username_no_nul by (auto simp: acceptable_def)
  moreover have "claim_key c \<in> claim_key ` set rows \<longleftrightarrow>
      (\<exists>r\<in>set rows. claim_username r = claim_username c \<and> claim_pubkey r = claim_pubkey c)"
    unfolding claim_key_def image_iff prod.inject by (intro bex_cong) auto
  ultimately show ?thesis
    using True verify_lengths [of verify c] by (simp add: acceptable_def append_claim_def Let_def)
next
  case False
  then show ?thesis by (auto simp: acceptable_def append_claim_def Let_def)
qed







subsection \<open>Properties\<close>


definition demo_claim :: "byte \<Rightarrow> u64 \<Rightarrow> user_claim" where
  "demo_claim k t = \<lparr>claim_username = [97, 98, 99], claim_pubkey = replicate 32 k, claim_timestamp_ms = t,
     claim_nonce = replicate 16 0, claim_signature = replicate 64 k\<rparr>"

definition demo_verify :: "bytes \<Rightarrow> bytes \<Rightarrow> bytes \<Rightarrow> bool" where
  "demo_verify k m s \<longleftrightarrow> hd s = hd k"

lemma demo_acceptable: "t \<le> 300000 \<Longrightarrow> acceptable demo_verify 1 0 (demo_claim k t)"
  by (auto simp: acceptable_def demo_claim_def demo_verify_def is_valid_username_def edge_bad_def kUsernameMinBytes_def
      kUsernameMaxBytes_def verify_claim_signature_def canonical_signing_bytes_def kAcceptedClockSkewMs_def not_less
      elim: order_trans)



text \<open>Without that proviso they do not: the log keeps the first claim it sees of a key for a name and
  ignores an older one that arrives later. If a key signed two claims for a name and another key
  one with a timestamp in between, the order of arrival decides who owns the name.\<close>

theorem username_log_order_dependent:
  assumes "acceptable verify clock now a" "acceptable verify clock now a'" "acceptable verify clock now b"
    and "claim_key a' = claim_key a" "claim_username b = claim_username a" "claim_pubkey b \<noteq> claim_pubkey a"
    and "sint (claim_timestamp_ms a') < sint (claim_timestamp_ms b)" "sint (claim_timestamp_ms b) < sint (claim_timestamp_ms a)"
  shows "log_resolve (claim_username a) (log_run verify [(clock, now, a), (clock, now, a'), (clock, now, b)]) = Some (claim_pubkey b) \<and>
    log_resolve (claim_username a) (log_run verify [(clock, now, a'), (clock, now, a), (clock, now, b)]) = Some (claim_pubkey a)"
proof -
  have u: "c_str (claim_username a) = claim_username a" using assms(1) valid_username_no_nul by (auto simp: acceptable_def)
  have len: "length (claim_pubkey a) = 32" "length (claim_pubkey b) = 32"
    using assms(1,3) verify_lengths by (auto simp: acceptable_def)
  have k: "claim_key b \<noteq> claim_key a" "claim_username a' = claim_username a" "claim_pubkey a' = claim_pubkey a"
    using assms(4,6) by (auto simp: claim_key_def)
  have "log_run verify [(clock, now, a), (clock, now, a'), (clock, now, b)] = [a, b]"
    "log_run verify [(clock, now, a'), (clock, now, a), (clock, now, b)] = [a', b]"
    using assms(1-4) k(1) by (simp_all add: log_run_def append_claim_rows)
  then show ?thesis
    using assms(5,7,8) u len k by (simp add: log_resolve_def claim_rank_def)
qed

theorem username_log_order_dependent_witness:
  "log_resolve [97, 98, 99] (log_run demo_verify [(1, 0, demo_claim 1 9), (1, 0, demo_claim 1 3), (1, 0, demo_claim 2 5)]) =
     Some (replicate 32 2)"
  using username_log_order_dependent [OF demo_acceptable demo_acceptable demo_acceptable, of 9 3 5 1 1 2]
  by (simp add: demo_claim_def claim_key_def)

text \<open>The bytes that are signed determine the claim: two claims with usernames that fit the 16-bit
  length field and well-formed keys and nonces have the same canonical bytes only if username,
  key, timestamp and nonce are the same, so a signature for one binding never serves for another.\<close>

theorem canonical_signing_injective:
  assumes "canonical_signing_bytes u p t n = Inr w" "canonical_signing_bytes u' p' t' n' = Inr w"
    and "length u < 65536" "length u' < 65536"
  shows "u = u' \<and> p = p' \<and> t = t' \<and> n = n'"
proof -
  have l: "length p = 32" "length p' = 32" "length n = 16" "length n' = 16"
    using assms(1,2) by (auto simp: canonical_signing_bytes_def split: if_splits)
  have "kCanonicalMagic @ u16_be (of_nat (length u)) @ u @ 32 # p @ u64_be t @ 16 # n = w"
    "kCanonicalMagic @ u16_be (of_nat (length u')) @ u' @ 32 # p' @ u64_be t' @ 16 # n' = w"
    using assms(1,2) l by (simp_all add: canonical_signing_bytes_def)
  then have "u16_be (of_nat (length u)) @ u @ 32 # p @ u64_be t @ 16 # n =
      u16_be (of_nat (length u')) @ u' @ 32 # p' @ u64_be t' @ 16 # n'"
    by (metis same_append_eq)
  then have "u16_be (of_nat (length u)) = u16_be (of_nat (length u'))"
    and r: "u @ 32 # p @ u64_be t @ 16 # n = u' @ 32 # p' @ u64_be t' @ 16 # n'" by (simp_all add: append_eq_append_conv)
  then have "(of_nat (length u) :: u16) = of_nat (length u')" by (metis rd_u16_be)
  then have "length u = length u'" using assms(3,4) by (auto dest!: arg_cong [of _ _ unat] simp: unat_of_nat)
  with r l show ?thesis by (auto simp: append_eq_append_conv)
qed

theorem canonical_signing_injective_witness:
  "canonical_signing_bytes [97] (replicate 32 0) 5 (replicate 16 0) \<noteq> canonical_signing_bytes [97] (replicate 32 0) 6 (replicate 16 0)"
  using canonical_signing_injective [of "[97]" "replicate 32 0" 5 "replicate 16 0" _ "[97]" "replicate 32 0" 6 "replicate 16 0"]
  by (auto simp: canonical_signing_bytes_def)

lemma foldl_max_const:
  fixes t :: "'a::linorder"
  assumes "\<forall>c\<in>set cs. f c = t" "cs \<noteq> []" "m \<le> t"
  shows "foldl (\<lambda>m c. if m < f c then f c else m) m cs = t"
proof -
  have keep: "foldl (\<lambda>m c. if m < f c then f c else m) t cs = t" if "\<forall>c\<in>set cs. f c = t" for cs
    using that by (induction cs) simp_all
  obtain c cs' where "cs = c # cs'" using assms(2) by (cases cs) auto
  with assms keep [of cs'] show ?thesis by (cases "m < t") auto
qed

text \<open>Paging through a peer's log can skip claims: a response is cut after \<open>kClaimsPageMax\<close> claims
  and the requester resumes with the greatest timestamp seen, but \<open>claims_since\<close> returns strictly
  later claims only. When more claims than fit in a page share a timestamp, the page is full and
  marked as truncated, and the next request returns nothing.\<close>

theorem gossip_page_skips:
  assumes "\<forall>r\<in>set rows. claim_timestamp_ms r = t" and "since < t" "sint since < sint t" and "kClaimsPageMax < length rows"
  shows "case claims_page since 0 rows of (claims, truncated, max_seen) \<Rightarrow>
    length claims = kClaimsPageMax \<and> truncated \<and> fst (claims_page max_seen 0 rows) = []"
proof -
  let ?key = "\<lambda>r. sint (claim_timestamp_ms r)"
  let ?hits = "take 257 (sort_key ?key rows)"
  have all: "filter (\<lambda>r. sint since < ?key r) rows = rows" "filter (\<lambda>r. sint t < ?key r) rows = []"
    using assms(1,3) by (auto simp: filter_id_conv filter_empty_conv)
  have lim: "sint (257 :: u64) = 257" by simp
  have hits: "claims_since since 257 rows = ?hits" "claims_since t 257 rows = []"
    unfolding claims_since_def Let_def lim all by simp_all
  have len: "length ?hits = 257" using assms(4) by (simp add: kClaimsPageMax_def)
  have bl: "length (butlast ?hits) = 256" using len by simp
  have "set (butlast ?hits) \<subseteq> set rows" by (metis in_set_butlastD set_sort set_take_subset subset_iff subset_trans subsetI)
  then have ts: "\<forall>c\<in>set (butlast ?hits). claim_timestamp_ms c = t" using assms(1) by blast
  have ne: "butlast ?hits \<noteq> []" using bl by (metis list.size(3) zero_neq_numeral)
  have seen: "foldl (\<lambda>m c. if m < claim_timestamp_ms c then claim_timestamp_ms c else m) since (butlast ?hits) = t"
    using assms(2) by (intro foldl_max_const [OF ts ne]) simp
  have page: "claims_page since 0 rows = (butlast ?hits, True, t)"
    using seen len by (simp add: claims_page_def hits Let_def kClaimsPageMax_def)
  show ?thesis using bl hits(2) unfolding page by (simp add: claims_page_def Let_def kClaimsPageMax_def)
qed

theorem gossip_page_skips_witness:
  "fst (claims_page (snd (snd (claims_page 0 0 (replicate 300 (demo_claim 1 5))))) 0 (replicate 300 (demo_claim 1 5))) = []"
  using gossip_page_skips [of "replicate 300 (demo_claim 1 5)" 5 0]
  by (auto simp: demo_claim_def kClaimsPageMax_def split: prod.splits)

end
