(* ===== verification/Room_Media.thy ===== *)
theory Room_Media
  imports Sodium Ordered_Map
begin

text \<open>
  Sealing media frames, \<open>core/src/media/sframe.cpp\<close>, and the registry of room keys,
  \<open>core/src/media/room_keys.cpp\<close>. The monotonic clock is the argument \<open>now\<close>. The output lengths
  32 and 12 are inside the range of \<open>hkdf_expand\<close>, so \<open>projr\<close> reads the value it returns.
\<close>

subsection \<open>SFrame\<close>


definition derive_room_sframe_key :: "sodium \<Rightarrow> bytes \<Rightarrow> bytes \<Rightarrow> u32 \<Rightarrow> bytes" where
  "derive_room_sframe_key lib room_secret sender_pubkey epoch =
     (let info = str_bytes ''FinBit-SFrame-room-v1'' @ sender_pubkey @ u32_be epoch; prk = hkdf_extract lib [] room_secret
      in projr (hkdf_expand lib prk info 32))"




subsection \<open>The registry of room keys\<close>

record seal_key_rec =
  sk_key :: bytes
  sk_epoch :: u32

record room_keys =
  rk_my_pubkey :: bytes
  rk_grace :: int
  rk_has :: bool
  rk_cur_secret :: bytes
  rk_cur_epoch :: u32
  rk_cur_seal :: seal_key_rec
  rk_has_prev :: bool
  rk_prev_secret :: bytes
  rk_prev_epoch :: u32
  rk_prev_until :: int
  rk_cache :: "(bytes \<times> u32, bytes) omap"

definition room_keys_init :: "bytes \<Rightarrow> int \<Rightarrow> room_keys" where
  "room_keys_init my_pubkey grace =
     \<lparr>rk_my_pubkey = my_pubkey, rk_grace = grace, rk_has = False, rk_cur_secret = replicate 32 0, rk_cur_epoch = 0,
      rk_cur_seal = \<lparr>sk_key = replicate 32 0, sk_epoch = 0\<rparr>, rk_has_prev = False, rk_prev_secret = replicate 32 0,
      rk_prev_epoch = 0, rk_prev_until = 0, rk_cache = []\<rparr>"

definition set_secret :: "sodium \<Rightarrow> int \<Rightarrow> bytes \<Rightarrow> u32 \<Rightarrow> room_keys \<Rightarrow> room_keys" where
  "set_secret lib now secret epoch r =
     (if rk_has r \<and> epoch \<le> rk_cur_epoch r then r
      else let r = (if rk_has r
                    then r\<lparr>rk_prev_secret := rk_cur_secret r, rk_prev_epoch := rk_cur_epoch r, rk_has_prev := True,
                           rk_prev_until := now + rk_grace r\<rparr>
                    else r);
               r = r\<lparr>rk_cur_secret := secret, rk_cur_epoch := epoch, rk_has := True\<rparr>;
               r = r\<lparr>rk_cur_seal := \<lparr>sk_key = derive_room_sframe_key lib (rk_cur_secret r) (rk_my_pubkey r) (rk_cur_epoch r),
                                     sk_epoch = rk_cur_epoch r\<rparr>\<rparr>
           in r\<lparr>rk_cache := filter (\<lambda>((s, e), k). e = rk_cur_epoch r \<or> rk_has_prev r \<and> e = rk_prev_epoch r) (rk_cache r)\<rparr>)"

definition has_secret :: "room_keys \<Rightarrow> bool" where
  "has_secret r = rk_has r"

definition current_epoch :: "room_keys \<Rightarrow> u32" where
  "current_epoch r = rk_cur_epoch r"

definition seal_key :: "room_keys \<Rightarrow> seal_key_rec option" where
  "seal_key r = (if \<not> rk_has r then None else Some (rk_cur_seal r))"

definition covering_secret :: "int \<Rightarrow> u32 \<Rightarrow> room_keys \<Rightarrow> bytes option" where
  "covering_secret now frame_epoch r =
     (if rk_has r \<and> frame_epoch = rk_cur_epoch r then Some (rk_cur_secret r)
      else if rk_has_prev r \<and> frame_epoch = rk_prev_epoch r \<and> now < rk_prev_until r then Some (rk_prev_secret r)
      else None)"

definition open_key :: "sodium \<Rightarrow> int \<Rightarrow> bytes \<Rightarrow> u32 \<Rightarrow> room_keys \<Rightarrow> bytes option \<times> room_keys" where
  "open_key lib now sender_pubkey frame_epoch r =
     (case covering_secret now frame_epoch r of
        None \<Rightarrow> (None, r)
      | Some secret \<Rightarrow>
          (case om_find (rk_cache r) (sender_pubkey, frame_epoch) of
             Some k \<Rightarrow> (Some k, r)
           | None \<Rightarrow>
               (let derived = derive_room_sframe_key lib secret sender_pubkey frame_epoch
                in (Some derived, r\<lparr>rk_cache := om_emplace (sender_pubkey, frame_epoch) derived (rk_cache r)\<rparr>))))"

subsection \<open>Frames\<close>



subsection \<open>The cache\<close>

text \<open>Every cached key is the derivation from the secret of its epoch, which is the current one or
  the previous one; the two differ.\<close>

definition rk_ok :: "sodium \<Rightarrow> room_keys \<Rightarrow> bool" where
  "rk_ok lib r \<longleftrightarrow>
     om_invar (rk_cache r) \<and> (rk_has_prev r \<longrightarrow> rk_has r \<and> rk_prev_epoch r < rk_cur_epoch r) \<and>
     (rk_has r \<longrightarrow> rk_cur_seal r = \<lparr>sk_key = derive_room_sframe_key lib (rk_cur_secret r) (rk_my_pubkey r) (rk_cur_epoch r),
                                    sk_epoch = rk_cur_epoch r\<rparr>) \<and>
     (\<forall>s e k. om_find (rk_cache r) (s, e) = Some k \<longrightarrow>
        rk_has r \<and> (e = rk_cur_epoch r \<and> k = derive_room_sframe_key lib (rk_cur_secret r) s e \<or>
         rk_has_prev r \<and> e = rk_prev_epoch r \<and> k = derive_room_sframe_key lib (rk_prev_secret r) s e))"

lemma rk_ok_init: "rk_ok lib (room_keys_init pk g)"
  by (simp add: rk_ok_def room_keys_init_def)

lemma om_find_filter:
  "om_invar m \<Longrightarrow> om_find (filter P m) k = (case om_find m k of None \<Rightarrow> None | Some v \<Rightarrow> if P (k, v) then Some v else None)"
proof (induction m)
  case (Cons e m)
  obtain j w where e: "e = (j, w)" by (cases e)
  have "om_find m j = None" using Cons.prems e by (intro om_find_notin) (auto simp: om_invar_Cons)
  with Cons e show ?case by (auto simp: om_find_def om_invar_Cons split: option.splits)
qed simp

lemma rk_ok_set_secret:
  assumes "rk_ok lib r"
  shows "rk_ok lib (set_secret lib now secret epoch r)"
proof (cases "rk_has r \<and> epoch \<le> rk_cur_epoch r")
  case True
  with assms show ?thesis by (simp add: set_secret_def)
next
  case False
  have inv: "om_invar (rk_cache r)" using assms by (simp add: rk_ok_def)
  have old: "rk_has r \<and> (e = rk_cur_epoch r \<and> k = derive_room_sframe_key lib (rk_cur_secret r) s e \<or>
      e = rk_prev_epoch r \<and> e < rk_cur_epoch r) \<and> e \<noteq> epoch" if "om_find (rk_cache r) (s, e) = Some k" for s e k
  proof -
    have "rk_has r \<and> (e = rk_cur_epoch r \<and> k = derive_room_sframe_key lib (rk_cur_secret r) s e \<or>
        rk_has_prev r \<and> e = rk_prev_epoch r)" "rk_has_prev r \<longrightarrow> rk_prev_epoch r < rk_cur_epoch r"
      using assms that unfolding rk_ok_def by blast+
    with False show ?thesis by auto
  qed
  with False assms inv show ?thesis
    by (auto simp: rk_ok_def set_secret_def Let_def om_invar_filter om_find_filter split: option.splits if_splits dest!: old)
qed

lemma rk_cached:
  assumes ok: "rk_ok lib r" and c: "om_find (rk_cache r) (s, e) = Some k" and cov: "covering_secret now e r = Some secret"
  shows "k = derive_room_sframe_key lib secret s e"
proof -
  have "e = rk_cur_epoch r \<and> k = derive_room_sframe_key lib (rk_cur_secret r) s e \<or>
      e = rk_prev_epoch r \<and> k = derive_room_sframe_key lib (rk_prev_secret r) s e \<and> rk_prev_epoch r < rk_cur_epoch r"
    "rk_has_prev r \<longrightarrow> rk_prev_epoch r < rk_cur_epoch r"
    using ok c unfolding rk_ok_def by blast+
  with cov show ?thesis by (auto simp: covering_secret_def split: if_splits)
qed

lemma rk_ok_cache:
  assumes ok: "rk_ok lib r" and cov: "covering_secret now e r = Some secret"
  shows "rk_ok lib (r\<lparr>rk_cache := om_emplace (s, e) (derive_room_sframe_key lib secret s e) (rk_cache r)\<rparr>)"
  using assms by (auto simp: covering_secret_def rk_ok_def om_laws split: if_splits)

lemma open_key_uncached:
  assumes ok: "rk_ok lib r"
  shows "fst (open_key lib now s e r) = map_option (\<lambda>secret. derive_room_sframe_key lib secret s e) (covering_secret now e r)"
    and "rk_ok lib (snd (open_key lib now s e r))"
  using rk_cached [OF ok] rk_ok_cache [OF ok] ok
  by (auto simp: open_key_def Let_def split: option.splits)

subsection \<open>Properties\<close>

datatype rk_event = SetSecret int bytes u32 | OpenKey int bytes u32

fun rk_step :: "sodium \<Rightarrow> room_keys \<Rightarrow> rk_event \<Rightarrow> room_keys" where
  "rk_step lib r (SetSecret now secret epoch) = set_secret lib now secret epoch r"
| "rk_step lib r (OpenKey now s e) = snd (open_key lib now s e r)"

text \<open>The registry without its cache: the current secret and the retired one.\<close>

record rk_spec =
  current :: "(bytes \<times> u32) option"
  retired :: "(bytes \<times> u32 \<times> int) option"

fun rk_spec_step :: "int \<Rightarrow> rk_spec \<Rightarrow> rk_event \<Rightarrow> rk_spec" where
  "rk_spec_step grace r (SetSecret now secret epoch) =
     (case current r of
        None \<Rightarrow> r\<lparr>current := Some (secret, epoch)\<rparr>
      | Some (s, e) \<Rightarrow> if epoch \<le> e then r else \<lparr>current = Some (secret, epoch), retired = Some (s, e, now + grace)\<rparr>)"
| "rk_spec_step grace r (OpenKey now s e) = r"

definition rk_abs :: "room_keys \<Rightarrow> rk_spec" where
  "rk_abs r = \<lparr>current = (if rk_has r then Some (rk_cur_secret r, rk_cur_epoch r) else None),
     retired = (if rk_has_prev r then Some (rk_prev_secret r, rk_prev_epoch r, rk_prev_until r) else None)\<rparr>"

definition spec_secret :: "int \<Rightarrow> u32 \<Rightarrow> rk_spec \<Rightarrow> bytes option" where
  "spec_secret now e r =
     (case current r of
        Some (s, e') \<Rightarrow> if e = e' then Some s
          else (case retired r of Some (s, e', t) \<Rightarrow> if e = e' \<and> now < t then Some s else None | None \<Rightarrow> None)
      | None \<Rightarrow> None)"

lemma rk_step_abs:
  assumes "rk_ok lib r"
  shows "rk_ok lib (rk_step lib r ev) \<and> rk_grace (rk_step lib r ev) = rk_grace r \<and>
    rk_my_pubkey (rk_step lib r ev) = rk_my_pubkey r \<and> rk_abs (rk_step lib r ev) = rk_spec_step (rk_grace r) (rk_abs r) ev"
proof (cases ev)
  case (SetSecret now secret epoch)
  have "\<not> rk_has r \<Longrightarrow> \<not> rk_has_prev r" using assms by (auto simp: rk_ok_def)
  with SetSecret rk_ok_set_secret [OF assms] show ?thesis by (auto simp: rk_abs_def set_secret_def Let_def)
next
  case (OpenKey now s e)
  with open_key_uncached(2) [OF assms] show ?thesis
    by (auto simp: rk_abs_def open_key_def Let_def split: option.splits)
qed

lemma rk_run_abs:
  "rk_ok lib r \<Longrightarrow> rk_ok lib (foldl (rk_step lib) r evs) \<and> rk_grace (foldl (rk_step lib) r evs) = rk_grace r \<and>
     rk_my_pubkey (foldl (rk_step lib) r evs) = rk_my_pubkey r \<and>
     rk_abs (foldl (rk_step lib) r evs) = foldl (rk_spec_step (rk_grace r)) (rk_abs r) evs"
  by (induction evs arbitrary: r) (simp_all add: rk_step_abs)

lemma covering_spec: "rk_ok lib r \<Longrightarrow> covering_secret now e r = spec_secret now e (rk_abs r)"
  by (auto simp: covering_secret_def spec_secret_def rk_abs_def rk_ok_def)

lemma seal_abs:
  "rk_ok lib r \<Longrightarrow> seal_key r =
     map_option (\<lambda>(secret, e). \<lparr>sk_key = derive_room_sframe_key lib secret (rk_my_pubkey r) e, sk_epoch = e\<rparr>) (current (rk_abs r))"
  by (simp add: seal_key_def rk_abs_def rk_ok_def)

lemma rk_reached:
  "rk_ok lib (foldl (rk_step lib) (room_keys_init me grace) evs) \<and>
   rk_my_pubkey (foldl (rk_step lib) (room_keys_init me grace) evs) = me \<and>
   rk_abs (foldl (rk_step lib) (room_keys_init me grace) evs) =
     foldl (rk_spec_step grace) \<lparr>current = None, retired = None\<rparr> evs"
proof -
  have "rk_grace (room_keys_init me grace) = grace" "rk_my_pubkey (room_keys_init me grace) = me"
    "rk_abs (room_keys_init me grace) = \<lparr>current = None, retired = None\<rparr>" by (simp_all add: room_keys_init_def rk_abs_def)
  with rk_run_abs [OF rk_ok_init, of lib me grace evs] show ?thesis by simp
qed

lemma reached_open:
  "fst (open_key lib now sender e (foldl (rk_step lib) (room_keys_init me grace) evs)) =
     map_option (\<lambda>secret. derive_room_sframe_key lib secret sender e)
       (spec_secret now e (foldl (rk_spec_step grace) \<lparr>current = None, retired = None\<rparr> evs))"
  using rk_reached [of lib me grace evs] open_key_uncached(1) covering_spec by metis

lemma reached_seal:
  "seal_key (foldl (rk_step lib) (room_keys_init me grace) evs) =
     map_option (\<lambda>(secret, e). \<lparr>sk_key = derive_room_sframe_key lib secret me e, sk_epoch = e\<rparr>)
       (current (foldl (rk_spec_step grace) \<lparr>current = None, retired = None\<rparr> evs))"
  using seal_abs [of lib "foldl (rk_step lib) (room_keys_init me grace) evs"] rk_reached [of lib me grace evs] by simp

text \<open>C38. The registry of room keys refines a cache-free specification: over any sequence of rekeys and
  lookups, an epoch that is not newer than the current one is ignored, a frame key is exactly the
  derivation from the secret of its epoch when that epoch is the current one, or the previous one
  inside its grace window, and absent otherwise; the sealing key is the derivation for the
  member's own key at the current epoch.\<close>

theorem room_keys_refine:
  "let r = foldl (rk_step lib) (room_keys_init me grace) evs;
       s = foldl (rk_spec_step grace) \<lparr>current = None, retired = None\<rparr> evs in
     fst (open_key lib now sender e r) = map_option (\<lambda>secret. derive_room_sframe_key lib secret sender e) (spec_secret now e s) \<and>
     seal_key r = map_option (\<lambda>(secret, e). \<lparr>sk_key = derive_room_sframe_key lib secret me e, sk_epoch = e\<rparr>) (current s)"
  by (simp add: Let_def reached_open reached_seal)



end
