(* ===== verification/Identity.thy ===== *)
theory Identity
  imports Sodium Ordered_Map
begin

text \<open>
  How people compare identities, \<open>core/src/crypto/identity.cpp\<close>: the short fingerprint of a key, the
  safety number of a pair of keys and the seeds derived from the identity seed; and the framing of
  stored attachments, \<open>core/src/store/attachment_frame.cpp\<close>. BLAKE2b is the argument \<open>blake\<close>, which
  takes the output length first. Key generation, signing and base64 are calls into libsodium and
  are not modelled.
\<close>

subsection \<open>Fingerprints and safety numbers\<close>

definition kBase32Alphabet :: string where
  "kBase32Alphabet = ''0123456789ABCDEFGHJKMNPQRSTVWXYZ''"

definition fingerprint_bits :: "bytes \<Rightarrow> u64" where
  "fingerprint_bits hash = rd_u64 (take 5 (take 7 hash))"

definition fingerprint :: "(nat \<Rightarrow> bytes \<Rightarrow> bytes) \<Rightarrow> bytes \<Rightarrow> string" where
  "fingerprint blake pubkey =
     (let bits = fingerprint_bits (blake 20 pubkey) in
      foldl (\<lambda>out shift. (if length out = 5 then out @ ''-'' else out) @ [kBase32Alphabet ! unat (drop_bit shift bits AND 0x1F)])
        [] [45, 40, 35, 30, 25, 20, 15, 10, 5, 0])"

definition digit :: "nat \<Rightarrow> char" where
  "digit n = (''0123456789'' ! n)"

definition dec5 :: "u64 \<Rightarrow> string" where
  "dec5 v = map (\<lambda>k. digit (unat v div 10 ^ k mod 10)) [4, 3, 2, 1, 0]"

definition safety_chunk :: "bytes \<Rightarrow> string \<Rightarrow> nat \<Rightarrow> string" where
  "safety_chunk h out chunk =
     (let v = rd_u64 (take 5 (drop (chunk * 5) h));
          out = (if out \<noteq> [] then out @ '' '' else out)
      in out @ dec5 ((v div 100000) mod 100000) @ '' '' @ dec5 (v mod 100000))"

definition safety_number :: "(nat \<Rightarrow> bytes \<Rightarrow> bytes) \<Rightarrow> bytes \<Rightarrow> bytes \<Rightarrow> string" where
  "safety_number blake a b =
     (let a_first = (a \<le> b); lo = (if a_first then a else b); hi = (if a_first then b else a);
          h = blake 32 (lo @ hi)
      in foldl (safety_chunk h) [] [0, 1, 2, 3, 4, 5])"

definition derive_pq_seed_from_identity_seed :: "sodium \<Rightarrow> bytes \<Rightarrow> bytes" where
  "derive_pq_seed_from_identity_seed lib seed =
     projr (hkdf_expand lib (hkdf_extract lib [] seed) (str_bytes ''FinBit-PQ-seed-v1'') 64)"

definition derive_pq_sig_seed_from_identity_seed :: "sodium \<Rightarrow> bytes \<Rightarrow> bytes" where
  "derive_pq_sig_seed_from_identity_seed lib seed =
     projr (hkdf_expand lib (hkdf_extract lib [] seed) (str_bytes ''FinBit-PQSIG-seed-v1'') 32)"

subsection \<open>Attachments\<close>

record attachment_frame =
  att_mime :: bytes
  att_filename :: bytes
  att_content :: bytes

definition att_kMagic :: bytes where
  "att_kMagic = [0x00, 0x46, 0x42, 0x41, 0x54, 0x31, 0x00]"

definition put_u16 :: "nat \<Rightarrow> bytes" where
  "put_u16 v = [of_nat (v div 256), of_nat v]"

definition is_framed_attachment :: "bytes \<Rightarrow> bool" where
  "is_framed_attachment blob = (if length blob < length att_kMagic then False else take (length att_kMagic) blob = att_kMagic)"

definition frame_attachment :: "bytes \<Rightarrow> bytes \<Rightarrow> bytes \<Rightarrow> bytes" where
  "frame_attachment mime filename content =
     (let mime = (if 0xFFFF < length mime then take 0xFFFF mime else mime);
          filename = (if 0xFFFF < length filename then take 0xFFFF filename else filename)
      in att_kMagic @ put_u16 (length mime) @ mime @ put_u16 (length filename) @ filename @ content)"

text \<open>A length-prefixed field at the front of \<open>rest\<close>, which is \<open>blob\<close> from \<open>off\<close> on.\<close>

definition read_field16 :: "bytes \<Rightarrow> (bytes \<times> bytes) option" where
  "read_field16 rest =
     (if length rest < 2 then None
      else let n = 256 * unat (rest ! 0) + unat (rest ! 1); rest = drop 2 rest
           in if length rest < n then None else Some (take n rest, drop n rest))"

definition parse_attachment_frame :: "bytes \<Rightarrow> attachment_frame option" where
  "parse_attachment_frame blob =
     (if \<not> is_framed_attachment blob then None
      else case read_field16 (drop (length att_kMagic) blob) of
             None \<Rightarrow> None
           | Some (mime, rest) \<Rightarrow>
               (case read_field16 rest of
                  None \<Rightarrow> None
                | Some (filename, rest) \<Rightarrow> Some \<lparr>att_mime = mime, att_filename = filename, att_content = rest\<rparr>))"

subsection \<open>Lemmas\<close>

lemma bit_rd_u64: "bit (rd_u64 p) n \<Longrightarrow> n < 8 * length p"
proof (induction p arbitrary: n rule: rev_induct)
  case (snoc b p)
  have "rd_u64 (p @ [b]) = push_bit 8 (rd_u64 p) OR ucast b" by (simp add: rd_u64_def)
  with snoc.prems have "8 \<le> n \<and> bit (rd_u64 p) (n - 8) \<or> bit b n" by (auto simp: bit_simps)
  then show ?case using snoc.IH [of "n - 8"] bit_imp_le_length [of b n] by auto
qed (simp add: rd_u64_def)

lemma fingerprint_high_zero: "40 \<le> shift \<Longrightarrow> drop_bit shift (fingerprint_bits h) = 0"
  by (rule bit_word_eqI) (use bit_rd_u64 [of "take 5 (take 7 h)"] in \<open>fastforce simp: fingerprint_bits_def bit_simps\<close>)

lemma length_dec5 [simp]: "length (dec5 v) = 5"
  by (simp add: dec5_def)

lemma dec5_not_Nil [simp]: "dec5 v \<noteq> []"
  by (simp add: dec5_def)

lemma safety_chunk_not_Nil [simp]: "safety_chunk h out k \<noteq> []"
  by (simp add: safety_chunk_def Let_def)

lemma length_safety_chunk [simp]: "length (safety_chunk h out k) = length out + (if out = [] then 11 else 12)"
  by (simp add: safety_chunk_def Let_def)

lemma read_put_field16:
  assumes "length xs \<le> 0xFFFF"
  shows "read_field16 (put_u16 (length xs) @ xs @ rest) = Some (xs, rest)"
proof -
  have "256 * unat (of_nat (length xs div 256) :: byte) + unat (of_nat (length xs) :: byte) = length xs"
    using assms by (simp add: unat_of_nat)
  then show ?thesis by (simp add: read_field16_def put_u16_def Let_def)
qed

lemma parse_frame:
  assumes "length m \<le> 0xFFFF" "length f \<le> 0xFFFF"
  shows "parse_attachment_frame (att_kMagic @ put_u16 (length m) @ m @ put_u16 (length f) @ f @ c) =
    Some \<lparr>att_mime = m, att_filename = f, att_content = c\<rparr>"
  using read_put_field16 [OF assms(1), of "put_u16 (length f) @ f @ c"] read_put_field16 [OF assms(2), of c]
  by (simp add: parse_attachment_frame_def is_framed_attachment_def)

interpretation attachment: wire_codec
  "\<lambda>a. frame_attachment (att_mime a) (att_filename a) (att_content a)" parse_attachment_frame
  "\<lambda>a. length (att_mime a) \<le> 0xFFFF \<and> length (att_filename a) \<le> 0xFFFF"
  by unfold_locales (simp add: frame_attachment_def parse_frame Let_def)

subsection \<open>Properties\<close>

text \<open>Attachments survive the store: parsing a framed attachment gives back its type, its name and its
  content, with type and name cut at 65535 bytes; two attachments whose fields fit have the same
  frame only if they are equal; text that does not start with the magic is never taken for one.\<close>

theorem attachment_roundtrip:
  "parse_attachment_frame (frame_attachment mime filename content) =
     Some \<lparr>att_mime = take 0xFFFF mime, att_filename = take 0xFFFF filename, att_content = content\<rparr> \<and>
   (length (att_mime (a :: attachment_frame)) \<le> 0xFFFF \<and> length (att_filename a) \<le> 0xFFFF \<and>
    length (att_mime (b :: attachment_frame)) \<le> 0xFFFF \<and> length (att_filename b) \<le> 0xFFFF \<longrightarrow>
      (frame_attachment (att_mime a) (att_filename a) (att_content a) =
       frame_attachment (att_mime b) (att_filename b) (att_content b)) = (a = b)) \<and>
   (\<not> is_framed_attachment blob \<longrightarrow> parse_attachment_frame blob = None)"
proof (intro conjI impI)
  have cut: "(if 0xFFFF < length xs then take 0xFFFF xs else xs) = take 0xFFFF xs" for xs :: bytes by simp
  show "parse_attachment_frame (frame_attachment mime filename content) =
      Some \<lparr>att_mime = take 0xFFFF mime, att_filename = take 0xFFFF filename, att_content = content\<rparr>"
    unfolding frame_attachment_def Let_def cut by (rule parse_frame) simp_all
qed (use attachment.enc_inject [of a b] in \<open>simp_all add: parse_attachment_frame_def\<close>)

theorem attachment_roundtrip_witness:
  "parse_attachment_frame (frame_attachment [1] [2] [3]) = Some \<lparr>att_mime = [1], att_filename = [2], att_content = [3]\<rparr>"
  using attachment_roundtrip [of "[1]" "[2]" "[3]" "\<lparr>att_mime = [1], att_filename = [2], att_content = [3]\<rparr>"
      "\<lparr>att_mime = [1], att_filename = [2], att_content = [4]\<rparr>" "[]"] by simp

text \<open>Both peers read the same safety number, whichever side computes it: it has 71 characters (twelve
  groups of five digits) and depends on the two keys as an unordered pair.\<close>

theorem safety_number_symmetric:
  "safety_number blake a b = safety_number blake b a \<and> length (safety_number blake a b) = 71"
proof -
  have "(if a \<le> b then a else b) = (if b \<le> a then b else a)" "(if a \<le> b then b else a) = (if b \<le> a then a else b)"
    by (auto intro: antisym)
  then show ?thesis by (simp add: safety_number_def Let_def del: if_cancel)
qed

text \<open>The fingerprint loads only forty bits and reads from bit 49 down: its first two characters are
  always zero, so it carries forty bits instead of the fifty its comment promises.\<close>

theorem fingerprint_two_zeros: "take 2 (fingerprint blake pubkey) = ''00'' \<and> length (fingerprint blake pubkey) = 11"
  by (simp add: fingerprint_def Let_def fingerprint_high_zero kBase32Alphabet_def)

end
