(* ===== verification/Handshake.thy ===== *)
theory Handshake
  imports Sodium Messages Identity
begin

text \<open>
  Session establishment, \<open>core/src/handshake/hybrid.cpp\<close> and \<open>core/src/crypto/hybrid_kem.cpp\<close>: the
  X25519 agreement, its combination with ML-KEM-768, the checks on a prekey bundle, sealed senders
  and hybrid signatures. The primitives of libsodium and OpenSSL that \<open>identity.cpp\<close> and
  \<open>pq_kem.cpp\<close> wrap are the fields of \<open>hs_lib\<close>; \<open>hs_ok\<close> states what their documentation promises.
  Secrets wiped from memory are not modelled.
\<close>

subsection \<open>The primitives\<close>

record hs_lib =
  ed_keypair :: "bytes \<Rightarrow> bytes \<times> bytes"
  ed_sign :: "bytes \<Rightarrow> bytes \<Rightarrow> bytes"
  ed_check :: "bytes \<Rightarrow> bytes \<Rightarrow> bytes \<Rightarrow> bool"
  sk_to_curve :: "bytes \<Rightarrow> bytes option"
  pk_to_curve :: "bytes \<Rightarrow> bytes option"
  kem_keygen :: "bytes \<Rightarrow> bytes \<times> bytes"
  kem_encap :: "bytes \<Rightarrow> bytes \<Rightarrow> bytes \<times> bytes"
  kem_decap :: "bytes \<Rightarrow> bytes \<Rightarrow> bytes"
  dsa_keygen :: "bytes \<Rightarrow> bytes \<times> bytes"
  dsa_sign :: "bytes \<Rightarrow> bytes \<Rightarrow> bytes"
  dsa_check :: "bytes \<Rightarrow> bytes \<Rightarrow> bytes \<Rightarrow> bool"

definition kMlKem768PubBytes :: nat where
  "kMlKem768PubBytes = 1184"

definition kMlKem768CtBytes :: nat where
  "kMlKem768CtBytes = 1088"

definition kMlDsa65PubBytes :: nat where
  "kMlDsa65PubBytes = 1952"

definition kMlDsa65SigBytes :: nat where
  "kMlDsa65SigBytes = 3309"

definition sign_ok :: "hs_lib \<Rightarrow> bool" where
  "sign_ok hl \<longleftrightarrow>
     (\<forall>seed m. length (fst (ed_keypair hl seed)) = 32 \<and> length (ed_sign hl (snd (ed_keypair hl seed)) m) = 64 \<and>
        ed_check hl (fst (ed_keypair hl seed)) m (ed_sign hl (snd (ed_keypair hl seed)) m)) \<and>
     (\<forall>seed m. length (fst (dsa_keygen hl seed)) = kMlDsa65PubBytes \<and>
        length (dsa_sign hl (snd (dsa_keygen hl seed)) m) = kMlDsa65SigBytes \<and>
        dsa_check hl (fst (dsa_keygen hl seed)) m (dsa_sign hl (snd (dsa_keygen hl seed)) m))"

definition kem_ok :: "hs_lib \<Rightarrow> bool" where
  "kem_ok hl \<longleftrightarrow>
     (\<forall>seed rnd. length (fst (kem_keygen hl seed)) = kMlKem768PubBytes \<and>
        length (fst (kem_encap hl (fst (kem_keygen hl seed)) rnd)) = kMlKem768CtBytes \<and>
        kem_decap hl (fst (kem_encap hl (fst (kem_keygen hl seed)) rnd)) (snd (kem_keygen hl seed)) =
          snd (kem_encap hl (fst (kem_keygen hl seed)) rnd))"

definition curve_ok :: "sodium \<Rightarrow> hs_lib \<Rightarrow> bool" where
  "curve_ok lib hl \<longleftrightarrow>
     (\<forall>seed. \<exists>priv. sk_to_curve hl (snd (ed_keypair hl seed)) = Some priv \<and>
        pk_to_curve hl (fst (ed_keypair hl seed)) = Some (scalarmult_base lib priv))"

subsection \<open>Agreement\<close>

datatype handshake_error =
    ConversionFailed | LowOrder | PqPubSize | PqCtSize | IdentitySize | MissingPqSig | BadPqSig | BadBundle

record identity_keys =
  id_pub :: bytes
  id_sec :: bytes

record x25519_pair =
  xp_pub :: bytes
  xp_priv :: bytes

definition derive_x25519 :: "hs_lib \<Rightarrow> identity_keys \<Rightarrow> handshake_error + x25519_pair" where
  "derive_x25519 hl i =
     (case sk_to_curve hl (id_sec i) of
        None \<Rightarrow> Inl ConversionFailed
      | Some priv \<Rightarrow>
          (case pk_to_curve hl (id_pub i) of
             None \<Rightarrow> Inl ConversionFailed
           | Some pub \<Rightarrow> Inr \<lparr>xp_pub = pub, xp_priv = priv\<rparr>))"

definition derive_shared_secret :: "sodium \<Rightarrow> x25519_pair \<Rightarrow> bytes \<Rightarrow> handshake_error + bytes" where
  "derive_shared_secret lib mine peer_pub =
     (case scalarmult lib (xp_priv mine) peer_pub of
        None \<Rightarrow> Inl LowOrder
      | Some dh \<Rightarrow> Inr (projr (hkdf_expand lib (hkdf_extract lib [] dh) (str_bytes ''FinBit-X3DH-v0'') 32)))"

definition combine_x25519_mlkem768 :: "sodium \<Rightarrow> bytes \<Rightarrow> bytes \<Rightarrow> bytes" where
  "combine_x25519_mlkem768 lib ss_x25519 ss_mlkem768 =
     projr (hkdf_expand lib (hkdf_extract lib (str_bytes ''FinBit-hybrid-v1'') (ss_x25519 @ ss_mlkem768))
       (str_bytes ''FinBit hybrid X25519+ML-KEM-768'') 32)"

record pq_identity =
  pq_pub :: bytes
  pq_sec :: bytes
  pq_sig :: bytes

definition derive_pq_identity :: "sodium \<Rightarrow> hs_lib \<Rightarrow> identity_keys \<Rightarrow> bytes \<Rightarrow> pq_identity" where
  "derive_pq_identity lib hl i seed =
     (let (pub, sec) = kem_keygen hl (derive_pq_seed_from_identity_seed lib seed)
      in \<lparr>pq_pub = pub, pq_sec = sec, pq_sig = ed_sign hl (id_sec i) pub\<rparr>)"

record hybrid_send_result =
  hs_shared :: bytes
  hs_pq_ct :: bytes

definition derive_hybrid_send ::
  "sodium \<Rightarrow> hs_lib \<Rightarrow> bytes \<Rightarrow> x25519_pair \<Rightarrow> bytes \<Rightarrow> bytes \<Rightarrow> handshake_error + hybrid_send_result" where
  "derive_hybrid_send lib hl rnd mine peer_x peer_pq_pub =
     (case derive_shared_secret lib mine peer_x of
        Inl e \<Rightarrow> Inl e
      | Inr shared \<Rightarrow>
          if peer_pq_pub = [] then Inr \<lparr>hs_shared = shared, hs_pq_ct = []\<rparr>
          else if length peer_pq_pub \<noteq> kMlKem768PubBytes then Inl PqPubSize
          else let (ct, ss) = kem_encap hl peer_pq_pub rnd
               in Inr \<lparr>hs_shared = combine_x25519_mlkem768 lib shared ss, hs_pq_ct = ct\<rparr>)"

definition derive_hybrid_recv ::
  "sodium \<Rightarrow> hs_lib \<Rightarrow> x25519_pair \<Rightarrow> bytes \<Rightarrow> bytes \<Rightarrow> bytes \<Rightarrow> handshake_error + bytes" where
  "derive_hybrid_recv lib hl mine peer_x my_pq_sec pq_ct_bytes =
     (case derive_shared_secret lib mine peer_x of
        Inl e \<Rightarrow> Inl e
      | Inr ss_x \<Rightarrow>
          if pq_ct_bytes = [] then Inr ss_x
          else if length pq_ct_bytes \<noteq> kMlKem768CtBytes then Inl PqCtSize
          else Inr (combine_x25519_mlkem768 lib ss_x (kem_decap hl pq_ct_bytes my_pq_sec)))"

subsection \<open>Bundles\<close>

definition verify_bundle_pq_sigs :: "hs_lib \<Rightarrow> prekey_bundle \<Rightarrow> bool" where
  "verify_bundle_pq_sigs hl b =
     (let any = (pq_sig_pubkey b \<noteq> [] \<or> pq_sig_pubkey_sig b \<noteq> [] \<or> signed_prekey_sig_pq b \<noteq> [] \<or> pq_pubkey_sig_pq b \<noteq> []) in
      if \<not> any then True
      else if length (pq_sig_pubkey b) \<noteq> kMlDsa65PubBytes then False
      else if length (pq_sig_pubkey_sig b) \<noteq> 64 then False
      else if length (signed_prekey_sig_pq b) \<noteq> kMlDsa65SigBytes then False
      else if length (identity_pubkey b) \<noteq> 32 then False
      else if length (signed_prekey b) \<noteq> 32 then False
      else if length (pq_pubkey b) \<noteq> kMlKem768PubBytes then False
      else if length (pq_pubkey_sig_pq b) \<noteq> kMlDsa65SigBytes then False
      else if \<not> ed_check hl (identity_pubkey b) (pq_sig_pubkey b) (pq_sig_pubkey_sig b) then False
      else if \<not> dsa_check hl (pq_sig_pubkey b) (signed_prekey b) (signed_prekey_sig_pq b) then False
      else if \<not> dsa_check hl (pq_sig_pubkey b) (pq_pubkey b) (pq_pubkey_sig_pq b) then False
      else True)"

definition derive_hybrid_send_from_bundle ::
  "sodium \<Rightarrow> hs_lib \<Rightarrow> bytes \<Rightarrow> x25519_pair \<Rightarrow> bytes \<Rightarrow> prekey_bundle \<Rightarrow> handshake_error + hybrid_send_result" where
  "derive_hybrid_send_from_bundle lib hl rnd mine peer_x b =
     (if pq_pubkey b \<noteq> [] \<and> length (identity_pubkey b) \<noteq> 32 then Inl IdentitySize
      else if pq_pubkey b \<noteq> [] \<and> length (pq_pubkey_sig b) \<noteq> 64 then Inl MissingPqSig
      else if pq_pubkey b \<noteq> [] \<and> \<not> ed_check hl (identity_pubkey b) (pq_pubkey b) (pq_pubkey_sig b) then Inl BadPqSig
      else if \<not> verify_bundle_pq_sigs hl b then Inl BadBundle
      else derive_hybrid_send lib hl rnd mine peer_x (pq_pubkey b))"

definition derive_hybrid_recv_from_env ::
  "sodium \<Rightarrow> hs_lib \<Rightarrow> x25519_pair \<Rightarrow> bytes \<Rightarrow> bytes \<Rightarrow> envelope \<Rightarrow> handshake_error + bytes" where
  "derive_hybrid_recv_from_env lib hl mine peer_x my_pq_sec env = derive_hybrid_recv lib hl mine peer_x my_pq_sec (pq_ct env)"

definition derive_pq_sig_identity :: "sodium \<Rightarrow> hs_lib \<Rightarrow> identity_keys \<Rightarrow> bytes \<Rightarrow> pq_identity" where
  "derive_pq_sig_identity lib hl i seed =
     (let (pub, sec) = dsa_keygen hl (derive_pq_sig_seed_from_identity_seed lib seed)
      in \<lparr>pq_pub = pub, pq_sec = sec, pq_sig = ed_sign hl (id_sec i) pub\<rparr>)"

definition add_pq_sig_fields_to_bundle :: "hs_lib \<Rightarrow> pq_identity \<Rightarrow> prekey_bundle \<Rightarrow> prekey_bundle" where
  "add_pq_sig_fields_to_bundle hl pq b =
     (let b = b\<lparr>pq_sig_pubkey := pq_pub pq, pq_sig_pubkey_sig := pq_sig pq\<rparr>;
          b = b\<lparr>signed_prekey_sig_pq := dsa_sign hl (pq_sec pq) (signed_prekey b)\<rparr>
      in if pq_pubkey b \<noteq> [] then b\<lparr>pq_pubkey_sig_pq := dsa_sign hl (pq_sec pq) (pq_pubkey b)\<rparr> else b)"

definition is_pq_capability_downgrade :: "bool \<Rightarrow> bool \<Rightarrow> bool" where
  "is_pq_capability_downgrade previously_pq_capable now_advertises_pq \<longleftrightarrow> previously_pq_capable \<and> \<not> now_advertises_pq"

subsection \<open>Hybrid signatures and sealed senders\<close>

record hybrid_signature =
  sig_ed25519 :: bytes
  sig_pq :: bytes

definition hybrid_sign :: "hs_lib \<Rightarrow> identity_keys \<Rightarrow> pq_identity \<Rightarrow> bytes \<Rightarrow> hybrid_signature" where
  "hybrid_sign hl i pq m = \<lparr>sig_ed25519 = ed_sign hl (id_sec i) m, sig_pq = dsa_sign hl (pq_sec pq) m\<rparr>"

definition hybrid_verify :: "hs_lib \<Rightarrow> bytes \<Rightarrow> bytes \<Rightarrow> bytes \<Rightarrow> hybrid_signature \<Rightarrow> bool" where
  "hybrid_verify hl ed25519_pub pq m sig \<longleftrightarrow>
     (let ok_ed = ed_check hl ed25519_pub m (sig_ed25519 sig); ok_pq = dsa_check hl pq m (sig_pq sig) in ok_ed \<and> ok_pq)"

definition sealed_sender_sig_input :: "bytes \<Rightarrow> u64 \<Rightarrow> bytes \<Rightarrow> bytes" where
  "sealed_sender_sig_input env_id ts recipient_pubkey =
     str_bytes ''FinBit-SealedSender-v1'' @ env_id @ u64_be ts @ recipient_pubkey"

definition make_sealed_sender_fields :: "hs_lib \<Rightarrow> identity_keys \<Rightarrow> bytes \<Rightarrow> u64 \<Rightarrow> bytes \<Rightarrow> bytes \<times> bytes" where
  "make_sealed_sender_fields hl i env_id ts recipient_pubkey =
     (id_pub i, ed_sign hl (id_sec i) (sealed_sender_sig_input env_id ts recipient_pubkey))"

definition verify_sealed_sender :: "hs_lib \<Rightarrow> bytes \<Rightarrow> bytes \<Rightarrow> bytes \<Rightarrow> u64 \<Rightarrow> bytes \<Rightarrow> bool" where
  "verify_sealed_sender hl claimed_pubkey claimed_sig env_id ts recipient_pubkey =
     ed_check hl claimed_pubkey (sealed_sender_sig_input env_id ts recipient_pubkey) claimed_sig"

subsection \<open>Lemmas\<close>

lemma shared_secret_symmetric:
  assumes "dh_ok lib"
  shows "\<exists>s. derive_shared_secret lib \<lparr>xp_pub = scalarmult_base lib a, xp_priv = a\<rparr> (scalarmult_base lib b) = Inr s \<and>
    derive_shared_secret lib \<lparr>xp_pub = scalarmult_base lib b, xp_priv = b\<rparr> (scalarmult_base lib a) = Inr s"
proof -
  have "scalarmult lib a (scalarmult_base lib b) = scalarmult lib b (scalarmult_base lib a)"
    "scalarmult lib a (scalarmult_base lib b) \<noteq> None" using assms unfolding dh_ok_def by blast+
  then show ?thesis by (auto simp: derive_shared_secret_def)
qed

lemma derive_x25519_keypair:
  assumes "curve_ok lib hl"
  obtains priv where "derive_x25519 hl \<lparr>id_pub = fst (ed_keypair hl seed), id_sec = snd (ed_keypair hl seed)\<rparr> =
    Inr \<lparr>xp_pub = scalarmult_base lib priv, xp_priv = priv\<rparr>"
proof -
  obtain priv where "sk_to_curve hl (snd (ed_keypair hl seed)) = Some priv"
    "pk_to_curve hl (fst (ed_keypair hl seed)) = Some (scalarmult_base lib priv)"
    using assms unfolding curve_ok_def by blast
  then show thesis using that by (simp add: derive_x25519_def)
qed

lemma hybrid_agrees:
  assumes "dh_ok lib" "kem_ok hl" and kp: "kem_keygen hl ks = (pub, sec)"
  shows "\<exists>r. derive_hybrid_send lib hl rnd \<lparr>xp_pub = scalarmult_base lib a, xp_priv = a\<rparr> (scalarmult_base lib b) pub = Inr r \<and>
    length (hs_pq_ct r) = kMlKem768CtBytes \<and>
    derive_hybrid_recv lib hl \<lparr>xp_pub = scalarmult_base lib b, xp_priv = b\<rparr> (scalarmult_base lib a) sec (hs_pq_ct r) = Inr (hs_shared r)"
proof -
  obtain ct ss where enc: "kem_encap hl pub rnd = (ct, ss)" by fastforce
  have k: "length pub = kMlKem768PubBytes" "length ct = kMlKem768CtBytes" "kem_decap hl ct sec = ss"
    using assms(2) kp enc unfolding kem_ok_def by (metis fst_conv snd_conv)+
  moreover from k have "pub \<noteq> []" "ct \<noteq> []" by (auto simp: kMlKem768PubBytes_def kMlKem768CtBytes_def)
  ultimately show ?thesis
    using shared_secret_symmetric [OF assms(1), of a b] enc by (auto simp: derive_hybrid_send_def derive_hybrid_recv_def)
qed

lemma honest_bundle_verifies:
  assumes sign: "sign_ok hl" and kem: "length (pq_pubkey b) = kMlKem768PubBytes"
    and b: "identity_pubkey b = fst (ed_keypair hl seed)" "length (signed_prekey b) = 32"
    and i: "id_sec i = snd (ed_keypair hl seed)"
  shows "verify_bundle_pq_sigs hl (add_pq_sig_fields_to_bundle hl (derive_pq_sig_identity lib hl i seed) b)"
proof -
  obtain pub sec where kg: "dsa_keygen hl (derive_pq_sig_seed_from_identity_seed lib seed) = (pub, sec)" by fastforce
  have dsa: "length pub = kMlDsa65PubBytes" "length (dsa_sign hl sec m) = kMlDsa65SigBytes" "dsa_check hl pub m (dsa_sign hl sec m)" for m
    using sign kg unfolding sign_ok_def by (metis fst_conv snd_conv)+
  have ed: "length (identity_pubkey b) = 32" "length (ed_sign hl (id_sec i) m) = 64" "ed_check hl (identity_pubkey b) m (ed_sign hl (id_sec i) m)" for m
    using sign b(1) i unfolding sign_ok_def by simp_all
  have "pq_pubkey b \<noteq> []" using kem by (auto simp: kMlKem768PubBytes_def)
  with dsa ed kem b(2) show ?thesis
    by (simp add: verify_bundle_pq_sigs_def add_pq_sig_fields_to_bundle_def derive_pq_sig_identity_def kg)
qed

text \<open>The hybrid handshake completes and agrees: when Bob publishes a bundle with his identity key, his
  ML-KEM key with its binding signature, and the ML-DSA fields, Alice's bundle check passes, she gets
  a shared secret and a ciphertext, and Bob derives the same secret from the ciphertext.\<close>

lemma hybrid_handshake_completes:
  assumes lib: "dh_ok lib" "curve_ok lib hl" "sign_ok hl" "kem_ok hl"
    and bob: "bob = \<lparr>id_pub = fst (ed_keypair hl sb), id_sec = snd (ed_keypair hl sb)\<rparr>"
    and alice: "alice = \<lparr>id_pub = fst (ed_keypair hl sa), id_sec = snd (ed_keypair hl sa)\<rparr>"
    and b: "identity_pubkey b = id_pub bob" "length (signed_prekey b) = 32"
      "pq_pubkey b = pq_pub (derive_pq_identity lib hl bob sb)" "pq_pubkey_sig b = pq_sig (derive_pq_identity lib hl bob sb)"
  shows "\<exists>xa xb r. derive_x25519 hl alice = Inr xa \<and> derive_x25519 hl bob = Inr xb \<and>
    derive_hybrid_send_from_bundle lib hl rnd xa (xp_pub xb)
      (add_pq_sig_fields_to_bundle hl (derive_pq_sig_identity lib hl bob sb) b) = Inr r \<and>
    length (hs_pq_ct r) = 1088 \<and>
    (pq_ct env = hs_pq_ct r \<longrightarrow>
      derive_hybrid_recv_from_env lib hl xb (xp_pub xa) (pq_sec (derive_pq_identity lib hl bob sb)) env = Inr (hs_shared r))"
proof -
  let ?b = "add_pq_sig_fields_to_bundle hl (derive_pq_sig_identity lib hl bob sb) b"
  obtain a where xa: "derive_x25519 hl alice = Inr \<lparr>xp_pub = scalarmult_base lib a, xp_priv = a\<rparr>"
    using derive_x25519_keypair [OF lib(2)] alice by metis
  obtain c where xb: "derive_x25519 hl bob = Inr \<lparr>xp_pub = scalarmult_base lib c, xp_priv = c\<rparr>"
    using derive_x25519_keypair [OF lib(2)] bob by metis
  obtain pub sec where kp: "kem_keygen hl (derive_pq_seed_from_identity_seed lib sb) = (pub, sec)" by fastforce
  have pq: "pq_pubkey b = pub" "pq_pubkey_sig b = ed_sign hl (id_sec bob) pub" "pq_sec (derive_pq_identity lib hl bob sb) = sec"
    using b kp by (simp_all add: derive_pq_identity_def)
  have len: "length pub = kMlKem768PubBytes" using lib(4) kp unfolding kem_ok_def by (metis fst_conv)
  have same: "pq_pubkey ?b = pub" "identity_pubkey ?b = id_pub bob" "pq_pubkey_sig ?b = pq_pubkey_sig b"
    using pq b by (auto simp: add_pq_sig_fields_to_bundle_def Let_def)
  have "verify_bundle_pq_sigs hl ?b"
    using honest_bundle_verifies [OF lib(3), of b sb bob] len pq b bob by simp
  moreover have "length (id_pub bob) = 32" "length (pq_pubkey_sig b) = 64" "ed_check hl (id_pub bob) pub (pq_pubkey_sig b)"
    using lib(3) bob pq(2) by (simp_all add: sign_ok_def)
  ultimately have "derive_hybrid_send_from_bundle lib hl rnd x y ?b = derive_hybrid_send lib hl rnd x y pub" for x y
    by (simp add: derive_hybrid_send_from_bundle_def same)
  with hybrid_agrees [OF lib(1,4) kp, of rnd a c] xa xb pq(3) show ?thesis
    by (auto simp: derive_hybrid_recv_from_env_def kMlKem768CtBytes_def)
qed

subsection \<open>An executable instance\<close>

definition toy_hs :: hs_lib where
  "toy_hs = \<lparr>ed_keypair = (\<lambda>seed. (1 # toy_pad seed, seed)), ed_sign = (\<lambda>sk m. replicate 64 0),
     ed_check = (\<lambda>pk m s. s = replicate 64 0), sk_to_curve = Some, pk_to_curve = Some,
     kem_keygen = (\<lambda>seed. (replicate 1184 7, seed)), kem_encap = (\<lambda>pk rnd. (replicate 1088 1, replicate 32 2)),
     kem_decap = (\<lambda>ct sk. replicate 32 2), dsa_keygen = (\<lambda>seed. (replicate 1952 3, seed)),
     dsa_sign = (\<lambda>sk m. replicate 3309 4), dsa_check = (\<lambda>pk m s. s = replicate 3309 4)\<rparr>"

lemma toy_hs_ok: "sign_ok toy_hs" "kem_ok toy_hs" "curve_ok toy_sodium toy_hs"
  by (simp_all add: sign_ok_def kem_ok_def curve_ok_def toy_hs_def toy_sodium_def kMlDsa65PubBytes_def kMlDsa65SigBytes_def
      kMlKem768PubBytes_def kMlKem768CtBytes_def)

definition toy_bundle :: prekey_bundle where
  "toy_bundle = \<lparr>identity_pubkey = 1 # toy_pad [6], signed_prekey = replicate 32 5, signed_prekey_sig = [], one_time_prekey = [],
     one_time_prekey_id = 0, published_at_ms = 0, pq_pubkey = replicate 1184 7, pq_pubkey_sig = replicate 64 0,
     pq_sig_pubkey = [], pq_sig_pubkey_sig = [], signed_prekey_sig_pq = [], pq_pubkey_sig_pq = []\<rparr>"

subsection \<open>Properties\<close>

text \<open>C14. No silent downgrade: whenever the bundle check lets a handshake proceed, either the bundle
  carries no post-quantum field at all, or it carries an ML-KEM key that the identity key signed and the
  ciphertext is an encapsulation to that key; and if it advertises a signing identity, the chain
  identity key, ML-DSA key, prekey and ML-KEM key verifies link by link.\<close>

theorem hybrid_no_silent_downgrade:
  assumes "derive_hybrid_send_from_bundle lib hl rnd mine peer_x b = Inr r"
  shows "(pq_pubkey b = [] \<and> pq_sig_pubkey b = [] \<and> pq_sig_pubkey_sig b = [] \<and> signed_prekey_sig_pq b = [] \<and>
      pq_pubkey_sig_pq b = [] \<and> hs_pq_ct r = []) \<or>
    (length (pq_pubkey b) = 1184 \<and> ed_check hl (identity_pubkey b) (pq_pubkey b) (pq_pubkey_sig b) \<and>
     hs_pq_ct r = fst (kem_encap hl (pq_pubkey b) rnd) \<and>
     (pq_sig_pubkey b @ pq_sig_pubkey_sig b @ signed_prekey_sig_pq b @ pq_pubkey_sig_pq b = [] \<or>
      ed_check hl (identity_pubkey b) (pq_sig_pubkey b) (pq_sig_pubkey_sig b) \<and>
      dsa_check hl (pq_sig_pubkey b) (signed_prekey b) (signed_prekey_sig_pq b) \<and>
      dsa_check hl (pq_sig_pubkey b) (pq_pubkey b) (pq_pubkey_sig_pq b)))"
proof (cases "pq_pubkey b = []")
  case True
  then have "verify_bundle_pq_sigs hl b" "derive_hybrid_send lib hl rnd mine peer_x [] = Inr r"
    using assms by (simp_all add: derive_hybrid_send_from_bundle_def split: if_splits)
  with True show ?thesis
    by (auto simp: verify_bundle_pq_sigs_def derive_hybrid_send_def kMlKem768PubBytes_def Let_def split: if_splits sum.splits)
next
  case False
  then have v: "verify_bundle_pq_sigs hl b" "derive_hybrid_send lib hl rnd mine peer_x (pq_pubkey b) = Inr r"
    "ed_check hl (identity_pubkey b) (pq_pubkey b) (pq_pubkey_sig b)"
    using assms by (simp_all add: derive_hybrid_send_from_bundle_def split: if_splits)
  have "length (pq_pubkey b) = 1184 \<and> hs_pq_ct r = fst (kem_encap hl (pq_pubkey b) rnd)"
    using v(2) False by (auto simp: derive_hybrid_send_def kMlKem768PubBytes_def Let_def split: if_splits sum.splits prod.splits)
  moreover have "pq_sig_pubkey b @ pq_sig_pubkey_sig b @ signed_prekey_sig_pq b @ pq_pubkey_sig_pq b = [] \<or>
      ed_check hl (identity_pubkey b) (pq_sig_pubkey b) (pq_sig_pubkey_sig b) \<and>
      dsa_check hl (pq_sig_pubkey b) (signed_prekey b) (signed_prekey_sig_pq b) \<and>
      dsa_check hl (pq_sig_pubkey b) (pq_pubkey b) (pq_pubkey_sig_pq b)"
    using v(1) by (auto simp: verify_bundle_pq_sigs_def Let_def split: if_splits)
  ultimately show ?thesis using v(3) by blast
qed

theorem hybrid_no_silent_downgrade_witness:
  "\<exists>r. derive_hybrid_send_from_bundle toy_sodium toy_hs [] \<lparr>xp_pub = [], xp_priv = [1]\<rparr> [] toy_bundle = Inr r \<and>
     hs_pq_ct r = replicate 1088 1"
proof -
  obtain r where r: "derive_hybrid_send_from_bundle toy_sodium toy_hs [] \<lparr>xp_pub = [], xp_priv = [1]\<rparr> [] toy_bundle = Inr r"
    by (simp add: derive_hybrid_send_from_bundle_def toy_bundle_def toy_hs_def verify_bundle_pq_sigs_def derive_hybrid_send_def
        derive_shared_secret_def toy_sodium_def kMlKem768PubBytes_def)
  from hybrid_no_silent_downgrade [OF r] r show ?thesis by (auto simp: toy_bundle_def toy_hs_def)
qed

text \<open>A sealed sender claim verifies where it was made for, and what it signs determines the envelope
  identifier, the timestamp and the recipient.\<close>

theorem sealed_sender_binds:
  assumes "sign_ok hl" and "i = \<lparr>id_pub = fst (ed_keypair hl seed), id_sec = snd (ed_keypair hl seed)\<rparr>"
    and "length q = 32" "length q' = 32"
  shows "(case make_sealed_sender_fields hl i e t q of (pk, sig) \<Rightarrow> verify_sealed_sender hl pk sig e t q) \<and>
    (sealed_sender_sig_input e t q = sealed_sender_sig_input e' t' q' \<longrightarrow> e = e' \<and> t = t' \<and> q = q')"
  using assms by (auto simp: make_sealed_sender_fields_def verify_sealed_sender_def sign_ok_def sealed_sender_sig_input_def
      append_eq_append_conv simp flip: append_assoc)

end
