(* ===== verification/Store.thy ===== *)
theory Store
  imports Sodium Unordered_Map "HOL-Library.List_Lexorder"
begin

text \<open>
  The client's local database, \<open>core/src/store/sqlite_store.cpp\<close>: its tables, the encryption of the
  sensitive columns at rest, the rotation of the table keys and the ratchet of the storage master.
  Every SQL statement is the change it makes to its table. A keyed table is an association list,
  an autoincrement table a list; columns that no statement reads are left out. The random bytes of
  each call are arguments, wiping of memory and the write-ahead log are not modelled.
\<close>

subsection \<open>Tables\<close>

record msg_row =
  m_peer :: bytes
  m_val :: bytes
  m_ts :: u64
  m_expires :: u64

record chan_row =
  cr_id :: bytes
  cr_dist :: bytes
  cr_mls :: bool

record chan_msg =
  cm_id :: bytes
  cm_sender :: bytes
  cm_val :: bytes
  cm_ts :: u64

record name_row =
  nr_name :: bytes
  nr_learned :: int

record held_share =
  hs_share :: bytes
  hs_threshold :: u32
  hs_total :: u32
  hs_label :: bytes
  hs_received :: u64

record pin =
  pin_capable :: bool
  first_seen_ms :: int

text \<open>Integer columns hold the 64-bit value that was bound; SQL compares it as signed.\<close>

record database =
  user_version :: nat
  t_identities :: "(bytes, bytes \<times> bytes) umap"
  t_peer_keys :: "(bytes, bytes) umap"
  t_sessions :: "(bytes, bytes) umap"
  t_inbox :: "(bytes, msg_row) umap"
  t_outbox :: "(bytes, msg_row) umap"
  t_chan_state :: "(bytes, chan_row) umap"
  t_chan_peers :: "(bytes \<times> bytes, bytes) umap"
  t_chan_inbox :: "chan_msg list"
  t_peer_names :: "(bytes, name_row) umap"
  t_mls_state :: "(bytes, bytes) umap"
  t_mls_log :: "(bytes \<times> u64, bytes) umap"
  t_storage_keys :: "(bytes, bytes \<times> u64) umap"
  t_storage_master :: "(bytes \<times> u64) option"
  t_verified :: "(bytes, bool \<times> u64) umap"
  t_pq_capable :: "(bytes, pin) umap"
  t_shares :: "(bytes \<times> u64, held_share) umap"

record table_keys =
  k_inbox :: bytes
  k_outbox :: bytes
  k_sessions :: bytes
  k_chan_state :: bytes
  k_chan_peers :: bytes
  k_chan_inbox :: bytes
  k_peer_name :: bytes
  k_mls_state :: bytes
  k_mls_log :: bytes

record store =
  db :: database
  encrypt_at_rest :: bool
  master_key :: bytes
  storage_master :: bytes
  storage_master_generation :: u64
  storage_keys_generation :: u64
  keys :: table_keys

subsection \<open>Wrapping\<close>

definition kXNonce :: nat where
  "kXNonce = 24"

definition kXTag :: nat where
  "kXTag = 16"

definition kKeyLen :: nat where
  "kKeyLen = 32"

definition derive_table_key :: "sodium \<Rightarrow> bytes \<Rightarrow> string \<Rightarrow> bytes" where
  "derive_table_key lib master info = projr (hkdf_expand lib (hkdf_extract lib [] master) (str_bytes info) kKeyLen)"

definition derive_table_keys :: "sodium \<Rightarrow> bytes \<Rightarrow> table_keys" where
  "derive_table_keys lib m =
     \<lparr>k_inbox = derive_table_key lib m ''FinBit-DB-Inbox-v1'', k_outbox = derive_table_key lib m ''FinBit-DB-Outbox-v1'',
      k_sessions = derive_table_key lib m ''FinBit-DB-Sessions-v1'', k_chan_state = derive_table_key lib m ''FinBit-DB-ChanState-v1'',
      k_chan_peers = derive_table_key lib m ''FinBit-DB-ChanPeers-v1'', k_chan_inbox = derive_table_key lib m ''FinBit-DB-ChanInbox-v1'',
      k_peer_name = derive_table_key lib m ''FinBit-DB-PeerName-v1'', k_mls_state = derive_table_key lib m ''FinBit-DB-MlsState-v1'',
      k_mls_log = derive_table_key lib m ''FinBit-DB-MlsLog-v1''\<rparr>"

definition storage_master_aad :: "u64 \<Rightarrow> bytes" where
  "storage_master_aad gen = str_bytes ''FinBit-DB-StorageMaster-v1'' @ u64_be gen"

definition aead_wrap :: "sodium \<Rightarrow> bytes \<Rightarrow> bytes \<Rightarrow> bytes \<Rightarrow> bytes \<Rightarrow> bytes" where
  "aead_wrap lib nonce key plaintext aad = nonce @ xchacha_enc lib key nonce plaintext aad"

definition aead_unwrap :: "sodium \<Rightarrow> bytes \<Rightarrow> bytes \<Rightarrow> bytes \<Rightarrow> bytes option" where
  "aead_unwrap lib key blob aad =
     (if length blob < kXNonce + kXTag then None
      else xchacha_dec lib key (take kXNonce blob) (drop kXNonce blob) aad)"

text \<open>The two patterns around every sensitive column: what is bound on a write, what a read returns.\<close>

definition to_disk :: "sodium \<Rightarrow> bytes \<Rightarrow> store \<Rightarrow> bytes \<Rightarrow> bytes \<Rightarrow> bytes \<Rightarrow> bytes" where
  "to_disk lib nonce s key v aad = (if encrypt_at_rest s then aead_wrap lib nonce key v aad else v)"

definition from_disk :: "sodium \<Rightarrow> store \<Rightarrow> bytes \<Rightarrow> bytes \<Rightarrow> bytes \<Rightarrow> bytes option" where
  "from_disk lib s key v aad = (if encrypt_at_rest s then aead_unwrap lib key v aad else Some v)"

text \<open>\<open>bind_blob\<close> passes the pointer of the span. The callers pass vectors, the pointer of an empty one is null,
  and SQLite binds a null pointer as NULL: a statement that writes an empty value into a column declared
  \<open>NOT NULL\<close> fails, and \<open>INSERT OR IGNORE\<close> skips the row. (An encrypted value is never empty.) The keys of the
  tables other than inbox and outbox are public keys, channel identifiers and names, which are not empty; that an empty
  one never equals itself is left out.\<close>

definition not_null :: "bytes list \<Rightarrow> bool" where
  "not_null bs \<longleftrightarrow> list_all (\<lambda>b. b \<noteq> []) bs"

subsection \<open>Identities, peers and sessions\<close>

definition save_identity :: "bytes \<Rightarrow> bytes \<Rightarrow> bytes \<Rightarrow> store \<Rightarrow> unit outcome \<times> store" where
  "save_identity pub sec username s =
     (if \<not> not_null [pub, sec] then (Threw, s)
      else (Returned (), s\<lparr>db := (db s)\<lparr>t_identities := um_put (c_str username) (pub, sec) (t_identities (db s))\<rparr>\<rparr>))"

definition load_identity_pub :: "bytes \<Rightarrow> store \<Rightarrow> bytes option" where
  "load_identity_pub username s = map_option fst (um_find (t_identities (db s)) (c_str username))"

definition load_identity_sec :: "bytes \<Rightarrow> store \<Rightarrow> bytes option" where
  "load_identity_sec username s = map_option snd (um_find (t_identities (db s)) (c_str username))"

definition remember_peer :: "bytes \<Rightarrow> bytes \<Rightarrow> store \<Rightarrow> store" where
  "remember_peer peer_pub username s =
     (if \<not> not_null [peer_pub] then s
      else s\<lparr>db := (db s)\<lparr>t_peer_keys := um_put (c_str username) peer_pub (t_peer_keys (db s))\<rparr>\<rparr>)"

definition lookup_peer :: "bytes \<Rightarrow> store \<Rightarrow> bytes option" where
  "lookup_peer username s = um_find (t_peer_keys (db s)) (c_str username)"

definition save_session :: "sodium \<Rightarrow> bytes \<Rightarrow> bytes \<Rightarrow> bytes \<Rightarrow> store \<Rightarrow> unit outcome \<times> store" where
  "save_session lib nonce peer_pub blob s =
     (let stored = to_disk lib nonce s (k_sessions (keys s)) blob peer_pub
      in if \<not> not_null [stored] then (Threw, s)
         else (Returned (), s\<lparr>db := (db s)\<lparr>t_sessions := um_put peer_pub stored (t_sessions (db s))\<rparr>\<rparr>))"

definition load_session :: "sodium \<Rightarrow> bytes \<Rightarrow> store \<Rightarrow> bytes option" where
  "load_session lib peer_pub s =
     (case um_find (t_sessions (db s)) peer_pub of
        None \<Rightarrow> None
      | Some stored \<Rightarrow> from_disk lib s (k_sessions (keys s)) stored peer_pub)"

subsection \<open>Messages\<close>

text \<open>\<open>INSERT OR IGNORE\<close> leaves a row with the same primary key as it is; a primary key that is NULL equals
  no other.\<close>

definition insert_or_ignore :: "bytes \<Rightarrow> 'v \<Rightarrow> (bytes, 'v) umap \<Rightarrow> (bytes, 'v) umap" where
  "insert_or_ignore k v t = (if k \<noteq> [] \<and> um_find t k \<noteq> None then t else t @ [(k, v)])"

definition append_inbox_with_expiry :: "sodium \<Rightarrow> bytes \<Rightarrow> bytes \<Rightarrow> bytes \<Rightarrow> bytes \<Rightarrow> u64 \<Rightarrow> u64 \<Rightarrow> store \<Rightarrow> store" where
  "append_inbox_with_expiry lib nonce envid peer_pub plaintext ts expires s =
     (let stored = to_disk lib nonce s (k_inbox (keys s)) plaintext envid
      in if \<not> not_null [peer_pub, stored] then s
         else s\<lparr>db := (db s)\<lparr>t_inbox := insert_or_ignore envid
           \<lparr>m_peer = peer_pub, m_val = stored, m_ts = ts, m_expires = expires\<rparr> (t_inbox (db s))\<rparr>\<rparr>)"

definition append_inbox :: "sodium \<Rightarrow> bytes \<Rightarrow> bytes \<Rightarrow> bytes \<Rightarrow> bytes \<Rightarrow> u64 \<Rightarrow> store \<Rightarrow> store" where
  "append_inbox lib nonce envid peer_pub plaintext ts s =
     (let stored = to_disk lib nonce s (k_inbox (keys s)) plaintext envid
      in if \<not> not_null [peer_pub, stored] then s
         else s\<lparr>db := (db s)\<lparr>t_inbox := insert_or_ignore envid
           \<lparr>m_peer = peer_pub, m_val = stored, m_ts = ts, m_expires = 0\<rparr> (t_inbox (db s))\<rparr>\<rparr>)"

definition append_outbox_with_expiry :: "sodium \<Rightarrow> bytes \<Rightarrow> bytes \<Rightarrow> bytes \<Rightarrow> bytes \<Rightarrow> u64 \<Rightarrow> u64 \<Rightarrow> store \<Rightarrow> store" where
  "append_outbox_with_expiry lib nonce envid peer_pub ct ts expires s =
     (let stored = to_disk lib nonce s (k_outbox (keys s)) ct envid
      in if \<not> not_null [peer_pub, stored] then s
         else s\<lparr>db := (db s)\<lparr>t_outbox := insert_or_ignore envid
           \<lparr>m_peer = peer_pub, m_val = stored, m_ts = ts, m_expires = expires\<rparr> (t_outbox (db s))\<rparr>\<rparr>)"

definition append_outbox :: "sodium \<Rightarrow> bytes \<Rightarrow> bytes \<Rightarrow> bytes \<Rightarrow> bytes \<Rightarrow> u64 \<Rightarrow> store \<Rightarrow> store" where
  "append_outbox lib nonce envid peer_pub ct ts s =
     (let stored = to_disk lib nonce s (k_outbox (keys s)) ct envid
      in if \<not> not_null [peer_pub, stored] then s
         else s\<lparr>db := (db s)\<lparr>t_outbox := insert_or_ignore envid
           \<lparr>m_peer = peer_pub, m_val = stored, m_ts = ts, m_expires = 0\<rparr> (t_outbox (db s))\<rparr>\<rparr>)"

definition expired :: "u64 \<Rightarrow> msg_row \<Rightarrow> bool" where
  "expired now r \<longleftrightarrow> 0 < sint (m_expires r) \<and> sint (m_expires r) \<le> sint now"

definition prune_expired :: "u64 \<Rightarrow> store \<Rightarrow> nat \<times> store" where
  "prune_expired now s =
     (let keep = filter (\<lambda>(k, r). \<not> expired now r); gone = filter (\<lambda>(k, r). expired now r)
      in (length (gone (t_inbox (db s))) + length (gone (t_outbox (db s))),
          s\<lparr>db := (db s)\<lparr>t_inbox := keep (t_inbox (db s)), t_outbox := keep (t_outbox (db s))\<rparr>\<rparr>))"

text \<open>\<open>ORDER BY ts_ms DESC LIMIT ?\<close>; rows with the same timestamp come in the order of the table, which
  SQL leaves open. Rows that do not unwrap are skipped after the limit was applied.\<close>

definition newest :: "('a \<Rightarrow> int) \<Rightarrow> nat \<Rightarrow> 'a list \<Rightarrow> 'a list" where
  "newest ts limit t = take limit (sort_key (\<lambda>r. - ts r) t)"

definition recent :: "sodium \<Rightarrow> store \<Rightarrow> bytes \<Rightarrow> nat \<Rightarrow> (bytes, msg_row) umap \<Rightarrow> (bytes \<times> bytes \<times> bytes \<times> u64) list" where
  "recent lib s key limit t =
     List.map_filter (\<lambda>(k, r). map_option (\<lambda>pt. (k, m_peer r, pt, m_ts r)) (from_disk lib s key (m_val r) k))
       (newest (\<lambda>(k, r). sint (m_ts r)) limit t)"

definition recent_inbox :: "sodium \<Rightarrow> nat \<Rightarrow> store \<Rightarrow> (bytes \<times> bytes \<times> bytes \<times> u64) list" where
  "recent_inbox lib limit s = recent lib s (k_inbox (keys s)) limit (t_inbox (db s))"

definition recent_outbox :: "sodium \<Rightarrow> nat \<Rightarrow> store \<Rightarrow> (bytes \<times> bytes \<times> bytes \<times> u64) list" where
  "recent_outbox lib limit s = recent lib s (k_outbox (keys s)) limit (t_outbox (db s))"

subsection \<open>Channels\<close>

text \<open>An empty distribution is stored as NULL and read back as empty.\<close>

definition chan_save :: "sodium \<Rightarrow> bytes \<Rightarrow> bytes \<Rightarrow> bytes \<Rightarrow> bytes \<Rightarrow> bool \<Rightarrow> store \<Rightarrow> store" where
  "chan_save lib nonce name channel_id own_dist mls s =
     (if \<not> not_null [channel_id] then s
      else s\<lparr>db := (db s)\<lparr>t_chan_state := um_put (c_str name)
        \<lparr>cr_id = channel_id,
         cr_dist = (if own_dist \<noteq> [] then to_disk lib nonce s (k_chan_state (keys s)) own_dist name else own_dist),
         cr_mls = mls\<rparr>
        (t_chan_state (db s))\<rparr>\<rparr>)"

definition chan_list :: "sodium \<Rightarrow> store \<Rightarrow> (bytes \<times> chan_row) list" where
  "chan_list lib s =
     map (\<lambda>(name, r). (name, r\<lparr>cr_dist :=
            (if encrypt_at_rest s \<and> cr_dist r \<noteq> []
             then (case aead_unwrap lib (k_chan_state (keys s)) (cr_dist r) name of None \<Rightarrow> [] | Some pt \<Rightarrow> pt)
             else cr_dist r)\<rparr>))
       (sort_key fst (t_chan_state (db s)))"

definition chan_save_peer :: "sodium \<Rightarrow> bytes \<Rightarrow> bytes \<Rightarrow> bytes \<Rightarrow> bytes \<Rightarrow> store \<Rightarrow> store" where
  "chan_save_peer lib nonce channel_id peer_pub peer_dist s =
     (let stored = to_disk lib nonce s (k_chan_peers (keys s)) peer_dist (channel_id @ peer_pub)
      in if \<not> not_null [channel_id, peer_pub, stored] then s
         else s\<lparr>db := (db s)\<lparr>t_chan_peers := um_put (channel_id, peer_pub) stored (t_chan_peers (db s))\<rparr>\<rparr>)"

definition chan_peers :: "sodium \<Rightarrow> bytes \<Rightarrow> store \<Rightarrow> (bytes \<times> bytes) list" where
  "chan_peers lib channel_id s =
     List.map_filter (\<lambda>((cid, peer), stored).
         map_option (Pair peer) (from_disk lib s (k_chan_peers (keys s)) stored (channel_id @ peer)))
       (filter (\<lambda>((cid, peer), stored). cid = channel_id) (t_chan_peers (db s)))"

definition chan_append_inbox :: "sodium \<Rightarrow> bytes \<Rightarrow> bytes \<Rightarrow> bytes \<Rightarrow> bytes \<Rightarrow> u64 \<Rightarrow> store \<Rightarrow> store" where
  "chan_append_inbox lib nonce channel_id sender_pub plaintext ts s =
     (let stored = to_disk lib nonce s (k_chan_inbox (keys s)) plaintext channel_id
      in if \<not> not_null [channel_id, sender_pub, stored] then s
         else s\<lparr>db := (db s)\<lparr>t_chan_inbox := t_chan_inbox (db s) @
           [\<lparr>cm_id = channel_id, cm_sender = sender_pub, cm_val = stored, cm_ts = ts\<rparr>]\<rparr>\<rparr>)"

definition chan_recent_inbox :: "sodium \<Rightarrow> bytes \<Rightarrow> nat \<Rightarrow> store \<Rightarrow> chan_msg list" where
  "chan_recent_inbox lib channel_id limit s =
     List.map_filter (\<lambda>r. map_option (\<lambda>pt. r\<lparr>cm_val := pt\<rparr>) (from_disk lib s (k_chan_inbox (keys s)) (cm_val r) (cm_id r)))
       (newest (\<lambda>r. sint (cm_ts r)) limit (filter (\<lambda>r. cm_id r = channel_id) (t_chan_inbox (db s))))"

definition chan_delete :: "bytes \<Rightarrow> bytes \<Rightarrow> store \<Rightarrow> store" where
  "chan_delete name channel_id s =
     s\<lparr>db := (db s)\<lparr>t_chan_state := um_erase (c_str name) (t_chan_state (db s)),
        t_chan_peers := filter (\<lambda>((cid, peer), v). cid \<noteq> channel_id) (t_chan_peers (db s)),
        t_chan_inbox := filter (\<lambda>r. cm_id r \<noteq> channel_id) (t_chan_inbox (db s)),
        t_mls_state := um_erase channel_id (t_mls_state (db s)),
        t_mls_log := filter (\<lambda>((cid, seq), v). cid \<noteq> channel_id) (t_mls_log (db s)),
        t_sessions := um_erase (str_bytes ''__chanstate__:'' @ name) (t_sessions (db s))\<rparr>\<rparr>"

subsection \<open>Peer names, verification, pins and shares\<close>

definition cache_peer_name :: "sodium \<Rightarrow> bytes \<Rightarrow> int \<Rightarrow> bytes \<Rightarrow> bytes \<Rightarrow> store \<Rightarrow> store" where
  "cache_peer_name lib nonce now peer_pub username s =
     s\<lparr>db := (db s)\<lparr>t_peer_names := um_put peer_pub
        \<lparr>nr_name = (if encrypt_at_rest s then aead_wrap lib nonce (k_peer_name (keys s)) username peer_pub else c_str username),
         nr_learned = now\<rparr> (t_peer_names (db s))\<rparr>\<rparr>"

definition peer_name :: "sodium \<Rightarrow> bytes \<Rightarrow> store \<Rightarrow> bytes option" where
  "peer_name lib peer_pub s =
     (case um_find (t_peer_names (db s)) peer_pub of
        None \<Rightarrow> None
      | Some r \<Rightarrow> from_disk lib s (k_peer_name (keys s)) (nr_name r) peer_pub)"

definition all_cached_peers :: "sodium \<Rightarrow> store \<Rightarrow> (bytes \<times> bytes) list" where
  "all_cached_peers lib s =
     List.map_filter (\<lambda>(p, r). map_option (Pair p) (from_disk lib s (k_peer_name (keys s)) (nr_name r) p))
       (sort_key (\<lambda>(p, r). - nr_learned r) (t_peer_names (db s)))"

definition peer_pubkeys_for_username :: "sodium \<Rightarrow> bytes \<Rightarrow> store \<Rightarrow> bytes list" where
  "peer_pubkeys_for_username lib username s = map fst (filter (\<lambda>(p, u). u = username) (all_cached_peers lib s))"

definition set_peer_verified :: "bytes \<Rightarrow> bool \<Rightarrow> u64 \<Rightarrow> store \<Rightarrow> store" where
  "set_peer_verified peer_pub verified since s = s\<lparr>db := (db s)\<lparr>t_verified := um_put peer_pub (verified, since) (t_verified (db s))\<rparr>\<rparr>"

definition peer_verified :: "bytes \<Rightarrow> store \<Rightarrow> bool" where
  "peer_verified peer_pub s = (case um_find (t_verified (db s)) peer_pub of None \<Rightarrow> False | Some (v, since) \<Rightarrow> v)"

definition set_peer_pq_capable :: "bytes \<Rightarrow> bool \<Rightarrow> u64 \<Rightarrow> store \<Rightarrow> store" where
  "set_peer_pq_capable peer_pub capable since s =
     s\<lparr>db := (db s)\<lparr>t_pq_capable := um_put peer_pub
        (case um_find (t_pq_capable (db s)) peer_pub of
           None \<Rightarrow> \<lparr>pin_capable = capable, first_seen_ms = sint since\<rparr>
         | Some p \<Rightarrow> \<lparr>pin_capable = pin_capable p \<or> capable, first_seen_ms = min (first_seen_ms p) (sint since)\<rparr>)
        (t_pq_capable (db s))\<rparr>\<rparr>"

definition peer_pq_capable :: "bytes \<Rightarrow> store \<Rightarrow> bool" where
  "peer_pq_capable peer_pub s = (case um_find (t_pq_capable (db s)) peer_pub of None \<Rightarrow> False | Some p \<Rightarrow> pin_capable p)"

definition save_shamir_share :: "bytes \<Rightarrow> u64 \<Rightarrow> held_share \<Rightarrow> store \<Rightarrow> store" where
  "save_shamir_share peer_pub setup_id h s =
     (if \<not> not_null [peer_pub, hs_share h] then s
      else s\<lparr>db := (db s)\<lparr>t_shares := um_put (peer_pub, setup_id) (h\<lparr>hs_label := c_str (hs_label h)\<rparr>) (t_shares (db s))\<rparr>\<rparr>)"

definition load_shamir_share :: "bytes \<Rightarrow> u64 \<Rightarrow> store \<Rightarrow> held_share option" where
  "load_shamir_share peer_pub setup_id s = um_find (t_shares (db s)) (peer_pub, setup_id)"

definition list_shamir_shares :: "store \<Rightarrow> ((bytes \<times> u64) \<times> held_share) list" where
  "list_shamir_shares s = sort_key (\<lambda>(k, h). - sint (hs_received h)) (t_shares (db s))"

subsection \<open>MLS groups\<close>

definition mls_log_aad :: "bytes \<Rightarrow> u64 \<Rightarrow> bytes" where
  "mls_log_aad channel_id seq = channel_id @ u64_be seq"

definition mls_group_save :: "sodium \<Rightarrow> bytes \<Rightarrow> bytes \<Rightarrow> bytes \<Rightarrow> store \<Rightarrow> store" where
  "mls_group_save lib nonce channel_id seed s =
     (let stored = to_disk lib nonce s (k_mls_state (keys s)) seed channel_id
      in if \<not> not_null [stored] then s
         else s\<lparr>db := (db s)\<lparr>t_mls_state := um_put channel_id stored (t_mls_state (db s))\<rparr>\<rparr>)"

definition mls_group_op_append :: "sodium \<Rightarrow> bytes \<Rightarrow> bytes \<Rightarrow> u64 \<Rightarrow> bytes \<Rightarrow> store \<Rightarrow> unit outcome \<times> store" where
  "mls_group_op_append lib nonce channel_id seq op s =
     (let stored = to_disk lib nonce s (k_mls_log (keys s)) op (mls_log_aad channel_id seq)
      in if \<not> not_null [channel_id, stored] \<or> um_find (t_mls_log (db s)) (channel_id, seq) \<noteq> None then (Threw, s)
         else (Returned (), s\<lparr>db := (db s)\<lparr>t_mls_log := t_mls_log (db s) @ [((channel_id, seq), stored)]\<rparr>\<rparr>))"

record mls_snapshot =
  snap_seed :: bytes
  snap_ops :: "bytes list"
  next_seq :: int

text \<open>The loop over the log; \<open>None\<close> when a row does not verify.\<close>

fun load_ops :: "sodium \<Rightarrow> store \<Rightarrow> bytes \<Rightarrow> (u64 \<times> bytes) list \<Rightarrow> int \<Rightarrow> (bytes list \<times> int) option" where
  "load_ops lib s channel_id [] max_seq = Some ([], max_seq)"
| "load_ops lib s channel_id ((seq, stored) # rows) max_seq =
     (case from_disk lib s (k_mls_log (keys s)) stored (mls_log_aad channel_id seq) of
        None \<Rightarrow> None
      | Some pt \<Rightarrow> map_option (apfst ((#) pt)) (load_ops lib s channel_id rows (max max_seq (sint seq))))"

definition mls_group_load :: "sodium \<Rightarrow> bytes \<Rightarrow> store \<Rightarrow> mls_snapshot option outcome" where
  "mls_group_load lib channel_id s =
     (case um_find (t_mls_state (db s)) channel_id of
        None \<Rightarrow> Returned None
      | Some stored \<Rightarrow>
          (case from_disk lib s (k_mls_state (keys s)) stored channel_id of
             None \<Rightarrow> Threw
           | Some seed \<Rightarrow>
               (case load_ops lib s channel_id
                   (sort_key (\<lambda>(q, v). sint q) (map (\<lambda>((cid, q), v). (q, v)) (filter (\<lambda>((cid, q), v). cid = channel_id) (t_mls_log (db s))))) (- 1) of
                  None \<Rightarrow> Threw
                | Some (ops, max_seq) \<Rightarrow> Returned (Some \<lparr>snap_seed = seed, snap_ops = ops, next_seq = max_seq + 1\<rparr>))))"

definition mls_group_delete :: "bytes \<Rightarrow> store \<Rightarrow> store" where
  "mls_group_delete channel_id s =
     s\<lparr>db := (db s)\<lparr>t_mls_state := um_erase channel_id (t_mls_state (db s)),
        t_mls_log := filter (\<lambda>((cid, seq), v). cid \<noteq> channel_id) (t_mls_log (db s))\<rparr>\<rparr>"


subsection \<open>Rotation and ratchet\<close>

text \<open>Re-wrapping one table: every row whose value unwraps under the old key is wrapped under the new
  one with the same associated data, the others stay; the number of rows rewritten is added up.
  \<open>rnd i\<close> is the nonce drawn for row \<open>i\<close>, \<open>get\<close>, \<open>put\<close> and \<open>aad\<close> read and write the column and
  concatenate the columns that are bound. The \<open>rewrap\<close> of the master ratchet skips an empty value
  first, which does not unwrap either.\<close>

definition rewrap_row ::
  "sodium \<Rightarrow> bytes \<Rightarrow> ('r \<Rightarrow> bytes) \<Rightarrow> (bytes \<Rightarrow> 'r \<Rightarrow> 'r) \<Rightarrow> ('r \<Rightarrow> bytes) \<Rightarrow> bytes \<Rightarrow> bytes \<Rightarrow> 'r \<Rightarrow> 'r" where
  "rewrap_row lib nonce get put aad old_k new_k r =
     (case aead_unwrap lib old_k (get r) (aad r) of
        None \<Rightarrow> r
      | Some pt \<Rightarrow> put (aead_wrap lib nonce new_k pt (aad r)) r)"

definition rewrap_table ::
  "sodium \<Rightarrow> (nat \<Rightarrow> bytes) \<Rightarrow> ('r \<Rightarrow> bytes) \<Rightarrow> (bytes \<Rightarrow> 'r \<Rightarrow> 'r) \<Rightarrow> ('r \<Rightarrow> bytes) \<Rightarrow> bytes \<Rightarrow> bytes \<Rightarrow> 'r list \<Rightarrow> 'r list" where
  "rewrap_table lib rnd get put aad old_k new_k t =
     map (\<lambda>(i, r). rewrap_row lib (rnd i) get put aad old_k new_k r) (List.enumerate 0 t)"

definition rewrapped :: "sodium \<Rightarrow> ('r \<Rightarrow> bytes) \<Rightarrow> ('r \<Rightarrow> bytes) \<Rightarrow> bytes \<Rightarrow> 'r list \<Rightarrow> nat" where
  "rewrapped lib get aad old_k t = length (filter (\<lambda>r. aead_unwrap lib old_k (get r) (aad r) \<noteq> None) t)"

definition msg_get :: "bytes \<times> msg_row \<Rightarrow> bytes" where "msg_get = (\<lambda>(k, r). m_val r)"
definition msg_put :: "bytes \<Rightarrow> bytes \<times> msg_row \<Rightarrow> bytes \<times> msg_row" where "msg_put v = (\<lambda>(k, r). (k, r\<lparr>m_val := v\<rparr>))"
definition kv_put :: "bytes \<Rightarrow> 'k \<times> bytes \<Rightarrow> 'k \<times> bytes" where "kv_put v = (\<lambda>(k, w). (k, v))"
definition chan_get :: "bytes \<times> chan_row \<Rightarrow> bytes" where "chan_get = (\<lambda>(k, r). cr_dist r)"
definition chan_put :: "bytes \<Rightarrow> bytes \<times> chan_row \<Rightarrow> bytes \<times> chan_row" where "chan_put v = (\<lambda>(k, r). (k, r\<lparr>cr_dist := v\<rparr>))"
definition cm_put :: "bytes \<Rightarrow> chan_msg \<Rightarrow> chan_msg" where "cm_put v r = r\<lparr>cm_val := v\<rparr>"
definition name_get :: "bytes \<times> name_row \<Rightarrow> bytes" where "name_get = (\<lambda>(k, r). nr_name r)"
definition name_put :: "bytes \<Rightarrow> bytes \<times> name_row \<Rightarrow> bytes \<times> name_row" where "name_put v = (\<lambda>(k, r). (k, r\<lparr>nr_name := v\<rparr>))"
definition peers_aad :: "(bytes \<times> bytes) \<times> bytes \<Rightarrow> bytes" where "peers_aad = (\<lambda>((cid, peer), v). cid @ peer)"
definition log_aad :: "(bytes \<times> u64) \<times> bytes \<Rightarrow> bytes" where "log_aad = (\<lambda>((cid, seq), v). mls_log_aad cid seq)"

record rotation_random =
  rr_inbox :: bytes
  rr_outbox :: bytes
  rr_sessions :: bytes
  rr_nonce :: "nat \<Rightarrow> nat \<Rightarrow> bytes"

definition key_aad :: "string \<Rightarrow> u64 \<Rightarrow> bytes" where
  "key_aad name gen = str_bytes name @ u64_be gen"

definition persist_wrapped :: "sodium \<Rightarrow> bytes \<Rightarrow> bytes \<Rightarrow> u64 \<Rightarrow> string \<Rightarrow> bytes \<Rightarrow> (bytes, bytes \<times> u64) umap \<Rightarrow> (bytes, bytes \<times> u64) umap" where
  "persist_wrapped lib nonce sm new_gen name k t = um_put (str_bytes name) (aead_wrap lib nonce sm k (key_aad name new_gen), new_gen) t"

definition rotate_storage_keys :: "sodium \<Rightarrow> rotation_random \<Rightarrow> store \<Rightarrow> nat \<times> store" where
  "rotate_storage_keys lib rr s =
     (if \<not> encrypt_at_rest s then (0, s)
      else let new_gen = storage_keys_generation s + 1; ks = keys s; d = db s; sm = storage_master s; n = rr_nonce rr;
               count = rewrapped lib msg_get fst (k_inbox ks) (t_inbox d) + rewrapped lib msg_get fst (k_outbox ks) (t_outbox d) +
                 rewrapped lib snd fst (k_sessions ks) (t_sessions d);
               d = d\<lparr>t_inbox := rewrap_table lib (n 0) msg_get msg_put fst (k_inbox ks) (rr_inbox rr) (t_inbox d),
                     t_outbox := rewrap_table lib (n 1) msg_get msg_put fst (k_outbox ks) (rr_outbox rr) (t_outbox d),
                     t_sessions := rewrap_table lib (n 2) snd kv_put fst (k_sessions ks) (rr_sessions rr) (t_sessions d),
                     t_storage_keys := persist_wrapped lib (n 3 2) sm new_gen ''sessions'' (rr_sessions rr)
                       (persist_wrapped lib (n 3 1) sm new_gen ''outbox'' (rr_outbox rr)
                         (persist_wrapped lib (n 3 0) sm new_gen ''inbox'' (rr_inbox rr) (t_storage_keys d)))\<rparr>
           in (count, s\<lparr>db := d, keys := ks\<lparr>k_inbox := rr_inbox rr, k_outbox := rr_outbox rr, k_sessions := rr_sessions rr\<rparr>,
                 storage_keys_generation := new_gen\<rparr>))"

definition ratchet_storage_master :: "sodium \<Rightarrow> bytes \<Rightarrow> (nat \<Rightarrow> nat \<Rightarrow> bytes) \<Rightarrow> store \<Rightarrow> nat \<times> store" where
  "ratchet_storage_master lib new_master n s =
     (if \<not> encrypt_at_rest s then (0, s)
      else let new_gen = storage_master_generation s + 1; old = keys s; k = derive_table_keys lib new_master; d = db s;
               count = rewrapped lib msg_get fst (k_inbox old) (t_inbox d) + rewrapped lib msg_get fst (k_outbox old) (t_outbox d) +
                 rewrapped lib snd fst (k_sessions old) (t_sessions d) + rewrapped lib chan_get fst (k_chan_state old) (t_chan_state d) +
                 rewrapped lib snd peers_aad (k_chan_peers old) (t_chan_peers d) + rewrapped lib cm_val cm_id (k_chan_inbox old) (t_chan_inbox d) +
                 rewrapped lib name_get fst (k_peer_name old) (t_peer_names d) + rewrapped lib snd fst (k_mls_state old) (t_mls_state d) +
                 rewrapped lib snd log_aad (k_mls_log old) (t_mls_log d);
               d = d\<lparr>t_inbox := rewrap_table lib (n 0) msg_get msg_put fst (k_inbox old) (k_inbox k) (t_inbox d),
                     t_outbox := rewrap_table lib (n 1) msg_get msg_put fst (k_outbox old) (k_outbox k) (t_outbox d),
                     t_sessions := rewrap_table lib (n 2) snd kv_put fst (k_sessions old) (k_sessions k) (t_sessions d),
                     t_chan_state := rewrap_table lib (n 3) chan_get chan_put fst (k_chan_state old) (k_chan_state k) (t_chan_state d),
                     t_chan_peers := rewrap_table lib (n 4) snd kv_put peers_aad (k_chan_peers old) (k_chan_peers k) (t_chan_peers d),
                     t_chan_inbox := rewrap_table lib (n 5) cm_val cm_put cm_id (k_chan_inbox old) (k_chan_inbox k) (t_chan_inbox d),
                     t_peer_names := rewrap_table lib (n 6) name_get name_put fst (k_peer_name old) (k_peer_name k) (t_peer_names d),
                     t_mls_state := rewrap_table lib (n 7) snd kv_put fst (k_mls_state old) (k_mls_state k) (t_mls_state d),
                     t_mls_log := rewrap_table lib (n 8) snd kv_put log_aad (k_mls_log old) (k_mls_log k) (t_mls_log d),
                     t_storage_master := Some (aead_wrap lib (n 9 0) (master_key s) new_master (storage_master_aad new_gen), new_gen),
                     t_storage_keys := []\<rparr>
           in (count, s\<lparr>db := d, storage_master := new_master, keys := k, storage_master_generation := new_gen,
                 storage_keys_generation := 0\<rparr>))"

subsection \<open>Opening\<close>

text \<open>\<open>None\<close>: the row is there but does not unwrap, and \<open>open\<close> throws.\<close>

definition resolve_master :: "sodium \<Rightarrow> database \<Rightarrow> bytes \<Rightarrow> (bytes \<times> u64) option" where
  "resolve_master lib d kek =
     (case t_storage_master d of
        None \<Rightarrow> Some (kek, 0)
      | Some (blob, gen) \<Rightarrow>
          (case aead_unwrap lib kek blob (storage_master_aad gen) of
             None \<Rightarrow> None
           | Some m \<Rightarrow> if length m \<noteq> kKeyLen then None else Some (m, gen)))"

definition load_wrapped :: "sodium \<Rightarrow> database \<Rightarrow> bytes \<Rightarrow> string \<Rightarrow> bytes \<times> u64 \<Rightarrow> bytes \<times> u64" where
  "load_wrapped lib d sm name dflt =
     (let (k, g) = dflt in
      case um_find (t_storage_keys d) (str_bytes name) of
        None \<Rightarrow> (k, g)
      | Some (blob, gen) \<Rightarrow>
          (case aead_unwrap lib sm blob (key_aad name gen) of
             Some k' \<Rightarrow> if length k' = kKeyLen then (k', if g < gen then gen else g) else (k, g)
           | None \<Rightarrow> (k, g)))"

definition resolve_keys :: "sodium \<Rightarrow> database \<Rightarrow> bytes \<Rightarrow> table_keys \<times> u64" where
  "resolve_keys lib d sm =
     (let ks = derive_table_keys lib sm;
          (ki, g) = load_wrapped lib d sm ''inbox'' (k_inbox ks, 0);
          (ko, g) = load_wrapped lib d sm ''outbox'' (k_outbox ks, g);
          (kx, g) = load_wrapped lib d sm ''sessions'' (k_sessions ks, g)
      in (ks\<lparr>k_inbox := ki, k_outbox := ko, k_sessions := kx\<rparr>, g))"

text \<open>\<open>wrap_table\<close> of the migration wraps every row of its table.\<close>

definition wrap_table ::
  "sodium \<Rightarrow> (nat \<Rightarrow> bytes) \<Rightarrow> ('r \<Rightarrow> bytes) \<Rightarrow> (bytes \<Rightarrow> 'r \<Rightarrow> 'r) \<Rightarrow> ('r \<Rightarrow> bytes) \<Rightarrow> bytes \<Rightarrow> 'r list \<Rightarrow> 'r list" where
  "wrap_table lib rnd get put aad key t =
     map (\<lambda>(i, r). put (aead_wrap lib (rnd i) key (get r) (aad r)) r) (List.enumerate 0 t)"

text \<open>The migration binds the channel name of \<open>UPDATE chan_state SET own_dist = ? WHERE name = ?\<close> as a
  BLOB. The column is TEXT and a BLOB never equals a TEXT value, so this statement changes no row.
  The MLS tables are not migrated.\<close>

definition migrate :: "sodium \<Rightarrow> (nat \<Rightarrow> nat \<Rightarrow> bytes) \<Rightarrow> table_keys \<Rightarrow> database \<Rightarrow> database" where
  "migrate lib n ks d =
     (let d = (if user_version d < 2
               then d\<lparr>t_inbox := wrap_table lib (n 0) msg_get msg_put fst (k_inbox ks) (t_inbox d),
                      t_outbox := wrap_table lib (n 1) msg_get msg_put fst (k_outbox ks) (t_outbox d)\<rparr>
               else d)
      in d\<lparr>t_sessions := wrap_table lib (n 2) snd kv_put fst (k_sessions ks) (t_sessions d),
           t_chan_peers := wrap_table lib (n 4) snd kv_put peers_aad (k_chan_peers ks) (t_chan_peers d),
           t_chan_inbox := wrap_table lib (n 5) cm_val cm_put cm_id (k_chan_inbox ks) (t_chan_inbox d),
           t_peer_names := wrap_table lib (n 6) name_get name_put fst (k_peer_name ks) (t_peer_names d),
           user_version := 3\<rparr>)"

definition zero_keys :: table_keys where
  "zero_keys = (let z = replicate kKeyLen 0 in
     \<lparr>k_inbox = z, k_outbox = z, k_sessions = z, k_chan_state = z, k_chan_peers = z, k_chan_inbox = z, k_peer_name = z,
      k_mls_state = z, k_mls_log = z\<rparr>)"

definition open_store :: "sodium \<Rightarrow> (nat \<Rightarrow> nat \<Rightarrow> bytes) \<Rightarrow> database \<Rightarrow> bytes \<Rightarrow> store outcome" where
  "open_store lib n d mk =
     (if mk \<noteq> [] \<and> length mk \<noteq> kKeyLen then Threw
      else if user_version d = 3 \<and> mk = [] then Threw
      else if mk = []
      then Returned \<lparr>db = d, encrypt_at_rest = False, master_key = replicate kKeyLen 0, storage_master = replicate kKeyLen 0,
             storage_master_generation = 0, storage_keys_generation = 0, keys = zero_keys\<rparr>
      else case resolve_master lib d mk of
             None \<Rightarrow> Threw
           | Some (sm, gen) \<Rightarrow>
               (let (ks, kgen) = resolve_keys lib d sm;
                    d = (if user_version d < 3 then migrate lib n ks d else d)
                in Returned \<lparr>db = d, encrypt_at_rest = True, master_key = mk, storage_master = sm,
                     storage_master_generation = gen, storage_keys_generation = kgen, keys = ks\<rparr>))"

end
