(* ===== verification/Session.thy ===== *)
theory Session
  imports Handshake Ratchet Store Ordered_Map
begin

text \<open>
  How the desktop client, \<open>client-desktop/src/chat_client.cpp\<close>, turns prekey bundles and first messages
  into ratchet sessions and sends and receives direct messages over them. \<open>dm_client\<close> holds what these
  paths use of \<open>ChatClient::Impl\<close>; the frames they send are appended to \<open>outgoing\<close>. The overlay
  network (\<open>peer_net\<close>, \<open>dht\<close>, \<open>username_log\<close>) is not configured, as in a client that only knows its
  server. Signals to the user interface are left out. An exception ends the worker thread, so a
  handler that throws returns \<open>Threw\<close>.
\<close>

subsection \<open>State\<close>

record dm_session =
  sess_peer_pub :: bytes
  sess_peer_x :: bytes
  rat :: "ratchet_state option"
  initialized_as_alice :: bool
  sess_pq_ct :: bytes
  pq_acked :: bool
  seal_outbound :: bool
  peer_pq_pub :: bytes

definition empty_session :: dm_session where
  "empty_session = \<lparr>sess_peer_pub = zero32, sess_peer_x = zero32, rat = None, initialized_as_alice = False, sess_pq_ct = [],
     pq_acked = False, seal_outbound = False, peer_pq_pub = []\<rparr>"

record pending_send =
  ps_peer :: bytes
  ps_text :: bytes
  pre_packed :: bytes
  persist_blob :: bytes

datatype chan_op_kind = KCreate | KCreateLocal | KJoin | KSend | KInvite | KLeave | KRoomJoin | KRoomLeave

record pending_chan_op =
  co_kind :: chan_op_kind
  co_channel :: bytes
  co_dist_path :: bytes
  co_text :: bytes
  co_peer :: bytes
  co_want_video :: bool
  co_use_mls :: bool

record mesh_dial =
  dial_room :: bytes
  dial_video :: bool
  dial_label :: bytes

datatype client_frame =
    FKeyFetch bytes | FUsernameLookup bytes | FEnvelope envelope
  | FChanSubscribe bytes | FChanUnsubscribe bytes | FRoomJoin bytes bool u32 | FRoomLeave bytes

record dm_client =
  cl_id :: identity_keys
  cl_x :: x25519_pair
  cl_pq :: pq_identity
  sessions :: "(bytes, dm_session) omap"
  cl_store :: "store option"
  send_queue :: "pending_send list"
  chan_queue :: "pending_chan_op list"
  pending_fetch_targets :: "bytes list"
  mesh_bootstrap_pending :: "(bytes, bytes) omap"
  pending_mesh_dials :: "(bytes, mesh_dial) omap"
  verified_peers :: "(bytes, bool) omap"
  outgoing :: "client_frame list"

definition session_at :: "bytes \<Rightarrow> dm_client \<Rightarrow> dm_session" where
  "session_at n c = (case om_find (sessions c) n of None \<Rightarrow> empty_session | Some s \<Rightarrow> s)"

definition put_session :: "bytes \<Rightarrow> dm_session \<Rightarrow> dm_client \<Rightarrow> dm_client" where
  "put_session n s c = c\<lparr>sessions := om_assign n s (sessions c)\<rparr>"

definition emit_frame :: "client_frame \<Rightarrow> dm_client \<Rightarrow> dm_client" where
  "emit_frame f c = c\<lparr>outgoing := outgoing c @ [f]\<rparr>"

subsection \<open>Publishing\<close>

definition empty_bundle :: prekey_bundle where
  "empty_bundle = \<lparr>identity_pubkey = [], signed_prekey = [], signed_prekey_sig = [], one_time_prekey = [], one_time_prekey_id = 0,
     published_at_ms = 0, pq_pubkey = [], pq_pubkey_sig = [], pq_sig_pubkey = [], pq_sig_pubkey_sig = [],
     signed_prekey_sig_pq = [], pq_pubkey_sig_pq = []\<rparr>"

definition publish_bundle :: "hs_lib \<Rightarrow> bool \<Rightarrow> u64 \<Rightarrow> identity_keys \<Rightarrow> x25519_pair \<Rightarrow> pq_identity \<Rightarrow> pq_identity \<Rightarrow> prekey_bundle" where
  "publish_bundle hl pq_ok now identity x25519 pq_id pq_sig_id =
     (let b = empty_bundle\<lparr>identity_pubkey := id_pub identity, signed_prekey := xp_pub x25519\<rparr>;
          b = (if pq_ok
               then add_pq_sig_fields_to_bundle hl pq_sig_id (b\<lparr>pq_pubkey := pq_pub pq_id, pq_pubkey_sig := pq_sig pq_id\<rparr>)
               else b)
      in b\<lparr>published_at_ms := now\<rparr>)"

subsection \<open>Trust on first use\<close>

definition pq_tofu_admit :: "u64 \<Rightarrow> bytes \<Rightarrow> bool \<Rightarrow> store option \<Rightarrow> bool \<times> store option" where
  "pq_tofu_admit now peer_pub now_advertises_pq store =
     (case store of
        None \<Rightarrow> (True, store)
      | Some s \<Rightarrow>
          (let prev = peer_pq_capable peer_pub s in
           if is_pq_capability_downgrade prev now_advertises_pq then (False, store)
           else if now_advertises_pq \<and> \<not> prev then (True, Some (set_peer_pq_capable peer_pub True now s))
           else (True, store)))"

text \<open>The loop stops at the first other key of the user name and clears only that key's flag.\<close>

definition detect_pubkey_change :: "sodium \<Rightarrow> bytes \<Rightarrow> bytes \<Rightarrow> store option \<Rightarrow> store option" where
  "detect_pubkey_change lib username new_pub store =
     (case store of
        None \<Rightarrow> None
      | Some s \<Rightarrow>
          if username = [] then Some s
          else case find (\<lambda>old. length old = 32 \<and> old \<noteq> new_pub) (peer_pubkeys_for_username lib username s) of
                 None \<Rightarrow> Some s
               | Some old \<Rightarrow> Some (set_peer_verified old False 0 s))"

definition isPeerVerified :: "bytes \<Rightarrow> dm_client \<Rightarrow> bool \<times> dm_client" where
  "isPeerVerified peerPub c =
     (if length peerPub \<noteq> 32 then (False, c)
      else case om_find (verified_peers c) peerPub of
             Some v \<Rightarrow> (v, c)
           | None \<Rightarrow>
               (case cl_store c of
                  None \<Rightarrow> (False, c)
                | Some s \<Rightarrow> (let persisted = peer_verified peerPub s
                            in (persisted, c\<lparr>verified_peers := om_assign peerPub persisted (verified_peers c)\<rparr>))))"

definition setPeerVerified :: "u64 \<Rightarrow> bytes \<Rightarrow> bool \<Rightarrow> dm_client \<Rightarrow> dm_client" where
  "setPeerVerified now peerPub verified c =
     (if length peerPub \<noteq> 32 then c
      else c\<lparr>verified_peers := om_assign peerPub verified (verified_peers c),
             cl_store := map_option (set_peer_verified peerPub verified now) (cl_store c)\<rparr>)"

subsection \<open>Opening a session from a bundle\<close>

text \<open>The response to a key fetch. \<open>re\<close> and \<open>rr\<close> are the random bytes of the encapsulation and of the
  ratchet key pair. The result of \<open>mesh_retry\<close> is the call that is queued again.\<close>

definition open_session :: "sodium \<Rightarrow> hs_lib \<Rightarrow> bytes \<Rightarrow> bytes \<Rightarrow> bytes \<Rightarrow> prekey_bundle \<Rightarrow> dm_client \<Rightarrow> unit outcome \<times> dm_client" where
  "open_session lib hl re rr fetched_for b c =
     (let s = (session_at fetched_for c)\<lparr>sess_peer_pub := identity_pubkey b, sess_peer_x := signed_prekey b\<rparr> in
      case derive_hybrid_send_from_bundle lib hl re (cl_x c) (sess_peer_x s) b of
        Inl e \<Rightarrow> (Threw, put_session fetched_for s c)
      | Inr hybrid \<Rightarrow>
          (let s = s\<lparr>sess_pq_ct := hs_pq_ct hybrid\<rparr>;
               s = (if pq_pubkey b \<noteq> [] then s\<lparr>peer_pq_pub := pq_pubkey b\<rparr> else s)
           in case init_alice lib rr (hs_shared hybrid) (sess_peer_x s) of
                Threw \<Rightarrow> (Threw, put_session fetched_for s c)
              | Returned r \<Rightarrow>
                  (Returned (), put_session fetched_for
                     (s\<lparr>rat := Some r, initialized_as_alice := True, pq_acked := False, seal_outbound := False\<rparr>) c)))"

definition live_session :: "bytes \<Rightarrow> dm_client \<Rightarrow> bytes option" where
  "live_session pub c = map_option fst (find (\<lambda>(n, s). rat s \<noteq> None \<and> sess_peer_pub s = pub) (sessions c))"

definition drop_target :: "bytes \<Rightarrow> dm_client \<Rightarrow> dm_client" where
  "drop_target t c =
     (let c = c\<lparr>send_queue := filter (\<lambda>s. ps_peer s \<noteq> t) (send_queue c),
                chan_queue := filter (\<lambda>o'. \<not> (co_kind o' = KInvite \<and> co_peer o' = t)) (chan_queue c)\<rparr>
      in case om_find (mesh_bootstrap_pending c) t of
           None \<Rightarrow> c
         | Some p \<Rightarrow> c\<lparr>pending_mesh_dials := om_erase p (pending_mesh_dials c), mesh_bootstrap_pending := om_erase t (mesh_bootstrap_pending c)\<rparr>)"

definition mesh_retry :: "bytes \<Rightarrow> dm_client \<Rightarrow> (bytes \<times> mesh_dial) option \<times> dm_client" where
  "mesh_retry t c =
     (case om_find (mesh_bootstrap_pending c) t of
        None \<Rightarrow> (None, c)
      | Some p \<Rightarrow>
          (let c = c\<lparr>mesh_bootstrap_pending := om_erase t (mesh_bootstrap_pending c)\<rparr>
           in case om_find (pending_mesh_dials c) p of
                None \<Rightarrow> (None, c)
              | Some d \<Rightarrow> (Some (p, d), c\<lparr>pending_mesh_dials := om_erase p (pending_mesh_dials c)\<rparr>)))"

definition handle_key_fetch_resp ::
  "sodium \<Rightarrow> hs_lib \<Rightarrow> bytes \<Rightarrow> bytes \<Rightarrow> u64 \<Rightarrow> bool \<Rightarrow> prekey_bundle \<Rightarrow> dm_client \<Rightarrow> (bytes \<times> mesh_dial) option outcome \<times> dm_client" where
  "handle_key_fetch_resp lib hl re rr now found b c =
     (case pending_fetch_targets c of
        [] \<Rightarrow> (Returned None, c)
      | t # ts \<Rightarrow>
          (let c = c\<lparr>pending_fetch_targets := ts\<rparr> in
           if t = [] then (Returned None, c)
           else if \<not> found \<or> length (identity_pubkey b) \<noteq> 32 \<or> length (signed_prekey b) \<noteq> 32 then (Returned None, drop_target t c)
           else let (admit, st) = pq_tofu_admit now (identity_pubkey b) (pq_pubkey b \<noteq> []) (cl_store c);
                    c = c\<lparr>cl_store := st\<rparr>
                in if \<not> admit then (Returned None, c)
                   else if live_session (identity_pubkey b) c \<noteq> None then (case mesh_retry t c of (d, c) \<Rightarrow> (Returned d, c))
                   else case open_session lib hl re rr t b c of
                          (Threw, c) \<Rightarrow> (Threw, c)
                        | (Returned _, c) \<Rightarrow> (case mesh_retry t c of (d, c) \<Rightarrow> (Returned d, c))))"


subsection \<open>Payloads and envelopes\<close>

definition envelope_aad_bytes :: "bytes \<Rightarrow> u64 \<Rightarrow> bytes" where
  "envelope_aad_bytes envid ts = envid @ u64_be ts"

definition dm_of :: "dm_body \<Rightarrow> dm_payload" where
  "dm_of b = \<lparr>dm_body = b, sealed_sender_pubkey = [], sealed_sender_sig = [], ttl_ms = 0\<rparr>"

definition pack_text_payload :: "dm_payload pb \<Rightarrow> bytes \<Rightarrow> bytes" where
  "pack_text_payload dpb text = pb_ser dpb (dm_of (DmText text))"

definition pack_attachment_payload :: "dm_payload pb \<Rightarrow> bytes \<Rightarrow> bytes \<Rightarrow> bytes \<Rightarrow> bytes" where
  "pack_attachment_payload dpb mime filename content = pb_ser dpb (dm_of (DmAttachment mime filename content))"

definition pack_shamir_push_payload :: "dm_payload pb \<Rightarrow> bytes \<Rightarrow> u64 \<Rightarrow> u32 \<Rightarrow> u32 \<Rightarrow> bytes \<Rightarrow> bytes" where
  "pack_shamir_push_payload dpb share setup_id threshold n label = pb_ser dpb (dm_of (DmShamirPush share setup_id threshold n label))"

definition pack_shamir_request_payload :: "dm_payload pb \<Rightarrow> u64 \<Rightarrow> bytes \<Rightarrow> bytes" where
  "pack_shamir_request_payload dpb setup_id reason = pb_ser dpb (dm_of (DmShamirRequest setup_id reason))"

definition seal_dm_payload :: "hs_lib \<Rightarrow> dm_payload pb \<Rightarrow> identity_keys \<Rightarrow> bytes \<Rightarrow> u64 \<Rightarrow> bytes \<Rightarrow> bytes \<Rightarrow> bytes" where
  "seal_dm_payload hl dpb i envid ts recipient_pubkey dm_bytes =
     (case pb_parse dpb dm_bytes of
        None \<Rightarrow> dm_bytes
      | Some p \<Rightarrow>
          (let (pk, sig) = make_sealed_sender_fields hl i envid ts recipient_pubkey
           in pb_ser dpb (p\<lparr>sealed_sender_pubkey := pk, sealed_sender_sig := sig\<rparr>)))"

definition build_envelope ::
  "sodium \<Rightarrow> hs_lib \<Rightarrow> ratchet_message pb \<Rightarrow> dm_payload pb \<Rightarrow> identity_keys \<Rightarrow> bytes \<Rightarrow> u64 \<Rightarrow> dm_session \<Rightarrow> ratchet_state \<Rightarrow> bytes \<Rightarrow>
     envelope outcome \<times> dm_session" where
  "build_envelope lib hl pb dpb i envid now s r pt =
     (let aad = envelope_aad_bytes envid now;
          sealed' = seal_outbound s;
          pt = (if sealed' then seal_dm_payload hl dpb i envid now (sess_peer_pub s) pt else pt)
      in case ratchet_encrypt lib pb r pt aad of
           (Threw, r) \<Rightarrow> (Threw, s\<lparr>rat := Some r\<rparr>)
         | (Returned inner, r) \<Rightarrow>
             (Returned \<lparr>envelope_id = envid, timestamp_ms = now, sender_pubkey = (if sealed' then [] else id_pub i), ciphertext = inner,
                env_aad = aad, aead_alg = 1, protocol_version = 1, env_signature = [], pq_ct = sess_pq_ct s,
                rcpt = UserPubkey (sess_peer_pub s)\<rparr>, s\<lparr>rat := Some r\<rparr>))"

subsection \<open>Sending\<close>

text \<open>What one pass of the loop draws: the envelope id, the clock, and what the store needs.\<close>

record send_draws =
  d_envid :: bytes
  d_now :: u64
  d_nonce :: bytes
  d_nonce' :: bytes
  d_learned :: int

definition rebind_fingerprint :: "(bytes \<Rightarrow> bytes) \<Rightarrow> pending_send \<Rightarrow> dm_client \<Rightarrow> pending_send" where
  "rebind_fingerprint fp ps c =
     (if length (ps_peer ps) = 11 \<and> ps_peer ps ! 5 = 45 \<and> om_find (sessions c) (ps_peer ps) = None
      then (case find (\<lambda>(n, s). rat s \<noteq> None \<and> fp (sess_peer_pub s) = ps_peer ps) (sessions c) of
              None \<Rightarrow> ps
            | Some (n, s) \<Rightarrow> ps\<lparr>ps_peer := n\<rparr>)
      else ps)"

definition persist_sent :: "sodium \<Rightarrow> send_draws \<Rightarrow> pending_send \<Rightarrow> bytes \<Rightarrow> store option \<Rightarrow> store option" where
  "persist_sent lib d ps peer_pub store =
     (case store of
        None \<Rightarrow> None
      | Some s \<Rightarrow>
          if ps_text ps = [] \<and> persist_blob ps = [] then Some s
          else let body = (if persist_blob ps = [] then ps_text ps else persist_blob ps);
                   s = append_outbox lib (d_nonce d) (d_envid d) peer_pub body (d_now d) s
               in map_option (cache_peer_name lib (d_nonce' d) (d_learned d) peer_pub (ps_peer ps))
                    (detect_pubkey_change lib (ps_peer ps) peer_pub (Some s)))"

text \<open>One element of the queue. The result says whether the loop goes on: without a session it fetches
  the peer's keys, puts the element back and breaks.\<close>

definition send_one ::
  "sodium \<Rightarrow> hs_lib \<Rightarrow> ratchet_message pb \<Rightarrow> dm_payload pb \<Rightarrow> (bytes \<Rightarrow> bytes) \<Rightarrow> send_draws \<Rightarrow> pending_send \<Rightarrow> dm_client \<Rightarrow> bool outcome \<times> dm_client" where
  "send_one lib hl pb dpb fp d ps c =
     (let ps = rebind_fingerprint fp ps c; s = session_at (ps_peer ps) c; c = put_session (ps_peer ps) s c in
      case rat s of
        None \<Rightarrow>
          (Returned False, (emit_frame (FKeyFetch (ps_peer ps)) c)\<lparr>pending_fetch_targets := pending_fetch_targets c @ [ps_peer ps],
             send_queue := ps # send_queue c\<rparr>)
      | Some r \<Rightarrow>
          (let pt = (if pre_packed ps \<noteq> [] then pre_packed ps else pack_text_payload dpb (ps_text ps)) in
           case build_envelope lib hl pb dpb (cl_id c) (d_envid d) (d_now d) s r pt of
             (Threw, s) \<Rightarrow> (Threw, put_session (ps_peer ps) s c)
           | (Returned e, s) \<Rightarrow>
               (let c = emit_frame (FEnvelope e) (put_session (ps_peer ps) s c)
                in (Returned True, c\<lparr>cl_store := persist_sent lib d ps (sess_peer_pub s) (cl_store c)\<rparr>))))"

fun drain_sends ::
  "sodium \<Rightarrow> hs_lib \<Rightarrow> ratchet_message pb \<Rightarrow> dm_payload pb \<Rightarrow> (bytes \<Rightarrow> bytes) \<Rightarrow> (nat \<Rightarrow> send_draws) \<Rightarrow> pending_send list \<Rightarrow> dm_client \<Rightarrow>
     unit outcome \<times> dm_client" where
  "drain_sends lib hl pb dpb fp d [] c = (Returned (), c)"
| "drain_sends lib hl pb dpb fp d (ps # to_send) c =
     (case send_one lib hl pb dpb fp (d 0) ps c of
        (Threw, c) \<Rightarrow> (Threw, c)
      | (Returned False, c) \<Rightarrow> (Returned (), c)
      | (Returned True, c) \<Rightarrow> drain_sends lib hl pb dpb fp (\<lambda>i. d (Suc i)) to_send c)"

definition worker_sends ::
  "sodium \<Rightarrow> hs_lib \<Rightarrow> ratchet_message pb \<Rightarrow> dm_payload pb \<Rightarrow> (bytes \<Rightarrow> bytes) \<Rightarrow> (nat \<Rightarrow> send_draws) \<Rightarrow> dm_client \<Rightarrow> unit outcome \<times> dm_client" where
  "worker_sends lib hl pb dpb fp d c = drain_sends lib hl pb dpb fp d (send_queue c) (c\<lparr>send_queue := []\<rparr>)"

definition send_to_peer :: "bytes \<Rightarrow> bytes \<Rightarrow> dm_client \<Rightarrow> dm_client" where
  "send_to_peer peer text c =
     c\<lparr>send_queue := send_queue c @ [\<lparr>ps_peer = peer, ps_text = text, pre_packed = [], persist_blob = []\<rparr>]\<rparr>"

subsection \<open>Receiving\<close>

text \<open>\<open>rnd n\<close> is the random key a DH ratchet step of session \<open>n\<close> would draw.\<close>

definition try_session ::
  "sodium \<Rightarrow> hs_lib \<Rightarrow> ratchet_message pb \<Rightarrow> dm_payload pb \<Rightarrow> bytes \<Rightarrow> bytes \<Rightarrow> envelope \<Rightarrow> dm_session \<Rightarrow> ratchet_state \<Rightarrow>
     bytes option outcome \<times> dm_session" where
  "try_session lib hl pb dpb my_pub rnd env s r =
     (case ratchet_try_decrypt lib pb rnd r (ciphertext env) (env_aad env) of
        (Threw, r) \<Rightarrow> (Threw, s\<lparr>rat := Some r\<rparr>)
      | (Returned None, r) \<Rightarrow> (Returned None, s\<lparr>rat := Some r\<rparr>)
      | (Returned (Some pt), r) \<Rightarrow>
          (let s = s\<lparr>rat := Some r\<rparr> in
           case pb_parse dpb pt of
             None \<Rightarrow> (Returned None, s)
           | Some dmp \<Rightarrow>
               if length (sealed_sender_pubkey dmp) \<noteq> 32 \<or> length (sealed_sender_sig dmp) \<noteq> 64 then (Returned None, s)
               else if sealed_sender_pubkey dmp \<noteq> sess_peer_pub s then (Returned None, s)
               else if \<not> verify_sealed_sender hl (sealed_sender_pubkey dmp) (sealed_sender_sig dmp) (envelope_id env) (timestamp_ms env) my_pub
               then (Returned None, s)
               else (Returned (Some pt), s\<lparr>seal_outbound := True\<rparr>)))"

fun try_pass ::
  "sodium \<Rightarrow> hs_lib \<Rightarrow> ratchet_message pb \<Rightarrow> dm_payload pb \<Rightarrow> bytes \<Rightarrow> (bytes \<Rightarrow> bytes) \<Rightarrow> envelope \<Rightarrow> bool \<Rightarrow> (bytes, dm_session) omap \<Rightarrow>
     (bytes \<times> bytes) option outcome \<times> (bytes, dm_session) omap" where
  "try_pass lib hl pb dpb my_pub rnd env matched [] = (Returned None, [])"
| "try_pass lib hl pb dpb my_pub rnd env matched ((n, s) # m) =
     (let skip = (case try_pass lib hl pb dpb my_pub rnd env matched m of (res, m') \<Rightarrow> (res, (n, s) # m')) in
      case rat s of
        None \<Rightarrow> skip
      | Some r \<Rightarrow>
          if header_matches_recv_chain pb r (ciphertext env) \<noteq> matched then skip
          else case try_session lib hl pb dpb my_pub (rnd n) env s r of
                 (Threw, s) \<Rightarrow> (Threw, (n, s) # m)
               | (Returned (Some pt), s) \<Rightarrow> (Returned (Some (sess_peer_pub s, pt)), (n, s) # m)
               | (Returned None, s) \<Rightarrow>
                   (case try_pass lib hl pb dpb my_pub rnd env matched m of (res, m') \<Rightarrow> (res, (n, s) # m')))"

text \<open>Who sent an envelope: the sealed-sender pre-pass, first over the sessions whose header matches, then
  over the others; or the sender that the envelope names. \<open>None\<close>: the envelope is dropped.\<close>

definition resolve_sender ::
  "sodium \<Rightarrow> hs_lib \<Rightarrow> ratchet_message pb \<Rightarrow> dm_payload pb \<Rightarrow> (bytes \<Rightarrow> bytes) \<Rightarrow> envelope \<Rightarrow> dm_client \<Rightarrow>
     (bytes \<times> bytes option) option outcome \<times> dm_client" where
  "resolve_sender lib hl pb dpb rnd env c =
     (if sender_pubkey env = []
      then (case rcpt env of
              UserPubkey u \<Rightarrow>
                (case try_pass lib hl pb dpb (id_pub (cl_id c)) rnd env True (sessions c) of
                   (Threw, m) \<Rightarrow> (Threw, c\<lparr>sessions := m\<rparr>)
                 | (Returned (Some (p, pt)), m) \<Rightarrow> (Returned (Some (p, Some pt)), c\<lparr>sessions := m\<rparr>)
                 | (Returned None, m) \<Rightarrow>
                     (case try_pass lib hl pb dpb (id_pub (cl_id c)) rnd env False m of
                        (Threw, m) \<Rightarrow> (Threw, c\<lparr>sessions := m\<rparr>)
                      | (Returned (Some (p, pt)), m) \<Rightarrow> (Returned (Some (p, Some pt)), c\<lparr>sessions := m\<rparr>)
                      | (Returned None, m) \<Rightarrow> (Returned None, c\<lparr>sessions := m\<rparr>)))
            | _ \<Rightarrow> (Returned None, c))
      else if length (sender_pubkey env) \<noteq> 32 then (Returned None, c)
      else (Returned (Some (sender_pubkey env, None)), c))"

text \<open>The session a direct message belongs to, created from the envelope when there is none.\<close>

definition accept_session ::
  "sodium \<Rightarrow> hs_lib \<Rightarrow> envelope \<Rightarrow> bytes \<Rightarrow> dm_client \<Rightarrow> bytes option outcome \<times> dm_client" where
  "accept_session lib hl env sender c =
     (let sname = (case live_session sender c of Some n \<Rightarrow> n | None \<Rightarrow> str_bytes ''peer:'' @ take 8 sender);
          s = session_at sname c;
          c = put_session sname s c
      in if rat s \<noteq> None then (Returned (Some sname), c)
         else case pk_to_curve hl sender of
                None \<Rightarrow> (Returned None, c)
              | Some peer_x \<Rightarrow>
                  (case derive_hybrid_recv_from_env lib hl (cl_x c) peer_x (pq_sec (cl_pq c)) env of
                     Inl e \<Rightarrow> (Threw, c)
                   | Inr shared \<Rightarrow>
                       (Returned (Some sname), put_session sname
                          (s\<lparr>rat := Some (init_bob shared (xp_priv (cl_x c)) (xp_pub (cl_x c))), sess_peer_pub := sender, sess_peer_x := peer_x\<rparr>) c)))"

definition open_dm ::
  "sodium \<Rightarrow> ratchet_message pb \<Rightarrow> bytes \<Rightarrow> envelope \<Rightarrow> bytes option \<Rightarrow> bytes \<Rightarrow> dm_client \<Rightarrow> bytes option outcome \<times> dm_client" where
  "open_dm lib pb rnd env sealed_pt sname c =
     (let s = session_at sname c in
      if env_aad env \<noteq> [] \<and> env_aad env \<noteq> envelope_aad_bytes (envelope_id env) (timestamp_ms env) then (Returned None, c)
      else case (case sealed_pt of
                   Some pt \<Rightarrow> (Returned (Some pt), rat s)
                 | None \<Rightarrow> apsnd Some (ratchet_decrypt lib pb rnd (the (rat s)) (ciphertext env) (env_aad env))) of
             (Threw, r) \<Rightarrow> (Threw, put_session sname (s\<lparr>rat := r\<rparr>) c)
           | (Returned None, r) \<Rightarrow> (Returned None, put_session sname (s\<lparr>rat := r\<rparr>) c)
           | (Returned (Some pt), r) \<Rightarrow>
               (let s = s\<lparr>rat := r\<rparr>;
                    s = (if \<not> pq_acked s then s\<lparr>pq_acked := True, sess_pq_ct := []\<rparr> else s)
                in (Returned (Some pt), put_session sname (s\<lparr>seal_outbound := True\<rparr>) c)))"

text \<open>A direct message, an envelope that is not addressed to a channel, up to its decoded payload, with
  the name query for an unknown sender.\<close>

definition receive_dm ::
  "sodium \<Rightarrow> hs_lib \<Rightarrow> ratchet_message pb \<Rightarrow> dm_payload pb \<Rightarrow> (bytes \<Rightarrow> bytes) \<Rightarrow> envelope \<Rightarrow> dm_client \<Rightarrow>
     (bytes \<times> dm_payload) option outcome \<times> dm_client" where
  "receive_dm lib hl pb dpb rnd env c =
     (case resolve_sender lib hl pb dpb rnd env c of
        (Threw, c) \<Rightarrow> (Threw, c)
      | (Returned None, c) \<Rightarrow> (Returned None, c)
      | (Returned (Some (sender, sealed_pt)), c) \<Rightarrow>
          (case accept_session lib hl env sender c of
             (Threw, c) \<Rightarrow> (Threw, c)
           | (Returned None, c) \<Rightarrow> (Returned None, c)
           | (Returned (Some sname), c) \<Rightarrow>
               (case open_dm lib pb (rnd sname) env sealed_pt sname c of
                  (Threw, c) \<Rightarrow> (Threw, c)
                | (Returned None, c) \<Rightarrow> (Returned None, c)
                | (Returned (Some pt), c) \<Rightarrow>
                    (case pb_parse dpb pt of
                       None \<Rightarrow> (Returned None, c)
                     | Some payload \<Rightarrow>
                         (Returned (Some (sender, payload)),
                          case cl_store c of
                            None \<Rightarrow> c
                          | Some s \<Rightarrow> if peer_name lib sender s = None then emit_frame (FUsernameLookup sender) c else c)))))"


text \<open>What the client keeps of a payload. The bodies for channels, rooms, calls and MLS groups go to other
  components.\<close>

definition kMaxInlineAttachmentBytes :: nat where
  "kMaxInlineAttachmentBytes = 256 * 1024"

definition store_payload :: "sodium \<Rightarrow> bytes \<Rightarrow> u64 \<Rightarrow> envelope \<Rightarrow> bytes \<Rightarrow> dm_payload \<Rightarrow> store \<Rightarrow> store" where
  "store_payload lib nonce rx_ms env sender payload s =
     (case dm_body payload of
        DmText text \<Rightarrow>
          if 0 < ttl_ms payload
          then append_inbox_with_expiry lib nonce (envelope_id env) sender text rx_ms (rx_ms + ttl_ms payload) s
          else append_inbox lib nonce (envelope_id env) sender text rx_ms s
      | DmAttachment mime filename content \<Rightarrow>
          if length content \<le> kMaxInlineAttachmentBytes
          then append_inbox lib nonce (envelope_id env) sender (frame_attachment mime filename content) rx_ms s
          else s
      | DmShamirPush share setup_id threshold n label \<Rightarrow>
          save_shamir_share sender setup_id
            \<lparr>hs_share = share, hs_threshold = threshold, hs_total = n, hs_label = label, hs_received = rx_ms\<rparr> s
      | _ \<Rightarrow> s)"

definition deliver_dm ::
  "sodium \<Rightarrow> hs_lib \<Rightarrow> ratchet_message pb \<Rightarrow> dm_payload pb \<Rightarrow> (bytes \<Rightarrow> bytes) \<Rightarrow> bytes \<Rightarrow> u64 \<Rightarrow> envelope \<Rightarrow> dm_client \<Rightarrow>
     (bytes \<times> dm_payload) option outcome \<times> dm_client" where
  "deliver_dm lib hl pb dpb rnd nonce rx_ms env c =
     (case receive_dm lib hl pb dpb rnd env c of
        (Returned (Some (sender, payload)), c) \<Rightarrow>
          (Returned (Some (sender, payload)), c\<lparr>cl_store := map_option (store_payload lib nonce rx_ms env sender payload) (cl_store c)\<rparr>)
      | (res, c) \<Rightarrow> (res, c))"

end
