(* ===== verification/At_Rest.thy ===== *)
theory At_Rest
  imports Store
begin

text \<open>
  Encryption at rest is transparent. The plaintext mode of the store, the one \<open>open\<close> gives without a
  key, serves as the specification of the encrypted mode: \<open>view\<close> reads an encrypted store as the
  plaintext store with the same contents. Every operation commutes with it, every query returns the
  same on both, rotating the table keys and ratcheting the master leave it unchanged, and a store
  that is closed and opened again with its key is the same store.
\<close>

subsection \<open>Wrapping and unwrapping\<close>

lemma unwrap_wrap [simp]:
  "xchacha_ok lib \<Longrightarrow> length n = kXNonce \<Longrightarrow> aead_unwrap lib k (aead_wrap lib n k p a) a = Some p"
  by (simp add: aead_unwrap_def aead_wrap_def xchacha_ok_def kXTag_def)

lemma wrap_not_Nil [simp]: "length n = kXNonce \<Longrightarrow> aead_wrap lib n k p a \<noteq> []"
  by (auto simp: aead_wrap_def kXNonce_def)

lemma unwrap_Nil [simp]: "aead_unwrap lib k [] a = None"
  by (simp add: aead_unwrap_def kXNonce_def)

definition peel :: "sodium \<Rightarrow> bytes \<Rightarrow> bytes \<Rightarrow> bytes \<Rightarrow> bytes" where
  "peel lib k a v = (case aead_unwrap lib k v a of None \<Rightarrow> v | Some pt \<Rightarrow> pt)"

lemma peel_Nil [simp]: "peel lib k a [] = []"
  by (simp add: peel_def)

lemma peel_wrap [simp]: "xchacha_ok lib \<Longrightarrow> length n = kXNonce \<Longrightarrow> peel lib k a (aead_wrap lib n k p a) = p"
  by (simp add: peel_def)

definition unseal :: "('r \<Rightarrow> bytes) \<Rightarrow> (bytes \<Rightarrow> 'r \<Rightarrow> 'r) \<Rightarrow> ('r \<Rightarrow> bytes) \<Rightarrow> sodium \<Rightarrow> bytes \<Rightarrow> 'r list \<Rightarrow> 'r list" where
  "unseal get put aad lib k t = map (\<lambda>r. put (peel lib k (aad r) (get r)) r) t"

definition sealed :: "('r \<Rightarrow> bytes) \<Rightarrow> ('r \<Rightarrow> bytes) \<Rightarrow> sodium \<Rightarrow> bytes \<Rightarrow> 'r list \<Rightarrow> bool" where
  "sealed get aad lib k t \<longleftrightarrow> (\<forall>r\<in>set t. aead_unwrap lib k (get r) (aad r) \<noteq> None)"

definition sealed_or_empty :: "('r \<Rightarrow> bytes) \<Rightarrow> ('r \<Rightarrow> bytes) \<Rightarrow> sodium \<Rightarrow> bytes \<Rightarrow> 'r list \<Rightarrow> bool" where
  "sealed_or_empty get aad lib k t \<longleftrightarrow> (\<forall>r\<in>set t. get r = [] \<or> aead_unwrap lib k (get r) (aad r) \<noteq> None)"

lemma snd_in_enumerate: "(i, r) \<in> set (List.enumerate n t) \<Longrightarrow> r \<in> set t"
  by (auto simp: in_set_enumerate_eq)

lemma map_enumerate_snd: "map f t = map (f \<circ> snd) (List.enumerate 0 t)"
  by (simp flip: map_map)

text \<open>A column of a table: how its value is read and written and what its rows bind.\<close>

locale column =
  fixes get :: "'r \<Rightarrow> bytes" and put :: "bytes \<Rightarrow> 'r \<Rightarrow> 'r" and aad :: "'r \<Rightarrow> bytes"
  assumes get_put: "get (put v r) = v"
    and put_put: "put v (put w r) = put v r"
    and put_get: "put (get r) r = r"
    and aad_put: "aad (put v r) = aad r"
begin

lemma sealed_weak: "sealed get aad lib k t \<Longrightarrow> sealed_or_empty get aad lib k t"
  by (auto simp: sealed_def sealed_or_empty_def)

lemma row_rewrap:
  assumes "xchacha_ok lib" "length n = kXNonce" "r' = rewrap_row lib n get put aad old new r"
    and "get r = [] \<or> aead_unwrap lib old (get r) (aad r) \<noteq> None"
  shows "put (peel lib new (aad r') (get r')) r' = put (peel lib old (aad r) (get r)) r \<and>
    (aead_unwrap lib old (get r) (aad r) \<noteq> None \<longrightarrow> aead_unwrap lib new (get r') (aad r') \<noteq> None) \<and>
    (get r = [] \<longrightarrow> get r' = [])"
  using assms by (cases "aead_unwrap lib old (get r) (aad r)")
    (auto simp: rewrap_row_def get_put put_put aad_put put_get peel_def)

lemma unseal_rewrap:
  assumes "xchacha_ok lib" "\<And>i. length (rnd i) = kXNonce" "sealed_or_empty get aad lib old t"
  shows "unseal get put aad lib new (rewrap_table lib rnd get put aad old new t) = unseal get put aad lib old t"
proof -
  have "put (peel lib new (aad r') (get r')) r' = put (peel lib old (aad r) (get r)) r"
    if "(i, r) \<in> set (List.enumerate 0 t)" "r' = rewrap_row lib (rnd i) get put aad old new r" for i r r'
    using that assms(3) row_rewrap [OF assms(1,2) that(2)] by (auto simp: sealed_or_empty_def dest: snd_in_enumerate)
  then show ?thesis
    unfolding unseal_def rewrap_table_def map_map by (subst map_enumerate_snd [of _ t]) (auto intro!: map_cong)
qed

lemma sealed_rewrap:
  assumes "xchacha_ok lib" "\<And>i. length (rnd i) = kXNonce"
  shows "sealed get aad lib old t \<Longrightarrow> sealed get aad lib new (rewrap_table lib rnd get put aad old new t)"
    and "sealed_or_empty get aad lib old t \<Longrightarrow> sealed_or_empty get aad lib new (rewrap_table lib rnd get put aad old new t)"
proof -
  let ?u = "\<lambda>k r. aead_unwrap lib k (get r) (aad r)"
  have row: "(?u old r \<noteq> None \<longrightarrow> ?u new (rewrap_row lib (rnd i) get put aad old new r) \<noteq> None) \<and>
      (get r = [] \<longrightarrow> get (rewrap_row lib (rnd i) get put aad old new r) = [])"
    if "get r = [] \<or> ?u old r \<noteq> None" for i r
    using row_rewrap [OF assms refl that] by blast
  show "sealed get aad lib old t \<Longrightarrow> sealed get aad lib new (rewrap_table lib rnd get put aad old new t)"
    unfolding sealed_def rewrap_table_def using row by (fastforce dest: snd_in_enumerate)
  show "sealed_or_empty get aad lib old t \<Longrightarrow> sealed_or_empty get aad lib new (rewrap_table lib rnd get put aad old new t)"
    unfolding sealed_or_empty_def rewrap_table_def using row by (fastforce dest: snd_in_enumerate)
qed

lemma unseal_wrap:
  assumes "xchacha_ok lib" "\<And>i. length (rnd i) = kXNonce"
  shows "unseal get put aad lib k (wrap_table lib rnd get put aad k t) = t" "sealed get aad lib k (wrap_table lib rnd get put aad k t)"
proof -
  have "unseal get put aad lib k (wrap_table lib rnd get put aad k t) = map (\<lambda>r. r) t"
    unfolding unseal_def wrap_table_def map_map
    by (subst map_enumerate_snd [of _ t]) (auto simp: get_put put_put aad_put put_get assms intro!: map_cong)
  then show "unseal get put aad lib k (wrap_table lib rnd get put aad k t) = t" by simp
  show "sealed get aad lib k (wrap_table lib rnd get put aad k t)"
    by (auto simp: sealed_def wrap_table_def get_put aad_put assms)
qed

lemma rewrapped_all: "sealed get aad lib k t \<Longrightarrow> rewrapped lib get aad k t = length t"
  by (auto simp: sealed_def rewrapped_def filter_id_conv)

end

interpretation msg_col: column msg_get msg_put fst
  by unfold_locales (auto simp: msg_get_def msg_put_def)

interpretation kv_col: column snd kv_put fst
  by unfold_locales (auto simp: kv_put_def)

interpretation peers_col: column snd kv_put peers_aad
  by unfold_locales (auto simp: kv_put_def peers_aad_def)

interpretation log_col: column snd kv_put log_aad
  by unfold_locales (auto simp: kv_put_def log_aad_def)

interpretation chan_col: column chan_get chan_put fst
  by unfold_locales (auto simp: chan_get_def chan_put_def)

interpretation cm_col: column cm_val cm_put cm_id
  by unfold_locales (auto simp: cm_put_def)

interpretation name_col: column name_get name_put fst
  by unfold_locales (auto simp: name_get_def name_put_def)


lemmas rewrap_laws =
  msg_col.unseal_rewrap kv_col.unseal_rewrap peers_col.unseal_rewrap log_col.unseal_rewrap chan_col.unseal_rewrap cm_col.unseal_rewrap
  name_col.unseal_rewrap msg_col.sealed_rewrap kv_col.sealed_rewrap peers_col.sealed_rewrap log_col.sealed_rewrap
  chan_col.sealed_rewrap cm_col.sealed_rewrap name_col.sealed_rewrap msg_col.sealed_weak kv_col.sealed_weak
  peers_col.sealed_weak log_col.sealed_weak chan_col.sealed_weak cm_col.sealed_weak name_col.sealed_weak

lemmas wrap_laws =
  msg_col.unseal_wrap kv_col.unseal_wrap peers_col.unseal_wrap cm_col.unseal_wrap name_col.unseal_wrap

subsection \<open>The view\<close>

definition view_db :: "sodium \<Rightarrow> table_keys \<Rightarrow> database \<Rightarrow> database" where
  "view_db lib ks d =
     d\<lparr>user_version := 0, t_storage_keys := [], t_storage_master := None,
       t_inbox := unseal msg_get msg_put fst lib (k_inbox ks) (t_inbox d),
       t_outbox := unseal msg_get msg_put fst lib (k_outbox ks) (t_outbox d),
       t_sessions := unseal snd kv_put fst lib (k_sessions ks) (t_sessions d),
       t_chan_state := unseal chan_get chan_put fst lib (k_chan_state ks) (t_chan_state d),
       t_chan_peers := unseal snd kv_put peers_aad lib (k_chan_peers ks) (t_chan_peers d),
       t_chan_inbox := unseal cm_val cm_put cm_id lib (k_chan_inbox ks) (t_chan_inbox d),
       t_peer_names := unseal name_get name_put fst lib (k_peer_name ks) (t_peer_names d),
       t_mls_state := unseal snd kv_put fst lib (k_mls_state ks) (t_mls_state d),
       t_mls_log := unseal snd kv_put log_aad lib (k_mls_log ks) (t_mls_log d)\<rparr>"

definition plain_store :: "database \<Rightarrow> store" where
  "plain_store d = \<lparr>db = d, encrypt_at_rest = False, master_key = replicate kKeyLen 0, storage_master = replicate kKeyLen 0,
     storage_master_generation = 0, storage_keys_generation = 0, keys = zero_keys\<rparr>"

definition view :: "sodium \<Rightarrow> store \<Rightarrow> store" where
  "view lib s = plain_store (view_db lib (keys s) (db s))"

definition sealed_db :: "sodium \<Rightarrow> table_keys \<Rightarrow> database \<Rightarrow> bool" where
  "sealed_db lib ks d \<longleftrightarrow>
     sealed msg_get fst lib (k_inbox ks) (t_inbox d) \<and> sealed msg_get fst lib (k_outbox ks) (t_outbox d) \<and>
     sealed snd fst lib (k_sessions ks) (t_sessions d) \<and> sealed_or_empty chan_get fst lib (k_chan_state ks) (t_chan_state d) \<and>
     sealed snd peers_aad lib (k_chan_peers ks) (t_chan_peers d) \<and> sealed cm_val cm_id lib (k_chan_inbox ks) (t_chan_inbox d) \<and>
     sealed name_get fst lib (k_peer_name ks) (t_peer_names d) \<and> sealed snd fst lib (k_mls_state ks) (t_mls_state d) \<and>
     sealed snd log_aad lib (k_mls_log ks) (t_mls_log d)"

text \<open>What is persisted leads back to the keys in memory.\<close>

definition keyed :: "sodium \<Rightarrow> store \<Rightarrow> bool" where
  "keyed lib s \<longleftrightarrow> length (master_key s) = kKeyLen \<and> user_version (db s) = 3 \<and>
     resolve_master lib (db s) (master_key s) = Some (storage_master s, storage_master_generation s) \<and>
     resolve_keys lib (db s) (storage_master s) = (keys s, storage_keys_generation s)"

definition store_ok :: "sodium \<Rightarrow> store \<Rightarrow> bool" where
  "store_ok lib s \<longleftrightarrow> encrypt_at_rest s \<and> sealed_db lib (keys s) (db s) \<and> keyed lib s"

definition map_kv :: "('k \<Rightarrow> 'v \<Rightarrow> 'v) \<Rightarrow> ('k \<times> 'v) list \<Rightarrow> ('k \<times> 'v) list" where
  "map_kv f t = map (\<lambda>(k, v). (k, f k v)) t"

lemma unseal_kv:
  "unseal msg_get msg_put fst lib k = map_kv (\<lambda>e r. r\<lparr>m_val := peel lib k e (m_val r)\<rparr>)"
  "unseal snd kv_put fst lib k = map_kv (peel lib k)"
  "unseal chan_get chan_put fst lib k = map_kv (\<lambda>e r. r\<lparr>cr_dist := peel lib k e (cr_dist r)\<rparr>)"
  "unseal snd kv_put peers_aad lib k = map_kv (\<lambda>(c, p). peel lib k (c @ p))"
  "unseal name_get name_put fst lib k = map_kv (\<lambda>e r. r\<lparr>nr_name := peel lib k e (nr_name r)\<rparr>)"
  "unseal snd kv_put log_aad lib k = map_kv (\<lambda>(c, q). peel lib k (mls_log_aad c q))"
  by (auto simp: fun_eq_iff unseal_def map_kv_def msg_get_def msg_put_def kv_put_def chan_get_def chan_put_def
      peers_aad_def name_get_def name_put_def log_aad_def)

lemma unseal_cm: "unseal cm_val cm_put cm_id lib k = map (\<lambda>r. r\<lparr>cm_val := peel lib k (cm_id r) (cm_val r)\<rparr>)"
  by (auto simp: fun_eq_iff unseal_def cm_put_def)

lemma map_kv_put [simp]: "map_kv f (um_put k v t) = um_put k (f k v) (map_kv f t)"
  by (induction t) (auto simp: um_put_def map_kv_def)

lemma map_kv_erase [simp]: "map_kv f (um_erase k t) = um_erase k (map_kv f t)"
  by (induction t) (auto simp: um_erase_def map_kv_def)

lemma um_find_map_kv [simp]: "um_find (map_kv f t) k = map_option (f k) (um_find t k)"
  by (induction t) (auto simp: um_find_def map_kv_def)

lemma map_kv_append [simp]: "map_kv f (t @ u) = map_kv f t @ map_kv f u"
  by (simp add: map_kv_def)

lemma map_kv_Cons [simp]: "map_kv f ((k, v) # t) = (k, f k v) # map_kv f t"
  by (simp add: map_kv_def)

lemma map_kv_Nil [simp]: "map_kv f [] = []"
  by (simp add: map_kv_def)

lemma map_kv_ignore [simp]: "map_kv f (insert_or_ignore k v t) = insert_or_ignore k (f k v) (map_kv f t)"
  by (simp add: insert_or_ignore_def)

lemma map_kv_filter: "(\<And>k v. P (k, f k v) = P (k, v)) \<Longrightarrow> map_kv f (filter P t) = filter P (map_kv f t)"
  by (induction t) auto

lemma map_kv_filter_fst:
  "map_kv f (filter (\<lambda>((c, p), v). c \<noteq> x) t) = filter (\<lambda>((c, p), v). c \<noteq> x) (map_kv f t)"
  by (rule map_kv_filter) (simp split: prod.split)

lemma map_cm_filter:
  "map (\<lambda>r. r\<lparr>cm_val := g r\<rparr>) (filter (\<lambda>r. cm_id r \<noteq> x) t) = filter (\<lambda>r. cm_id r \<noteq> x) (map (\<lambda>r. r\<lparr>cm_val := g r\<rparr>) t)"
  by (induction t) auto

lemma map_kv_filter_expired:
  "map_kv (\<lambda>e r. r\<lparr>m_val := g e r\<rparr>) (filter (\<lambda>(k, r). \<not> expired now r) t) =
    filter (\<lambda>(k, r). \<not> expired now r) (map_kv (\<lambda>e r. r\<lparr>m_val := g e r\<rparr>) t)"
  by (rule map_kv_filter) (simp add: expired_def)

lemmas map_kv_commute = map_kv_filter_fst map_cm_filter map_kv_filter_expired

lemma set_um_put: "set (um_put k v t) \<subseteq> insert (k, v) (set t)"
  unfolding um_put_def by (induction t) auto

lemma set_um_erase: "set (um_erase k t) \<subseteq> set t"
  by (auto simp: um_erase_def AList.delete_eq)

lemma set_ignore: "set (insert_or_ignore k v t) \<subseteq> insert (k, v) (set t)"
  by (auto simp: insert_or_ignore_def)

lemma sealed_update:
  assumes "sealed g a lib k t"
  shows "aead_unwrap lib k (g (i, v)) (a (i, v)) \<noteq> None \<Longrightarrow> sealed g a lib k (um_put i v t)"
    and "sealed g a lib k (um_erase i t)"
  using assms set_um_put [of i v t] set_um_erase [of i t] unfolding sealed_def by blast+

lemma sealed_ignore:
  "sealed g a lib k t \<Longrightarrow> aead_unwrap lib k (g (i, v)) (a (i, v)) \<noteq> None \<Longrightarrow> sealed g a lib k (insert_or_ignore i v t)"
  using set_ignore [of i v t] unfolding sealed_def by blast

lemma sealed_filter: "sealed g a lib k t \<Longrightarrow> sealed g a lib k (filter P t)"
  by (auto simp: sealed_def)

lemma sealed_or_empty_update:
  assumes "sealed_or_empty g a lib k t"
  shows "g (i, v) = [] \<or> aead_unwrap lib k (g (i, v)) (a (i, v)) \<noteq> None \<Longrightarrow> sealed_or_empty g a lib k (um_put i v t)"
    and "sealed_or_empty g a lib k (um_erase i t)"
  using assms set_um_put [of i v t] set_um_erase [of i t] unfolding sealed_or_empty_def by blast+

lemma sealed_append: "sealed g a lib k (t @ [r]) \<longleftrightarrow> sealed g a lib k t \<and> aead_unwrap lib k (g r) (a r) \<noteq> None"
  by (auto simp: sealed_def)

subsection \<open>Operations\<close>

datatype store_op =
    SaveIdentity bytes bytes bytes | RememberPeer bytes bytes | SaveSession bytes bytes bytes
  | AppendInbox bytes bytes bytes bytes u64 | AppendInboxExpiry bytes bytes bytes bytes u64 u64
  | AppendOutbox bytes bytes bytes bytes u64 | AppendOutboxExpiry bytes bytes bytes bytes u64 u64 | Prune u64
  | ChanSave bytes bytes bytes bytes bool | ChanSavePeer bytes bytes bytes bytes | ChanAppend bytes bytes bytes bytes u64
  | ChanDelete bytes bytes | CacheName bytes int bytes bytes | SetVerified bytes bool u64 | SetPqCapable bytes bool u64
  | SaveShare bytes u64 held_share | MlsSave bytes bytes bytes | MlsAppend bytes bytes u64 bytes | MlsDelete bytes
  | Rotate rotation_random | RatchetMaster bytes "nat \<Rightarrow> nat \<Rightarrow> bytes"

fun run :: "sodium \<Rightarrow> store_op \<Rightarrow> store \<Rightarrow> store" where
  "run lib (SaveIdentity p x u) s = snd (save_identity p x u s)"
| "run lib (RememberPeer p u) s = remember_peer p u s"
| "run lib (SaveSession n p b) s = snd (save_session lib n p b s)"
| "run lib (AppendInbox n e p v ts) s = append_inbox lib n e p v ts s"
| "run lib (AppendInboxExpiry n e p v ts x) s = append_inbox_with_expiry lib n e p v ts x s"
| "run lib (AppendOutbox n e p v ts) s = append_outbox lib n e p v ts s"
| "run lib (AppendOutboxExpiry n e p v ts x) s = append_outbox_with_expiry lib n e p v ts x s"
| "run lib (Prune now) s = snd (prune_expired now s)"
| "run lib (ChanSave n name c v m) s = chan_save lib n name c v m s"
| "run lib (ChanSavePeer n c p v) s = chan_save_peer lib n c p v s"
| "run lib (ChanAppend n c p v ts) s = chan_append_inbox lib n c p v ts s"
| "run lib (ChanDelete name c) s = chan_delete name c s"
| "run lib (CacheName n now p u) s = cache_peer_name lib n now p u s"
| "run lib (SetVerified p v ts) s = set_peer_verified p v ts s"
| "run lib (SetPqCapable p v ts) s = set_peer_pq_capable p v ts s"
| "run lib (SaveShare p i h) s = save_shamir_share p i h s"
| "run lib (MlsSave n c v) s = mls_group_save lib n c v s"
| "run lib (MlsAppend n c q v) s = snd (mls_group_op_append lib n c q v s)"
| "run lib (MlsDelete c) s = mls_group_delete c s"
| "run lib (Rotate rr) s = snd (rotate_storage_keys lib rr s)"
| "run lib (RatchetMaster m n) s = snd (ratchet_storage_master lib m n s)"

text \<open>Nonces have their length, fresh keys theirs, and the strings that SQLite stores as text contain no
  zero byte. No value is empty: without encryption it would be NULL and refused, see \<open>empty_text_dropped\<close>.\<close>

fun op_ok :: "store_op \<Rightarrow> bool" where
  "op_ok (SaveSession n p b) \<longleftrightarrow> length n = kXNonce \<and> b \<noteq> []"
| "op_ok (AppendInbox n e p v ts) \<longleftrightarrow> length n = kXNonce \<and> v \<noteq> []"
| "op_ok (AppendInboxExpiry n e p v ts x) \<longleftrightarrow> length n = kXNonce \<and> v \<noteq> []"
| "op_ok (AppendOutbox n e p v ts) \<longleftrightarrow> length n = kXNonce \<and> v \<noteq> []"
| "op_ok (AppendOutboxExpiry n e p v ts x) \<longleftrightarrow> length n = kXNonce \<and> v \<noteq> []"
| "op_ok (ChanSave n name c v m) \<longleftrightarrow> length n = kXNonce \<and> 0 \<notin> set name"
| "op_ok (ChanSavePeer n c p v) \<longleftrightarrow> length n = kXNonce \<and> v \<noteq> []"
| "op_ok (ChanAppend n c p v ts) \<longleftrightarrow> length n = kXNonce \<and> v \<noteq> []"
| "op_ok (CacheName n now p u) \<longleftrightarrow> length n = kXNonce \<and> 0 \<notin> set u"
| "op_ok (MlsSave n c v) \<longleftrightarrow> length n = kXNonce \<and> v \<noteq> []"
| "op_ok (MlsAppend n c q v) \<longleftrightarrow> length n = kXNonce \<and> v \<noteq> []"
| "op_ok (Rotate rr) \<longleftrightarrow> (\<forall>i j. length (rr_nonce rr i j) = kXNonce) \<and> length (rr_inbox rr) = kKeyLen \<and>
     length (rr_outbox rr) = kKeyLen \<and> length (rr_sessions rr) = kKeyLen"
| "op_ok (RatchetMaster m n) \<longleftrightarrow> length m = kKeyLen \<and> (\<forall>i j. length (n i j) = kXNonce)"
| "op_ok op \<longleftrightarrow> True"


subsection \<open>The step lemma\<close>

lemma keyed_cong:
  "keyed lib s \<Longrightarrow> master_key s' = master_key s \<Longrightarrow> storage_master s' = storage_master s \<Longrightarrow>
    storage_master_generation s' = storage_master_generation s \<Longrightarrow> storage_keys_generation s' = storage_keys_generation s \<Longrightarrow>
    keys s' = keys s \<Longrightarrow> user_version (db s') = user_version (db s) \<Longrightarrow> t_storage_keys (db s') = t_storage_keys (db s) \<Longrightarrow>
    t_storage_master (db s') = t_storage_master (db s) \<Longrightarrow> keyed lib s'"
  by (simp add: keyed_def resolve_master_def resolve_keys_def load_wrapped_def)

lemmas op_defs = save_identity_def remember_peer_def save_session_def append_inbox_def append_inbox_with_expiry_def
  append_outbox_def append_outbox_with_expiry_def prune_expired_def chan_save_def chan_save_peer_def chan_append_inbox_def
  chan_delete_def cache_peer_name_def set_peer_verified_def set_peer_pq_capable_def save_shamir_share_def mls_group_save_def
  mls_group_op_append_def mls_group_delete_def not_null_def

lemmas view_defs = view_def view_db_def plain_store_def unseal_kv unseal_cm to_disk_def

fun rekeys :: "store_op \<Rightarrow> bool" where
  "rekeys (Rotate rr) = True"
| "rekeys (RatchetMaster m n) = True"
| "rekeys op = False"


lemma run_view:
  assumes "xchacha_ok lib" "op_ok op" "encrypt_at_rest s" "\<not> rekeys op"
  shows "view lib (run lib op s) = run lib op (view lib s)"
  using assms by (cases op; simp add: op_defs view_defs map_kv_commute Let_def)

lemma run_keyed:
  assumes "keyed lib s" "\<not> rekeys op"
  shows "keyed lib (run lib op s)"
  using assms(2) by (cases op; intro keyed_cong [OF assms(1)]) (auto simp: op_defs Let_def)

lemma run_encrypt [simp]: "encrypt_at_rest (run lib op s) = encrypt_at_rest s"
  by (cases op; simp add: op_defs Let_def rotate_storage_keys_def ratchet_storage_master_def)

lemma run_sealed:
  assumes ok: "xchacha_ok lib" "op_ok op" "encrypt_at_rest s" "\<not> rekeys op" and s: "sealed_db lib (keys s) (db s)"
  shows "sealed_db lib (keys (run lib op s)) (db (run lib op s))"
  using assms
  by (cases op; simp add: op_defs sealed_db_def to_disk_def sealed_append sealed_update sealed_ignore sealed_filter sealed_or_empty_update
      msg_get_def chan_get_def name_get_def peers_aad_def log_aad_def Let_def)

lemma rotate_view:
  assumes "xchacha_ok lib" "op_ok (Rotate rr)" "store_ok lib s"
  shows "view lib (snd (rotate_storage_keys lib rr s)) = view lib s"
    and "sealed_db lib (keys (snd (rotate_storage_keys lib rr s))) (db (snd (rotate_storage_keys lib rr s)))"
  using assms
  by (simp_all add: rotate_storage_keys_def view_def view_db_def plain_store_def store_ok_def sealed_db_def Let_def
      rewrap_laws)

lemma load_wrapped_persisted:
  "xchacha_ok lib \<Longrightarrow> length n = kXNonce \<Longrightarrow> length k = kKeyLen \<Longrightarrow>
    um_find (t_storage_keys d) (str_bytes name) = Some (aead_wrap lib n sm k (key_aad name gen), gen) \<Longrightarrow>
    load_wrapped lib d sm name (k', g) = (k, if g < gen then gen else g)"
  by (simp add: load_wrapped_def)

lemma resolve_keys_form: "\<exists>a b c. fst (resolve_keys lib d sm) = (derive_table_keys lib sm)\<lparr>k_inbox := a, k_outbox := b, k_sessions := c\<rparr>"
  by (auto simp: resolve_keys_def Let_def case_prod_beta)

lemma rotate_keyed:
  assumes ok: "xchacha_ok lib" "op_ok (Rotate rr)" "store_ok lib s"
  shows "keyed lib (snd (rotate_storage_keys lib rr s))"
proof -
  let ?s = "snd (rotate_storage_keys lib rr s)" and ?g = "storage_keys_generation s + 1" and ?sm = "storage_master s"
  have names: "str_bytes ''inbox'' \<noteq> str_bytes ''outbox''" "str_bytes ''inbox'' \<noteq> str_bytes ''sessions''"
    "str_bytes ''outbox'' \<noteq> str_bytes ''sessions''" by (simp_all add: str_bytes_def)
  obtain a b c where form: "keys s = (derive_table_keys lib ?sm)\<lparr>k_inbox := a, k_outbox := b, k_sessions := c\<rparr>"
    using resolve_keys_form [of lib "db s" ?sm] ok(3) by (auto simp: store_ok_def keyed_def)
  have rest: "master_key ?s = master_key s" "storage_master ?s = ?sm" "user_version (db ?s) = user_version (db s)"
    "storage_master_generation ?s = storage_master_generation s" "t_storage_master (db ?s) = t_storage_master (db s)"
    "storage_keys_generation ?s = ?g" "keys ?s = (keys s)\<lparr>k_inbox := rr_inbox rr, k_outbox := rr_outbox rr, k_sessions := rr_sessions rr\<rparr>"
    using ok(3) by (simp_all add: rotate_storage_keys_def store_ok_def Let_def)
  have row: "um_find (t_storage_keys (db ?s)) (str_bytes n) = Some (aead_wrap lib (rr_nonce rr 3 i) ?sm k (key_aad n ?g), ?g)"
    if "(n, i, k) \<in> {(''inbox'', 0, rr_inbox rr), (''outbox'', 1, rr_outbox rr), (''sessions'', 2, rr_sessions rr)}" for n i k
    using that names ok(3) by (auto simp: rotate_storage_keys_def persist_wrapped_def store_ok_def Let_def)
  have load: "load_wrapped lib (db ?s) ?sm n (k', g) = (k, if g < ?g then ?g else g)"
    if "(n, i, k) \<in> {(''inbox'', 0, rr_inbox rr), (''outbox'', 1, rr_outbox rr), (''sessions'', 2, rr_sessions rr)}" for n and i :: nat and k k' g
    using load_wrapped_persisted [OF ok(1) _ _ row [OF that]] that ok(2) by auto
  have "resolve_keys lib (db ?s) ?sm = (keys ?s, ?g)"
    using load [of "''inbox''" 0 "rr_inbox rr"] load [of "''outbox''" 1 "rr_outbox rr"] load [of "''sessions''" 2 "rr_sessions rr"]
    by (auto simp: resolve_keys_def Let_def rest form word_gt_0)
  moreover have "resolve_master lib (db ?s) (master_key s) = resolve_master lib (db s) (master_key s)"
    by (simp add: resolve_master_def rest)
  ultimately show ?thesis using ok(3) by (simp add: keyed_def store_ok_def rest)
qed

lemma ratchet_view:
  assumes "xchacha_ok lib" "op_ok (RatchetMaster m n)" "store_ok lib s"
  shows "view lib (snd (ratchet_storage_master lib m n s)) = view lib s"
    and "sealed_db lib (keys (snd (ratchet_storage_master lib m n s))) (db (snd (ratchet_storage_master lib m n s)))"
  using assms
  by (simp_all add: ratchet_storage_master_def view_def view_db_def plain_store_def store_ok_def sealed_db_def Let_def rewrap_laws)

lemma ratchet_keyed:
  assumes "xchacha_ok lib" "op_ok (RatchetMaster m n)" "store_ok lib s"
  shows "keyed lib (snd (ratchet_storage_master lib m n s))"
  using assms
  by (simp add: ratchet_storage_master_def store_ok_def keyed_def resolve_master_def resolve_keys_def load_wrapped_def Let_def)

lemma run_ok:
  assumes "xchacha_ok lib" "op_ok op" "store_ok lib s"
  shows "store_ok lib (run lib op s)" and "view lib (run lib op s) = run lib op (view lib s)"
proof -
  have plain: "run lib op (view lib s) = view lib s" if "rekeys op"
    using that by (cases op) (simp_all add: rotate_storage_keys_def ratchet_storage_master_def view_def plain_store_def)
  have "store_ok lib (run lib op s) \<and> view lib (run lib op s) = run lib op (view lib s)"
  proof (cases "rekeys op")
    case True
    with assms show ?thesis unfolding plain [OF True]
      by (cases op) (simp_all add: store_ok_def rotate_view rotate_keyed ratchet_view ratchet_keyed
          run_encrypt [of lib "Rotate rr" for rr, simplified] run_encrypt [of lib "RatchetMaster m n" for m n, simplified])
  next
    case False
    with assms show ?thesis by (simp add: store_ok_def run_view run_sealed run_keyed)
  qed
  then show "store_ok lib (run lib op s)" "view lib (run lib op s) = run lib op (view lib s)" by blast+
qed

lemma fold_run_ok:
  assumes "xchacha_ok lib" "\<forall>op\<in>set ops. op_ok op" "store_ok lib s"
  shows "store_ok lib (fold (run lib) ops s) \<and> view lib (fold (run lib) ops s) = fold (run lib) ops (view lib s)"
  using assms(2,3) by (induction ops arbitrary: s) (simp_all add: run_ok [OF assms(1)])

lemma open_again:
  assumes "store_ok lib s"
  shows "open_store lib n (db s) (master_key s) = Returned s"
  using assms by (auto simp: open_store_def store_ok_def keyed_def kKeyLen_def)

subsection \<open>Queries\<close>

lemma from_disk_view: "aead_unwrap lib k v a \<noteq> None \<Longrightarrow> encrypt_at_rest s \<Longrightarrow> from_disk lib s k v a = Some (peel lib k a v)"
  by (auto simp: from_disk_def peel_def)

lemma from_disk_plain [simp]: "from_disk lib (plain_store d) k v a = Some v"
  by (simp add: from_disk_def plain_store_def)

lemma plain_store_simps [simp]: "db (plain_store d) = d" "encrypt_at_rest (plain_store d) = False" "keys (plain_store d) = zero_keys"
  by (simp_all add: plain_store_def)

lemma sealed_find: "sealed snd fst lib k t \<Longrightarrow> um_find t i = Some v \<Longrightarrow> aead_unwrap lib k v i \<noteq> None"
  by (force simp: sealed_def um_find_def dest: map_of_SomeD)

lemma sealed_find_name: "sealed name_get fst lib k t \<Longrightarrow> um_find t i = Some r \<Longrightarrow> aead_unwrap lib k (nr_name r) i \<noteq> None"
  by (force simp: sealed_def um_find_def name_get_def dest: map_of_SomeD)

lemma insort_key_map: "(\<And>x. f (g x) = f' x) \<Longrightarrow> insort_key f (g x) (map g xs) = map g (insort_key f' x xs)"
  by (induction xs) simp_all

lemma sort_key_map: "(\<And>x. f (g x) = f' x) \<Longrightarrow> sort_key f (map g t) = map g (sort_key f' t)"
  by (induction t) (simp_all add: insort_key_map)

lemma newest_map: "(\<And>x. f (g x) = f' x) \<Longrightarrow> newest f n (map g t) = map g (newest f' n t)"
  by (simp add: newest_def take_map sort_key_map [of "\<lambda>r. - f r" g "\<lambda>r. - f' r"])

lemma set_newest: "set (newest f n t) \<subseteq> set t"
  using set_take_subset [of n "sort_key (\<lambda>r. - f r) t"] by (simp add: newest_def)

lemma map_filter_map:
  "(\<And>x. x \<in> set t \<Longrightarrow> f x = f' (g x)) \<Longrightarrow> List.map_filter f t = List.map_filter f' (map g t)"
  by (induction t) (simp_all add: map_filter_simps split: option.split)

lemma recent_view:
  assumes "encrypt_at_rest s" "sealed msg_get fst lib k t"
  shows "recent lib s k limit t = recent lib (plain_store d) k' limit (unseal msg_get msg_put fst lib k t)"
proof -
  let ?g = "\<lambda>(e, r). (e, r\<lparr>m_val := peel lib k e (m_val r)\<rparr>)"
  have "newest (\<lambda>(e, r). sint (m_ts r)) limit (map ?g t) = map ?g (newest (\<lambda>(e, r). sint (m_ts r)) limit t)"
    by (rule newest_map) (auto split: prod.splits)
  moreover have "aead_unwrap lib k (m_val r) e \<noteq> None" if "(e, r) \<in> set (newest (\<lambda>(e, r). sint (m_ts r)) limit t)" for e r
    using that assms(2) set_newest by (fastforce simp: sealed_def msg_get_def)
  ultimately show ?thesis
    unfolding recent_def unseal_kv map_kv_def using assms(1)
    by (auto intro!: map_filter_map simp: from_disk_view split: prod.splits)
qed

lemma view_db_tables [simp]:
  "t_inbox (view_db lib ks d) = unseal msg_get msg_put fst lib (k_inbox ks) (t_inbox d)"
  "t_outbox (view_db lib ks d) = unseal msg_get msg_put fst lib (k_outbox ks) (t_outbox d)"
  "t_sessions (view_db lib ks d) = unseal snd kv_put fst lib (k_sessions ks) (t_sessions d)"
  "t_chan_state (view_db lib ks d) = unseal chan_get chan_put fst lib (k_chan_state ks) (t_chan_state d)"
  "t_chan_peers (view_db lib ks d) = unseal snd kv_put peers_aad lib (k_chan_peers ks) (t_chan_peers d)"
  "t_chan_inbox (view_db lib ks d) = unseal cm_val cm_put cm_id lib (k_chan_inbox ks) (t_chan_inbox d)"
  "t_peer_names (view_db lib ks d) = unseal name_get name_put fst lib (k_peer_name ks) (t_peer_names d)"
  "t_mls_state (view_db lib ks d) = unseal snd kv_put fst lib (k_mls_state ks) (t_mls_state d)"
  "t_mls_log (view_db lib ks d) = unseal snd kv_put log_aad lib (k_mls_log ks) (t_mls_log d)"
  by (simp_all add: view_db_def)

lemmas query_defs = view_def unseal_kv unseal_cm store_ok_def sealed_db_def from_disk_view

lemma load_session_view: "store_ok lib s \<Longrightarrow> load_session lib p (view lib s) = load_session lib p s"
  using sealed_find [of lib "k_sessions (keys s)" "t_sessions (db s)" p]
  by (auto simp: load_session_def query_defs split: option.splits)

lemma peer_name_view: "store_ok lib s \<Longrightarrow> peer_name lib p (view lib s) = peer_name lib p s"
  using sealed_find_name [of lib "k_peer_name (keys s)" "t_peer_names (db s)" p]
  by (auto simp: peer_name_def query_defs split: option.splits)

lemma recent_inbox_view: "store_ok lib s \<Longrightarrow> recent_inbox lib n (view lib s) = recent_inbox lib n s"
  using recent_view [of s lib "k_inbox (keys s)" "t_inbox (db s)" n "view_db lib (keys s) (db s)" "k_inbox zero_keys"]
  by (simp add: recent_inbox_def view_def store_ok_def sealed_db_def)

lemma recent_outbox_view: "store_ok lib s \<Longrightarrow> recent_outbox lib n (view lib s) = recent_outbox lib n s"
  using recent_view [of s lib "k_outbox (keys s)" "t_outbox (db s)" n "view_db lib (keys s) (db s)" "k_outbox zero_keys"]
  by (simp add: recent_outbox_def view_def store_ok_def sealed_db_def)

lemma chan_list_view:
  assumes "store_ok lib s"
  shows "chan_list lib (view lib s) = chan_list lib s"
proof -
  let ?k = "k_chan_state (keys s)" and ?t = "t_chan_state (db s)"
  let ?g = "\<lambda>(e, r). (e, r\<lparr>cr_dist := peel lib ?k e (cr_dist r)\<rparr>)"
  have "sort_key fst (map ?g ?t) = map ?g (sort_key fst ?t)" by (rule sort_key_map) auto
  moreover have "cr_dist r = [] \<or> aead_unwrap lib ?k (cr_dist r) e \<noteq> None" if "(e, r) \<in> set ?t" for e r
    using assms that by (fastforce simp: store_ok_def sealed_db_def sealed_or_empty_def chan_get_def)
  ultimately show ?thesis
    using assms unfolding chan_list_def view_def by (fastforce simp: unseal_kv map_kv_def store_ok_def peel_def)
qed

lemma chan_peers_view: "store_ok lib s \<Longrightarrow> chan_peers lib c (view lib s) = chan_peers lib c s"
proof -
  assume ok: "store_ok lib s"
  let ?k = "k_chan_peers (keys s)" and ?t = "t_chan_peers (db s)"
  let ?g = "\<lambda>((c, p), v). ((c, p), peel lib ?k (c @ p) v)" and ?P = "\<lambda>((cid, p), v). cid = c"
  have g: "map_kv (\<lambda>(c, p). peel lib ?k (c @ p)) = map ?g" by (auto simp: fun_eq_iff map_kv_def)
  have "filter ?P (map ?g t) = map ?g (filter ?P t)" for t by (induction t) auto
  moreover have "aead_unwrap lib ?k v (c @ p) \<noteq> None" if "((c, p), v) \<in> set ?t" for c p v
    using ok that by (fastforce simp: store_ok_def sealed_db_def sealed_def peers_aad_def)
  ultimately show ?thesis
    using ok unfolding chan_peers_def view_def
    by (auto simp: unseal_kv g store_ok_def from_disk_view intro!: map_filter_map [symmetric])
qed

lemma chan_recent_inbox_view:
  assumes "store_ok lib s"
  shows "chan_recent_inbox lib c n (view lib s) = chan_recent_inbox lib c n s"
proof -
  let ?k = "k_chan_inbox (keys s)" and ?t = "t_chan_inbox (db s)"
  let ?g = "\<lambda>r. r\<lparr>cm_val := peel lib ?k (cm_id r) (cm_val r)\<rparr>" and ?P = "\<lambda>r. cm_id r = c"
  let ?rows = "newest (\<lambda>r. sint (cm_ts r)) n (filter ?P ?t)"
  have flt: "filter ?P (map ?g t) = map ?g (filter ?P t)" for t by (induction t) auto
  have nw: "newest (\<lambda>r. sint (cm_ts r)) n (map ?g t) = map ?g (newest (\<lambda>r. sint (cm_ts r)) n t)" for t by (rule newest_map) simp
  have opens: "aead_unwrap lib ?k (cm_val r) (cm_id r) \<noteq> None" if "r \<in> set ?rows" for r
  proof -
    have "r \<in> set ?t" using that set_newest [of "\<lambda>r. sint (cm_ts r)" n "filter ?P ?t"] by auto
    then show ?thesis using assms by (auto simp: store_ok_def sealed_db_def sealed_def)
  qed
  have "chan_recent_inbox lib c n s = List.map_filter Some (map ?g ?rows)"
    unfolding chan_recent_inbox_def using assms opens by (intro map_filter_map) (auto simp: store_ok_def from_disk_view)
  then show ?thesis by (simp add: chan_recent_inbox_def view_def unseal_cm flt nw)
qed

lemma all_cached_peers_view:
  assumes "store_ok lib s"
  shows "all_cached_peers lib (view lib s) = all_cached_peers lib s"
proof -
  let ?k = "k_peer_name (keys s)" and ?t = "t_peer_names (db s)" and ?f = "\<lambda>(p, r). - nr_learned r"
  let ?g = "\<lambda>(e, r). (e, r\<lparr>nr_name := peel lib ?k e (nr_name r)\<rparr>)"
  have "sort_key ?f (map ?g ?t) = map ?g (sort_key ?f ?t)" by (rule sort_key_map) (auto split: prod.splits)
  moreover have "aead_unwrap lib ?k (nr_name r) e \<noteq> None" if "(e, r) \<in> set ?t" for e r
    using assms that by (fastforce simp: store_ok_def sealed_db_def sealed_def name_get_def)
  ultimately show ?thesis
    using assms unfolding all_cached_peers_def view_def
    by (auto simp: unseal_kv map_kv_def store_ok_def from_disk_view intro!: map_filter_map [symmetric])
qed

lemma load_ops_view:
  assumes "encrypt_at_rest s" "\<And>q v. (q, v) \<in> set rows \<Longrightarrow> aead_unwrap lib (k_mls_log (keys s)) v (mls_log_aad c q) \<noteq> None"
  shows "load_ops lib (plain_store d) c (map (\<lambda>(q, v). (q, peel lib (k_mls_log (keys s)) (mls_log_aad c q) v)) rows) m = load_ops lib s c rows m"
  using assms(2) by (induction rows arbitrary: m) (auto simp: from_disk_view [OF _ assms(1)] split: prod.splits)

lemma mls_group_load_view:
  assumes "store_ok lib s"
  shows "mls_group_load lib c (view lib s) = mls_group_load lib c s"
proof -
  let ?k = "k_mls_log (keys s)" and ?t = "t_mls_log (db s)"
  let ?g = "\<lambda>(q, v). (q, peel lib ?k (mls_log_aad c q) v)" and ?f = "\<lambda>(q, v). sint (q :: u64)"
  let ?rows = "\<lambda>t. map (\<lambda>((cid, q), v). (q, v)) (filter (\<lambda>((cid, q), v). cid = c) t)"
  have "?rows (map_kv (\<lambda>(c, q). peel lib ?k (mls_log_aad c q)) t) = map ?g (?rows t)" for t by (induction t) auto
  moreover have "sort_key ?f (map ?g xs) = map ?g (sort_key ?f xs)" for xs by (rule sort_key_map) (auto split: prod.splits)
  moreover have "aead_unwrap lib ?k v (mls_log_aad c q) \<noteq> None" if "(q, v) \<in> set (sort_key ?f (?rows ?t))" for q v
    using assms that by (fastforce simp: store_ok_def sealed_db_def sealed_def log_aad_def)
  ultimately have "load_ops lib (view lib s) c (sort_key ?f (?rows (t_mls_log (db (view lib s))))) (- 1) =
      load_ops lib s c (sort_key ?f (?rows ?t)) (- 1)"
    using load_ops_view [of s "sort_key ?f (?rows ?t)"] assms by (simp add: view_def unseal_kv store_ok_def del: map_map)
  then show ?thesis
    unfolding mls_group_load_def using sealed_find [of lib "k_mls_state (keys s)" "t_mls_state (db s)" c] assms
    by (auto simp: query_defs split: option.splits)
qed

subsection \<open>Properties\<close>

definition empty_db :: database where
  "empty_db = \<lparr>user_version = 0, t_identities = [], t_peer_keys = [], t_sessions = [], t_inbox = [], t_outbox = [], t_chan_state = [],
     t_chan_peers = [], t_chan_inbox = [], t_peer_names = [], t_mls_state = [], t_mls_log = [], t_storage_keys = [],
     t_storage_master = None, t_verified = [], t_pq_capable = [], t_shares = []\<rparr>"

text \<open>What the client reads from a store.\<close>

definition same_reads :: "sodium \<Rightarrow> store \<Rightarrow> store \<Rightarrow> bool" where
  "same_reads lib s t \<longleftrightarrow>
     (\<forall>p. load_session lib p s = load_session lib p t) \<and> (\<forall>k. recent_inbox lib k s = recent_inbox lib k t) \<and>
     (\<forall>k. recent_outbox lib k s = recent_outbox lib k t) \<and> chan_list lib s = chan_list lib t \<and>
     (\<forall>c. chan_peers lib c s = chan_peers lib c t) \<and> (\<forall>c k. chan_recent_inbox lib c k s = chan_recent_inbox lib c k t) \<and>
     (\<forall>p. peer_name lib p s = peer_name lib p t) \<and> all_cached_peers lib s = all_cached_peers lib t \<and>
     (\<forall>c. mls_group_load lib c s = mls_group_load lib c t) \<and> (\<forall>p. peer_verified p s = peer_verified p t) \<and>
     (\<forall>p. peer_pq_capable p s = peer_pq_capable p t) \<and> list_shamir_shares s = list_shamir_shares t \<and>
     (\<forall>u. load_identity_sec u s = load_identity_sec u t) \<and> (\<forall>u. lookup_peer u s = lookup_peer u t)"

lemma same_reads_view: "store_ok lib s \<Longrightarrow> same_reads lib s (view lib s)"
  unfolding same_reads_def
  by (simp add: load_session_view recent_inbox_view recent_outbox_view chan_list_view chan_peers_view chan_recent_inbox_view
      peer_name_view all_cached_peers_view mls_group_load_view)
    (simp add: view_def view_db_def peer_verified_def peer_pq_capable_def list_shamir_shares_def load_identity_sec_def lookup_peer_def)

lemma run_master_key [simp]: "master_key (run lib op s) = master_key s"
  by (cases op; simp add: op_defs Let_def rotate_storage_keys_def ratchet_storage_master_def)

lemma fold_run_master_key [simp]: "master_key (fold (run lib) ops s) = master_key s"
  by (induction ops arbitrary: s) simp_all

lemma open_new:
  assumes "xchacha_ok lib" "length mk = kKeyLen"
  obtains s where "open_store lib n empty_db mk = Returned s" "store_ok lib s" "view lib s = plain_store empty_db" "master_key s = mk"
proof
  let ?d = "empty_db\<lparr>user_version := 3\<rparr>" and ?ks = "derive_table_keys lib mk"
  let ?s = "\<lparr>db = ?d, encrypt_at_rest = True, master_key = mk, storage_master = mk, storage_master_generation = 0,
    storage_keys_generation = 0, keys = ?ks\<rparr>"
  have mk: "mk \<noteq> []" using assms(2) by (auto simp: kKeyLen_def)
  have res: "resolve_master lib d mk = Some (mk, 0)" "resolve_keys lib d mk = (?ks, 0)" if "t_storage_master d = None" "t_storage_keys d = []" for d
    using that by (simp_all add: resolve_master_def resolve_keys_def load_wrapped_def)
  show "open_store lib n empty_db mk = Returned ?s"
    using assms(2) mk res [of empty_db]
    by (simp add: open_store_def migrate_def empty_db_def wrap_table_def)
  show "store_ok lib ?s" using assms(2) res [of ?d]
    by (simp add: store_ok_def keyed_def sealed_db_def sealed_def sealed_or_empty_def empty_db_def)
  show "view lib ?s = plain_store empty_db" by (simp add: view_def view_db_def unseal_def empty_db_def)
qed simp

text \<open>The two modes differ on an empty text: the unencrypted store drops the message (its text is bound as NULL), the encrypted
  store keeps it.\<close>

lemma empty_text_dropped:
  assumes "xchacha_ok lib" "length n = kXNonce" "p \<noteq> []" "store_ok lib s"
  shows "append_inbox lib n e p [] ts (plain_store d) = plain_store d"
    and "t_inbox (db s) = [] \<Longrightarrow> recent_inbox lib 1 (append_inbox lib n e p [] ts s) = [(e, p, [], ts)]"
  using assms
  by (simp_all add: append_inbox_def not_null_def to_disk_def plain_store_def Let_def store_ok_def recent_inbox_def recent_def
      newest_def from_disk_def insert_or_ignore_def um_find_def map_filter_simps)

text \<open>C6. Encryption at rest is transparent: a new database opened with a key and changed by any sequence
  of operations, with table-key rotations and master ratchets in between, answers every query like the
  database that the same operations give without encryption. Closing it and opening it again with the
  key gives back the same store, and without the key it is refused. (Nonces and fresh keys have
  their length, the texts no zero byte, and no stored value is empty: an empty one is kept by the encrypted store and
  dropped by the other, see \<open>empty_text_dropped\<close>.)\<close>

theorem at_rest_transparent:
  assumes "xchacha_ok lib" and "length mk = kKeyLen" and "\<forall>op\<in>set ops. op_ok op"
  shows "\<exists>s p. open_store lib n empty_db mk = Returned s \<and> open_store lib n empty_db [] = Returned p \<and>
    (let s' = fold (run lib) ops s; p' = fold (run lib) ops p
     in same_reads lib s' p' \<and> open_store lib n (db s') mk = Returned s' \<and> open_store lib n (db s') [] = Threw)"
proof -
  obtain s where s: "open_store lib n empty_db mk = Returned s" "store_ok lib s" "view lib s = plain_store empty_db" "master_key s = mk"
    using open_new [OF assms(1,2)] .
  let ?s = "fold (run lib) ops s"
  have ok: "store_ok lib ?s" "view lib ?s = fold (run lib) ops (plain_store empty_db)"
    using fold_run_ok [OF assms(1,3) s(2)] by (simp_all add: s(3))
  have "open_store lib n empty_db [] = Returned (plain_store empty_db)"
    by (simp add: open_store_def plain_store_def empty_db_def)
  moreover have "same_reads lib ?s (fold (run lib) ops (plain_store empty_db))" using same_reads_view [OF ok(1)] ok(2) by simp
  moreover have "open_store lib n (db ?s) mk = Returned ?s" using open_again [OF ok(1)] s(4) by simp
  moreover have "open_store lib n (db ?s) [] = Threw" using ok(1) by (simp add: open_store_def store_ok_def keyed_def)
  ultimately show ?thesis using s(1) by (metis (lifting))
qed

definition toy_nonces :: "nat \<Rightarrow> nat \<Rightarrow> bytes" where
  "toy_nonces i j = replicate 24 (of_nat (i + j))"

definition toy_ops :: "store_op list" where
  "toy_ops = [SaveSession (toy_nonces 0 0) [1] [9], RatchetMaster (replicate 32 5) toy_nonces,
     Rotate \<lparr>rr_inbox = replicate 32 1, rr_outbox = replicate 32 2, rr_sessions = replicate 32 3, rr_nonce = toy_nonces\<rparr>]"

theorem at_rest_transparent_witness:
  "\<exists>s. open_store toy_sodium toy_nonces empty_db (replicate 32 8) = Returned s \<and>
     load_session toy_sodium [1] (fold (run toy_sodium) toy_ops s) = Some [9]"
proof -
  have "length (replicate 32 8 :: bytes) = kKeyLen" "\<forall>op\<in>set toy_ops. op_ok op"
    by (simp_all add: kKeyLen_def toy_ops_def toy_nonces_def kXNonce_def)
  from at_rest_transparent [OF toy_xchacha_ok this, of toy_nonces] obtain s p where
    s: "open_store toy_sodium toy_nonces empty_db (replicate 32 8) = Returned s" "open_store toy_sodium toy_nonces empty_db [] = Returned p"
      "same_reads toy_sodium (fold (run toy_sodium) toy_ops s) (fold (run toy_sodium) toy_ops p)" by (auto simp: Let_def)
  have "p = plain_store empty_db" using s(2) by (simp add: open_store_def plain_store_def empty_db_def)
  then have "load_session toy_sodium [1] (fold (run toy_sodium) toy_ops p) = Some [9]"
    by (simp add: toy_ops_def save_session_def not_null_def rotate_storage_keys_def ratchet_storage_master_def load_session_def to_disk_def
        plain_store_def from_disk_def)
  with s show ?thesis by (auto simp: same_reads_def)
qed

subsection \<open>Migration\<close>

text \<open>A database that no key has touched.\<close>

definition legacy :: "database \<Rightarrow> bool" where
  "legacy d \<longleftrightarrow> user_version d = 0 \<and> t_storage_master d = None \<and> t_storage_keys d = []"

lemma open_legacy:
  assumes "legacy d" "length mk = kKeyLen"
  shows "open_store lib n d mk = Returned \<lparr>db = migrate lib n (derive_table_keys lib mk) d, encrypt_at_rest = True, master_key = mk,
    storage_master = mk, storage_master_generation = 0, storage_keys_generation = 0, keys = derive_table_keys lib mk\<rparr>"
  using assms by (auto simp: legacy_def open_store_def resolve_master_def resolve_keys_def load_wrapped_def kKeyLen_def)

lemma migrate_ok:
  assumes "xchacha_ok lib" "\<forall>i j. length (n i j) = kXNonce" "length mk = kKeyLen" "legacy d"
    and "t_chan_state d = []" "t_mls_state d = []" "t_mls_log d = []"
    and s: "open_store lib n d mk = Returned s"
  shows "store_ok lib s \<and> view lib s = plain_store d"
proof -
  let ?ks = "derive_table_keys lib mk"
  have s': "s = \<lparr>db = migrate lib n ?ks d, encrypt_at_rest = True, master_key = mk, storage_master = mk, storage_master_generation = 0,
      storage_keys_generation = 0, keys = ?ks\<rparr>" using open_legacy [OF assms(4,3)] s by simp
  have "unseal chan_get chan_put fst lib k [] = []" "unseal snd kv_put fst lib k ([] :: (bytes \<times> bytes) list) = []"
    "unseal snd kv_put log_aad lib k [] = []" for k by (simp_all add: unseal_def)
  then have "view_db lib ?ks (migrate lib n ?ks d) = d"
    using assms(2,4-7) by (simp add: view_db_def migrate_def legacy_def wrap_laws assms(1))
  moreover have "sealed_db lib ?ks (migrate lib n ?ks d)"
    using assms(2,4-7) by (simp add: sealed_db_def migrate_def legacy_def wrap_laws assms(1))
      (simp add: sealed_def sealed_or_empty_def)
  moreover have "keyed lib s"
    using assms(3,4) by (simp add: s' keyed_def legacy_def migrate_def resolve_master_def resolve_keys_def load_wrapped_def)
  ultimately show ?thesis by (simp add: store_ok_def view_def s')
qed

lemma reads_cong:
  assumes "encrypt_at_rest s = encrypt_at_rest s0" "keys s = keys s0" "t_sessions (db s) = t_sessions (db s0)"
    "t_inbox (db s) = t_inbox (db s0)" "t_outbox (db s) = t_outbox (db s0)" "t_chan_peers (db s) = t_chan_peers (db s0)"
    "t_chan_inbox (db s) = t_chan_inbox (db s0)"
  shows "load_session lib u s = load_session lib u s0" "recent_inbox lib k s = recent_inbox lib k s0"
    "recent_outbox lib k s = recent_outbox lib k s0" "chan_peers lib c s = chan_peers lib c s0"
    "chan_recent_inbox lib c k s = chan_recent_inbox lib c k s0"
proof -
  have "from_disk lib s = from_disk lib s0" using assms(1) by (simp add: from_disk_def fun_eq_iff)
  then show "load_session lib u s = load_session lib u s0" "recent_inbox lib k s = recent_inbox lib k s0"
    "recent_outbox lib k s = recent_outbox lib k s0" "chan_peers lib c s = chan_peers lib c s0"
    "chan_recent_inbox lib c k s = chan_recent_inbox lib c k s0"
    using assms by (simp_all add: load_session_def recent_inbox_def recent_outbox_def recent_def chan_peers_def chan_recent_inbox_def
        cong: option.case_cong)
qed

text \<open>Migration keeps messages and sessions: opening an unencrypted database with a key for the first
  time encrypts it in place, and sessions, both message tables, channel members and channel history
  read as before.\<close>

theorem migration_keeps_messages:
  assumes "xchacha_ok lib" and "\<forall>i j. length (n i j) = kXNonce" and "length mk = kKeyLen" and "legacy d"
  shows "\<exists>s p. open_store lib n d mk = Returned s \<and> open_store lib n d [] = Returned p \<and>
    load_session lib u s = load_session lib u p \<and> recent_inbox lib k s = recent_inbox lib k p \<and>
    recent_outbox lib k s = recent_outbox lib k p \<and> chan_peers lib c s = chan_peers lib c p \<and>
    chan_recent_inbox lib c k s = chan_recent_inbox lib c k p"
proof -
  let ?d = "d\<lparr>t_chan_state := [], t_mls_state := [], t_mls_log := []\<rparr>"
  have leg: "legacy ?d" using assms(4) by (simp add: legacy_def)
  obtain s s0 where s: "open_store lib n d mk = Returned s" "open_store lib n ?d mk = Returned s0"
    using open_legacy [OF assms(4,3)] open_legacy [OF leg assms(3)] by blast
  have same: "encrypt_at_rest s = encrypt_at_rest s0" "keys s = keys s0" "t_sessions (db s) = t_sessions (db s0)"
    "t_inbox (db s) = t_inbox (db s0)" "t_outbox (db s) = t_outbox (db s0)" "t_chan_peers (db s) = t_chan_peers (db s0)"
    "t_chan_inbox (db s) = t_chan_inbox (db s0)"
    using s open_legacy [OF assms(4,3), of lib n] open_legacy [OF leg assms(3), of lib n] by (auto simp: migrate_def Let_def)
  have "same_reads lib s0 (plain_store ?d)"
    using same_reads_view [of lib s0] migrate_ok [OF assms(1-3) leg _ _ _ s(2)] by simp
  moreover have "open_store lib n d [] = Returned (plain_store d)"
    using assms(4) by (simp add: open_store_def plain_store_def legacy_def)
  ultimately show ?thesis
    using s(1) reads_cong [OF same, of lib] reads_cong [of "plain_store d" "plain_store ?d" lib] by (simp add: same_reads_def)
qed

text \<open>A small database from before encryption.\<close>

definition toy_legacy :: database where
  "toy_legacy = empty_db\<lparr>t_sessions := [([1], [9])], t_chan_state := [([65], \<lparr>cr_id = [2], cr_dist = [7], cr_mls = False\<rparr>)],
     t_mls_state := [([2], [6])]\<rparr>"

theorem migration_keeps_messages_witness:
  "\<exists>s. open_store toy_sodium toy_nonces toy_legacy (replicate 32 8) = Returned s \<and> load_session toy_sodium [1] s = Some [9]"
proof -
  have h: "\<forall>i j. length (toy_nonces i j) = kXNonce" "length (replicate 32 8 :: bytes) = kKeyLen" "legacy toy_legacy"
    by (simp_all add: kKeyLen_def toy_nonces_def kXNonce_def legacy_def toy_legacy_def empty_db_def)
  have "open_store toy_sodium toy_nonces toy_legacy [] = Returned p \<Longrightarrow> load_session toy_sodium [1] p = Some [9]" for p
    by (auto simp: open_store_def toy_legacy_def empty_db_def load_session_def from_disk_def um_find_def)
  with migration_keeps_messages [OF toy_xchacha_ok h, of "[1]"] show ?thesis by metis
qed

text \<open>Migration loses channels: after the same first opening with a key, the distribution of a channel
  reads as empty although it was stored, and loading an MLS group that was stored fails with an
  exception. The row of the channel is not rewritten because its name is bound as a BLOB, and the MLS
  tables are not migrated at all. (The stored plaintext is assumed not to be a valid ciphertext.)\<close>

theorem migration_loses_channels:
  assumes "length mk = kKeyLen" and "legacy d"
    and "(name, r) \<in> set (t_chan_state d)" and "cr_dist r \<noteq> []"
    and "aead_unwrap lib (k_chan_state (derive_table_keys lib mk)) (cr_dist r) name = None"
    and "um_find (t_mls_state d) c = Some seed" and "aead_unwrap lib (k_mls_state (derive_table_keys lib mk)) seed c = None"
  shows "\<exists>s p. open_store lib n d mk = Returned s \<and> open_store lib n d [] = Returned p \<and>
    (name, r) \<in> set (chan_list lib p) \<and> (name, r\<lparr>cr_dist := []\<rparr>) \<in> set (chan_list lib s) \<and> mls_group_load lib c s = Threw"
proof -
  have "open_store lib n d [] = Returned (plain_store d)" using assms(2) by (simp add: open_store_def plain_store_def legacy_def)
  with open_legacy [OF assms(2,1)] assms(3-7) show ?thesis
    by (force simp: chan_list_def mls_group_load_def migrate_def Let_def from_disk_def)
qed

theorem migration_loses_channels_witness:
  "\<exists>s. open_store toy_sodium toy_nonces toy_legacy (replicate 32 8) = Returned s \<and>
     ([65], \<lparr>cr_id = [2], cr_dist = [], cr_mls = False\<rparr>) \<in> set (chan_list toy_sodium s) \<and> mls_group_load toy_sodium [2] s = Threw"
proof -
  let ?r = "\<lparr>cr_id = [2], cr_dist = [7], cr_mls = False\<rparr>"
  have "length (replicate 32 8 :: bytes) = kKeyLen" "legacy toy_legacy" "([65], ?r) \<in> set (t_chan_state toy_legacy)" "cr_dist ?r \<noteq> []"
    "aead_unwrap toy_sodium (k_chan_state (derive_table_keys toy_sodium (replicate 32 8))) (cr_dist ?r) [65] = None"
    "um_find (t_mls_state toy_legacy) [2] = Some [6]"
    "aead_unwrap toy_sodium (k_mls_state (derive_table_keys toy_sodium (replicate 32 8))) [6] [2] = None"
    by (simp_all add: kKeyLen_def legacy_def toy_legacy_def empty_db_def um_find_def aead_unwrap_def kXNonce_def)
  from migration_loses_channels [OF this, of toy_nonces] show ?thesis by auto
qed
end
