(* ===== verification/Conversation.thy ===== *)
theory Conversation
  imports Session At_Rest
begin

text \<open>
  What two clients achieve together: from a published bundle through the handshake and the ratchet to
  delivered messages, sealed senders, the pins on post-quantum capability, and what goes wrong.
\<close>

subsection \<open>Sessions in their map\<close>

lemma session_at_put [simp]:
  "om_invar (sessions c) \<Longrightarrow> session_at n (put_session m s c) = (if n = m then s else session_at n c)"
  by (simp add: session_at_def put_session_def om_find_assign)

lemma put_session_simps [simp]:
  "cl_id (put_session n s c) = cl_id c" "cl_x (put_session n s c) = cl_x c" "cl_pq (put_session n s c) = cl_pq c"
  "cl_store (put_session n s c) = cl_store c" "send_queue (put_session n s c) = send_queue c" "outgoing (put_session n s c) = outgoing c"
  "om_invar (sessions c) \<Longrightarrow> om_invar (sessions (put_session n s c))"
  by (simp_all add: put_session_def om_invar_assign)

lemma put_session_empty: "sessions c = [] \<Longrightarrow> sessions (put_session n s c) = [(n, s)]"
  by (simp add: put_session_def)

lemma put_session_single: "sessions c = [(n, s')] \<Longrightarrow> sessions (put_session n s c) = [(n, s)]"
  by (simp add: put_session_def)

lemma session_at_single: "sessions c = [(n, s)] \<Longrightarrow> session_at n c = s"
  by (simp add: session_at_def om_find_def)

subsection \<open>One message\<close>

text \<open>One client sends a text to the peer of its session, the other takes in the envelope.\<close>

type_synonym turn = "bytes \<times> send_draws \<times> bytes \<times> bytes \<times> u64"

definition exchange ::
  "sodium \<Rightarrow> hs_lib \<Rightarrow> ratchet_message pb \<Rightarrow> dm_payload pb \<Rightarrow> (bytes \<Rightarrow> bytes) \<Rightarrow> turn \<Rightarrow> dm_client \<Rightarrow> dm_client \<Rightarrow>
     (bytes \<times> dm_body) option \<times> dm_client \<times> dm_client" where
  "exchange lib hl pb dpb fp t a b =
     (case t of (text, d, rnd, nonce, rx) \<Rightarrow>
      case worker_sends lib hl pb dpb fp (\<lambda>_. d) (send_to_peer (fst (hd (sessions a))) text a) of
        (Threw, a') \<Rightarrow> (None, a', b)
      | (Returned _, a') \<Rightarrow>
          (case last (outgoing a') of
             FEnvelope e \<Rightarrow>
               (case deliver_dm lib hl pb dpb (\<lambda>_. rnd) nonce rx e b of
                  (Returned (Some (p, payload)), b') \<Rightarrow> (Some (p, dm_body payload), a', b')
                | (_, b') \<Rightarrow> (None, a', b'))
           | _ \<Rightarrow> (None, a', b)))"

text \<open>The payload of a body and its envelope.\<close>

definition sent_payload :: "hs_lib \<Rightarrow> dm_payload pb \<Rightarrow> dm_client \<Rightarrow> dm_session \<Rightarrow> dm_body \<Rightarrow> send_draws \<Rightarrow> dm_payload" where
  "sent_payload hl dpb a s body d =
     (if seal_outbound s
      then (dm_of (body))\<lparr>sealed_sender_pubkey := id_pub (cl_id a),
        sealed_sender_sig := ed_sign hl (id_sec (cl_id a)) (sealed_sender_sig_input (d_envid d) (d_now d) (sess_peer_pub s))\<rparr>
      else dm_of (body))"

definition sent_envelope :: "dm_client \<Rightarrow> dm_session \<Rightarrow> send_draws \<Rightarrow> bytes \<Rightarrow> envelope" where
  "sent_envelope a s d m = \<lparr>envelope_id = d_envid d, timestamp_ms = d_now d, sender_pubkey = (if seal_outbound s then [] else id_pub (cl_id a)),
     ciphertext = m, env_aad = envelope_aad_bytes (d_envid d) (d_now d), aead_alg = 1, protocol_version = 1, env_signature = [],
     pq_ct = sess_pq_ct s, rcpt = UserPubkey (sess_peer_pub s)\<rparr>"

lemma om_find_single [simp]: "om_find [(n, s)] n = Some s"
  by (simp add: om_find_def)

lemma build_sent:
  assumes dpb: "pb_ok dpb"
    and enc: "ratchet_encrypt lib pb r (pb_ser dpb (sent_payload hl dpb a s body d)) (envelope_aad_bytes (d_envid d) (d_now d)) = (Returned m, r')"
  shows "build_envelope lib hl pb dpb (cl_id a) (d_envid d) (d_now d) s r (pb_ser dpb (dm_of body)) =
    (Returned (sent_envelope a s d m), s\<lparr>rat := Some r'\<rparr>)"
proof -
  have "(if seal_outbound s then seal_dm_payload hl dpb (cl_id a) (d_envid d) (d_now d) (sess_peer_pub s) (pb_ser dpb (dm_of body))
      else pb_ser dpb (dm_of body)) = pb_ser dpb (sent_payload hl dpb a s body d)"
    using dpb by (simp add: sent_payload_def seal_dm_payload_def pb_okD make_sealed_sender_fields_def)
  then show ?thesis using enc by (simp add: build_envelope_def sent_envelope_def Let_def)
qed

lemma worker_sends_text:
  assumes a: "sessions a = [(n, s)]" "rat s = Some r" "send_queue a = []" and dpb: "pb_ok dpb"
    and enc: "ratchet_encrypt lib pb r (pb_ser dpb (sent_payload hl dpb a s (DmText text) d)) (envelope_aad_bytes (d_envid d) (d_now d)) = (Returned m, r')"
  shows "\<exists>a'. worker_sends lib hl pb dpb fp (\<lambda>_. d) (send_to_peer n text a) = (Returned (), a') \<and>
    sessions a' = [(n, s\<lparr>rat := Some r'\<rparr>)] \<and> cl_id a' = cl_id a \<and> send_queue a' = [] \<and>
    outgoing a' = outgoing a @ [FEnvelope (sent_envelope a s d m)]"
  using build_sent [OF dpb enc] a
  by (simp add: pack_text_payload_def worker_sends_def send_to_peer_def send_one_def rebind_fingerprint_def session_at_def put_session_def emit_frame_def Let_def)

lemma sealed_resolves:
  assumes b: "sessions b = [(n, s)]" "rat s = Some r" "sess_peer_pub s = pk" and sign: "sign_ok hl"
    and keys: "pk = fst (ed_keypair hl seed)" and dpb: "pb_ok dpb"
    and e: "sender_pubkey e = []" "rcpt e = UserPubkey u"
    and p: "sealed_sender_pubkey p = pk"
      "sealed_sender_sig p = ed_sign hl (snd (ed_keypair hl seed)) (sealed_sender_sig_input (envelope_id e) (timestamp_ms e) (id_pub (cl_id b)))"
    and hdr: "\<not> header_matches_recv_chain pb r (ciphertext e)"
    and dec: "ratchet_decrypt lib pb (rnd n) r (ciphertext e) (env_aad e) = (Returned (Some (pb_ser dpb p)), r')"
  shows "resolve_sender lib hl pb dpb rnd e b =
    (Returned (Some (pk, Some (pb_ser dpb p))), b\<lparr>sessions := [(n, s\<lparr>rat := Some r', seal_outbound := True\<rparr>)]\<rparr>)"
proof -
  have "try_session lib hl pb dpb (id_pub (cl_id b)) (rnd n) e s r = (Returned (Some (pb_ser dpb p)), s\<lparr>rat := Some r', seal_outbound := True\<rparr>)"
    using sign p b(3) unfolding keys by (simp add: try_session_def ratchet_try_decrypt_def dec pb_okD [OF dpb] verify_sealed_sender_def sign_ok_def)
  then show ?thesis using b e hdr by (simp add: resolve_sender_def)
qed

lemma receive_known:
  assumes b: "sessions b = [(n, s)]" "rat s = Some r" "sess_peer_pub s = id_pub (cl_id a)" and sign: "sign_ok hl"
    and a: "cl_id a = \<lparr>id_pub = fst (ed_keypair hl seed), id_sec = snd (ed_keypair hl seed)\<rparr>" and dpb: "pb_ok dpb"
    and sa: "sess_peer_pub sa = id_pub (cl_id b)"
    and hdr: "\<not> header_matches_recv_chain pb r m"
    and dec: "ratchet_decrypt lib pb rnd r m (envelope_aad_bytes (d_envid d) (d_now d)) = (Returned (Some (pb_ser dpb p)), r')"
    and p: "p = sent_payload hl dpb a sa body d"
  shows "\<exists>b' s'. deliver_dm lib hl pb dpb (\<lambda>_. rnd) nonce rx (sent_envelope a sa d m) b = (Returned (Some (id_pub (cl_id a), p)), b') \<and>
    sessions b' = [(n, s')] \<and> rat s' = Some r' \<and> sess_peer_pub s' = sess_peer_pub s \<and> cl_id b' = cl_id b \<and> send_queue b' = send_queue b"
proof -
  let ?e = "sent_envelope a sa d m"
  have len: "length (id_pub (cl_id a)) = 32" using sign by (simp add: a sign_ok_def)
  then have ne: "id_pub (cl_id a) \<noteq> []" by auto
  obtain pt s1 where res: "resolve_sender lib hl pb dpb (\<lambda>_. rnd) ?e b = (Returned (Some (id_pub (cl_id a), pt)), b\<lparr>sessions := [(n, s1)]\<rparr>)"
    and s1: "sess_peer_pub s1 = sess_peer_pub s" "rat s1 \<noteq> None"
    and pt: "pt = None \<and> s1 = s \<or> pt = Some (pb_ser dpb p) \<and> rat s1 = Some r'"
  proof (cases "seal_outbound sa")
    case True
    have "resolve_sender lib hl pb dpb (\<lambda>_. rnd) ?e b =
        (Returned (Some (id_pub (cl_id a), Some (pb_ser dpb p))), b\<lparr>sessions := [(n, s\<lparr>rat := Some r', seal_outbound := True\<rparr>)]\<rparr>)"
      using True dec hdr sa by (intro sealed_resolves [OF b sign _ dpb]) (simp_all add: a p sent_envelope_def sent_payload_def)
    then show ?thesis by (intro that [of "Some (pb_ser dpb p)" "s\<lparr>rat := Some r', seal_outbound := True\<rparr>"]) simp_all
  next
    case False
    then have "resolve_sender lib hl pb dpb (\<lambda>_. rnd) ?e b = (Returned (Some (id_pub (cl_id a), None)), b\<lparr>sessions := [(n, s)]\<rparr>)"
      using len ne b(1) by (simp add: resolve_sender_def sent_envelope_def)
    then show ?thesis using b(2) by (intro that [of None s]) simp_all
  qed
  let ?b = "b\<lparr>sessions := [(n, s1)]\<rparr>"
  have acc: "accept_session lib hl ?e (id_pub (cl_id a)) ?b = (Returned (Some n), ?b)"
    using s1 b(3) by (simp add: accept_session_def live_session_def session_at_def put_session_def)
  have open': "\<exists>b' s'. open_dm lib pb rnd ?e pt n ?b = (Returned (Some (pb_ser dpb p)), b') \<and> sessions b' = [(n, s')] \<and> rat s' = Some r' \<and>
      sess_peer_pub s' = sess_peer_pub s \<and> cl_id b' = cl_id b \<and> send_queue b' = send_queue b"
    using pt dec s1(1) b(2)
    by (elim disjE) (simp_all add: open_dm_def session_at_def put_session_def sent_envelope_def Let_def)
  then obtain b' s' where o: "open_dm lib pb rnd ?e pt n ?b = (Returned (Some (pb_ser dpb p)), b')" "sessions b' = [(n, s')]"
    "rat s' = Some r'" "sess_peer_pub s' = sess_peer_pub s" "cl_id b' = cl_id b" "send_queue b' = send_queue b" by blast
  show ?thesis
    unfolding deliver_dm_def receive_dm_def res using o
    by (auto simp: acc pb_okD [OF dpb] emit_frame_def split: option.splits)
qed


lemma pending_header:
  assumes "pb_ok pb" "pending lib ra rb" "ratchet_encrypt lib pb ra pt aad = (Returned m, ra')"
  shows "\<not> header_matches_recv_chain pb rb m"
  using assms by (auto simp: ratchet_encrypt_def Let_def case_prod_beta header_matches_recv_chain_def pending_def pb_okD)

subsection \<open>A conversation\<close>

text \<open>Two clients with one session each, for one another; the first is to send. \<open>ra\<close> and \<open>rb\<close> are their
  ratchets.\<close>

definition paired :: "sodium \<Rightarrow> dm_client \<Rightarrow> dm_client \<Rightarrow> ratchet_state \<Rightarrow> ratchet_state \<Rightarrow> bool" where
  "paired lib a b ra rb \<longleftrightarrow> pending lib ra rb \<and> send_queue a = [] \<and> send_queue b = [] \<and>
     (\<exists>na sa nb sb. sessions a = [(na, sa)] \<and> sessions b = [(nb, sb)] \<and> rat sa = Some ra \<and> rat sb = Some rb \<and>
        sess_peer_pub sa = id_pub (cl_id b) \<and> sess_peer_pub sb = id_pub (cl_id a))"

lemma paired_turn:
  assumes lib: "xchacha_ok lib" "pb_ok pb" "dh_ok lib" "sign_ok hl" "pb_ok dpb" and p: "paired lib a b ra rb"
    and a: "cl_id a = \<lparr>id_pub = fst (ed_keypair hl seed), id_sec = snd (ed_keypair hl seed)\<rparr>"
    and fresh: "scalarmult_base lib rnd \<noteq> dhs_pub rb"
  shows "\<exists>a' b' ra' rb'. exchange lib hl pb dpb fp (text, d, rnd, nonce, rx) a b = (Some (id_pub (cl_id a), DmText text), a', b') \<and>
    paired lib b' a' rb' ra' \<and> cl_id a' = cl_id a \<and> cl_id b' = cl_id b \<and> dhs_pub rb' = scalarmult_base lib rnd \<and> dhs_pub ra' = dhs_pub ra"
proof -
  obtain na sa nb sb where s: "sessions a = [(na, sa)]" "sessions b = [(nb, sb)]" "rat sa = Some ra" "rat sb = Some rb"
    "sess_peer_pub sa = id_pub (cl_id b)" "sess_peer_pub sb = id_pub (cl_id a)" "send_queue a = []" "send_queue b = []" "pending lib ra rb"
    using p by (auto simp: paired_def)
  let ?p = "sent_payload hl dpb a sa (DmText text) d" and ?aad = "envelope_aad_bytes (d_envid d) (d_now d)"
  obtain m ra' rb' where t: "ratchet_encrypt lib pb ra (pb_ser dpb ?p) ?aad = (Returned m, ra')"
    "ratchet_decrypt lib pb rnd rb m ?aad = (Returned (Some (pb_ser dpb ?p)), rb')" "pending lib rb' ra'"
    "dhs_pub rb' = scalarmult_base lib rnd" "dhs_pub ra' = dhs_pub ra"
    using pending_turn [OF lib(1-3) s(9) fresh] by blast
  obtain a' where a': "worker_sends lib hl pb dpb fp (\<lambda>_. d) (send_to_peer na text a) = (Returned (), a')"
    "sessions a' = [(na, sa\<lparr>rat := Some ra'\<rparr>)]" "cl_id a' = cl_id a" "send_queue a' = []"
    "outgoing a' = outgoing a @ [FEnvelope (sent_envelope a sa d m)]"
    using worker_sends_text [OF s(1,3,7) lib(5) t(1)] by blast
  obtain b' s' where b': "deliver_dm lib hl pb dpb (\<lambda>_. rnd) nonce rx (sent_envelope a sa d m) b = (Returned (Some (id_pub (cl_id a), ?p)), b')"
    "sessions b' = [(nb, s')]" "rat s' = Some rb'" "sess_peer_pub s' = sess_peer_pub sb" "cl_id b' = cl_id b" "send_queue b' = send_queue b"
    using receive_known [OF s(2,4,6) lib(4) a lib(5) s(5) pending_header [OF lib(2) s(9) t(1)] t(2) refl] by blast
  have "exchange lib hl pb dpb fp (text, d, rnd, nonce, rx) a b = (Some (id_pub (cl_id a), DmText text), a', b')"
    by (simp add: exchange_def s(1) a'(1,5) b'(1) sent_payload_def dm_of_def)
  moreover have "paired lib b' a' rb' ra'" using a' b' s t by (simp add: paired_def)
  ultimately show ?thesis using a'(3) b'(5) t(4,5) by blast
qed

fun talk ::
  "sodium \<Rightarrow> hs_lib \<Rightarrow> ratchet_message pb \<Rightarrow> dm_payload pb \<Rightarrow> (bytes \<Rightarrow> bytes) \<Rightarrow> dm_client \<Rightarrow> dm_client \<Rightarrow> turn list \<Rightarrow> (bytes \<times> dm_body) option list" where
  "talk lib hl pb dpb fp a b [] = []"
| "talk lib hl pb dpb fp a b (t # ts) =
     (case exchange lib hl pb dpb fp t a b of (res, a', b') \<Rightarrow> res # talk lib hl pb dpb fp b' a' ts)"

text \<open>Each text arrives under the identity key of its sender.\<close>

fun spoken :: "bytes \<Rightarrow> bytes \<Rightarrow> turn list \<Rightarrow> (bytes \<times> dm_body) option list" where
  "spoken x y [] = []"
| "spoken x y (t # ts) = Some (x, DmText (fst t)) # spoken y x ts"

definition drawn :: "sodium \<Rightarrow> turn list \<Rightarrow> bytes list" where
  "drawn lib ts = map (\<lambda>(text, d, rnd, nonce, rx). scalarmult_base lib rnd) ts"

lemma talk_paired:
  assumes lib: "xchacha_ok lib" "pb_ok pb" "dh_ok lib" "sign_ok hl" "pb_ok dpb"
    and "paired lib a b ra rb" and "distinct (dhs_pub ra # dhs_pub rb # drawn lib ts)"
    and "cl_id a = \<lparr>id_pub = fst (ed_keypair hl sa), id_sec = snd (ed_keypair hl sa)\<rparr>"
    and "cl_id b = \<lparr>id_pub = fst (ed_keypair hl sb), id_sec = snd (ed_keypair hl sb)\<rparr>"
  shows "talk lib hl pb dpb fp a b ts = spoken (id_pub (cl_id a)) (id_pub (cl_id b)) ts"
  using assms(6-9)
proof (induction ts arbitrary: a b ra rb sa sb)
  case (Cons t ts)
  obtain u d rnd nonce rx where t: "t = (u, d, rnd, nonce, rx)" by (metis surj_pair)
  have "scalarmult_base lib rnd \<noteq> dhs_pub rb" using Cons.prems(2) by (auto simp: t drawn_def)
  then obtain a' b' ra' rb' where x: "exchange lib hl pb dpb fp t a b = (Some (id_pub (cl_id a), DmText u), a', b')"
    "paired lib b' a' rb' ra'" "cl_id a' = cl_id a" "cl_id b' = cl_id b" "dhs_pub rb' = scalarmult_base lib rnd" "dhs_pub ra' = dhs_pub ra"
    using paired_turn [OF lib Cons.prems(1,3)] unfolding t by blast
  have "distinct (dhs_pub rb' # dhs_pub ra' # drawn lib ts)" using Cons.prems(2) x(5,6) by (auto simp: t drawn_def)
  from Cons.IH [OF x(2) this] Cons.prems(3,4) x(1,3,4) show ?case by (simp add: t)
qed simp


subsection \<open>First contact\<close>

lemma published_at_irrelevant [simp]:
  "derive_hybrid_send_from_bundle lib hl re x y (b\<lparr>published_at_ms := now\<rparr>) = derive_hybrid_send_from_bundle lib hl re x y b"
  unfolding derive_hybrid_send_from_bundle_def verify_bundle_pq_sigs_def
  by (cases b) (simp only: prekey_bundle.select_convs prekey_bundle.update_convs)

lemma publish_bundle_fields [simp]:
  "identity_pubkey (publish_bundle hl True now i x pq pqs) = id_pub i" "signed_prekey (publish_bundle hl True now i x pq pqs) = xp_pub x"
  "pq_pubkey (publish_bundle hl True now i x pq pqs) = pq_pub pq"
  by (simp_all add: publish_bundle_def add_pq_sig_fields_to_bundle_def Let_def)

text \<open>A client after signing in: its keys derive from its seed.\<close>

definition signed_in :: "sodium \<Rightarrow> hs_lib \<Rightarrow> bytes \<Rightarrow> dm_client \<Rightarrow> bool" where
  "signed_in lib hl seed c \<longleftrightarrow>
     cl_id c = \<lparr>id_pub = fst (ed_keypair hl seed), id_sec = snd (ed_keypair hl seed)\<rparr> \<and>
     derive_x25519 hl (cl_id c) = Inr (cl_x c) \<and> cl_pq c = derive_pq_identity lib hl (cl_id c) seed"

definition own_bundle :: "sodium \<Rightarrow> hs_lib \<Rightarrow> u64 \<Rightarrow> bytes \<Rightarrow> dm_client \<Rightarrow> prekey_bundle" where
  "own_bundle lib hl now seed c = publish_bundle hl True now (cl_id c) (cl_x c) (cl_pq c) (derive_pq_sig_identity lib hl (cl_id c) seed)"

lemma own_bundle_agrees:
  assumes lib: "dh_ok lib" "curve_ok lib hl" "sign_ok hl" "kem_ok hl" and a: "signed_in lib hl sa a" and b: "signed_in lib hl sb b"
  shows "\<exists>r. derive_hybrid_send_from_bundle lib hl re (cl_x a) (xp_pub (cl_x b)) (own_bundle lib hl now sb b) = Inr r \<and>
    (\<forall>env. pq_ct env = hs_pq_ct r \<longrightarrow>
      derive_hybrid_recv_from_env lib hl (cl_x b) (xp_pub (cl_x a)) (pq_sec (cl_pq b)) env = Inr (hs_shared r))"
proof -
  let ?b0 = "empty_bundle\<lparr>identity_pubkey := id_pub (cl_id b), signed_prekey := xp_pub (cl_x b), pq_pubkey := pq_pub (cl_pq b),
    pq_pubkey_sig := pq_sig (cl_pq b)\<rparr>"
  have ids: "cl_id a = \<lparr>id_pub = fst (ed_keypair hl sa), id_sec = snd (ed_keypair hl sa)\<rparr>"
    "cl_id b = \<lparr>id_pub = fst (ed_keypair hl sb), id_sec = snd (ed_keypair hl sb)\<rparr>" "cl_pq b = derive_pq_identity lib hl (cl_id b) sb"
    and x: "derive_x25519 hl (cl_id a) = Inr (cl_x a)" "derive_x25519 hl (cl_id b) = Inr (cl_x b)"
    using a b unfolding signed_in_def by blast+
  obtain priv where "cl_x b = \<lparr>xp_pub = scalarmult_base lib priv, xp_priv = priv\<rparr>"
    using derive_x25519_keypair [OF lib(2), of sb] x(2) ids(2) by (metis sum.inject(2))
  then have len: "length (xp_pub (cl_x b)) = 32" using dh_okD(1) [OF lib(1)] by simp
  have ob: "own_bundle lib hl now sb b =
      (add_pq_sig_fields_to_bundle hl (derive_pq_sig_identity lib hl (cl_id b) sb) ?b0)\<lparr>published_at_ms := now\<rparr>"
    by (simp add: own_bundle_def publish_bundle_def Let_def)
  let ?agree = "\<lambda>r env. pq_ct env = hs_pq_ct r \<longrightarrow>
      derive_hybrid_recv_from_env lib hl (cl_x b) (xp_pub (cl_x a)) (pq_sec (cl_pq b)) env = Inr (hs_shared r)"
  have h: "\<exists>r. derive_hybrid_send_from_bundle lib hl re (cl_x a) (xp_pub (cl_x b)) (own_bundle lib hl now sb b) = Inr r \<and> ?agree r env" for env
    using hybrid_handshake_completes [OF lib ids(2,1), of ?b0 re env] len x ids(3) by (auto simp: ob)
  then obtain r where r: "derive_hybrid_send_from_bundle lib hl re (cl_x a) (xp_pub (cl_x b)) (own_bundle lib hl now sb b) = Inr r" by blast
  have "?agree r env" for env using h [of env] r by simp
  with r show ?thesis by blast
qed

lemma derive_x25519_pub: "derive_x25519 hl i = Inr x \<Longrightarrow> pk_to_curve hl (id_pub i) = Some (xp_pub x)"
  by (auto simp: derive_x25519_def split: option.splits)

lemma open_honest:
  assumes lib: "dh_ok lib" "curve_ok lib hl" "sign_ok hl" "kem_ok hl" and ab: "signed_in lib hl sa a" "signed_in lib hl sb b"
    and a: "sessions a = []" "pending_fetch_targets a = t # ts" "t \<noteq> []" "send_queue a = []"
    and r: "derive_hybrid_send_from_bundle lib hl re (cl_x a) (xp_pub (cl_x b)) (own_bundle lib hl now sb b) = Inr r"
    and xb: "cl_x b = \<lparr>xp_pub = scalarmult_base lib priv, xp_priv = priv\<rparr>"
  shows "\<exists>d a' s ra. handle_key_fetch_resp lib hl re rr now' True (own_bundle lib hl now sb b) a = (Returned d, a') \<and>
    sessions a' = [(t, s)] \<and> rat s = Some ra \<and> init_alice lib rr (hs_shared r) (xp_pub (cl_x b)) = Returned ra \<and>
    sess_peer_pub s = id_pub (cl_id b) \<and> \<not> seal_outbound s \<and> sess_pq_ct s = hs_pq_ct r \<and> cl_id a' = cl_id a \<and> cl_x a' = cl_x a \<and> send_queue a' = []"
proof -
  let ?b = "own_bundle lib hl now sb b"
  have f: "identity_pubkey ?b = id_pub (cl_id b)" "signed_prekey ?b = xp_pub (cl_x b)" "pq_pubkey ?b = pq_pub (cl_pq b)"
    by (simp_all add: own_bundle_def)
  have len: "length (id_pub (cl_id b)) = 32" "length (xp_pub (cl_x b)) = 32"
    using ab(2) lib(3) dh_okD(1) [OF lib(1)] by (simp_all add: signed_in_def sign_ok_def xb)
  have pq: "pq_pub (cl_pq b) \<noteq> []"
    using ab(2) lib(4) by (auto simp: signed_in_def derive_pq_identity_def kem_ok_def kMlKem768PubBytes_def case_prod_beta dest: arg_cong [of _ _ length])
  obtain ra where ra: "init_alice lib rr (hs_shared r) (xp_pub (cl_x b)) = Returned ra"
    using dh_okD(2) [OF lib(1), of rr priv] by (auto simp: init_alice_def x25519_keypair_def xb case_prod_beta)
  have "\<exists>st. pq_tofu_admit now' (id_pub (cl_id b)) True (cl_store a) = (True, st)"
    by (cases "cl_store a") (simp_all add: pq_tofu_admit_def is_pq_capability_downgrade_def Let_def)
  then obtain st where st: "pq_tofu_admit now' (id_pub (cl_id b)) True (cl_store a) = (True, st)" by blast
  let ?a = "a\<lparr>pending_fetch_targets := ts, cl_store := st\<rparr>"
  have op: "\<exists>s a'. open_session lib hl re rr t ?b ?a = (Returned (), a') \<and> sessions a' = [(t, s)] \<and> rat s = Some ra \<and>
      sess_peer_pub s = id_pub (cl_id b) \<and> \<not> seal_outbound s \<and> sess_pq_ct s = hs_pq_ct r \<and> cl_id a' = cl_id a \<and> cl_x a' = cl_x a \<and> send_queue a' = []"
    using r ra a by (simp add: open_session_def session_at_def put_session_def f pq Let_def)
  have keep: "sessions (snd (mesh_retry t c)) = sessions c \<and> cl_id (snd (mesh_retry t c)) = cl_id c \<and> cl_x (snd (mesh_retry t c)) = cl_x c \<and>
      send_queue (snd (mesh_retry t c)) = send_queue c" for c
    by (simp add: mesh_retry_def Let_def split: option.split)
  from op obtain s a' where o: "open_session lib hl re rr t ?b ?a = (Returned (), a')" "sessions a' = [(t, s)]" "rat s = Some ra"
    "sess_peer_pub s = id_pub (cl_id b)" "\<not> seal_outbound s" "sess_pq_ct s = hs_pq_ct r" "cl_id a' = cl_id a" "cl_x a' = cl_x a" "send_queue a' = []" by blast
  obtain d a2 where m: "mesh_retry t a' = (d, a2)" by fastforce
  have "handle_key_fetch_resp lib hl re rr now' True ?b a = (Returned d, a2)"
    using a len pq st o(1) m by (simp add: handle_key_fetch_resp_def f live_session_def)
  with keep [of a'] m o ra show ?thesis by auto
qed

text \<open>The receiver after it has accepted a first message.\<close>

definition accepted :: "bytes \<Rightarrow> bytes \<Rightarrow> bytes \<Rightarrow> dm_client \<Rightarrow> dm_client" where
  "accepted p x sh b = b\<lparr>sessions := [(str_bytes ''peer:'' @ take 8 p, empty_session\<lparr>rat := Some (init_bob sh (xp_priv (cl_x b)) (xp_pub (cl_x b))),
     sess_peer_pub := p, sess_peer_x := x\<rparr>)]\<rparr>"

lemma accept_first:
  assumes b: "sessions b = []" and curve: "pk_to_curve hl p = Some x" "length p = 32"
    and sh: "derive_hybrid_recv_from_env lib hl (cl_x b) x (pq_sec (cl_pq b)) e = Inr sh"
    and e: "sender_pubkey e = p"
  shows "deliver_dm lib hl pb dpb rnd nonce rx e b = deliver_dm lib hl pb dpb rnd nonce rx e (accepted p x sh b)"
proof -
  let ?n = "str_bytes ''peer:'' @ take 8 p"
  have "p \<noteq> []" using curve(2) by auto
  then have res: "resolve_sender lib hl pb dpb rnd e c = (Returned (Some (p, None)), c)" for c
    using e curve(2) by (simp add: resolve_sender_def)
  have "accept_session lib hl e p b = (Returned (Some ?n), accepted p x sh b)"
    using b curve sh by (simp add: accept_session_def live_session_def session_at_def put_session_def empty_session_def accepted_def Let_def)
  moreover have "accept_session lib hl e p (accepted p x sh b) = (Returned (Some ?n), accepted p x sh b)"
    by (simp add: accept_session_def live_session_def session_at_def put_session_def accepted_def Let_def)
  ultimately show ?thesis by (simp add: deliver_dm_def receive_dm_def res)
qed

lemma talk_first:
  assumes a: "sessions a = [(n, s)]" "rat s = Some r" "have_cks r" "send_queue a = []" "\<not> seal_outbound s" and dpb: "pb_ok dpb"
    and b: "sessions b = []" and curve: "pk_to_curve hl (id_pub (cl_id a)) = Some x" "length (id_pub (cl_id a)) = 32"
    and sh: "\<And>e. pq_ct e = sess_pq_ct s \<Longrightarrow> derive_hybrid_recv_from_env lib hl (cl_x b) x (pq_sec (cl_pq b)) e = Inr sh"
  shows "talk lib hl pb dpb fp a b ts = talk lib hl pb dpb fp a (accepted (id_pub (cl_id a)) x sh b) ts"
proof (cases ts)
  case (Cons t ts')
  obtain u d rnd nonce rx where t: "t = (u, d, rnd, nonce, rx)" by (metis surj_pair)
  obtain m r' where enc: "ratchet_encrypt lib pb r (pb_ser dpb (sent_payload hl dpb a s (DmText u) d)) (envelope_aad_bytes (d_envid d) (d_now d)) = (Returned m, r')"
    using a(3) by (simp add: ratchet_encrypt_def Let_def case_prod_beta)
  obtain a' where a': "worker_sends lib hl pb dpb fp (\<lambda>_. d) (send_to_peer n u a) = (Returned (), a')"
    "outgoing a' = outgoing a @ [FEnvelope (sent_envelope a s d m)]"
    using worker_sends_text [OF a(1,2,4) dpb enc] by blast
  have "deliver_dm lib hl pb dpb (\<lambda>_. rnd) nonce rx (sent_envelope a s d m) b =
      deliver_dm lib hl pb dpb (\<lambda>_. rnd) nonce rx (sent_envelope a s d m) (accepted (id_pub (cl_id a)) x sh b)"
    using a(5) by (intro accept_first [OF b curve]) (simp_all add: sh sent_envelope_def)
  with a(1) a' show ?thesis by (simp add: Cons t exchange_def)
qed simp

subsection \<open>Sealed senders\<close>

text \<open>A payload that proves its sender for this envelope and recipient.\<close>

definition attributed :: "hs_lib \<Rightarrow> dm_payload pb \<Rightarrow> bytes \<Rightarrow> envelope \<Rightarrow> bytes \<Rightarrow> bytes \<Rightarrow> bool" where
  "attributed hl dpb my_pub env p pt \<longleftrightarrow>
     (\<exists>payload. pb_parse dpb pt = Some payload \<and> sealed_sender_pubkey payload = p \<and>
        ed_check hl p (sealed_sender_sig_input (envelope_id env) (timestamp_ms env) my_pub) (sealed_sender_sig payload))"

lemma try_session_sound:
  assumes "try_session lib hl pb dpb my_pub rnd env s r = (res, s')"
  shows "sess_peer_pub s' = sess_peer_pub s" and "res = Returned (Some pt) \<Longrightarrow> attributed hl dpb my_pub env (sess_peer_pub s) pt"
  using assms
  by (auto simp: try_session_def attributed_def verify_sealed_sender_def Let_def split: prod.splits outcome.splits option.splits if_splits)

lemma try_pass_sound:
  assumes "try_pass lib hl pb dpb my_pub rnd env matched m = (res, m')"
  shows "map (\<lambda>(n, s). sess_peer_pub s) m' = map (\<lambda>(n, s). sess_peer_pub s) m \<and>
    (\<forall>p pt. res = Returned (Some (p, pt)) \<longrightarrow> p \<in> set (map (\<lambda>(n, s). sess_peer_pub s) m) \<and> attributed hl dpb my_pub env p pt)"
  using assms
proof (induction m arbitrary: m' res)
  case (Cons e m)
  obtain n s where e: "e = (n, s)" by fastforce
  obtain res0 m0 where tail: "try_pass lib hl pb dpb my_pub rnd env matched m = (res0, m0)" by fastforce
  note IH = Cons.IH [OF tail]
  consider (skip) "res = res0" "m' = (n, s) # m0"
    | (tried) r res1 s1 where "try_session lib hl pb dpb my_pub (rnd n) env s r = (res1, s1)"
        "res1 = Returned None \<and> res = res0 \<and> m' = (n, s1) # m0 \<or> res1 = Threw \<and> res = Threw \<and> m' = (n, s1) # m \<or>
         (\<exists>pt. res1 = Returned (Some pt) \<and> res = Returned (Some (sess_peer_pub s1, pt)) \<and> m' = (n, s1) # m)"
    using Cons.prems tail by (auto simp: e Let_def split: option.splits if_splits prod.splits outcome.splits)
  then show ?case
  proof cases
    case skip
    with IH show ?thesis by (auto simp: e)
  next
    case tried
    then show ?thesis using IH try_session_sound [OF tried(1)] by (auto simp: e)
  qed
qed simp

lemma run_pq_capable: "peer_pq_capable p s \<Longrightarrow> peer_pq_capable p (run lib op s)"
  by (cases op; auto simp: op_defs peer_pq_capable_def rotate_storage_keys_def ratchet_storage_master_def Let_def split: option.splits)

lemma fold_pq_capable: "peer_pq_capable p s \<Longrightarrow> peer_pq_capable p (fold (run lib) ops s)"
  by (induction ops arbitrary: s) (simp_all add: run_pq_capable)

subsection \<open>Properties\<close>

text \<open>C1. Two clients can talk: Bob publishes his bundle; Alice, who has queued a fetch for him, opens a
  session from it; from then on a conversation of any length in which the two take turns delivers
  every text, under the identity key of its sender. The first message establishes Bob's session
  from the envelope, later messages hide their sender from the relay and are attributed by trying the
  sessions. (The DH keys drawn are assumed different from one another; each of the two has no
  other session.)\<close>

theorem conversation_delivers:
  assumes "xchacha_ok lib" and "dh_ok lib" and "curve_ok lib hl" and "sign_ok hl" and "kem_ok hl" and "pb_ok pb" and "pb_ok dpb"
    and "signed_in lib hl sa alice" and "signed_in lib hl sb bob"
    and "sessions alice = []" and "send_queue alice = []" and "pending_fetch_targets alice = [bob_name]" and "bob_name \<noteq> []"
    and "sessions bob = []" and "send_queue bob = []"
    and "distinct (scalarmult_base lib rr # xp_pub (cl_x bob) # drawn lib turns)"
  shows "\<exists>dial alice'. handle_key_fetch_resp lib hl re rr now True (own_bundle lib hl published sb bob) alice = (Returned dial, alice') \<and>
    talk lib hl pb dpb fp alice' bob turns = spoken (id_pub (cl_id alice)) (id_pub (cl_id bob)) turns"
proof -
  note lib = assms(1-7) and ab = assms(8,9)
  obtain r where r: "derive_hybrid_send_from_bundle lib hl re (cl_x alice) (xp_pub (cl_x bob)) (own_bundle lib hl published sb bob) = Inr r"
    "\<And>env. pq_ct env = hs_pq_ct r \<Longrightarrow> derive_hybrid_recv_from_env lib hl (cl_x bob) (xp_pub (cl_x alice)) (pq_sec (cl_pq bob)) env = Inr (hs_shared r)"
    using own_bundle_agrees [OF lib(2-5) ab, of re published] by blast
  have ids: "cl_id alice = \<lparr>id_pub = fst (ed_keypair hl sa), id_sec = snd (ed_keypair hl sa)\<rparr>"
    "cl_id bob = \<lparr>id_pub = fst (ed_keypair hl sb), id_sec = snd (ed_keypair hl sb)\<rparr>"
    "derive_x25519 hl (cl_id alice) = Inr (cl_x alice)" "derive_x25519 hl (cl_id bob) = Inr (cl_x bob)"
    using ab unfolding signed_in_def by blast+
  obtain priv where xb: "cl_x bob = \<lparr>xp_pub = scalarmult_base lib priv, xp_priv = priv\<rparr>"
    using derive_x25519_keypair [OF lib(3), of sb] ids(2,4) by (metis sum.inject(2))
  have curve: "pk_to_curve hl (id_pub (cl_id alice)) = Some (xp_pub (cl_x alice))" "length (id_pub (cl_id alice)) = 32"
    using derive_x25519_pub [OF ids(3)] ids(1) lib(4) by (simp_all add: sign_ok_def)
  obtain d a' s ra where a': "handle_key_fetch_resp lib hl re rr now True (own_bundle lib hl published sb bob) alice = (Returned d, a')"
    "sessions a' = [(bob_name, s)]" "rat s = Some ra" "init_alice lib rr (hs_shared r) (xp_pub (cl_x bob)) = Returned ra"
    "sess_peer_pub s = id_pub (cl_id bob)" "\<not> seal_outbound s" "sess_pq_ct s = hs_pq_ct r" "cl_id a' = cl_id alice" "send_queue a' = []"
    using open_honest [OF lib(2-5) ab assms(10,12,13,11) r(1) xb] by blast
  let ?b = "accepted (id_pub (cl_id a')) (xp_pub (cl_x alice)) (hs_shared r) bob"
  let ?rb = "init_bob (hs_shared r) priv (scalarmult_base lib priv)"
  have pend: "pending lib ra ?rb" "dhs_pub ra = scalarmult_base lib rr"
    using init_pending [OF lib(2), of rr "hs_shared r" priv ra] a'(4) by (simp_all add: xb)
  have "paired lib a' ?b ra ?rb" using a' pend assms(15) by (simp add: paired_def accepted_def xb)
  moreover have "dhs_pub ?rb = xp_pub (cl_x bob)" by (simp add: init_bob_def xb)
  moreover have "cl_id ?b = cl_id bob" by (simp add: accepted_def)
  ultimately have "talk lib hl pb dpb fp a' ?b turns = spoken (id_pub (cl_id alice)) (id_pub (cl_id bob)) turns"
    using talk_paired [OF lib(1,6,2,4,7), of a' ?b ra ?rb turns sa sb fp] pend(2) a'(8) ids(1,2) assms(16) by simp
  moreover have "talk lib hl pb dpb fp a' bob turns = talk lib hl pb dpb fp a' ?b turns"
    using talk_first [OF a'(2,3) _ a'(9,6) lib(7) assms(14), of hl "xp_pub (cl_x alice)" lib "hs_shared r" pb fp turns] pend(1) curve a'(7,8) r(2)
    by (simp add: pending_def)
  ultimately show ?thesis using a'(1) by auto
qed

definition toy_client :: "bytes \<Rightarrow> bytes list \<Rightarrow> dm_client" where
  "toy_client seed targets = (let i = \<lparr>id_pub = 1 # toy_pad seed, id_sec = seed\<rparr> in
     \<lparr>cl_id = i, cl_x = \<lparr>xp_pub = 1 # toy_pad seed, xp_priv = seed\<rparr>, cl_pq = derive_pq_identity toy_sodium toy_hs i seed,
      sessions = [], cl_store = None, send_queue = [], chan_queue = [], pending_fetch_targets = targets,
      mesh_bootstrap_pending = [], pending_mesh_dials = [], verified_peers = [], outgoing = []\<rparr>)"

lemma toy_client_signed_in: "signed_in toy_sodium toy_hs seed (toy_client seed ts)"
  by (simp add: signed_in_def toy_client_def derive_x25519_def toy_hs_def Let_def)

definition toy_draws :: send_draws where
  "toy_draws = \<lparr>d_envid = [1], d_now = 5, d_nonce = [], d_nonce' = [], d_learned = 0\<rparr>"

definition toy_turns :: "turn list" where
  "toy_turns = [([72, 105], toy_draws, [3], [], 0), ([79, 107], toy_draws, [4], [], 0)]"

theorem conversation_delivers_witness:
  "\<exists>dial alice'. handle_key_fetch_resp toy_sodium toy_hs [] [5] 0 True (own_bundle toy_sodium toy_hs 0 [6] (toy_client [6] []))
     (toy_client [9] [[66]]) = (Returned dial, alice') \<and>
   talk toy_sodium toy_hs toy_ratchet_pb toy_dm_pb id alice' (toy_client [6] []) toy_turns =
     [Some (1 # toy_pad [9], DmText [72, 105]), Some (1 # toy_pad [6], DmText [79, 107])]"
proof -
  have "sessions (toy_client [9] [[66]]) = []" "send_queue (toy_client [9] [[66]]) = []" "pending_fetch_targets (toy_client [9] [[66]]) = [[66]]"
    "[66] \<noteq> ([] :: bytes)" "sessions (toy_client [6] []) = []" "send_queue (toy_client [6] []) = []"
    "distinct (scalarmult_base toy_sodium [5] # xp_pub (cl_x (toy_client [6] [])) # drawn toy_sodium toy_turns)"
    by (simp_all add: toy_client_def Let_def drawn_def toy_turns_def toy_sodium_def toy_pad_def)
  from conversation_delivers [OF toy_xchacha_ok toy_dh_ok toy_hs_ok(3,1,2) toy_ratchet_pb_ok toy_dm_pb_ok toy_client_signed_in
      toy_client_signed_in this, of "[]" 0 0 id]
  show ?thesis by (simp add: toy_client_def Let_def toy_turns_def)
qed

text \<open>C10. A sealed message is never attributed to someone who did not sign it: when the client gives a
  sender to an envelope that names none, that sender is the peer of one of its sessions, and the
  payload carries the sender's key and its signature over this envelope's identifier and timestamp and
  over the client's own key.\<close>

theorem sealed_sender_attributed:
  assumes "resolve_sender lib hl pb dpb rnd env c = (Returned (Some (p, Some pt)), c')"
  shows "sender_pubkey env = [] \<and> p \<in> (\<lambda>(n, s). sess_peer_pub s) ` set (sessions c) \<and> attributed hl dpb (id_pub (cl_id c)) env p pt"
proof -
  have empty: "sender_pubkey env = []" using assms by (auto simp: resolve_sender_def split: if_splits)
  then obtain u where u: "rcpt env = UserPubkey u" using assms by (auto simp: resolve_sender_def split: recipient.splits)
  let ?pass = "try_pass lib hl pb dpb (id_pub (cl_id c)) rnd env"
  obtain r1 m1 r2 m2 where t: "?pass True (sessions c) = (r1, m1)" "?pass False m1 = (r2, m2)" by fastforce
  have "r1 = Returned (Some (p, pt)) \<or> r1 = Returned None \<and> r2 = Returned (Some (p, pt))"
    using assms empty u t by (auto simp: resolve_sender_def split: outcome.splits option.splits)
  moreover have "set (map (\<lambda>(n, s). sess_peer_pub s) m) = (\<lambda>(n, s). sess_peer_pub s) ` set m" for m :: "(bytes, dm_session) omap" by simp
  ultimately show ?thesis using try_pass_sound [OF t(1)] try_pass_sound [OF t(2)] empty by metis
qed

definition toy_sealed_client :: dm_client where
  "toy_sealed_client = (toy_client [6] [])\<lparr>sessions := [([66], empty_session\<lparr>rat := Some demo_receiver, sess_peer_pub := 1 # toy_pad [9]\<rparr>)]\<rparr>"

definition toy_sealed_payload :: dm_payload where
  "toy_sealed_payload = \<lparr>dm_body = DmText [72], sealed_sender_pubkey = 1 # toy_pad [9], sealed_sender_sig = replicate 64 0, ttl_ms = 0\<rparr>"

definition toy_sealed_envelope :: envelope where
  "toy_sealed_envelope = \<lparr>envelope_id = [1], timestamp_ms = 5, sender_pubkey = [],
     ciphertext = pb_ser toy_ratchet_pb (chain_msg toy_sodium demo_sender 0 (pb_ser toy_dm_pb toy_sealed_payload) []), env_aad = [],
     aead_alg = 1, protocol_version = 1, env_signature = [], pq_ct = [], rcpt = UserPubkey []\<rparr>"

theorem sealed_sender_attributed_witness:
  "\<exists>pt c'. resolve_sender toy_sodium toy_hs toy_ratchet_pb toy_dm_pb (\<lambda>_. []) toy_sealed_envelope toy_sealed_client =
     (Returned (Some (1 # toy_pad [9], Some pt)), c') \<and>
   attributed toy_hs toy_dm_pb (1 # toy_pad [6]) toy_sealed_envelope (1 # toy_pad [9]) pt"
proof -
  let ?pt = "pb_ser toy_dm_pb toy_sealed_payload" and ?e = toy_sealed_envelope
  have dec: "\<exists>r. ratchet_decrypt toy_sodium toy_ratchet_pb [] demo_receiver (ciphertext ?e) [] = (Returned (Some ?pt), r)"
    by (simp add: toy_sealed_envelope_def demo_receiver_def demo_sender_def ratchet_empty_def zero32_def ratchet_decrypt_def decrypt_in_chain_def
        chain_msg_def pb_okD [OF toy_ratchet_pb_ok] skip_message_keys_nop Let_def case_prod_beta mk_at_def
        xchacha20_roundtrip [OF toy_xchacha_ok])
  then obtain r where r: "ratchet_try_decrypt toy_sodium toy_ratchet_pb [] demo_receiver (ciphertext ?e) [] = (Returned (Some ?pt), r)"
    by (auto simp: ratchet_try_decrypt_def)
  have "header_matches_recv_chain toy_ratchet_pb demo_receiver (ciphertext ?e)"
    by (simp add: toy_sealed_envelope_def header_matches_recv_chain_def chain_msg_def pb_okD [OF toy_ratchet_pb_ok] demo_receiver_def
        demo_sender_def ratchet_empty_def zero32_def)
  then have "\<exists>c'. resolve_sender toy_sodium toy_hs toy_ratchet_pb toy_dm_pb (\<lambda>_. []) ?e toy_sealed_client =
      (Returned (Some (1 # toy_pad [9], Some ?pt)), c')"
    using r by (simp add: resolve_sender_def toy_sealed_client_def toy_client_def empty_session_def try_session_def pb_okD [OF toy_dm_pb_ok]
        verify_sealed_sender_def toy_hs_def toy_sealed_envelope_def toy_sealed_payload_def Let_def)
  then obtain c' where c': "resolve_sender toy_sodium toy_hs toy_ratchet_pb toy_dm_pb (\<lambda>_. []) ?e toy_sealed_client =
      (Returned (Some (1 # toy_pad [9], Some ?pt)), c')" by blast
  moreover have "id_pub (cl_id toy_sealed_client) = 1 # toy_pad [6]" by (simp add: toy_sealed_client_def toy_client_def Let_def)
  ultimately show ?thesis using sealed_sender_attributed [OF c'] by metis
qed

text \<open>C13. A pin holds: once a peer's bundle with an ML-KEM key was admitted, a later bundle of the same
  identity without one never opens a session, whatever the client stored in between, rotations of the
  storage keys included.\<close>

theorem pq_pin_holds:
  assumes "pq_tofu_admit now p True (Some s) = (True, Some s1)"
    and "cl_store c = Some (fold (run lib') ops s1)" and "pending_fetch_targets c = t # ts"
    and "identity_pubkey b = p" and "length p = 32" and "length (signed_prekey b) = 32" and "pq_pubkey b = []" and "t \<noteq> []"
  shows "handle_key_fetch_resp lib hl re rr now' True b c = (Returned None, c\<lparr>pending_fetch_targets := ts\<rparr>)"
proof -
  have "peer_pq_capable p s1"
    using assms(1) by (auto simp: pq_tofu_admit_def is_pq_capability_downgrade_def peer_pq_capable_def set_peer_pq_capable_def Let_def
        split: if_splits option.splits)
  then have "peer_pq_capable p (fold (run lib') ops s1)" by (rule fold_pq_capable)
  then show ?thesis
    using assms by (simp add: handle_key_fetch_resp_def pq_tofu_admit_def is_pq_capability_downgrade_def)
qed

theorem pq_pin_holds_witness:
  "\<exists>s1. pq_tofu_admit 7 (1 # toy_pad [6]) True (Some (plain_store empty_db)) = (True, Some s1) \<and>
     handle_key_fetch_resp toy_sodium toy_hs [] [] 9 True (empty_bundle\<lparr>identity_pubkey := 1 # toy_pad [6], signed_prekey := replicate 32 1\<rparr>)
       ((toy_client [9] [[66]])\<lparr>cl_store := Some (fold (run toy_sodium) [Prune 8] s1)\<rparr>) =
     (Returned None, (toy_client [9] [])\<lparr>cl_store := Some (fold (run toy_sodium) [Prune 8] s1)\<rparr>)"
proof -
  obtain s1 where s1: "pq_tofu_admit 7 (1 # toy_pad [6]) True (Some (plain_store empty_db)) = (True, Some s1)"
    by (simp add: pq_tofu_admit_def is_pq_capability_downgrade_def peer_pq_capable_def empty_db_def)
  have "handle_key_fetch_resp toy_sodium toy_hs [] [] 9 True (empty_bundle\<lparr>identity_pubkey := 1 # toy_pad [6], signed_prekey := replicate 32 1\<rparr>)
       ((toy_client [9] [[66]])\<lparr>cl_store := Some (fold (run toy_sodium) [Prune 8] s1)\<rparr>) =
     (Returned None, ((toy_client [9] [[66]])\<lparr>cl_store := Some (fold (run toy_sodium) [Prune 8] s1)\<rparr>)\<lparr>pending_fetch_targets := []\<rparr>)"
    by (rule pq_pin_holds [OF s1, of _ toy_sodium "[Prune 8]" "[66]"]) (simp_all add: toy_client_def empty_bundle_def Let_def)
  with s1 show ?thesis by (simp add: toy_client_def Let_def)
qed

text \<open>C39. A relay can put itself in the middle of a first contact without post-quantum keys: nothing checks
  a signature over the signed prekey, so if it serves a bundle that has no post-quantum field with its
  own key as the signed prekey, the client opens a session for the peer's identity whose ratchet the
  relay's own ratchet matches: the relay derives the same secret and can read what follows.\<close>

theorem prekey_substitution:
  assumes "dh_ok lib" and "cl_x c = \<lparr>xp_pub = scalarmult_base lib x, xp_priv = x\<rparr>"
    and "pq_pubkey b = []" and "pq_sig_pubkey b = []" and "pq_sig_pubkey_sig b = []" and "signed_prekey_sig_pq b = []"
    and "pq_pubkey_sig_pq b = []" and "om_invar (sessions c)"
  shows "\<exists>c' r sh. open_session lib hl re rr name (b\<lparr>signed_prekey := scalarmult_base lib m\<rparr>) c = (Returned (), c') \<and>
    rat (session_at name c') = Some r \<and> sess_peer_pub (session_at name c') = identity_pubkey b \<and>
    derive_shared_secret lib \<lparr>xp_pub = scalarmult_base lib m, xp_priv = m\<rparr> (xp_pub (cl_x c)) = Inr sh \<and>
    pending lib r (init_bob sh m (scalarmult_base lib m))"
proof -
  obtain sh where sh: "derive_shared_secret lib \<lparr>xp_pub = scalarmult_base lib x, xp_priv = x\<rparr> (scalarmult_base lib m) = Inr sh"
    "derive_shared_secret lib \<lparr>xp_pub = scalarmult_base lib m, xp_priv = m\<rparr> (scalarmult_base lib x) = Inr sh"
    using shared_secret_symmetric [OF assms(1)] by blast
  obtain r where r: "init_alice lib rr sh (scalarmult_base lib m) = Returned r"
    using dh_okD(2) [OF assms(1), of rr m] by (auto simp: init_alice_def x25519_keypair_def case_prod_beta)
  have "derive_hybrid_send_from_bundle lib hl re (cl_x c) (scalarmult_base lib m) (b\<lparr>signed_prekey := scalarmult_base lib m\<rparr>) =
      Inr \<lparr>hs_shared = sh, hs_pq_ct = []\<rparr>"
    using assms(2-7) sh(1) by (simp add: derive_hybrid_send_from_bundle_def verify_bundle_pq_sigs_def derive_hybrid_send_def)
  with r assms(2,3,8) sh(2) init_pending(1) [OF assms(1) r] show ?thesis by (simp add: open_session_def)
qed

theorem prekey_substitution_witness:
  "\<exists>c' r sh. open_session toy_sodium toy_hs [] [5] [66] (empty_bundle\<lparr>identity_pubkey := 1 # toy_pad [6], signed_prekey := scalarmult_base toy_sodium [7]\<rparr>)
     (toy_client [9] []) = (Returned (), c') \<and> rat (session_at [66] c') = Some r \<and>
     pending toy_sodium r (init_bob sh [7] (scalarmult_base toy_sodium [7]))"
proof -
  have "cl_x (toy_client [9] []) = \<lparr>xp_pub = scalarmult_base toy_sodium [9], xp_priv = [9]\<rparr>" "om_invar (sessions (toy_client [9] []))"
    by (simp_all add: toy_client_def Let_def toy_sodium_def)
  with prekey_substitution [OF toy_dh_ok this(1), of "empty_bundle\<lparr>identity_pubkey := 1 # toy_pad [6]\<rparr>" toy_hs "[]" "[5]" "[66]" "[7]"]
  show ?thesis by (auto simp: empty_bundle_def)
qed

text \<open>One malformed envelope ends the client's worker: when the sender is unknown and the field for the
  ML-KEM ciphertext is neither empty nor 1088 bytes long, taking in the envelope throws, and nothing
  between the envelope and the loop catches it.\<close>

theorem malformed_pq_ct_ends_worker:
  assumes "length (sender_pubkey e) = 32" and "pk_to_curve hl (sender_pubkey e) = Some x"
    and "live_session (sender_pubkey e) c = None" and "rat (session_at (str_bytes ''peer:'' @ take 8 (sender_pubkey e)) c) = None"
    and "length (pq_ct e) \<notin> {0, 1088}"
  shows "\<exists>c'. deliver_dm lib hl pb dpb rnd nonce rx e c = (Threw, c')"
proof -
  have "sender_pubkey e \<noteq> []" "pq_ct e \<noteq> []" using assms(1,5) by auto
  then have "resolve_sender lib hl pb dpb rnd e c = (Returned (Some (sender_pubkey e, None)), c)"
    "\<exists>err. derive_hybrid_recv_from_env lib hl (cl_x c) x (pq_sec (cl_pq c)) e = Inl err"
    using assms(1,5) by (auto simp: resolve_sender_def derive_hybrid_recv_from_env_def derive_hybrid_recv_def kMlKem768CtBytes_def split: sum.split)
  then show ?thesis using assms(2-4) by (auto simp: deliver_dm_def receive_dm_def accept_session_def Let_def)
qed

definition toy_malformed :: envelope where
  "toy_malformed = toy_sealed_envelope\<lparr>sender_pubkey := 1 # toy_pad [8], pq_ct := [0]\<rparr>"

theorem malformed_pq_ct_ends_worker_witness:
  "\<exists>c'. deliver_dm toy_sodium toy_hs toy_ratchet_pb toy_dm_pb (\<lambda>_. []) [] 0 toy_malformed (toy_client [6] []) = (Threw, c')"
  by (rule malformed_pq_ct_ends_worker [of _ _ "1 # toy_pad [8]"])
    (simp_all add: toy_malformed_def toy_hs_def toy_client_def live_session_def session_at_def om_find_def empty_session_def Let_def)

text \<open>Messages queued behind a first contact are lost: when the first element of the queue is for a peer
  without a session, the worker requests that peer's keys, puts that one element back and leaves the
  loop; every element behind it is neither sent nor kept.\<close>

theorem queued_behind_first_contact_lost:
  assumes "send_queue c = ps # rest" and "rat (session_at (ps_peer ps) c) = None" and "length (ps_peer ps) \<noteq> 11"
  shows "\<exists>c'. worker_sends lib hl pb dpb fp d c = (Returned (), c') \<and> send_queue c' = [ps] \<and>
    outgoing c' = outgoing c @ [FKeyFetch (ps_peer ps)] \<and> cl_store c' = cl_store c"
  using assms
  by (simp add: worker_sends_def send_one_def rebind_fingerprint_def session_at_def put_session_def emit_frame_def Let_def)

theorem queued_behind_first_contact_lost_witness:
  "\<exists>c'. worker_sends toy_sodium toy_hs toy_ratchet_pb toy_dm_pb id (\<lambda>_. toy_draws)
     (send_to_peer [67] [2] (send_to_peer [66] [1] (toy_client [9] []))) = (Returned (), c') \<and>
     send_queue c' = [\<lparr>ps_peer = [66], ps_text = [1], pre_packed = [], persist_blob = []\<rparr>]"
  using queued_behind_first_contact_lost [of "send_to_peer [67] [2] (send_to_peer [66] [1] (toy_client [9] []))"
      "\<lparr>ps_peer = [66], ps_text = [1], pre_packed = [], persist_blob = []\<rparr>"
      "[\<lparr>ps_peer = [67], ps_text = [2], pre_packed = [], persist_blob = []\<rparr>]" toy_sodium toy_hs toy_ratchet_pb toy_dm_pb id "\<lambda>_. toy_draws"]
  by (auto simp: send_to_peer_def toy_client_def session_at_def om_find_def empty_session_def Let_def)

text \<open>When a user name moves to another key, the client clears the verified mark of the old key in the
  database; a mark that was read before stays in its cache and is still reported.\<close>

theorem verified_mark_stays_cached:
  assumes "om_find (verified_peers c) old = Some True" and "length old = 32" and "cl_store c = Some s" and "username \<noteq> []"
    and "find (\<lambda>k. length k = 32 \<and> k \<noteq> new_pub) (peer_pubkeys_for_username lib username s) = Some old"
  shows "\<exists>s'. detect_pubkey_change lib username new_pub (cl_store c) = Some s' \<and> \<not> peer_verified old s' \<and>
    fst (isPeerVerified old (c\<lparr>cl_store := Some s'\<rparr>))"
  using assms by (simp add: detect_pubkey_change_def isPeerVerified_def peer_verified_def set_peer_verified_def)

end
