(* ===== verification/Gossip.thy ===== *)
theory Gossip
  imports Kademlia Frame_Codec Unordered_Map
begin

text \<open>
  The publish and subscribe overlay, \<open>core/src/p2p/gossip.cpp\<close>: a node with its connections,
  subscriptions, the window of message identifiers it has seen, and the handler of every message
  kind; \<open>core/src/p2p/channel_gossip.cpp\<close>: the topic of a channel and of a room. A connection keeps
  its frame decoder and its write buffer as the bytes the program keeps; the calls of the
  application callback are recorded in \<open>p_events\<close>. The second half connects nodes to a network
  whose steps move bytes from a write buffer to the decoder at the other end.
  Sockets, the event loop, random bytes and the generated message classes are arguments.
\<close>

subsection \<open>Topics\<close>

definition kChannelGossipTopicPrefix :: bytes where
  "kChannelGossipTopicPrefix = str_bytes ''fb-chan:''"

definition kRoomGossipTopicPrefix :: bytes where
  "kRoomGossipTopicPrefix = str_bytes ''fb-room:''"

definition hex_digits :: bytes where
  "hex_digits = str_bytes ''0123456789abcdef''"

definition hex_topic :: "bytes \<Rightarrow> bytes \<Rightarrow> bytes" where
  "hex_topic pre i =
     pre @ concat (map (\<lambda>b. [hex_digits ! unat (drop_bit 4 b AND 0x0f), hex_digits ! unat (b AND 0x0f)]) i)"

definition channel_topic_name :: "bytes \<Rightarrow> bytes outcome" where
  "channel_topic_name channel_id =
     (if length channel_id \<noteq> 32 then Threw else Returned (hex_topic kChannelGossipTopicPrefix channel_id))"

definition room_topic_name :: "bytes \<Rightarrow> bytes outcome" where
  "room_topic_name room_id =
     (if length room_id \<noteq> 32 then Threw else Returned (hex_topic kRoomGossipTopicPrefix room_id))"

subsection \<open>Messages\<close>

record p2p_peer =
  pp_node_id :: bytes
  pp_addr :: bytes

datatype p2p_message =
    NoBody
  | Ping p2p_peer bytes
  | Pong p2p_peer bytes
  | FindNode p2p_peer bytes
  | FindNodeResp p2p_peer "p2p_peer list"
  | Subscribe p2p_peer bytes
  | Unsubscribe p2p_peer bytes
  | Publish p2p_peer bytes bytes bytes u32

subsection \<open>Nodes\<close>

definition kSeenMessageCap :: nat where
  "kSeenMessageCap = 4096"

record p_conn =
  pc_dec :: frame_decoder
  write_buf :: bytes
  pc_peer :: peer_info
  peer_known :: bool
  outbound :: bool
  remote_addr :: bytes

record p2p_node =
  node_self :: bytes
  node_table :: routing_table
  self_addr :: bytes
  p_conns :: "(int, p_conn) umap"
  id_to_fd :: "(bytes, int) omap"
  my_topics :: "bytes list"
  topic_subs :: "(bytes, bytes list) umap"
  seen_order :: "bytes list"
  seen_set :: "bytes set"
  has_on_topic :: bool
  p_events :: "(bytes \<times> bytes \<times> peer_info) list"
  carry_guard :: "peer_info \<Rightarrow> nat \<Rightarrow> bool"

definition zero_id :: bytes where
  "zero_id = replicate kNodeIdBytes 0"

definition no_peer :: peer_info where
  "no_peer = \<lparr>peer_id = zero_id, peer_addr = [], peer_pubkey = []\<rparr>"

definition p2p_node_new :: "(bytes \<Rightarrow> bytes) \<Rightarrow> bytes \<Rightarrow> bytes \<Rightarrow> p2p_node" where
  "p2p_node_new sha256 addr pubkey =
     (let i = node_id_from_pubkey sha256 pubkey in
      \<lparr>node_self = i, node_table = rt_new i, self_addr = addr, p_conns = [], id_to_fd = [], my_topics = [],
       topic_subs = [], seen_order = [], seen_set = {}, has_on_topic = False, p_events = [],
       carry_guard = (\<lambda>_ _. True)\<rparr>)"

definition seen_recently :: "bytes \<Rightarrow> p2p_node \<Rightarrow> bool \<times> p2p_node" where
  "seen_recently mid n =
     (if mid \<in> seen_set n then (True, n)
      else let n = (if kSeenMessageCap \<le> length (seen_order n)
                    then n\<lparr>seen_set := seen_set n - {hd (seen_order n)}, seen_order := tl (seen_order n)\<rparr> else n)
           in (False, n\<lparr>seen_order := seen_order n @ [mid], seen_set := insert mid (seen_set n)\<rparr>))"

definition self_info :: "p2p_node \<Rightarrow> p2p_peer" where
  "self_info n = \<lparr>pp_node_id = node_self n, pp_addr = self_addr n\<rparr>"

definition enqueue :: "p2p_message pb \<Rightarrow> int \<Rightarrow> p2p_message \<Rightarrow> p2p_node \<Rightarrow> p2p_node" where
  "enqueue pb fd m n =
     (case um_find (p_conns n) fd of
        None \<Rightarrow> n
      | Some c \<Rightarrow> n\<lparr>p_conns := um_put fd (c\<lparr>write_buf := write_buf c @ encode_frame (pb_ser pb m)\<rparr>) (p_conns n)\<rparr>)"

definition send_to_all :: "p2p_message pb \<Rightarrow> p2p_message \<Rightarrow> p2p_node \<Rightarrow> p2p_node" where
  "send_to_all pb m n =
     foldl (\<lambda>n (fd, c). if \<not> peer_known c then n else enqueue pb fd m n) n (p_conns n)"

definition send_handshake :: "p2p_message pb \<Rightarrow> bytes \<Rightarrow> int \<Rightarrow> p2p_node \<Rightarrow> p2p_node" where
  "send_handshake pb nonce fd n = enqueue pb fd (Ping (self_info n) nonce) n"

definition send_my_subscriptions :: "p2p_message pb \<Rightarrow> int \<Rightarrow> p2p_node \<Rightarrow> p2p_node" where
  "send_my_subscriptions pb fd n = foldl (\<lambda>n' t. enqueue pb fd (Subscribe (self_info n) t) n') n (my_topics n)"

definition from_proto :: "p2p_peer \<Rightarrow> peer_info" where
  "from_proto p =
     \<lparr>peer_id = (if length (pp_node_id p) = kNodeIdBytes then pp_node_id p else zero_id),
      peer_addr = pp_addr p, peer_pubkey = []\<rparr>"

definition to_proto :: "peer_info \<Rightarrow> p2p_peer" where
  "to_proto p = \<lparr>pp_node_id = peer_id p, pp_addr = peer_addr p\<rparr>"

definition observe_peer :: "peer_info \<Rightarrow> p2p_node \<Rightarrow> p2p_node" where
  "observe_peer p n = n\<lparr>node_table := snd (observe p (node_table n))\<rparr>"

definition on_handshake_observed :: "p2p_message pb \<Rightarrow> int \<Rightarrow> peer_info \<Rightarrow> p2p_node \<Rightarrow> p2p_node" where
  "on_handshake_observed pb fd peer n =
     (let n = (case um_find (p_conns n) fd of
                 None \<Rightarrow> n
               | Some c \<Rightarrow> n\<lparr>p_conns := um_put fd (c\<lparr>pc_peer := peer, peer_known := True\<rparr>) (p_conns n)\<rparr>);
          n = n\<lparr>id_to_fd := om_assign (peer_id peer) fd (id_to_fd n)\<rparr>;
          n = observe_peer peer n
      in send_my_subscriptions pb fd n)"

text \<open>Local delivery of a publication and its relay to the other connections.\<close>

definition deliver_topic :: "bytes \<Rightarrow> bytes \<Rightarrow> peer_info \<Rightarrow> p2p_node \<Rightarrow> p2p_node" where
  "deliver_topic topic payload orig n =
     (if topic \<in> set (my_topics n) \<and> has_on_topic n
      then n\<lparr>p_events := p_events n @ [(topic, payload, orig)]\<rparr> else n)"

definition relay_publish :: "p2p_message pb \<Rightarrow> int \<Rightarrow> bytes \<Rightarrow> p2p_message \<Rightarrow> p2p_node \<Rightarrow> p2p_node" where
  "relay_publish pb fd orig m n =
     foldl (\<lambda>n' (fd', c).
        if fd' = fd then n'
        else if \<not> peer_known c then n'
        else if peer_id (pc_peer c) = orig then n'
        else if \<not> carry_guard n (pc_peer c) (length (pb_ser pb m)) then n'
        else enqueue pb fd' m n') n (p_conns n)"

fun handle_message :: "p2p_message pb \<Rightarrow> int \<Rightarrow> p2p_message \<Rightarrow> p2p_node \<Rightarrow> p2p_node" where
  "handle_message pb fd NoBody n = n"
| "handle_message pb fd (Ping p nonce) n =
     (let peer = from_proto p;
          n = (if peer_id peer \<noteq> node_self n then on_handshake_observed pb fd peer n else n)
      in enqueue pb fd (Pong (self_info n) nonce) n)"
| "handle_message pb fd (Pong p nonce) n =
     (let peer = from_proto p
      in if peer_id peer \<noteq> node_self n then on_handshake_observed pb fd peer n else n)"
| "handle_message pb fd (FindNode p target) n =
     (let peer = from_proto p;
          n = (if peer_id peer \<noteq> node_self n then observe_peer peer n else n)
      in if length target \<noteq> kNodeIdBytes then n
         else enqueue pb fd (FindNodeResp (self_info n) (map to_proto (closest target kBucketSize (node_table n)))) n)"
| "handle_message pb fd (FindNodeResp p ps) n =
     foldl (\<lambda>n p. let pi = from_proto p in if peer_id pi \<noteq> node_self n then observe_peer pi n else n) n (p # ps)"
| "handle_message pb fd (Subscribe p topic) n =
     (let peer = from_proto p
      in if peer_id peer = node_self n then n
         else observe_peer peer
           (n\<lparr>topic_subs := um_put topic (List.insert (peer_id peer) (um_at (topic_subs n) topic)) (topic_subs n)\<rparr>))"
| "handle_message pb fd (Unsubscribe p topic) n =
     (case um_find (topic_subs n) topic of
        None \<Rightarrow> n
      | Some s \<Rightarrow> n\<lparr>topic_subs := um_put topic (removeAll (peer_id (from_proto p)) s) (topic_subs n)\<rparr>)"
| "handle_message pb fd (Publish p topic mid payload ttl) n =
     (if mid = [] then n
      else let (seen, n) = seen_recently mid n
           in if seen then n
              else let peer = from_proto p; n = deliver_topic topic payload peer n
                   in if ttl = 0 then n
                      else relay_publish pb fd (peer_id peer) (Publish p topic mid payload (ttl - 1)) n)"

definition handle_frame :: "p2p_message pb \<Rightarrow> int \<Rightarrow> p2p_node \<Rightarrow> bytes \<Rightarrow> p2p_node" where
  "handle_frame pb fd n bs = (case pb_parse pb bs of None \<Rightarrow> n | Some m \<Rightarrow> handle_message pb fd m n)"

definition close_conn :: "int \<Rightarrow> p2p_node \<Rightarrow> p2p_node" where
  "close_conn fd n =
     (case um_find (p_conns n) fd of
        None \<Rightarrow> n
      | Some c \<Rightarrow>
          (let n = (if peer_known c \<and> om_find (id_to_fd n) (peer_id (pc_peer c)) = Some fd
                    then n\<lparr>id_to_fd := om_erase (peer_id (pc_peer c)) (id_to_fd n)\<rparr> else n)
           in n\<lparr>p_conns := um_erase fd (p_conns n)\<rparr>))"

text \<open>One chunk that \<open>read_some\<close> returned; an empty chunk stands for end of file or an error.\<close>

definition on_readable :: "p2p_message pb \<Rightarrow> int \<Rightarrow> bytes \<Rightarrow> p2p_node \<Rightarrow> p2p_node" where
  "on_readable pb fd chunk n =
     (case um_find (p_conns n) fd of
        None \<Rightarrow> n
      | Some c \<Rightarrow>
          (if chunk = [] then close_conn fd n
           else let (frames, d) = drain (feed (pc_dec c) chunk);
                    n = n\<lparr>p_conns := um_put fd (c\<lparr>pc_dec := d\<rparr>) (p_conns n)\<rparr>;
                    n = foldl (handle_frame pb fd) n frames
                in if error d then close_conn fd n else n))"

text \<open>The write loop: each \<open>write_some\<close> reports how many bytes it took, \<open>None\<close> for an error. The loop holds
  the mutex \<open>mu\<close>; \<open>close_conn\<close> locks the same non-recursive mutex, so the error branch never returns,
  which is the result \<open>None\<close>.\<close>

fun on_writable :: "nat option list \<Rightarrow> int \<Rightarrow> p2p_node \<Rightarrow> p2p_node option" where
  "on_writable [] fd n = Some n"
| "on_writable (r # rs) fd n =
     (case um_find (p_conns n) fd of
        None \<Rightarrow> Some n
      | Some c \<Rightarrow>
          (if write_buf c = [] then Some n
           else case r of
                  None \<Rightarrow> None
                | Some k \<Rightarrow> if k = 0 then Some n
                    else on_writable rs fd (n\<lparr>p_conns := um_put fd (c\<lparr>write_buf := drop k (write_buf c)\<rparr>) (p_conns n)\<rparr>)))"

definition register_conn :: "p2p_message pb \<Rightarrow> bytes \<Rightarrow> int \<Rightarrow> bool \<Rightarrow> bytes \<Rightarrow> p2p_node \<Rightarrow> p2p_node" where
  "register_conn pb nonce fd out addr n =
     send_handshake pb nonce fd
       (n\<lparr>p_conns := um_put fd \<lparr>pc_dec = decoder_init, write_buf = [], pc_peer = no_peer, peer_known = False,
           outbound = out, remote_addr = addr\<rparr> (p_conns n)\<rparr>)"

definition subscribe :: "p2p_message pb \<Rightarrow> bytes \<Rightarrow> p2p_node \<Rightarrow> p2p_node" where
  "subscribe pb topic n =
     (let n = n\<lparr>my_topics := insort_insert topic (my_topics n)\<rparr>
      in send_to_all pb (Subscribe (self_info n) topic) n)"

definition unsubscribe :: "p2p_message pb \<Rightarrow> bytes \<Rightarrow> p2p_node \<Rightarrow> p2p_node" where
  "unsubscribe pb topic n =
     (let n = n\<lparr>my_topics := removeAll topic (my_topics n)\<rparr>
      in send_to_all pb (Unsubscribe (self_info n) topic) n)"

definition publish :: "p2p_message pb \<Rightarrow> bytes \<Rightarrow> bytes \<Rightarrow> bytes \<Rightarrow> u32 \<Rightarrow> p2p_node \<Rightarrow> p2p_node" where
  "publish pb mid topic payload ttl n =
     send_to_all pb (Publish (self_info n) topic mid payload ttl) (snd (seen_recently mid n))"

definition set_on_topic_message :: "p2p_node \<Rightarrow> p2p_node" where
  "set_on_topic_message n = n\<lparr>has_on_topic := True\<rparr>"

definition set_carry_guard :: "(peer_info \<Rightarrow> nat \<Rightarrow> bool) \<Rightarrow> p2p_node \<Rightarrow> p2p_node" where
  "set_carry_guard g n = n\<lparr>carry_guard := g\<rparr>"

definition known_peer_count :: "p2p_node \<Rightarrow> nat" where
  "known_peer_count n = rt_size (node_table n)"

subsection \<open>Sending to several connections\<close>

text \<open>Both fan-out loops of the source send to the connections that satisfy a condition.\<close>

definition fan_out :: "p2p_message pb \<Rightarrow> (int \<Rightarrow> p_conn \<Rightarrow> bool) \<Rightarrow> p2p_message \<Rightarrow> (int \<times> p_conn) list \<Rightarrow> p2p_node \<Rightarrow> p2p_node" where
  "fan_out pb P m cs n = foldl (\<lambda>n (fd, c). if P fd c then enqueue pb fd m n else n) n cs"

definition append_buf :: "bytes \<Rightarrow> p_conn \<Rightarrow> p_conn" where
  "append_buf w c = c\<lparr>write_buf := write_buf c @ w\<rparr>"

lemma send_to_all_fan_out: "send_to_all pb m n = fan_out pb (\<lambda>fd c. peer_known c) m (p_conns n) n"
  unfolding send_to_all_def fan_out_def by (rule foldl_cong) auto

lemma relay_publish_fan_out:
  "relay_publish pb fd orig m n =
     fan_out pb (\<lambda>fd' c. fd' \<noteq> fd \<and> peer_known c \<and> peer_id (pc_peer c) \<noteq> orig \<and>
                   carry_guard n (pc_peer c) (length (pb_ser pb m))) m (p_conns n) n"
  unfolding relay_publish_def fan_out_def by (rule foldl_cong) auto

text \<open>What a step can change at a node besides its connections.\<close>

definition same_node :: "p2p_node \<Rightarrow> p2p_node \<Rightarrow> bool" where
  "same_node n n' \<longleftrightarrow> p2p_node.truncate (n\<lparr>p_conns := []\<rparr>) = p2p_node.truncate (n'\<lparr>p_conns := []\<rparr>)"

lemma same_node_refl [simp]: "same_node n n"
  by (simp add: same_node_def)

lemma same_node_trans [trans]: "same_node a b \<Longrightarrow> same_node b c \<Longrightarrow> same_node a c"
  by (simp add: same_node_def)

lemma same_node_conns [simp]: "same_node n (n\<lparr>p_conns := cs\<rparr>)"
  by (simp add: same_node_def p2p_node.truncate_def)

lemma same_nodeD:
  assumes "same_node n n'"
  shows "node_self n' = node_self n" "my_topics n' = my_topics n" "has_on_topic n' = has_on_topic n"
    "carry_guard n' = carry_guard n" "seen_set n' = seen_set n" "p_events n' = p_events n" "self_addr n' = self_addr n"
  using assms by (auto simp: same_node_def p2p_node.truncate_def)

lemma enqueue_same [simp]: "same_node n (enqueue pb fd m n)"
  by (simp add: enqueue_def split: option.split)

lemma enqueue_find:
  "um_find (p_conns (enqueue pb fd m n)) fd' =
     (if fd' = fd then map_option (append_buf (encode_frame (pb_ser pb m))) (um_find (p_conns n) fd')
      else um_find (p_conns n) fd')"
  by (auto simp: enqueue_def append_buf_def split: option.split)

lemma enqueue_um_ok [simp]: "um_ok (p_conns n) \<Longrightarrow> um_ok (p_conns (enqueue pb fd m n))"
  by (simp add: enqueue_def split: option.split)

lemma fan_out_same: "same_node n (fan_out pb P m cs n)"
proof (induction cs arbitrary: n)
  case (Cons x cs)
  then show ?case unfolding fan_out_def
    by (cases x) (auto intro: same_node_trans [OF enqueue_same])
qed (simp add: fan_out_def)

lemma fan_out_um_ok: "um_ok (p_conns n) \<Longrightarrow> um_ok (p_conns (fan_out pb P m cs n))"
  by (induction cs arbitrary: n) (auto simp: fan_out_def)

lemma fan_out_find:
  assumes "distinct (map fst cs)"
  shows "um_find (p_conns (fan_out pb P m cs n)) fd =
    (case um_find (p_conns n) fd of
       None \<Rightarrow> None
     | Some c \<Rightarrow> Some (if \<exists>c'. (fd, c') \<in> set cs \<and> P fd c' then append_buf (encode_frame (pb_ser pb m)) c else c))"
  using assms
proof (induction cs arbitrary: n)
  case (Cons x cs)
  obtain f c where x: "x = (f, c)" by fastforce
  have step: "fan_out pb P m (x # cs) n = fan_out pb P m cs (if P f c then enqueue pb f m n else n)"
    by (simp add: fan_out_def x)
  have "fd = f \<Longrightarrow> (fd, c') \<notin> set cs" for c' using Cons.prems x by force
  then show ?case unfolding step using Cons x by (auto simp: enqueue_find split: option.split)
qed (simp add: fan_out_def split: option.split)

lemma fan_out_self:
  assumes "um_ok (p_conns n)"
  shows "um_find (p_conns (fan_out pb P m (p_conns n) n)) fd =
    map_option (\<lambda>c. if P fd c then append_buf (encode_frame (pb_ser pb m)) c else c) (um_find (p_conns n) fd)"
  using assms fan_out_find [of "p_conns n" pb P m n fd] um_find_mem [OF assms, of fd]
  by (auto simp: um_ok_def split: option.split)

lemma append_buf_simps [simp]:
  "pc_dec (append_buf w c) = pc_dec c" "write_buf (append_buf w c) = write_buf c @ w"
  "pc_peer (append_buf w c) = pc_peer c" "peer_known (append_buf w c) = peer_known c"
  by (simp_all add: append_buf_def)

subsection \<open>A network of nodes\<close>

text \<open>\<open>link i fd\<close> is the node and the descriptor at the other end of a connection. A step writes some
  bytes of one write buffer; the other end reads them.\<close>

type_synonym links = "nat \<Rightarrow> int \<Rightarrow> (nat \<times> int) option"

inductive net_step :: "p2p_message pb \<Rightarrow> links \<Rightarrow> (nat \<Rightarrow> p2p_node) \<Rightarrow> (nat \<Rightarrow> p2p_node) \<Rightarrow> bool"
  for pb link where
  transfer:
    "um_find (p_conns (ns i)) fd = Some c \<Longrightarrow> 0 < k \<Longrightarrow> k \<le> length (write_buf c) \<Longrightarrow>
     link i fd = Some (j, fd') \<Longrightarrow> on_writable [Some k] fd (ns i) = Some n \<Longrightarrow>
     ns' = ns(i := n) \<Longrightarrow>
     net_step pb link ns (ns'(j := on_readable pb fd' (take k (write_buf c)) (ns' j)))"

inductive_cases net_stepE: "net_step pb link ns ns'"

text \<open>A network at rest: nodes \<open>0, \<dots>, N - 1\<close> with different identifiers, every connection known at both ends and
  both directions empty, and every node willing to carry.\<close>

definition links_ok :: "nat \<Rightarrow> links \<Rightarrow> bool" where
  "links_ok N link \<longleftrightarrow>
     (\<forall>i fd j fd'. link i fd = Some (j, fd') \<longrightarrow> i < N \<and> j < N \<and> i \<noteq> j \<and> link j fd' = Some (i, fd))"

definition conn_at :: "(nat \<Rightarrow> p2p_node) \<Rightarrow> nat \<Rightarrow> int \<Rightarrow> p_conn" where
  "conn_at ns i fd = the (um_find (p_conns (ns i)) fd)"

definition at_rest :: "nat \<Rightarrow> links \<Rightarrow> (nat \<Rightarrow> p2p_node) \<Rightarrow> bool" where
  "at_rest N link ns \<longleftrightarrow>
     inj_on (\<lambda>i. node_self (ns i)) {..<N} \<and>
     (\<forall>i<N. length (node_self (ns i)) = kNodeIdBytes \<and> um_ok (p_conns (ns i)) \<and> (\<forall>p k. carry_guard (ns i) p k) \<and>
        (\<forall>fd. (link i fd = None \<longleftrightarrow> um_find (p_conns (ns i)) fd = None) \<and>
           (\<forall>j fd'. link i fd = Some (j, fd') \<longrightarrow>
              pc_dec (conn_at ns i fd) = decoder_init \<and> write_buf (conn_at ns i fd) = [] \<and>
              peer_known (conn_at ns i fd) \<and> peer_id (pc_peer (conn_at ns i fd)) = node_self (ns j))))"

text \<open>The publication that floods the network, and what the network keeps while it does: the nodes \<open>S\<close> that have
  recorded it and, for each direction of each connection, the hop budgets \<open>T i fd\<close> of the copies that are under way.\<close>

record flood =
  fl_pb :: "p2p_message pb"
  fl_link :: links
  fl_nodes :: nat
  fl_orig :: nat
  fl_from :: p2p_peer
  fl_topic :: bytes
  fl_mid :: bytes
  fl_payload :: bytes
  fl_ttl :: u32

definition copy :: "flood \<Rightarrow> u32 \<Rightarrow> p2p_message" where
  "copy f t = Publish (fl_from f) (fl_topic f) (fl_mid f) (fl_payload f) t"

definition fits :: "flood \<Rightarrow> bool" where
  "fits f \<longleftrightarrow>
     (\<forall>t\<le>fl_ttl f. pb_parse (fl_pb f) (pb_ser (fl_pb f) (copy f t)) = Some (copy f t) \<and>
        length (pb_ser (fl_pb f) (copy f t)) \<le> kMaxFrameBytes)"

definition wire_of :: "flood \<Rightarrow> u32 list \<Rightarrow> bytes" where
  "wire_of f ts = concat (map (\<lambda>t. encode_frame (pb_ser (fl_pb f) (copy f t))) ts)"

text \<open>The copy that a node passes on when it first receives one with hop budget \<open>t\<close>, and whether the budget of the publication is
  enough to reach every node along any path.\<close>

definition onward :: "u32 \<Rightarrow> u32 list" where
  "onward t = (if t = 0 then [] else [t - 1])"

definition enough :: "flood \<Rightarrow> bool" where
  "enough f \<longleftrightarrow> fl_nodes f \<le> Suc (unat (fl_ttl f))"

definition heard :: "flood \<Rightarrow> p2p_node \<Rightarrow> (bytes \<times> bytes \<times> peer_info) list" where
  "heard f n = (if fl_topic f \<in> set (my_topics n) \<and> has_on_topic n then [(fl_topic f, fl_payload f, from_proto (fl_from f))] else [])"

definition node_tracks :: "flood \<Rightarrow> (nat \<Rightarrow> p2p_node) \<Rightarrow> nat set \<Rightarrow> nat \<Rightarrow> p2p_node \<Rightarrow> bool" where
  "node_tracks f ns0 S i n \<longleftrightarrow>
     node_self n = node_self (ns0 i) \<and> my_topics n = my_topics (ns0 i) \<and> has_on_topic n = has_on_topic (ns0 i) \<and>
     carry_guard n = carry_guard (ns0 i) \<and> um_ok (p_conns n) \<and> (fl_mid f \<in> seen_set n \<longleftrightarrow> i \<in> S) \<and>
     p_events n = p_events (ns0 i) @ (if i \<in> S - {fl_orig f} then heard f (ns0 i) else []) \<and>
     (\<forall>fd. case um_find (p_conns n) fd of
        None \<Rightarrow> fl_link f i fd = None
      | Some c \<Rightarrow> fl_link f i fd \<noteq> None \<and> peer_known c \<and> pc_peer c = pc_peer (conn_at ns0 i fd) \<and>
          \<not> error (pc_dec c) \<and> drain (pc_dec c) = ([], pc_dec c))"

definition tracks :: "flood \<Rightarrow> (nat \<Rightarrow> p2p_node) \<Rightarrow> nat set \<Rightarrow> (nat \<Rightarrow> int \<Rightarrow> u32 list) \<Rightarrow> (nat \<Rightarrow> p2p_node) \<Rightarrow> bool" where
  "tracks f ns0 S T ns \<longleftrightarrow>
     S \<subseteq> {..<fl_nodes f} \<and> fl_orig f \<in> S \<and> (\<forall>i<fl_nodes f. node_tracks f ns0 S i (ns i)) \<and>
     (\<forall>i fd j fd'. fl_link f i fd = Some (j, fd') \<longrightarrow>
        buf (pc_dec (conn_at ns j fd')) @ write_buf (conn_at ns i fd) = wire_of f (T i fd) \<and>
        (\<forall>t\<in>set (T i fd). t \<le> fl_ttl f \<and> (enough f \<longrightarrow> unat (fl_ttl f) < unat t + card S)) \<and>
        (T i fd \<noteq> [] \<longrightarrow> i \<in> S) \<and> (enough f \<longrightarrow> i \<in> S \<longrightarrow> j \<notin> S \<longrightarrow> T i fd \<noteq> []))"

lemma tracksD:
  assumes "tracks f ns0 S T ns"
  shows "S \<subseteq> {..<fl_nodes f}" "fl_orig f \<in> S" "i < fl_nodes f \<Longrightarrow> node_tracks f ns0 S i (ns i)"
    and "fl_link f i fd = Some (j, fd') \<Longrightarrow>
      buf (pc_dec (conn_at ns j fd')) @ write_buf (conn_at ns i fd) = wire_of f (T i fd)"
    and "fl_link f i fd = Some (j, fd') \<Longrightarrow> t \<in> set (T i fd) \<Longrightarrow> t \<le> fl_ttl f \<and> (enough f \<longrightarrow> unat (fl_ttl f) < unat t + card S)"
    and "fl_link f i fd = Some (j, fd') \<Longrightarrow> T i fd \<noteq> [] \<Longrightarrow> i \<in> S"
    and "fl_link f i fd = Some (j, fd') \<Longrightarrow> enough f \<Longrightarrow> i \<in> S \<Longrightarrow> j \<notin> S \<Longrightarrow> T i fd \<noteq> []"
  using assms unfolding tracks_def by blast+

lemma node_tracks_conn:
  assumes "node_tracks f ns0 S i n"
  shows "case um_find (p_conns n) fd of
      None \<Rightarrow> fl_link f i fd = None
    | Some c \<Rightarrow> fl_link f i fd \<noteq> None \<and> peer_known c \<and> pc_peer c = pc_peer (conn_at ns0 i fd) \<and>
        \<not> error (pc_dec c) \<and> drain (pc_dec c) = ([], pc_dec c)"
  using assms unfolding node_tracks_def by (elim conjE) (erule spec)

subsection \<open>One node during a flood\<close>

lemma handle_copy_seen:
  assumes "fits f" "t \<le> fl_ttl f" "fl_mid f \<in> seen_set n"
  shows "handle_frame (fl_pb f) fd n (pb_ser (fl_pb f) (copy f t)) = n"
proof -
  have "pb_parse (fl_pb f) (pb_ser (fl_pb f) (copy f t)) = Some (copy f t)" using assms by (simp add: fits_def)
  then show ?thesis using assms(3) by (simp add: handle_frame_def copy_def seen_recently_def)
qed

lemma handle_copies_seen:
  assumes "fits f" "\<forall>t\<in>set ts. t \<le> fl_ttl f" "fl_mid f \<in> seen_set n"
  shows "foldl (handle_frame (fl_pb f) fd) n (map (\<lambda>t. pb_ser (fl_pb f) (copy f t)) ts) = n"
  using assms by (induction ts) (simp_all add: handle_copy_seen)

lemma wire_of_append [simp]: "wire_of f (s @ t) = wire_of f s @ wire_of f t"
  by (simp add: wire_of_def)

lemma wire_of_Nil [simp]: "wire_of f [] = []"
  by (simp add: wire_of_def)

lemma wire_of_eq_Nil [simp]: "wire_of f ts = [] \<longleftrightarrow> ts = []"
  by (cases ts) (simp_all add: wire_of_def encode_frame_def u32_be_def)

lemma append_buf_Nil [simp]: "append_buf [] = id"
  by (rule ext) (simp add: append_buf_def)

lemma wire_single: "wire_of f [t] = encode_frame (pb_ser (fl_pb f) (copy f t))"
  by (simp add: wire_of_def)

lemma seen_recently_new:
  "mid \<notin> seen_set n \<Longrightarrow> \<not> fst (seen_recently mid n) \<and> p_conns (snd (seen_recently mid n)) = p_conns n \<and>
     mid \<in> seen_set (snd (seen_recently mid n)) \<and> node_self (snd (seen_recently mid n)) = node_self n \<and>
     my_topics (snd (seen_recently mid n)) = my_topics n \<and> has_on_topic (snd (seen_recently mid n)) = has_on_topic n \<and>
     carry_guard (snd (seen_recently mid n)) = carry_guard n \<and> p_events (snd (seen_recently mid n)) = p_events n \<and>
     self_addr (snd (seen_recently mid n)) = self_addr n"
  by (simp add: seen_recently_def Let_def)

lemma handle_copy_new:
  fixes fd :: int
  assumes "fits f" "t \<le> fl_ttl f" "fl_mid f \<notin> seen_set n" "fl_mid f \<noteq> []" "um_ok (p_conns n)"
    and guard: "\<forall>p k. carry_guard n p k"
  defines "n' \<equiv> handle_frame (fl_pb f) fd n (pb_ser (fl_pb f) (copy f t))"
  shows "fl_mid f \<in> seen_set n' \<and> um_ok (p_conns n') \<and> node_self n' = node_self n \<and> my_topics n' = my_topics n \<and>
    has_on_topic n' = has_on_topic n \<and> carry_guard n' = carry_guard n \<and> p_events n' = p_events n @ heard f n"
    and "um_find (p_conns n') fd' =
      map_option (\<lambda>c. if fd' \<noteq> fd \<and> peer_known c \<and> peer_id (pc_peer c) \<noteq> peer_id (from_proto (fl_from f))
        then append_buf (wire_of f (onward t)) c else c) (um_find (p_conns n) fd')"
proof -
  let ?r = "snd (seen_recently (fl_mid f) n)"
  let ?d = "deliver_topic (fl_topic f) (fl_payload f) (from_proto (fl_from f)) ?r"
  note new = seen_recently_new [OF assms(3)]
  have parse: "pb_parse (fl_pb f) (pb_ser (fl_pb f) (copy f t)) = Some (copy f t)" using assms(1,2) by (simp add: fits_def)
  have n': "n' = (if t = 0 then ?d else relay_publish (fl_pb f) fd (peer_id (from_proto (fl_from f))) (copy f (t - 1)) ?d)"
    using parse assms(4) new by (simp add: n'_def handle_frame_def copy_def case_prod_beta Let_def)
  have d: "p_conns ?d = p_conns n" "node_self ?d = node_self n" "my_topics ?d = my_topics n" "has_on_topic ?d = has_on_topic n"
    "carry_guard ?d = carry_guard n" "fl_mid f \<in> seen_set ?d" "p_events ?d = p_events n @ heard f n"
    using new by (auto simp: deliver_topic_def heard_def)
  have "same_node ?d n'" unfolding n' relay_publish_fan_out using fan_out_same by simp
  note s = same_nodeD [OF this]
  have "um_ok (p_conns n')" unfolding n' relay_publish_fan_out using fan_out_um_ok by (simp add: d assms)
  with s d show "fl_mid f \<in> seen_set n' \<and> um_ok (p_conns n') \<and> node_self n' = node_self n \<and> my_topics n' = my_topics n \<and>
    has_on_topic n' = has_on_topic n \<and> carry_guard n' = carry_guard n \<and> p_events n' = p_events n @ heard f n" by simp
  have ok: "um_ok (p_conns ?d)" by (simp add: d assms)
  show "um_find (p_conns n') fd' =
      map_option (\<lambda>c. if fd' \<noteq> fd \<and> peer_known c \<and> peer_id (pc_peer c) \<noteq> peer_id (from_proto (fl_from f))
        then append_buf (wire_of f (onward t)) c else c) (um_find (p_conns n) fd')"
  proof (cases "t = 0")
    case True
    then show ?thesis unfolding n' by (cases "um_find (p_conns n) fd'") (simp_all add: d onward_def)
  next
    case False
    then have r: "n' = relay_publish (fl_pb f) fd (peer_id (from_proto (fl_from f))) (copy f (t - 1)) ?d" and o: "onward t = [t - 1]"
      by (simp_all add: n' onward_def)
    show ?thesis unfolding r relay_publish_fan_out fan_out_self [OF ok] o wire_single using guard d by simp
  qed
qed

lemma read_copies:
  assumes "fits f" "\<forall>t\<in>set ts. t \<le> fl_ttl f" "um_find (p_conns n) fd = Some c" "\<not> error (pc_dec c)"
    and "chunk \<noteq> []" "buf (pc_dec c) @ chunk @ rest = wire_of f ts"
  obtains m d where "\<not> error d" "drain d = ([], d)" "buf d @ rest = wire_of f (drop m ts)"
    "on_readable (fl_pb f) fd chunk n =
       foldl (handle_frame (fl_pb f) fd) (n\<lparr>p_conns := um_put fd (c\<lparr>pc_dec := d\<rparr>) (p_conns n)\<rparr>)
         (map (\<lambda>t. pb_ser (fl_pb f) (copy f t)) (take m ts))"
proof -
  let ?ps = "map (\<lambda>t. pb_ser (fl_pb f) (copy f t)) ts" and ?d = "feed (pc_dec c) chunk"
  have "\<forall>p\<in>set ?ps. length p \<le> kMaxFrameBytes" using assms(1,2) by (auto simp: fits_def)
  moreover have "\<not> error ?d" "buf ?d @ rest = concat (map encode_frame ?ps)"
    using assms(4,6) by (simp_all add: feed_def wire_of_def comp_def)
  ultimately obtain m b where dr: "drain ?d = (take m ?ps, ?d\<lparr>buf := b\<rparr>)" "b @ rest = concat (map encode_frame (drop m ?ps))"
    using drain_prefix by blast
  show thesis
  proof (rule that [of "?d\<lparr>buf := b\<rparr>" m])
    show "drain (?d\<lparr>buf := b\<rparr>) = ([], ?d\<lparr>buf := b\<rparr>)" using drain_again [of ?d] by (simp add: dr)
    show "\<not> error (?d\<lparr>buf := b\<rparr>)" using assms(4) by (simp add: feed_def)
    show "buf (?d\<lparr>buf := b\<rparr>) @ rest = wire_of f (drop m ts)" using dr(2) by (simp add: wire_of_def comp_def drop_map)
    show "on_readable (fl_pb f) fd chunk n =
       foldl (handle_frame (fl_pb f) fd) (n\<lparr>p_conns := um_put fd (c\<lparr>pc_dec := ?d\<lparr>buf := b\<rparr>\<rparr>) (p_conns n)\<rparr>)
         (map (\<lambda>t. pb_ser (fl_pb f) (copy f t)) (take m ts))"
      using assms(3,5) dr(1) \<open>\<not> error (?d\<lparr>buf := b\<rparr>)\<close> by (simp add: on_readable_def take_map)
  qed
qed

text \<open>What reading a chunk does to a node that already knew the message, and to one that did not.\<close>

lemma read_copies_node:
  assumes "fits f" "\<forall>t\<in>set ts. t \<le> fl_ttl f" "um_find (p_conns n) fd = Some c" "\<not> error (pc_dec c)" "chunk \<noteq> []"
    and "buf (pc_dec c) @ chunk @ rest = wire_of f ts" "um_ok (p_conns n)" "fl_mid f \<noteq> []" "\<forall>p k. carry_guard n p k"
  obtains m d n' where "n' = on_readable (fl_pb f) fd chunk n" "\<not> error d" "drain d = ([], d)" "buf d @ rest = wire_of f (drop m ts)"
    "fl_mid f \<in> seen_set n \<or> take m ts = [] \<Longrightarrow> n' = n\<lparr>p_conns := um_put fd (c\<lparr>pc_dec := d\<rparr>) (p_conns n)\<rparr>"
    "fl_mid f \<notin> seen_set n \<Longrightarrow> take m ts \<noteq> [] \<Longrightarrow>
       fl_mid f \<in> seen_set n' \<and> um_ok (p_conns n') \<and> node_self n' = node_self n \<and> my_topics n' = my_topics n \<and>
       has_on_topic n' = has_on_topic n \<and> carry_guard n' = carry_guard n \<and> p_events n' = p_events n @ heard f n \<and>
       (\<forall>fd'. um_find (p_conns n') fd' =
          map_option (\<lambda>c. if fd' \<noteq> fd \<and> peer_known c \<and> peer_id (pc_peer c) \<noteq> peer_id (from_proto (fl_from f))
            then append_buf (wire_of f (onward (hd ts))) c else c)
            (if fd' = fd then Some (c\<lparr>pc_dec := d\<rparr>) else um_find (p_conns n) fd'))"
proof -
  obtain m d where r: "\<not> error d" "drain d = ([], d)" "buf d @ rest = wire_of f (drop m ts)"
    "on_readable (fl_pb f) fd chunk n =
       foldl (handle_frame (fl_pb f) fd) (n\<lparr>p_conns := um_put fd (c\<lparr>pc_dec := d\<rparr>) (p_conns n)\<rparr>)
         (map (\<lambda>t. pb_ser (fl_pb f) (copy f t)) (take m ts))"
    using read_copies [OF assms(1-6)] .
  let ?n = "n\<lparr>p_conns := um_put fd (c\<lparr>pc_dec := d\<rparr>) (p_conns n)\<rparr>"
  have le: "\<forall>t\<in>set (take m ts). t \<le> fl_ttl f" using assms(2) by (auto dest: in_set_takeD)
  show thesis
  proof (rule that [OF refl r(1-3)])
    assume "fl_mid f \<in> seen_set n \<or> take m ts = []"
    then show "on_readable (fl_pb f) fd chunk n = ?n"
      using handle_copies_seen [OF assms(1) le, of ?n fd] r(4) by auto
  next
    assume new: "fl_mid f \<notin> seen_set n" "take m ts \<noteq> []"
    then obtain u where t: "take m ts = hd ts # u" by (cases ts; cases m) auto
    then have "hd ts \<in> set ts" by (metis list.set_intros(1) in_set_takeD)
    with assms(2) have hd: "hd ts \<le> fl_ttl f" by auto
    let ?h = "handle_frame (fl_pb f) fd ?n (pb_ser (fl_pb f) (copy f (hd ts)))"
    have "fl_mid f \<notin> seen_set ?n" "um_ok (p_conns ?n)" "\<forall>p k. carry_guard ?n p k" using new assms(7,9) by simp_all
    note h = handle_copy_new [OF assms(1) hd this(1) assms(8) this(2,3), of fd]
    have "on_readable (fl_pb f) fd chunk n = foldl (handle_frame (fl_pb f) fd) ?h (map (\<lambda>t. pb_ser (fl_pb f) (copy f t)) u)"
      by (simp add: r(4) t)
    also have "\<dots> = ?h" using le t h(1) by (intro handle_copies_seen [OF assms(1)]) auto
    finally have "on_readable (fl_pb f) fd chunk n = ?h" .
    moreover have "heard f ?n = heard f n" by (simp add: heard_def)
    ultimately show "fl_mid f \<in> seen_set (on_readable (fl_pb f) fd chunk n) \<and> um_ok (p_conns (on_readable (fl_pb f) fd chunk n)) \<and>
       node_self (on_readable (fl_pb f) fd chunk n) = node_self n \<and> my_topics (on_readable (fl_pb f) fd chunk n) = my_topics n \<and>
       has_on_topic (on_readable (fl_pb f) fd chunk n) = has_on_topic n \<and> carry_guard (on_readable (fl_pb f) fd chunk n) = carry_guard n \<and>
       p_events (on_readable (fl_pb f) fd chunk n) = p_events n @ heard f n \<and>
       (\<forall>fd'. um_find (p_conns (on_readable (fl_pb f) fd chunk n)) fd' =
          map_option (\<lambda>c. if fd' \<noteq> fd \<and> peer_known c \<and> peer_id (pc_peer c) \<noteq> peer_id (from_proto (fl_from f))
            then append_buf (wire_of f (onward (hd ts))) c else c)
            (if fd' = fd then Some (c\<lparr>pc_dec := d\<rparr>) else um_find (p_conns n) fd'))"
      using h by simp
  qed
qed

subsection \<open>The network during a flood\<close>

text \<open>The network after a transfer over the connection \<open>(i, fd)\<close>, in which the reading node \<open>j\<close> adds the copies
  \<open>extra g\<close> to its connection \<open>g\<close>.\<close>

definition moved :: "flood \<Rightarrow> (nat \<Rightarrow> p2p_node) \<Rightarrow> nat \<Rightarrow> int \<Rightarrow> nat \<Rightarrow> int \<Rightarrow> nat \<Rightarrow> frame_decoder \<Rightarrow> (int \<Rightarrow> u32 list) \<Rightarrow> (nat \<Rightarrow> p2p_node) \<Rightarrow> bool" where
  "moved f ns i fd j fd' k d extra ns' \<longleftrightarrow>
     i \<noteq> j \<and> (\<forall>a. a \<noteq> i \<longrightarrow> a \<noteq> j \<longrightarrow> ns' a = ns a) \<and>
     ns' i = (ns i)\<lparr>p_conns := um_put fd ((conn_at ns i fd)\<lparr>write_buf := drop k (write_buf (conn_at ns i fd))\<rparr>) (p_conns (ns i))\<rparr> \<and>
     (\<forall>g. um_find (p_conns (ns' j)) g = map_option (append_buf (wire_of f (extra g)))
        (if g = fd' then Some ((conn_at ns j fd')\<lparr>pc_dec := d\<rparr>) else um_find (p_conns (ns j)) g))"

lemma moved_bufs:
  assumes "moved f ns i fd j fd' k d extra ns'" "um_find (p_conns (ns a)) g \<noteq> None"
  shows "pc_dec (conn_at ns' a g) = (if a = j \<and> g = fd' then d else pc_dec (conn_at ns a g))"
    and "write_buf (conn_at ns' a g) =
      (if a = i \<and> g = fd then drop k (write_buf (conn_at ns a g))
       else write_buf (conn_at ns a g) @ (if a = j then wire_of f (extra g) else []))"
proof -
  have ij: "i \<noteq> j" and a: "a \<noteq> i \<Longrightarrow> a \<noteq> j \<Longrightarrow> ns' a = ns a"
    and i: "ns' i = (ns i)\<lparr>p_conns := um_put fd ((conn_at ns i fd)\<lparr>write_buf := drop k (write_buf (conn_at ns i fd))\<rparr>) (p_conns (ns i))\<rparr>"
    and j: "um_find (p_conns (ns' j)) g = map_option (append_buf (wire_of f (extra g)))
        (if g = fd' then Some ((conn_at ns j fd')\<lparr>pc_dec := d\<rparr>) else um_find (p_conns (ns j)) g)"
    using assms(1) by (auto simp: moved_def)
  consider "a = i" | "a = j" "a \<noteq> i" | "a \<noteq> i" "a \<noteq> j" using ij by blast
  then have "pc_dec (conn_at ns' a g) = (if a = j \<and> g = fd' then d else pc_dec (conn_at ns a g)) \<and>
    write_buf (conn_at ns' a g) =
      (if a = i \<and> g = fd then drop k (write_buf (conn_at ns a g))
       else write_buf (conn_at ns a g) @ (if a = j then wire_of f (extra g) else []))"
  proof cases
    case 1
    then show ?thesis using ij i by (simp add: conn_at_def)
  next
    case 2
    then show ?thesis using j assms(2) by (auto simp: conn_at_def)
  next
    case 3
    then show ?thesis using a by (simp add: conn_at_def)
  qed
  then show "pc_dec (conn_at ns' a g) = (if a = j \<and> g = fd' then d else pc_dec (conn_at ns a g))"
    and "write_buf (conn_at ns' a g) =
      (if a = i \<and> g = fd then drop k (write_buf (conn_at ns a g))
       else write_buf (conn_at ns a g) @ (if a = j then wire_of f (extra g) else []))" by auto
qed

text \<open>The copies under way after the transfer.\<close>

definition moved_copies :: "(nat \<Rightarrow> int \<Rightarrow> u32 list) \<Rightarrow> nat \<Rightarrow> int \<Rightarrow> nat \<Rightarrow> nat \<Rightarrow> (int \<Rightarrow> u32 list) \<Rightarrow> nat \<Rightarrow> int \<Rightarrow> u32 list" where
  "moved_copies T i fd j m extra a g =
     (if a = i \<and> g = fd then drop m (T i fd) else T a g) @ (if a = j then extra g else [])"

lemma links_okD:
  assumes "links_ok N link" "link i fd = Some (j, fd')"
  shows "i < N" "j < N" "i \<noteq> j" "link j fd' = Some (i, fd)"
  using assms unfolding links_ok_def by blast+

lemma tracked_conn:
  assumes "links_ok (fl_nodes f) (fl_link f)" "tracks f ns0 S T ns" "fl_link f a g = Some (b, g')"
  shows "um_find (p_conns (ns a)) g \<noteq> None"
proof -
  have "node_tracks f ns0 S a (ns a)" by (rule tracksD [OF assms(2)]) (rule links_okD [OF assms(1,3)])
  from node_tracks_conn [OF this, of g] assms(3) show ?thesis by (auto split: option.splits)
qed

lemma moved_streams:
  assumes "links_ok (fl_nodes f) (fl_link f)" "tracks f ns0 S T ns" "moved f ns i fd j fd' k d extra ns'"
    and "fl_link f i fd = Some (j, fd')" "fl_link f a g = Some (b, g')"
    and "buf d @ drop k (write_buf (conn_at ns i fd)) = wire_of f (drop m (T i fd))"
  shows "buf (pc_dec (conn_at ns' b g')) @ write_buf (conn_at ns' a g) = wire_of f (moved_copies T i fd j m extra a g)"
proof -
  note l = links_okD [OF assms(1)]
  have lb: "fl_link f b g' = Some (a, g)" by (rule l [OF assms(5)])
  note conn = tracked_conn [OF assms(1,2)]
  have same: "a = i \<and> g = fd \<longleftrightarrow> b = j \<and> g' = fd'" using assms(4,5) l [OF assms(4)] lb by auto
  note old = tracksD(4) [OF assms(2,5)]
  show ?thesis
    using moved_bufs [OF assms(3) conn [OF assms(5)]] moved_bufs [OF assms(3) conn [OF lb]] same old assms(6)
      l [OF assms(4)] by (auto simp: moved_copies_def)
qed

lemma node_tracks_writer:
  assumes "node_tracks f ns0 S i n" "um_find (p_conns n) fd = Some c" "i \<in> S' \<longleftrightarrow> i \<in> S"
  shows "node_tracks f ns0 S' i (n\<lparr>p_conns := um_put fd (c\<lparr>write_buf := w\<rparr>) (p_conns n)\<rparr>)"
proof -
  have "case um_find (p_conns (n\<lparr>p_conns := um_put fd (c\<lparr>write_buf := w\<rparr>) (p_conns n)\<rparr>)) g of
      None \<Rightarrow> fl_link f i g = None
    | Some c \<Rightarrow> fl_link f i g \<noteq> None \<and> peer_known c \<and> pc_peer c = pc_peer (conn_at ns0 i g) \<and>
        \<not> error (pc_dec c) \<and> drain (pc_dec c) = ([], pc_dec c)" for g
    using node_tracks_conn [OF assms(1), of g] assms(2) by auto
  then show ?thesis using assms(1,3) unfolding node_tracks_def by simp
qed

text \<open>A transfer keeps track of the flood, whether or not the reading node learns of the message.\<close>

lemma tracks_moved:
  assumes lo: "links_ok (fl_nodes f) (fl_link f)" and tr: "tracks f ns0 S T ns"
    and mv: "moved f ns i fd j fd' k d extra ns'" and l: "fl_link f i fd = Some (j, fd')"
    and stream: "buf d @ drop k (write_buf (conn_at ns i fd)) = wire_of f (drop m (T i fd))"
    and node: "node_tracks f ns0 S' j (ns' j)" and S': "S' = S \<or> S' = insert j S"
    and extra: "\<And>g t. t \<in> set (extra g) \<Longrightarrow> t \<le> fl_ttl f \<and> (enough f \<longrightarrow> unat (fl_ttl f) < unat t + card S') \<and> j \<in> S'"
    and cover: "\<And>g b g'. enough f \<Longrightarrow> fl_link f j g = Some (b, g') \<Longrightarrow> j \<in> S' - S \<Longrightarrow> b \<notin> S' \<Longrightarrow> extra g \<noteq> []"
    and rest: "j \<notin> S' \<Longrightarrow> drop m (T i fd) = T i fd"
  shows "tracks f ns0 S' (moved_copies T i fd j m extra) ns'"
proof -
  note lk = links_okD [OF lo l] and t = tracksD [OF tr]
  have sub: "S \<subseteq> S'" and S'j: "a \<in> S' \<longleftrightarrow> a \<in> S" if "a \<noteq> j" for a using S' that by auto
  have "finite S" using t(1) finite_subset by blast
  with S' have card: "card S \<le> card S'" by (auto simp: card_insert_if)
  have "node_tracks f ns0 S' a (ns' a)" if "a < fl_nodes f" for a
  proof -
    consider "a = j" | "a = i" "a \<noteq> j" | "a \<noteq> i" "a \<noteq> j" by blast
    then show ?thesis
    proof cases
      case 2
      have "um_find (p_conns (ns i)) fd = Some (conn_at ns i fd)"
        using tracked_conn [OF lo tr l] by (auto simp: conn_at_def)
      then show ?thesis using 2 mv node_tracks_writer [OF t(3) [OF lk(1)] _ S'j] by (simp add: moved_def)
    next
      case 3
      then have "ns' a = ns a" using mv by (simp add: moved_def)
      then show ?thesis using t(3) [OF that] S'j [OF 3(2)] unfolding node_tracks_def by simp
    qed (use node in simp)
  qed
  moreover have "S' \<subseteq> {..<fl_nodes f}" "fl_orig f \<in> S'" using t(1,2) S' lk by auto
  moreover have "(\<forall>t\<in>set (moved_copies T i fd j m extra a g). t \<le> fl_ttl f \<and> (enough f \<longrightarrow> unat (fl_ttl f) < unat t + card S')) \<and>
      (moved_copies T i fd j m extra a g \<noteq> [] \<longrightarrow> a \<in> S') \<and>
      (enough f \<longrightarrow> a \<in> S' \<longrightarrow> b \<notin> S' \<longrightarrow> moved_copies T i fd j m extra a g \<noteq> [])" if ag: "fl_link f a g = Some (b, g')" for a g b g'
  proof (intro conjI ballI impI)
    fix u assume "u \<in> set (moved_copies T i fd j m extra a g)"
    then have "u \<in> set (T a g) \<or> a = j \<and> u \<in> set (extra g)"
      by (auto simp: moved_copies_def dest: in_set_dropD split: if_splits)
    then show "u \<le> fl_ttl f" "enough f \<Longrightarrow> unat (fl_ttl f) < unat u + card S'" using t(5) [OF ag] extra card by (blast, fastforce)
  next
    assume "moved_copies T i fd j m extra a g \<noteq> []"
    then have "T a g \<noteq> [] \<or> a = j \<and> extra g \<noteq> []" by (auto simp: moved_copies_def split: if_splits)
    then show "a \<in> S'" using t(6) [OF ag] extra [of "hd (extra g)" g] sub S' by auto
  next
    assume e: "enough f" and a: "a \<in> S'" "b \<notin> S'"
    show "moved_copies T i fd j m extra a g \<noteq> []"
    proof (cases "a \<in> S")
      case True
      then have "T a g \<noteq> []" using t(7) [OF ag e] a(2) S' by auto
      then show ?thesis using rest a(2) l ag by (auto simp: moved_copies_def)
    next
      case False
      then have "a = j" using a S' by auto
      then show ?thesis using cover [OF e, of g b g'] ag a False by (auto simp: moved_copies_def)
    qed
  qed
  ultimately show ?thesis unfolding tracks_def using moved_streams [OF lo tr mv l _ stream] by blast
qed

lemma node_tracks_reader:
  assumes "node_tracks f ns0 S j n" "um_find (p_conns n) fd = Some c" "\<not> error d" "drain d = ([], d)"
  shows "node_tracks f ns0 S j (n\<lparr>p_conns := um_put fd (c\<lparr>pc_dec := d\<rparr>) (p_conns n)\<rparr>)"
proof -
  have "case um_find (p_conns (n\<lparr>p_conns := um_put fd (c\<lparr>pc_dec := d\<rparr>) (p_conns n)\<rparr>)) g of
      None \<Rightarrow> fl_link f j g = None
    | Some c \<Rightarrow> fl_link f j g \<noteq> None \<and> peer_known c \<and> pc_peer c = pc_peer (conn_at ns0 j g) \<and>
        \<not> error (pc_dec c) \<and> drain (pc_dec c) = ([], pc_dec c)" for g
    using node_tracks_conn [OF assms(1), of g] node_tracks_conn [OF assms(1), of fd] assms(2-4) by auto
  then show ?thesis using assms(1) unfolding node_tracks_def by simp
qed

lemma node_tracks_learns:
  assumes "node_tracks f ns0 S j n" "um_find (p_conns n) fd = Some c" "\<not> error d" "drain d = ([], d)" "j \<notin> S" "fl_orig f \<in> S"
    and "fl_mid f \<in> seen_set n' \<and> um_ok (p_conns n') \<and> node_self n' = node_self n \<and> my_topics n' = my_topics n \<and>
       has_on_topic n' = has_on_topic n \<and> carry_guard n' = carry_guard n \<and> p_events n' = p_events n @ heard f n"
    and conns: "\<And>g. um_find (p_conns n') g = map_option (append_buf (w g)) (if g = fd then Some (c\<lparr>pc_dec := d\<rparr>) else um_find (p_conns n) g)"
  shows "node_tracks f ns0 (insert j S) j n'"
proof -
  have "case um_find (p_conns n') g of
      None \<Rightarrow> fl_link f j g = None
    | Some c \<Rightarrow> fl_link f j g \<noteq> None \<and> peer_known c \<and> pc_peer c = pc_peer (conn_at ns0 j g) \<and>
        \<not> error (pc_dec c) \<and> drain (pc_dec c) = ([], pc_dec c)" for g
    using node_tracks_conn [OF assms(1), of g] node_tracks_conn [OF assms(1), of fd] assms(2-4) conns [of g] by (auto split: option.splits)
  moreover have "heard f n = heard f (ns0 j)" using assms(1) by (simp add: heard_def node_tracks_def)
  moreover have "j \<noteq> fl_orig f" using assms(5,6) by auto
  ultimately show ?thesis using assms(1,5,7) unfolding node_tracks_def by simp
qed

text \<open>The bytes waiting to be written.\<close>

definition load :: "flood \<Rightarrow> (nat \<Rightarrow> p2p_node) \<Rightarrow> nat" where
  "load f ns = (\<Sum>(i, fd)\<in>{(i, fd). fl_link f i fd \<noteq> None}. length (write_buf (conn_at ns i fd)))"

lemma finite_links:
  assumes "links_ok (fl_nodes f) (fl_link f)" "tracks f ns0 S T ns"
  shows "finite {(i, fd). fl_link f i fd \<noteq> None}"
proof (rule finite_subset)
  show "{(i, fd). fl_link f i fd \<noteq> None} \<subseteq> Sigma {..<fl_nodes f} (\<lambda>i. fst ` set (p_conns (ns i)))"
  proof clarify
    fix i fd j fd' assume l: "fl_link f i fd = Some (j, fd')"
    then have "um_find (p_conns (ns i)) fd \<noteq> None" by (rule tracked_conn [OF assms])
    then have "fd \<in> fst ` set (p_conns (ns i))" by (simp add: um_find_def map_of_eq_None_iff)
    moreover have "i < fl_nodes f" by (rule links_okD [OF assms(1) l])
    ultimately show "i \<in> {..<fl_nodes f} \<and> fd \<in> fst ` set (p_conns (ns i))" by simp
  qed
qed simp

lemma load_decreases:
  assumes lo: "links_ok (fl_nodes f) (fl_link f)" and tr: "tracks f ns0 S T ns"
    and mv: "moved f ns i fd j fd' k d (\<lambda>_. []) ns'" and l: "fl_link f i fd = Some (j, fd')"
    and "0 < k" "k \<le> length (write_buf (conn_at ns i fd))"
  shows "load f ns' < load f ns"
  unfolding load_def
proof (rule sum_strict_mono_ex1)
  have eq: "length (write_buf (conn_at ns' a g)) =
      (if a = i \<and> g = fd then length (write_buf (conn_at ns a g)) - k else length (write_buf (conn_at ns a g)))"
    if "fl_link f a g \<noteq> None" for a g
    using that moved_bufs(2) [OF mv] tracked_conn [OF lo tr] by (auto split: option.splits)
  show "\<forall>x\<in>{(i, fd). fl_link f i fd \<noteq> None}.
      (case x of (i, fd) \<Rightarrow> length (write_buf (conn_at ns' i fd))) \<le> (case x of (i, fd) \<Rightarrow> length (write_buf (conn_at ns i fd)))"
    using eq by auto
  show "\<exists>x\<in>{(i, fd). fl_link f i fd \<noteq> None}.
      (case x of (i, fd) \<Rightarrow> length (write_buf (conn_at ns' i fd))) < (case x of (i, fd) \<Rightarrow> length (write_buf (conn_at ns i fd)))"
    using l eq [of i fd] assms(5,6) by (intro bexI [of _ "(i, fd)"]) auto
qed (rule finite_links [OF lo tr])

text \<open>A publication in a network at rest, with any hop budget, and one whose hop budget is not smaller than the number of other
  nodes.\<close>

definition flood_start :: "flood \<Rightarrow> (nat \<Rightarrow> p2p_node) \<Rightarrow> bool" where
  "flood_start f ns0 \<longleftrightarrow>
     links_ok (fl_nodes f) (fl_link f) \<and> at_rest (fl_nodes f) (fl_link f) ns0 \<and> fits f \<and> fl_mid f \<noteq> [] \<and>
     fl_orig f < fl_nodes f \<and> fl_from f = self_info (ns0 (fl_orig f)) \<and>
     (\<forall>i<fl_nodes f. fl_mid f \<notin> seen_set (ns0 i))"

definition flood_ok :: "flood \<Rightarrow> (nat \<Rightarrow> p2p_node) \<Rightarrow> bool" where
  "flood_ok f ns0 \<longleftrightarrow> flood_start f ns0 \<and> fl_nodes f \<le> Suc (unat (fl_ttl f))"

lemma flood_startD:
  assumes "flood_start f ns0"
  shows "links_ok (fl_nodes f) (fl_link f)" "at_rest (fl_nodes f) (fl_link f) ns0" "fits f" "fl_mid f \<noteq> []"
    "fl_orig f < fl_nodes f" "fl_from f = self_info (ns0 (fl_orig f))" "i < fl_nodes f \<Longrightarrow> fl_mid f \<notin> seen_set (ns0 i)"
  using assms unfolding flood_start_def by blast+

lemma flood_okD: "flood_ok f ns0 \<Longrightarrow> flood_start f ns0" "flood_ok f ns0 \<Longrightarrow> enough f"
  by (simp_all add: flood_ok_def enough_def)

lemma at_restD:
  assumes "at_rest N link ns" "i < N"
  shows "length (node_self (ns i)) = kNodeIdBytes" "um_ok (p_conns (ns i))" "\<forall>p k. carry_guard (ns i) p k"
    and "link i fd = None \<longleftrightarrow> um_find (p_conns (ns i)) fd = None"
    and "link i fd = Some (j, fd') \<Longrightarrow> pc_dec (conn_at ns i fd) = decoder_init"
    and "link i fd = Some (j, fd') \<Longrightarrow> write_buf (conn_at ns i fd) = []"
    and "link i fd = Some (j, fd') \<Longrightarrow> peer_known (conn_at ns i fd)"
    and "link i fd = Some (j, fd') \<Longrightarrow> peer_id (pc_peer (conn_at ns i fd)) = node_self (ns j)"
  using assms(2) assms(1) [unfolded at_rest_def] by blast+

lemma at_rest_inj: "at_rest N link ns \<Longrightarrow> i < N \<Longrightarrow> j < N \<Longrightarrow> node_self (ns i) = node_self (ns j) \<longleftrightarrow> i = j"
  unfolding at_rest_def by (auto dest: inj_onD)

lemma origin_id: "flood_start f ns0 \<Longrightarrow> peer_id (from_proto (fl_from f)) = node_self (ns0 (fl_orig f))"
  using flood_startD(6) at_restD(1) [OF flood_startD(2) flood_startD(5)] by (simp add: from_proto_def self_info_def)

lemma onward_le: "t \<le> u \<Longrightarrow> v \<in> set (onward t) \<Longrightarrow> v \<le> u"
  by (auto simp: onward_def word_le_nat_alt unat_minus_one split: if_splits)

lemma tracks_fresh_positive:
  assumes "flood_start f ns0" "tracks f ns0 S T ns" "fl_link f i fd = Some (j, fd')" "j \<notin> S" "t \<in> set (T i fd)" and e: "enough f"
  shows "onward t = [t - 1]" "unat (fl_ttl f) < unat (t - 1) + card (insert j S)"
proof -
  note t = tracksD [OF assms(2)]
  have "finite S" "insert j S \<subseteq> {..<fl_nodes f}"
    using t(1) links_okD [OF flood_startD(1) [OF assms(1)] assms(3)] finite_subset by auto
  then have "Suc (card S) \<le> fl_nodes f" using assms(4) card_mono [of "{..<fl_nodes f}" "insert j S"] by simp
  then have c: "card S \<le> unat (fl_ttl f)" using e unfolding enough_def by linarith
  have lt: "unat (fl_ttl f) < unat t + card S" "t \<le> fl_ttl f" using t(5) [OF assms(3,5)] e by auto
  with c have t0: "t \<noteq> 0" by auto
  then show "onward t = [t - 1]" by (simp add: onward_def)
  from t0 have m: "unat (t - 1) = unat t - 1" "0 < unat t" by (simp_all add: unat_minus_one unat_gt_0)
  with lt(1) \<open>finite S\<close> assms(4) show "unat (fl_ttl f) < unat (t - 1) + card (insert j S)" by simp
qed

lemma tracked_transfer:
  assumes ok: "flood_start f ns0" and tr: "tracks f ns0 S T ns" and st: "net_step (fl_pb f) (fl_link f) ns ns'"
  obtains i fd c k j fd' c' m d where "fl_link f i fd = Some (j, fd')" "conn_at ns i fd = c" "0 < k" "k \<le> length (write_buf c)"
    "um_find (p_conns (ns j)) fd' = Some c'" "\<not> error d" "drain d = ([], d)" "buf d @ drop k (write_buf c) = wire_of f (drop m (T i fd))"
    "\<And>extra. moved f ns i fd j fd' k d extra ns' \<longleftrightarrow> (\<forall>g. um_find (p_conns (ns' j)) g = map_option (append_buf (wire_of f (extra g)))
        (if g = fd' then Some (c'\<lparr>pc_dec := d\<rparr>) else um_find (p_conns (ns j)) g))"
    "j \<in> S \<or> take m (T i fd) = [] \<Longrightarrow> ns' j = (ns j)\<lparr>p_conns := um_put fd' (c'\<lparr>pc_dec := d\<rparr>) (p_conns (ns j))\<rparr>"
    "j \<notin> S \<Longrightarrow> take m (T i fd) \<noteq> [] \<Longrightarrow>
       fl_mid f \<in> seen_set (ns' j) \<and> um_ok (p_conns (ns' j)) \<and> node_self (ns' j) = node_self (ns j) \<and> my_topics (ns' j) = my_topics (ns j) \<and>
       has_on_topic (ns' j) = has_on_topic (ns j) \<and> carry_guard (ns' j) = carry_guard (ns j) \<and> p_events (ns' j) = p_events (ns j) @ heard f (ns j) \<and>
       (\<forall>g. um_find (p_conns (ns' j)) g =
          map_option (\<lambda>c. if g \<noteq> fd' \<and> peer_known c \<and> peer_id (pc_peer c) \<noteq> peer_id (from_proto (fl_from f))
            then append_buf (wire_of f (onward (hd (T i fd)))) c else c)
            (if g = fd' then Some (c'\<lparr>pc_dec := d\<rparr>) else um_find (p_conns (ns j)) g))"
  using st
proof (cases rule: net_step.cases)
  case (transfer i fd c k j fd' n ns1)
  note fk = flood_startD [OF ok] and l = transfer(5)
  note lk = links_okD [OF fk(1) l] and t = tracksD [OF tr]
  have c: "conn_at ns i fd = c" using transfer(2) by (simp add: conn_at_def)
  obtain c' where c': "um_find (p_conns (ns j)) fd' = Some c'" using tracked_conn [OF fk(1) tr lk(4)] by auto
  then have cj: "conn_at ns j fd' = c'" by (simp add: conn_at_def)
  note tj = t(3) [OF lk(2)]
  have err: "\<not> error (pc_dec c')" using node_tracks_conn [OF tj, of fd'] c' by simp
  have wn: "write_buf c \<noteq> []" and chunk: "take k (write_buf c) \<noteq> []" using transfer(3,4) by auto
  have stream: "buf (pc_dec c') @ take k (write_buf c) @ drop k (write_buf c) = wire_of f (T i fd)" using t(4) [OF l] c cj by simp
  have nj: "um_ok (p_conns (ns j))" "fl_mid f \<in> seen_set (ns j) \<longleftrightarrow> j \<in> S" "\<forall>p k. carry_guard (ns j) p k"
    using tj at_restD(3) [OF fk(2) lk(2)] by (auto simp: node_tracks_def)
  have le: "\<forall>t\<in>set (T i fd). t \<le> fl_ttl f" using t(5) [OF l] by blast
  note read = read_copies_node [OF fk(3) le c' err chunk stream nj(1) fk(4) nj(3), unfolded nj(2)]
  have n: "n = (ns i)\<lparr>p_conns := um_put fd (c\<lparr>write_buf := drop k (write_buf c)\<rparr>) (p_conns (ns i))\<rparr>"
    using transfer(2,3,6) wn by simp
  have ns': "ns' = (ns(i := n))(j := on_readable (fl_pb f) fd' (take k (write_buf c)) (ns j))"
    using transfer(1,7) lk(3) by (simp add: fun_upd_def)
  have mv: "moved f ns i fd j fd' k d extra ns' \<longleftrightarrow> (\<forall>g. um_find (p_conns (ns' j)) g = map_option (append_buf (wire_of f (extra g)))
        (if g = fd' then Some (c'\<lparr>pc_dec := d\<rparr>) else um_find (p_conns (ns j)) g))" for extra d
    using lk(3) n by (simp add: moved_def ns' c cj)
  have j: "on_readable (fl_pb f) fd' (take k (write_buf c)) (ns j) = ns' j" by (simp add: ns')
  show thesis
  proof (rule read [unfolded j])
    fix m d n'
    assume r: "n' = ns' j" "\<not> error d" "drain d = ([], d)" "buf d @ drop k (write_buf c) = wire_of f (drop m (T i fd))"
    assume "j \<in> S \<or> take m (T i fd) = [] \<Longrightarrow> n' = (ns j)\<lparr>p_conns := um_put fd' (c'\<lparr>pc_dec := d\<rparr>) (p_conns (ns j))\<rparr>"
      and "j \<notin> S \<Longrightarrow> take m (T i fd) \<noteq> [] \<Longrightarrow>
       fl_mid f \<in> seen_set n' \<and> um_ok (p_conns n') \<and> node_self n' = node_self (ns j) \<and> my_topics n' = my_topics (ns j) \<and>
       has_on_topic n' = has_on_topic (ns j) \<and> carry_guard n' = carry_guard (ns j) \<and> p_events n' = p_events (ns j) @ heard f (ns j) \<and>
       (\<forall>g. um_find (p_conns n') g =
          map_option (\<lambda>c. if g \<noteq> fd' \<and> peer_known c \<and> peer_id (pc_peer c) \<noteq> peer_id (from_proto (fl_from f))
            then append_buf (wire_of f (onward (hd (T i fd)))) c else c)
            (if g = fd' then Some (c'\<lparr>pc_dec := d\<rparr>) else um_find (p_conns (ns j)) g))"
    from this [unfolded r(1)] show thesis by (rule that [OF l c transfer(3,4) c' r(2-4) mv])
  qed
qed

lemma tracks_step:
  assumes ok: "flood_start f ns0" and tr: "tracks f ns0 S T ns" and st: "net_step (fl_pb f) (fl_link f) ns ns'"
  shows "\<exists>S' T'. tracks f ns0 S' T' ns' \<and> (S \<subset> S' \<or> S' = S \<and> load f ns' < load f ns)"
proof (rule tracked_transfer [OF ok tr st])
  fix i fd c k j fd' c' m d
  assume l: "fl_link f i fd = Some (j, fd')" and c: "conn_at ns i fd = c" and k: "0 < k" "k \<le> length (write_buf c)"
    and c': "um_find (p_conns (ns j)) fd' = Some c'"
    and r: "\<not> error d" "drain d = ([], d)" "buf d @ drop k (write_buf c) = wire_of f (drop m (T i fd))"
  assume mv: "\<And>extra. moved f ns i fd j fd' k d extra ns' \<longleftrightarrow> (\<forall>g. um_find (p_conns (ns' j)) g = map_option (append_buf (wire_of f (extra g)))
        (if g = fd' then Some (c'\<lparr>pc_dec := d\<rparr>) else um_find (p_conns (ns j)) g))"
    and A: "j \<in> S \<or> take m (T i fd) = [] \<Longrightarrow> ns' j = (ns j)\<lparr>p_conns := um_put fd' (c'\<lparr>pc_dec := d\<rparr>) (p_conns (ns j))\<rparr>"
    and B: "j \<notin> S \<Longrightarrow> take m (T i fd) \<noteq> [] \<Longrightarrow>
       fl_mid f \<in> seen_set (ns' j) \<and> um_ok (p_conns (ns' j)) \<and> node_self (ns' j) = node_self (ns j) \<and> my_topics (ns' j) = my_topics (ns j) \<and>
       has_on_topic (ns' j) = has_on_topic (ns j) \<and> carry_guard (ns' j) = carry_guard (ns j) \<and> p_events (ns' j) = p_events (ns j) @ heard f (ns j) \<and>
       (\<forall>g. um_find (p_conns (ns' j)) g =
          map_option (\<lambda>c. if g \<noteq> fd' \<and> peer_known c \<and> peer_id (pc_peer c) \<noteq> peer_id (from_proto (fl_from f))
            then append_buf (wire_of f (onward (hd (T i fd)))) c else c)
            (if g = fd' then Some (c'\<lparr>pc_dec := d\<rparr>) else um_find (p_conns (ns j)) g))"
  note fk = flood_startD [OF ok] and t = tracksD [OF tr]
  note lk = links_okD [OF fk(1) l]
  note tj = t(3) [OF lk(2)]
  show ?thesis
  proof (cases "j \<in> S \<or> take m (T i fd) = []")
    case True
    have mvA: "moved f ns i fd j fd' k d (\<lambda>_. []) ns'" unfolding mv A [OF True] by (simp add: option.map_id)
    have "tracks f ns0 S (moved_copies T i fd j m (\<lambda>_. [])) ns'"
    proof (rule tracks_moved [OF fk(1) tr mvA l])
      show "node_tracks f ns0 S j (ns' j)" using node_tracks_reader [OF tj c' r(1,2)] A [OF True] by simp
      show "drop m (T i fd) = T i fd" if "j \<notin> S" using True that by auto
    qed (use r(3) c in auto)
    moreover have "load f ns' < load f ns" using load_decreases [OF fk(1) tr mvA l] k c by simp
    ultimately show ?thesis by blast
  next
    case False
    define extra where "extra g = (if g \<noteq> fd' \<and> peer_id (pc_peer (conn_at ns0 j g)) \<noteq> node_self (ns0 (fl_orig f)) then onward (hd (T i fd)) else [])" for g
    have new: "j \<notin> S" "take m (T i fd) \<noteq> []" and hd: "hd (T i fd) \<in> set (T i fd)" using False by (auto intro: hd_in_set)
    note fresh = tracks_fresh_positive [OF ok tr l new(1) hd] and b = B [OF new]
    have mvB: "moved f ns i fd j fd' k d extra ns'" unfolding mv
    proof
      fix g
      show "um_find (p_conns (ns' j)) g = map_option (append_buf (wire_of f (extra g)))
        (if g = fd' then Some (c'\<lparr>pc_dec := d\<rparr>) else um_find (p_conns (ns j)) g)"
        using b node_tracks_conn [OF tj, of g] origin_id [OF ok] by (auto simp: extra_def split: option.splits)
    qed
    have "tracks f ns0 (insert j S) (moved_copies T i fd j m extra) ns'"
    proof (rule tracks_moved [OF fk(1) tr mvB l])
      show "node_tracks f ns0 (insert j S) j (ns' j)"
        by (rule node_tracks_learns [OF tj c' r(1,2) new(1) t(2)]) (use b mvB mv in \<open>blast, blast\<close>)
      show "t \<le> fl_ttl f \<and> (enough f \<longrightarrow> unat (fl_ttl f) < unat t + card (insert j S)) \<and> j \<in> insert j S" if "t \<in> set (extra g)" for g t
      proof -
        have "t \<in> set (onward (hd (T i fd)))" using that by (auto simp: extra_def split: if_splits)
        then show ?thesis using onward_le [of "hd (T i fd)" "fl_ttl f"] tracksD(5) [OF tr l hd] fresh by auto
      qed
      show "extra g \<noteq> []" if "enough f" "fl_link f j g = Some (b, g')" "b \<notin> insert j S" for g b g'
      proof -
        note that = that(2,3) and e = that(1)
        have "g \<noteq> fd'" using that lk(4) t(6) [OF l] new(2) by auto
        moreover have "b \<noteq> fl_orig f" using that t(2) by auto
        ultimately show ?thesis
          using at_restD(8) [OF fk(2) lk(2) that(1)] at_rest_inj [OF fk(2)] links_okD [OF fk(1) that(1)] fk(5) fresh(1) [OF e] by (simp add: extra_def)
      qed
    qed (use r(3) c in auto)
    then show ?thesis using new by blast
  qed
qed

lemma tracks_start:
  assumes ok: "flood_start f ns0"
  defines "o' \<equiv> fl_orig f"
  shows "tracks f ns0 {o'} (\<lambda>i fd. if i = o' \<and> fl_link f i fd \<noteq> None then [fl_ttl f] else [])
    (ns0(o' := publish (fl_pb f) (fl_mid f) (fl_topic f) (fl_payload f) (fl_ttl f) (ns0 o')))"
proof -
  note fk = flood_startD [OF ok]
  let ?n = "publish (fl_pb f) (fl_mid f) (fl_topic f) (fl_payload f) (fl_ttl f) (ns0 o')"
  let ?r = "snd (seen_recently (fl_mid f) (ns0 o'))"
  let ?ns = "ns0(o' := ?n)"
  note R = at_restD [OF fk(2)]
  have o: "o' < fl_nodes f" and notseen: "fl_mid f \<notin> seen_set (ns0 o')" using fk(5,7) by (simp_all add: o'_def)
  note new = seen_recently_new [OF notseen]
  have ok_r: "um_ok (p_conns ?r)" using new R(2) [OF o] by simp
  have pub: "?n = fan_out (fl_pb f) (\<lambda>fd c. peer_known c) (copy f (fl_ttl f)) (p_conns ?r) ?r"
    using fk(6) by (simp add: publish_def send_to_all_fan_out copy_def o'_def)
  have same: "same_node ?r ?n" unfolding pub by (rule fan_out_same)
  note s = same_nodeD [OF same]
  have okn: "um_ok (p_conns ?n)" unfolding pub by (rule fan_out_um_ok [OF ok_r])
  have at: "um_find (p_conns (ns0 i)) fd = (if fl_link f i fd = None then None else Some (conn_at ns0 i fd))" if "i < fl_nodes f" for i fd
    using R(4) [OF that, of fd] by (auto simp: conn_at_def)
  have find: "um_find (p_conns (?ns i)) fd =
      map_option (append_buf (if i = o' then wire_of f [fl_ttl f] else [])) (um_find (p_conns (ns0 i)) fd)" if "i < fl_nodes f" for i fd
  proof (cases "i = o'")
    case True
    have "peer_known c" if "um_find (p_conns (ns0 o')) fd = Some c" for c
      using that at [OF o, of fd] R(7) [OF o] by (auto split: if_splits)
    moreover have "um_find (p_conns ?n) fd =
        map_option (\<lambda>c. if peer_known c then append_buf (wire_of f [fl_ttl f]) c else c) (um_find (p_conns ?r) fd)"
      unfolding pub wire_single by (rule fan_out_self [OF ok_r])
    ultimately show ?thesis using new True by (cases "um_find (p_conns (ns0 o')) fd") simp_all
  qed (simp add: option.map_id)
  have conn: "conn_at ?ns i fd = append_buf (if i = o' then wire_of f [fl_ttl f] else []) (conn_at ns0 i fd)"
    if "fl_link f i fd = Some (j, fd')" for i fd j fd'
    using that unfolding conn_at_def [of ?ns] find [OF links_okD(1) [OF fk(1) that]] at [OF links_okD(1) [OF fk(1) that]] by simp
  have dec: "\<not> error decoder_init" "buf decoder_init = []" by (simp_all add: decoder_init_def)
  have nodes: "node_tracks f ns0 {o'} i (?ns i)" if i: "i < fl_nodes f" for i
  proof -
    have "case um_find (p_conns (?ns i)) fd of
      None \<Rightarrow> fl_link f i fd = None
    | Some c \<Rightarrow> fl_link f i fd \<noteq> None \<and> peer_known c \<and> pc_peer c = pc_peer (conn_at ns0 i fd) \<and>
        \<not> error (pc_dec c) \<and> drain (pc_dec c) = ([], pc_dec c)" for fd
      unfolding find [OF i] at [OF i] using R(5,7) [OF i] dec by auto
    then show ?thesis unfolding node_tracks_def using s new fk(7) [OF i] R(2) [OF i] okn by (simp add: o'_def)
  qed
  show ?thesis unfolding tracks_def
  proof (intro conjI allI impI)
    fix i fd j fd' assume l: "fl_link f i fd = Some (j, fd')"
    note lk = links_okD [OF fk(1) l]
    show "buf (pc_dec (conn_at ?ns j fd')) @ write_buf (conn_at ?ns i fd) =
        wire_of f (if i = o' \<and> fl_link f i fd \<noteq> None then [fl_ttl f] else [])"
      using conn [OF l] conn [OF lk(4)] R(6) [OF lk(1) l] R(5) [OF lk(2,4)] l dec by simp
  qed (use o nodes in \<open>auto simp: o'_def split: if_splits\<close>)
qed

subsection \<open>Properties\<close>

lemma stuck_empty:
  assumes ok: "flood_start f ns0" and tr: "tracks f ns0 S T ns" and stuck: "\<nexists>ns'. net_step (fl_pb f) (fl_link f) ns ns'"
    and l: "fl_link f i fd = Some (j, fd')"
  shows "T i fd = []"
proof -
  note fk = flood_startD [OF ok] and t = tracksD [OF tr]
  note lk = links_okD [OF fk(1) l]
  obtain c where c: "um_find (p_conns (ns i)) fd = Some c" using tracked_conn [OF fk(1) tr l] by auto
  obtain c' where c': "um_find (p_conns (ns j)) fd' = Some c'" using tracked_conn [OF fk(1) tr lk(4)] by auto
  have "write_buf c = []"
  proof (rule ccontr)
    assume w: "write_buf c \<noteq> []"
    then have "1 \<le> length (write_buf c)" by (cases "write_buf c") auto
    moreover have "\<exists>n. on_writable [Some 1] fd (ns i) = Some n" using c w by simp
    ultimately show False
      using stuck net_step.transfer [where ns = ns and link = "fl_link f" and pb = "fl_pb f" and k = 1, OF c _ _ l _ refl] by auto
  qed
  then have b: "buf (pc_dec c') = wire_of f (T i fd)" using t(4) [OF l] c c' by (simp add: conn_at_def)
  let ?ps = "map (\<lambda>t. pb_ser (fl_pb f) (copy f t)) (T i fd)"
  have "\<forall>p\<in>set ?ps. length p \<le> kMaxFrameBytes" using t(5) [OF l] fk(3) by (auto simp: fits_def)
  moreover have "\<not> error (pc_dec c')" "drain (pc_dec c') = ([], pc_dec c')" using node_tracks_conn [OF t(3) [OF lk(2)], of fd'] c' by simp_all
  ultimately show ?thesis using drain_encoded [of ?ps "pc_dec c'"] b by (simp add: wire_of_def comp_def)
qed

lemma tracks_reachable:
  assumes "flood_start f ns0" "(net_step (fl_pb f) (fl_link f))\<^sup>*\<^sup>* ns ns'" "tracks f ns0 S T ns"
  shows "\<exists>S T. tracks f ns0 S T ns'"
  using assms(2,3)
proof (induction arbitrary: S T rule: converse_rtranclp_induct)
  case (step y z)
  then show ?case using tracks_step [OF assms(1) step.prems step.hyps(1)] by blast
qed blast

lemma flood_terminates:
  assumes ok: "flood_start f ns0" and start: "tracks f ns0 S T (run 0)" and run: "\<And>k. net_step (fl_pb f) (fl_link f) (run k) (run (Suc k))"
  shows False
proof -
  let ?R = "inv_image (less_than <*lex*> less_than) (\<lambda>(S, ns). (fl_nodes f - card S, load f ns))"
  define P where "P k S \<longleftrightarrow> (\<exists>T. tracks f ns0 S T (run k))" for k :: nat and S
  have step: "\<exists>S'. P (Suc k) S' \<and> ((S', run (Suc k)), (S, run k)) \<in> ?R" if Pk: "P k S" for k S
  proof -
    obtain T where T: "tracks f ns0 S T (run k)" using Pk by (auto simp: P_def)
    from tracks_step [OF ok T run]
    obtain S' T' where S': "tracks f ns0 S' T' (run (Suc k))" "S \<subset> S' \<or> S' = S \<and> load f (run (Suc k)) < load f (run k)" by auto
    have fin: "finite S'" "card S' \<le> fl_nodes f"
      using tracksD(1) [OF S'(1)] finite_subset card_mono [of "{..<fl_nodes f}" S'] by auto
    have "S \<subset> S' \<Longrightarrow> card S < card S'" using fin by (simp add: psubset_card_mono)
    with S' fin(2) show ?thesis unfolding P_def by fastforce
  qed
  have "\<exists>S. P 0 S" using start by (auto simp: P_def)
  then have "\<exists>s. \<forall>k. P k (s k) \<and> ((s (Suc k), run (Suc k)), (s k, run k)) \<in> ?R" using step by (rule dependent_nat_choice)
  then obtain s where s: "\<forall>k. P k (s k) \<and> ((s (Suc k), run (Suc k)), (s k, run k)) \<in> ?R" by (rule exE)
  have "((s (Suc k), run (Suc k)), (s k, run k)) \<in> ?R" for k by (rule conjunct2 [OF spec [OF s]])
  moreover have "wf ?R" by (intro wf_inv_image wf_lex_prod) auto
  ultimately show False using wf_no_infinite_down_chainE [of ?R "\<lambda>k. (s k, run k)"] by blast
qed

definition linked :: "links \<Rightarrow> nat \<Rightarrow> nat \<Rightarrow> bool" where
  "linked link i j \<longleftrightarrow> (\<exists>fd fd'. link i fd = Some (j, fd'))"

text \<open>C17. A publication dies down, whatever its hop budget. In a network at rest (all connections established and known at both
  ends, nothing under way, every node willing to carry) a node publishes a message with a fresh identifier, with any hop budget.
  However the transport then moves the bytes, in pieces of any size and in any order between the connections, it cannot go on
  forever, and it can always be brought to a state in which nothing is left to move.\<close>

theorem gossip_flood_terminates:
  assumes "flood_start f ns0"
    and "start = ns0(fl_orig f := publish (fl_pb f) (fl_mid f) (fl_topic f) (fl_payload f) (fl_ttl f) (ns0 (fl_orig f)))"
  shows "(\<nexists>run. run 0 = start \<and> (\<forall>k. net_step (fl_pb f) (fl_link f) (run k) (run (Suc k)))) \<and>
    (\<exists>ns. (net_step (fl_pb f) (fl_link f))\<^sup>*\<^sup>* start ns \<and> (\<nexists>ns'. net_step (fl_pb f) (fl_link f) ns ns'))"
proof -
  let ?step = "net_step (fl_pb f) (fl_link f)"
  note start = tracks_start [OF assms(1), folded assms(2)]
  have none: "\<nexists>run. run 0 = start \<and> (\<forall>k. ?step (run k) (run (Suc k)))"
  proof
    assume "\<exists>run. run 0 = start \<and> (\<forall>k. ?step (run k) (run (Suc k)))"
    then obtain run where run: "run 0 = start" "\<And>k. ?step (run k) (run (Suc k))" by auto
    show False by (rule flood_terminates [OF assms(1) start [folded run(1)] run(2)])
  qed
  moreover have "\<exists>ns. ?step\<^sup>*\<^sup>* start ns \<and> (\<nexists>ns'. ?step ns ns')"
  proof (rule ccontr)
    assume c: "\<not> ?thesis"
    have "\<exists>run. run 0 = start \<and> (\<forall>k. ?step\<^sup>*\<^sup>* start (run k) \<and> ?step (run k) (run (Suc k)))"
    proof -
      let ?run = "\<lambda>k. ((\<lambda>ns. SOME ns'. ?step ns ns') ^^ k) start"
      have "?step\<^sup>*\<^sup>* start (?run k) \<and> ?step (?run k) (?run (Suc k))" for k
      proof (induction k)
        case 0
        then show ?case using c someI_ex [of "\<lambda>ns'. ?step start ns'"] by auto
      next
        case (Suc k)
        then have r: "?step\<^sup>*\<^sup>* start (?run (Suc k))" by (meson rtranclp.rtrancl_into_rtrancl)
        then have "\<exists>ns'. ?step (?run (Suc k)) ns'" using c by blast
        then show ?case using r someI_ex [of "\<lambda>ns'. ?step (?run (Suc k)) ns'"] by simp
      qed
      then show ?thesis by (intro exI [of _ ?run]) simp
    qed
    then show False using none by blast
  qed
  ultimately show ?thesis by blast
qed

text \<open>C4. A publication reaches everyone. When nothing is left to move, every node that is connected to the publisher,
  directly or through others, has called its application exactly once with the message if it subscribes to the topic,
  and not at all if it does not.\<close>

theorem gossip_flood_delivers:
  assumes "flood_ok f ns0"
    and "start = ns0(fl_orig f := publish (fl_pb f) (fl_mid f) (fl_topic f) (fl_payload f) (fl_ttl f) (ns0 (fl_orig f)))"
    and "(net_step (fl_pb f) (fl_link f))\<^sup>*\<^sup>* start ns" "\<nexists>ns'. net_step (fl_pb f) (fl_link f) ns ns'"
    and "(linked (fl_link f))\<^sup>*\<^sup>* (fl_orig f) i" "i \<noteq> fl_orig f"
  shows "p_events (ns i) = p_events (ns0 i) @
     (if fl_topic f \<in> set (my_topics (ns0 i)) \<and> has_on_topic (ns0 i)
      then [(fl_topic f, fl_payload f, from_proto (self_info (ns0 (fl_orig f))))] else [])"
proof -
  note ok = flood_okD(1) [OF assms(1)]
  obtain S T where tr: "tracks f ns0 S T ns" using tracks_reachable [OF ok assms(3)] tracks_start [OF ok, folded assms(2)] by blast
  from assms(5) have "i \<in> S"
  proof induction
    case base
    then show ?case using tracksD(2) [OF tr] .
  next
    case (step a b)
    then obtain fd fd' where l: "fl_link f a fd = Some (b, fd')" by (auto simp: linked_def)
    show ?case using tracksD(7) [OF tr l flood_okD(2) [OF assms(1)] step.IH] stuck_empty [OF ok tr assms(4) l] by blast
  qed
  moreover from this have "node_tracks f ns0 S i (ns i)" using tracksD(1,3) [OF tr] by blast
  ultimately show ?thesis using assms(6) flood_startD(6) [OF ok] unfolding node_tracks_def heard_def by simp
qed

subsection \<open>A network of three nodes\<close>

text \<open>An encoding of publications, and three nodes in a row of which the last subscribes.\<close>

definition toy_ser :: "p2p_message \<Rightarrow> bytes" where
  "toy_ser m =
     (case m of
        Publish p topic mid payload ttl \<Rightarrow>
          7 # put_field (pp_node_id p) @ put_field (pp_addr p) @ put_field topic @ put_field mid @ put_field payload @ u32_be ttl
      | _ \<Rightarrow> [0])"

definition toy_parse :: "bytes \<Rightarrow> p2p_message option" where
  "toy_parse w =
     (case w of
        [] \<Rightarrow> Some NoBody
      | k # w \<Rightarrow>
          if k \<noteq> 7 then None
          else let (i, w) = get_field w; (a, w) = get_field w; (t, w) = get_field w; (mid, w) = get_field w; (p, w) = get_field w
               in Some (Publish \<lparr>pp_node_id = i, pp_addr = a\<rparr> t mid p (fst (get_u32_field w))))"

definition toy_p2p_pb :: "p2p_message pb" where
  "toy_p2p_pb = \<lparr>pb_ser = toy_ser, pb_parse = toy_parse\<rparr>"

lemma toy_parse_publish [simp]:
  "toy_parse (toy_ser (Publish p topic mid payload ttl)) = Some (Publish p topic mid payload ttl)"
  using get_u32_field_be [of ttl "[]"] by (simp add: toy_parse_def toy_ser_def)

lemma length_put_field [simp]: "length (put_field xs) = 2 * length xs + 1"
  by (simp add: put_field_def)

definition demo_id :: "nat \<Rightarrow> bytes" where
  "demo_id i = replicate kNodeIdBytes (of_nat i)"

definition demo_conn :: "nat \<Rightarrow> p_conn" where
  "demo_conn j = \<lparr>pc_dec = decoder_init, write_buf = [], pc_peer = \<lparr>peer_id = demo_id j, peer_addr = [], peer_pubkey = []\<rparr>,
     peer_known = True, outbound = False, remote_addr = []\<rparr>"

definition demo_node :: "nat \<Rightarrow> (int \<times> nat) list \<Rightarrow> p2p_node" where
  "demo_node i cs = \<lparr>node_self = demo_id i, node_table = rt_new (demo_id i), self_addr = [], p_conns = map (apsnd demo_conn) cs, id_to_fd = [],
     my_topics = (if i = 2 then [str_bytes ''news''] else []), topic_subs = [], seen_order = [], seen_set = {}, has_on_topic = True,
     p_events = [], carry_guard = (\<lambda>_ _. True)\<rparr>"

definition demo_net :: "nat \<Rightarrow> p2p_node" where
  "demo_net i = demo_node i (if i = 0 then [(3, 1)] else if i = 1 then [(4, 0), (5, 2)] else if i = 2 then [(6, 1)] else [])"

definition demo_links :: links where
  "demo_links i fd =
     (if i = 0 \<and> fd = 3 then Some (1, 4) else if i = 1 \<and> fd = 4 then Some (0, 3)
      else if i = 1 \<and> fd = 5 then Some (2, 6) else if i = 2 \<and> fd = 6 then Some (1, 5) else None)"

definition demo_flood :: flood where
  "demo_flood = \<lparr>fl_pb = toy_p2p_pb, fl_link = demo_links, fl_nodes = 3, fl_orig = 0, fl_from = self_info (demo_net 0),
     fl_topic = str_bytes ''news'', fl_mid = [9], fl_payload = [42], fl_ttl = 4\<rparr>"

lemma demo_at_rest: "at_rest 3 demo_links demo_net"
proof -
  have "inj_on (\<lambda>i. node_self (demo_net i)) {..<3}"
    by (rule inj_onI) (auto simp: demo_net_def demo_node_def demo_id_def kNodeIdBytes_def less_Suc_eq numeral_3_eq_3)
  moreover have "length (node_self (demo_net i)) = kNodeIdBytes \<and> um_ok (p_conns (demo_net i)) \<and> (\<forall>p k. carry_guard (demo_net i) p k)" for i
    by (simp add: demo_net_def demo_node_def demo_id_def um_ok_def)
  moreover have "(demo_links i fd = None \<longleftrightarrow> um_find (p_conns (demo_net i)) fd = None) \<and>
      (\<forall>j fd'. demo_links i fd = Some (j, fd') \<longrightarrow>
         pc_dec (conn_at demo_net i fd) = decoder_init \<and> write_buf (conn_at demo_net i fd) = [] \<and>
         peer_known (conn_at demo_net i fd) \<and> peer_id (pc_peer (conn_at demo_net i fd)) = node_self (demo_net j))" for i fd
    by (simp add: demo_links_def demo_net_def demo_node_def um_find_def conn_at_def demo_conn_def split: if_splits)
  ultimately show ?thesis unfolding at_rest_def by blast
qed

lemma demo_flood_start: "flood_start (demo_flood\<lparr>fl_ttl := t\<rparr>) demo_net"
proof -
  have "fits (demo_flood\<lparr>fl_ttl := t\<rparr>)"
    by (simp add: fits_def demo_flood_def copy_def toy_p2p_pb_def)
      (simp add: toy_ser_def self_info_def demo_net_def demo_node_def demo_id_def kNodeIdBytes_def str_bytes_def kMaxFrameBytes_def)
  moreover have "links_ok 3 demo_links"
    by (auto simp: links_ok_def demo_links_def split: if_splits)
  ultimately show ?thesis using demo_at_rest
    by (simp add: flood_start_def demo_flood_def) (simp add: demo_net_def demo_node_def)
qed

lemma demo_flood_ok: "flood_ok demo_flood demo_net"
  using demo_flood_start [of 4] by (simp add: flood_ok_def demo_flood_def)

definition demo_start :: "nat \<Rightarrow> p2p_node" where
  "demo_start = demo_net(0 := publish toy_p2p_pb [9] (str_bytes ''news'') [42] 4 (demo_net 0))"

lemma demo_start_flood:
  "demo_start = demo_net(fl_orig demo_flood := publish (fl_pb demo_flood) (fl_mid demo_flood) (fl_topic demo_flood) (fl_payload demo_flood)
     (fl_ttl demo_flood) (demo_net (fl_orig demo_flood)))"
  by (simp add: demo_start_def demo_flood_def)

lemma demo_flood_sel: "fl_pb demo_flood = toy_p2p_pb" "fl_link demo_flood = demo_links" "fl_orig demo_flood = 0"
  by (simp_all add: demo_flood_def)

text \<open>With a hop budget of 0, which does not reach the third node.\<close>

theorem gossip_flood_terminates_witness:
  "\<exists>ns. (net_step toy_p2p_pb demo_links)\<^sup>*\<^sup>* (demo_net(0 := publish toy_p2p_pb [9] (str_bytes ''news'') [42] 0 (demo_net 0))) ns \<and>
     (\<nexists>ns'. net_step toy_p2p_pb demo_links ns ns')"
  using gossip_flood_terminates [OF demo_flood_start [of 0] refl] by (simp add: demo_flood_def)

theorem gossip_flood_delivers_witness:
  "\<nexists>ns. (net_step toy_p2p_pb demo_links)\<^sup>*\<^sup>* demo_start ns \<and> (\<nexists>ns'. net_step toy_p2p_pb demo_links ns ns') \<and>
      p_events (ns 2) \<noteq> [(str_bytes ''news'', [42], from_proto (self_info (demo_net 0)))]"
proof
  assume "\<exists>ns. (net_step toy_p2p_pb demo_links)\<^sup>*\<^sup>* demo_start ns \<and> (\<nexists>ns'. net_step toy_p2p_pb demo_links ns ns') \<and>
      p_events (ns 2) \<noteq> [(str_bytes ''news'', [42], from_proto (self_info (demo_net 0)))]"
  then obtain ns where r: "(net_step toy_p2p_pb demo_links)\<^sup>*\<^sup>* demo_start ns" "\<nexists>ns'. net_step toy_p2p_pb demo_links ns ns'"
    and ev: "p_events (ns 2) \<noteq> [(str_bytes ''news'', [42], from_proto (self_info (demo_net 0)))]" by blast
  have a: "linked demo_links 0 1" and b: "linked demo_links 1 2" by (auto simp: linked_def demo_links_def)
  have "(linked demo_links)\<^sup>*\<^sup>* 0 1" using a by (rule r_into_rtranclp)
  then have "(linked demo_links)\<^sup>*\<^sup>* 0 2" using b by (rule rtranclp.rtrancl_into_rtrancl)
  from gossip_flood_delivers [OF demo_flood_ok demo_start_flood, unfolded demo_flood_sel, OF r this]
  have "p_events (ns 2) = [(str_bytes ''news'', [42], from_proto (self_info (demo_net 0)))]"
    by (simp add: demo_flood_def) (simp add: demo_net_def demo_node_def)
  with ev show False by contradiction
qed

subsection \<open>The race between copies\<close>

text \<open>\<open>hop\<close> is the network after everything that waits on one connection, a single copy, has been moved.\<close>

definition hop :: "flood \<Rightarrow> nat \<Rightarrow> int \<Rightarrow> u32 \<Rightarrow> (nat \<Rightarrow> p2p_node) \<Rightarrow> (nat \<Rightarrow> p2p_node)" where
  "hop f i fd t ns =
     (let (j, fd') = the (fl_link f i fd)
      in ns(i := (ns i)\<lparr>p_conns := um_put fd ((conn_at ns i fd)\<lparr>write_buf := []\<rparr>) (p_conns (ns i))\<rparr>,
            j := handle_message (fl_pb f) fd' (copy f t) (ns j)))"

lemma hop_step:
  assumes "fits f" "fl_link f i fd = Some (j, fd')" "i \<noteq> j" "t \<le> fl_ttl f"
    and "um_find (p_conns (ns i)) fd \<noteq> None" "um_find (p_conns (ns j)) fd' \<noteq> None"
    and "write_buf (conn_at ns i fd) = encode_frame (pb_ser (fl_pb f) (copy f t))" "pc_dec (conn_at ns j fd') = decoder_init"
  shows "net_step (fl_pb f) (fl_link f) ns (hop f i fd t ns)"
proof -
  obtain c c' where c: "um_find (p_conns (ns i)) fd = Some c" and c': "um_find (p_conns (ns j)) fd' = Some c'" using assms(5,6) by auto
  let ?w = "write_buf c" and ?p = "pb_ser (fl_pb f) (copy f t)"
  have p: "pb_parse (fl_pb f) ?p = Some (copy f t)" "length ?p \<le> kMaxFrameBytes" using assms(1,4) by (auto simp: fits_def)
  have w: "?w = encode_frame ?p" "?w \<noteq> []" using assms(7) c by (simp_all add: conn_at_def encode_frame_def u32_be_def)
  have dec: "pc_dec c' = decoder_init" "\<not> error decoder_init" using assms(8) c' by (simp_all add: conn_at_def decoder_init_def)
  have "drain (feed decoder_init ?w) = ([?p], (feed decoder_init ?w)\<lparr>buf := []\<rparr>)"
    by (rule drain_encoded) (simp_all add: p w(1) feed_def decoder_init_def)
  then have d: "drain (feed decoder_init ?w) = ([?p], decoder_init)" by (simp add: feed_def decoder_init_def)
  have "c'\<lparr>pc_dec := decoder_init\<rparr> = c'" using dec by (cases c') simp
  then have "um_put fd' (c'\<lparr>pc_dec := decoder_init\<rparr>) (p_conns (ns j)) = p_conns (ns j)"
    using c' by (simp only:) (simp add: um_put_def um_find_def update_triv)
  then have r: "on_readable (fl_pb f) fd' ?w (ns j) = handle_message (fl_pb f) fd' (copy f t) (ns j)"
    using c' dec w(2) d p(1) by (simp add: on_readable_def handle_frame_def)
  have "on_writable [Some (length ?w)] fd (ns i) = Some ((ns i)\<lparr>p_conns := um_put fd (c\<lparr>write_buf := []\<rparr>) (p_conns (ns i))\<rparr>)"
    using c w(2) by simp
  from net_step.transfer [where ns = ns and link = "fl_link f" and pb = "fl_pb f", OF c _ order_refl assms(2) this refl] w(2) r c assms(2,3)
  show ?thesis by (simp add: hop_def conn_at_def)
qed

text \<open>Four nodes: the publisher 0 is connected to 1 and 2, which are connected to each other, and node 3 hangs
  off node 2.\<close>

definition race_links :: links where
  "race_links i fd = map_of [((0, 1), (1, 1)), ((1, 1), (0, 1)), ((0, 2), (2, 1)), ((2, 1), (0, 2)), ((1, 2), (2, 2)), ((2, 2), (1, 2)),
     ((2, 3), (3, 1)), ((3, 1), (2, 3))] (i, fd)"

definition race_net :: "nat \<Rightarrow> p2p_node" where
  "race_net i = (demo_node i (if i = 0 then [(1, 1), (2, 2)] else if i = 1 then [(1, 0), (2, 2)]
      else if i = 2 then [(1, 0), (2, 1), (3, 3)] else if i = 3 then [(1, 2)] else []))\<lparr>my_topics := [str_bytes ''news'']\<rparr>"

definition race_flood :: flood where
  "race_flood = \<lparr>fl_pb = toy_p2p_pb, fl_link = race_links, fl_nodes = 4, fl_orig = 0, fl_from = self_info (race_net 0),
     fl_topic = str_bytes ''news'', fl_mid = [9], fl_payload = [42], fl_ttl = 1\<rparr>"

definition race_start :: "nat \<Rightarrow> p2p_node" where
  "race_start = race_net(0 := publish toy_p2p_pb [9] (str_bytes ''news'') [42] 1 (race_net 0))"

lemma race_fits: "fits race_flood"
  by (simp add: fits_def race_flood_def copy_def toy_p2p_pb_def)
    (simp add: toy_ser_def self_info_def race_net_def demo_node_def demo_id_def kNodeIdBytes_def str_bytes_def kMaxFrameBytes_def)

definition quiet :: "flood \<Rightarrow> (nat \<Rightarrow> p2p_node) \<Rightarrow> bool" where
  "quiet f ns \<longleftrightarrow> (\<forall>i fd. fl_link f i fd \<noteq> None \<longrightarrow> write_buf (conn_at ns i fd) = [])"

lemma quiet_stuck: "quiet f ns \<Longrightarrow> \<nexists>ns'. net_step (fl_pb f) (fl_link f) ns ns'"
  unfolding quiet_def by (auto simp: conn_at_def elim!: net_step.cases) fastforce

lemmas race_simps = hop_def race_start_def race_net_def demo_node_def demo_conn_def race_links_def race_flood_def conn_at_def
  um_find_def um_put_def publish_def seen_recently_def send_to_all_def enqueue_def copy_def self_info_def deliver_topic_def
  relay_publish_def from_proto_def demo_id_def kNodeIdBytes_def kSeenMessageCap_def quiet_def Let_def

lemma race_lost:
  defines "s1 \<equiv> hop race_flood 0 1 1 race_start"
  defines "s2 \<equiv> hop race_flood 1 2 0 s1"
  defines "s3 \<equiv> hop race_flood 0 2 1 s2"
  shows "(net_step (fl_pb race_flood) (fl_link race_flood))\<^sup>*\<^sup>* race_start s3 \<and> quiet race_flood s3 \<and> p_events (s3 3) = []"
proof -
  note step = hop_step [OF race_fits]
  have "net_step (fl_pb race_flood) (fl_link race_flood) race_start s1"
    unfolding s1_def by (rule step [where j = 1 and fd' = 1]) (simp_all add: race_simps)
  moreover have "net_step (fl_pb race_flood) (fl_link race_flood) s1 s2"
    unfolding s2_def by (rule step [where j = 2 and fd' = 2]) (simp_all add: s1_def race_simps)
  moreover have "net_step (fl_pb race_flood) (fl_link race_flood) s2 s3"
    unfolding s3_def by (rule step [where j = 2 and fd' = 1]) (simp_all add: s2_def s1_def race_simps)
  moreover have "quiet race_flood s3" "p_events (s3 3) = []" by (simp_all add: s3_def s2_def s1_def race_simps)
  ultimately show ?thesis by (meson converse_rtranclp_into_rtranclp rtranclp.rtrancl_refl)
qed

lemma race_won:
  defines "s1 \<equiv> hop race_flood 0 2 1 race_start"
  defines "s2 \<equiv> hop race_flood 2 3 0 s1"
  defines "s3 \<equiv> hop race_flood 2 2 0 s2"
  defines "s4 \<equiv> hop race_flood 0 1 1 s3"
  shows "(net_step (fl_pb race_flood) (fl_link race_flood))\<^sup>*\<^sup>* race_start s4 \<and> quiet race_flood s4 \<and>
    p_events (s4 3) = [(str_bytes ''news'', [42], from_proto (self_info (race_net 0)))]"
proof -
  note step = hop_step [OF race_fits]
  have "net_step (fl_pb race_flood) (fl_link race_flood) race_start s1"
    unfolding s1_def by (rule step [where j = 2 and fd' = 1]) (simp_all add: race_simps)
  moreover have "net_step (fl_pb race_flood) (fl_link race_flood) s1 s2"
    unfolding s2_def by (rule step [where j = 3 and fd' = 1]) (simp_all add: s1_def race_simps)
  moreover have "net_step (fl_pb race_flood) (fl_link race_flood) s2 s3"
    unfolding s3_def by (rule step [where j = 1 and fd' = 2]) (simp_all add: s2_def s1_def race_simps)
  moreover have "net_step (fl_pb race_flood) (fl_link race_flood) s3 s4"
    unfolding s4_def by (rule step [where j = 1 and fd' = 1]) (simp_all add: s3_def s2_def s1_def race_simps)
  moreover have "quiet race_flood s4" "p_events (s4 3) = [(str_bytes ''news'', [42], from_proto (self_info (race_net 0)))]"
    by (simp_all add: s4_def s3_def s2_def s1_def race_simps)
  ultimately show ?thesis by (meson converse_rtranclp_into_rtranclp rtranclp.rtrancl_refl)
qed

text \<open>With a smaller hop budget the order of arrival decides who hears a message: a node drops a copy whose identifier
  it knows without looking at its budget, so a copy that came the long way round with its budget used up stops one that
  could still have been passed on. In a network of four nodes a publication with budget 1 reaches a node two hops away
  in one run and never reaches it in another.\<close>

theorem gossip_budget_race:
  "\<exists>lost won.
     (net_step toy_p2p_pb race_links)\<^sup>*\<^sup>* race_start lost \<and> (\<nexists>ns. net_step toy_p2p_pb race_links lost ns) \<and> p_events (lost 3) = [] \<and>
     (net_step toy_p2p_pb race_links)\<^sup>*\<^sup>* race_start won \<and> (\<nexists>ns. net_step toy_p2p_pb race_links won ns) \<and>
     p_events (won 3) = [(str_bytes ''news'', [42], from_proto (self_info (race_net 0)))]"
proof -
  have f: "fl_pb race_flood = toy_p2p_pb" "fl_link race_flood = race_links" by (simp_all add: race_flood_def)
  show ?thesis using race_lost race_won quiet_stuck [of race_flood] unfolding f by metis
qed

text \<open>A failed write blocks the node: the write loop calls \<open>close_conn\<close> while it holds the mutex that \<open>close_conn\<close> locks.\<close>

lemma write_error_blocks:
  "um_find (p_conns n) fd = Some c \<Longrightarrow> write_buf c \<noteq> [] \<Longrightarrow> on_writable (None # rs) fd n = None"
  by simp

end
