(* ===== verification/Provider_Records.thy ===== *)
theory Provider_Records
  imports Ordered_Map
begin

text \<open>
  The signed records of the distributed hash table, \<open>core/src/p2p/provider_records.cpp\<close>: where a peer can be
  reached, and the prekeys it offers. Both kinds are signed over a canonical byte string, checked when they enter
  their store, and dropped once they have expired. Ed25519, the random nonce and the system clock are arguments; sums
  of timestamps wrap like \<open>std::uint64_t\<close>. The two stores of the source repeat the same code for two record types;
  the locale \<open>signed_store\<close> states what they share.
\<close>

subsection \<open>Provider records\<close>

record provider_record =
  pr_publisher_pubkey :: bytes
  pr_addresses :: "bytes list"
  pr_published_at_ms :: u64
  pr_ttl_ms :: u64
  pr_nonce :: bytes
  pr_signature :: bytes
  pr_offline_relays :: "bytes list"

datatype record_error = InvalidArgument | SignFailed

definition kRecordClockSkewMs :: u64 where
  "kRecordClockSkewMs = 5 * 60 * 1000"

definition kMaxAddressesPerRecord :: nat where
  "kMaxAddressesPerRecord = 16"

definition kMaxAddressBytes :: nat where
  "kMaxAddressBytes = 128"

definition kProviderMagic :: bytes where
  "kProviderMagic = str_bytes ''fb.p2p.ProviderRecord:v1'' @ [10]"

fun put_addresses :: "bytes list \<Rightarrow> record_error + bytes" where
  "put_addresses [] = Inr []"
| "put_addresses (a # as) =
     (if kMaxAddressBytes < length a then Inl InvalidArgument
      else case put_addresses as of
             Inl e \<Rightarrow> Inl e
           | Inr out \<Rightarrow> Inr (u16_be (of_nat (length a)) @ a @ out))"

fun put_relays :: "bytes list \<Rightarrow> record_error + bytes" where
  "put_relays [] = Inr []"
| "put_relays (r # rs) =
     (if length r \<noteq> 32 then Inl InvalidArgument
      else case put_relays rs of Inl e \<Rightarrow> Inl e | Inr out \<Rightarrow> Inr (r @ out))"

definition provider_signing_bytes ::
  "bytes \<Rightarrow> bytes list \<Rightarrow> u64 \<Rightarrow> u64 \<Rightarrow> bytes \<Rightarrow> bytes list \<Rightarrow> record_error + bytes" where
  "provider_signing_bytes pub addrs published ttl nonce relays =
     (if length pub \<noteq> 32 then Inl InvalidArgument
      else if length nonce \<noteq> 16 then Inl InvalidArgument
      else if kMaxAddressesPerRecord < length addrs then Inl InvalidArgument
      else case put_addresses addrs of
             Inl e \<Rightarrow> Inl e
           | Inr as \<Rightarrow>
               (case put_relays relays of
                  Inl e \<Rightarrow> Inl e
                | Inr rs \<Rightarrow>
                    Inr (kProviderMagic @ [32] @ pub @ u16_be (of_nat (length addrs)) @ as @ u64_be published @ u64_be ttl @
                         [16] @ nonce @ u16_be (of_nat (length relays)) @ rs)))"

definition build_record ::
  "(bytes \<Rightarrow> bytes \<Rightarrow> bytes option) \<Rightarrow> bytes \<Rightarrow> bytes \<Rightarrow> bytes \<Rightarrow> bytes list \<Rightarrow> u64 \<Rightarrow> u64 \<Rightarrow> bytes list \<Rightarrow>
     record_error + provider_record" where
  "build_record sign random16 sig_pub sig_priv addrs published ttl relays =
     (if length sig_pub \<noteq> 32 then Inl InvalidArgument
      else if length sig_priv \<noteq> 64 then Inl InvalidArgument
      else if addrs = [] then Inl InvalidArgument
      else if \<exists>r\<in>set relays. length r \<noteq> 32 then Inl InvalidArgument
      else case provider_signing_bytes sig_pub addrs published ttl random16 relays of
             Inl e \<Rightarrow> Inl e
           | Inr signing_bytes \<Rightarrow>
               (case sign sig_priv signing_bytes of
                  None \<Rightarrow> Inl SignFailed
                | Some sig \<Rightarrow>
                    Inr \<lparr>pr_publisher_pubkey = sig_pub, pr_addresses = addrs, pr_published_at_ms = published, pr_ttl_ms = ttl,
                         pr_nonce = random16, pr_signature = sig, pr_offline_relays = relays\<rparr>))"

definition verify_record_signature :: "(bytes \<Rightarrow> bytes \<Rightarrow> bytes \<Rightarrow> bool) \<Rightarrow> provider_record \<Rightarrow> bool" where
  "verify_record_signature verify r =
     (if length (pr_publisher_pubkey r) \<noteq> 32 then False
      else if length (pr_signature r) \<noteq> 64 then False
      else if length (pr_nonce r) \<noteq> 16 then False
      else if pr_addresses r = [] then False
      else if kMaxAddressesPerRecord < length (pr_addresses r) then False
      else if \<exists>a\<in>set (pr_addresses r). kMaxAddressBytes < length a then False
      else if \<exists>x\<in>set (pr_offline_relays r). length x \<noteq> 32 then False
      else case provider_signing_bytes (pr_publisher_pubkey r) (pr_addresses r) (pr_published_at_ms r) (pr_ttl_ms r) (pr_nonce r)
                  (pr_offline_relays r) of
             Inl e \<Rightarrow> False
           | Inr signing_bytes \<Rightarrow> verify (pr_publisher_pubkey r) signing_bytes (pr_signature r))"

definition record_expired :: "provider_record \<Rightarrow> u64 \<Rightarrow> bool" where
  "record_expired r now \<longleftrightarrow> pr_published_at_ms r + pr_ttl_ms r \<le> now"

definition now_or :: "u64 \<Rightarrow> u64 \<Rightarrow> u64" where
  "now_or clock override_ms = (if override_ms \<noteq> 0 then override_ms else clock)"

definition record_key :: "provider_record \<Rightarrow> bytes" where
  "record_key r = pr_publisher_pubkey r @ pr_nonce r"

type_synonym 'r by_publisher = "(bytes, (bytes, 'r) omap) omap"

datatype put_result = kAccepted | kAlreadyKnown | kRejectedSig | kRejectedFormat | kRejectedExpired | kRejectedClock

definition bucket_at :: "'r by_publisher \<Rightarrow> bytes \<Rightarrow> (bytes, 'r) omap" where
  "bucket_at s k = (case om_find s k of None \<Rightarrow> [] | Some b \<Rightarrow> b)"

text \<open>\<open>by_publisher[pkey].try_emplace(rkey, record)\<close>.\<close>

definition try_emplace :: "bytes \<Rightarrow> bytes \<Rightarrow> 'r \<Rightarrow> 'r by_publisher \<Rightarrow> put_result \<times> 'r by_publisher" where
  "try_emplace pkey rkey r s =
     (let b = bucket_at s pkey
      in (if om_find b rkey = None then kAccepted else kAlreadyKnown, om_assign pkey (om_emplace rkey r b) s))"

lemma try_emplace_result: "fst (try_emplace k j r s) = kAccepted \<or> fst (try_emplace k j r s) = kAlreadyKnown"
  by (simp add: try_emplace_def Let_def)

definition provider_put ::
  "(bytes \<Rightarrow> bytes \<Rightarrow> bytes \<Rightarrow> bool) \<Rightarrow> u64 \<Rightarrow> provider_record \<Rightarrow> u64 \<Rightarrow> provider_record by_publisher \<Rightarrow>
     put_result \<times> provider_record by_publisher" where
  "provider_put verify clock r now s =
     (if length (pr_publisher_pubkey r) \<noteq> 32 then (kRejectedFormat, s)
      else if length (pr_signature r) \<noteq> 64 then (kRejectedFormat, s)
      else if length (pr_nonce r) \<noteq> 16 then (kRejectedFormat, s)
      else if pr_addresses r = [] then (kRejectedFormat, s)
      else if kMaxAddressesPerRecord < length (pr_addresses r) then (kRejectedFormat, s)
      else if \<exists>a\<in>set (pr_addresses r). kMaxAddressBytes < length a then (kRejectedFormat, s)
      else let now = now_or clock now in
        if now + kRecordClockSkewMs < pr_published_at_ms r then (kRejectedClock, s)
        else if record_expired r now then (kRejectedExpired, s)
        else if \<not> verify_record_signature verify r then (kRejectedSig, s)
        else try_emplace (pr_publisher_pubkey r) (record_key r) r s)"

definition provider_get :: "u64 \<Rightarrow> bytes \<Rightarrow> u64 \<Rightarrow> provider_record by_publisher \<Rightarrow> provider_record list" where
  "provider_get clock pub now s =
     (let now = now_or clock now in filter (\<lambda>r. \<not> record_expired r now) (map snd (bucket_at s pub)))"

fun prune_records :: "('r \<Rightarrow> bool) \<Rightarrow> (bytes, 'r) omap \<Rightarrow> nat \<times> (bytes, 'r) omap" where
  "prune_records old [] = (0, [])"
| "prune_records old ((k, r) # b) =
     (let (n, b') = prune_records old b in if old r then (Suc n, b') else (n, (k, r) # b'))"

fun prune_buckets :: "('r \<Rightarrow> bool) \<Rightarrow> 'r by_publisher \<Rightarrow> nat \<times> 'r by_publisher" where
  "prune_buckets old [] = (0, [])"
| "prune_buckets old ((k, b) # s) =
     (let (n, b') = prune_records old b; (m, s') = prune_buckets old s
      in (n + m, if b' = [] then s' else (k, b') # s'))"

definition provider_prune_expired :: "u64 \<Rightarrow> u64 \<Rightarrow> provider_record by_publisher \<Rightarrow> nat \<times> provider_record by_publisher" where
  "provider_prune_expired clock now s = prune_buckets (\<lambda>r. record_expired r (now_or clock now)) s"

definition store_size :: "'r by_publisher \<Rightarrow> nat" where
  "store_size s = foldl (\<lambda>n (k, b). n + length b) 0 s"

subsection \<open>Prekey records\<close>

record prekey_record =
  pk_publisher_pubkey :: bytes
  pk_signed_prekey :: bytes
  pk_signed_prekey_signature :: bytes
  pk_published_at_ms :: u64
  pk_ttl_ms :: u64
  pk_nonce :: bytes
  pk_signature :: bytes
  pk_pq_pubkey :: bytes
  pk_pq_pubkey_sig :: bytes

definition kPqPubBytes :: nat where
  "kPqPubBytes = 1184"

definition kPrekeyMagic :: bytes where
  "kPrekeyMagic = str_bytes ''fb.p2p.PrekeyRecord:v1'' @ [10]"

definition kPrekeyMagicV2 :: bytes where
  "kPrekeyMagicV2 = str_bytes ''fb.p2p.PrekeyRecord:v2'' @ [10]"

definition prekey_signing_bytes ::
  "bytes \<Rightarrow> bytes \<Rightarrow> bytes \<Rightarrow> u64 \<Rightarrow> u64 \<Rightarrow> bytes \<Rightarrow> bytes \<Rightarrow> bytes \<Rightarrow> record_error + bytes" where
  "prekey_signing_bytes pub spk spk_sig published ttl nonce pq_pub pq_sig =
     (if length pub \<noteq> 32 then Inl InvalidArgument
      else if length spk \<noteq> 32 then Inl InvalidArgument
      else if length spk_sig \<noteq> 64 then Inl InvalidArgument
      else if length nonce \<noteq> 16 then Inl InvalidArgument
      else let pq_present = (pq_pub \<noteq> [] \<or> pq_sig \<noteq> []) in
        if pq_present \<and> length pq_pub \<noteq> kPqPubBytes then Inl InvalidArgument
        else if pq_present \<and> length pq_sig \<noteq> 64 then Inl InvalidArgument
        else Inr ((if pq_present then kPrekeyMagicV2 else kPrekeyMagic) @ [32] @ pub @ [32] @ spk @ [64] @ spk_sig @
                  u64_be published @ u64_be ttl @ [16] @ nonce @
                  (if pq_present then u16_be (of_nat kPqPubBytes) @ pq_pub @ [64] @ pq_sig else [])))"

definition build_prekey_record ::
  "(bytes \<Rightarrow> bytes \<Rightarrow> bytes option) \<Rightarrow> bytes \<Rightarrow> bytes \<Rightarrow> bytes \<Rightarrow> bytes \<Rightarrow> bytes \<Rightarrow> u64 \<Rightarrow> u64 \<Rightarrow> bytes \<Rightarrow> bytes \<Rightarrow>
     record_error + prekey_record" where
  "build_prekey_record sign random16 sig_pub sig_priv spk spk_sig published ttl pq_pub pq_sig =
     (if length sig_pub \<noteq> 32 then Inl InvalidArgument
      else if length sig_priv \<noteq> 64 then Inl InvalidArgument
      else case prekey_signing_bytes sig_pub spk spk_sig published ttl random16 pq_pub pq_sig of
             Inl e \<Rightarrow> Inl e
           | Inr signing_bytes \<Rightarrow>
               (case sign sig_priv signing_bytes of
                  None \<Rightarrow> Inl SignFailed
                | Some sig \<Rightarrow>
                    Inr \<lparr>pk_publisher_pubkey = sig_pub, pk_signed_prekey = spk, pk_signed_prekey_signature = spk_sig,
                         pk_published_at_ms = published, pk_ttl_ms = ttl, pk_nonce = random16, pk_signature = sig,
                         pk_pq_pubkey = pq_pub, pk_pq_pubkey_sig = pq_sig\<rparr>))"

definition verify_prekey_record_signature :: "(bytes \<Rightarrow> bytes \<Rightarrow> bytes \<Rightarrow> bool) \<Rightarrow> prekey_record \<Rightarrow> bool" where
  "verify_prekey_record_signature verify r =
     (if length (pk_publisher_pubkey r) \<noteq> 32 then False
      else if length (pk_signed_prekey r) \<noteq> 32 then False
      else if length (pk_signed_prekey_signature r) \<noteq> 64 then False
      else if length (pk_signature r) \<noteq> 64 then False
      else if length (pk_nonce r) \<noteq> 16 then False
      else let pq_present = (pk_pq_pubkey r \<noteq> [] \<or> pk_pq_pubkey_sig r \<noteq> []); pub = pk_publisher_pubkey r in
        if pq_present \<and> length (pk_pq_pubkey r) \<noteq> kPqPubBytes then False
        else if pq_present \<and> length (pk_pq_pubkey_sig r) \<noteq> 64 then False
        else case prekey_signing_bytes pub (pk_signed_prekey r) (pk_signed_prekey_signature r) (pk_published_at_ms r) (pk_ttl_ms r)
                    (pk_nonce r) (pk_pq_pubkey r) (pk_pq_pubkey_sig r) of
               Inl e \<Rightarrow> False
             | Inr signing_bytes \<Rightarrow>
                 if \<not> verify pub signing_bytes (pk_signature r) then False
                 else if \<not> verify pub (pk_signed_prekey r) (pk_signed_prekey_signature r) then False
                 else if pq_present \<and> \<not> verify pub (pk_pq_pubkey r) (pk_pq_pubkey_sig r) then False
                 else True)"

definition prekey_expired :: "prekey_record \<Rightarrow> u64 \<Rightarrow> bool" where
  "prekey_expired r now \<longleftrightarrow> pk_published_at_ms r + pk_ttl_ms r \<le> now"

definition prekey_record_key :: "prekey_record \<Rightarrow> bytes" where
  "prekey_record_key r = pk_publisher_pubkey r @ pk_nonce r"

definition prekey_put ::
  "(bytes \<Rightarrow> bytes \<Rightarrow> bytes \<Rightarrow> bool) \<Rightarrow> u64 \<Rightarrow> prekey_record \<Rightarrow> u64 \<Rightarrow> prekey_record by_publisher \<Rightarrow>
     put_result \<times> prekey_record by_publisher" where
  "prekey_put verify clock r now s =
     (if length (pk_publisher_pubkey r) \<noteq> 32 then (kRejectedFormat, s)
      else if length (pk_signed_prekey r) \<noteq> 32 then (kRejectedFormat, s)
      else if length (pk_signed_prekey_signature r) \<noteq> 64 then (kRejectedFormat, s)
      else if length (pk_signature r) \<noteq> 64 then (kRejectedFormat, s)
      else if length (pk_nonce r) \<noteq> 16 then (kRejectedFormat, s)
      else let now = now_or clock now in
        if now + kRecordClockSkewMs < pk_published_at_ms r then (kRejectedClock, s)
        else if prekey_expired r now then (kRejectedExpired, s)
        else if \<not> verify_prekey_record_signature verify r then (kRejectedSig, s)
        else try_emplace (pk_publisher_pubkey r) (prekey_record_key r) r s)"

definition newer_prekey :: "u64 \<Rightarrow> prekey_record option \<Rightarrow> prekey_record \<Rightarrow> prekey_record option" where
  "newer_prekey now best r =
     (if prekey_expired r now then best
      else case best of
             None \<Rightarrow> Some r
           | Some b \<Rightarrow> if pk_published_at_ms b < pk_published_at_ms r then Some r else best)"

definition prekey_get_latest :: "u64 \<Rightarrow> bytes \<Rightarrow> u64 \<Rightarrow> prekey_record by_publisher \<Rightarrow> prekey_record option" where
  "prekey_get_latest clock pub now s = foldl (newer_prekey (now_or clock now)) None (map snd (bucket_at s pub))"

definition prekey_get_all :: "u64 \<Rightarrow> bytes \<Rightarrow> u64 \<Rightarrow> prekey_record by_publisher \<Rightarrow> prekey_record list" where
  "prekey_get_all clock pub now s =
     (let now = now_or clock now in filter (\<lambda>r. \<not> prekey_expired r now) (map snd (bucket_at s pub)))"

definition prekey_prune_expired :: "u64 \<Rightarrow> u64 \<Rightarrow> prekey_record by_publisher \<Rightarrow> nat \<times> prekey_record by_publisher" where
  "prekey_prune_expired clock now s = prune_buckets (\<lambda>r. prekey_expired r (now_or clock now)) s"

subsection \<open>What the stores share\<close>

text \<open>A record sits in the bucket of its publisher, under its own key, and was good when it entered.\<close>

definition records_ok :: "('r \<Rightarrow> bytes) \<Rightarrow> ('r \<Rightarrow> bytes) \<Rightarrow> ('r \<Rightarrow> bool) \<Rightarrow> 'r by_publisher \<Rightarrow> bool" where
  "records_ok pub key good s \<longleftrightarrow>
     om_invar s \<and> (\<forall>k b. (k, b) \<in> set s \<longrightarrow> om_invar b \<and> (\<forall>j r. (j, r) \<in> set b \<longrightarrow> j = key r \<and> pub r = k \<and> good r))"

lemma prune_records_filter: "prune_records old b = (length (filter (\<lambda>x. old (snd x)) b), filter (\<lambda>x. \<not> old (snd x)) b)"
  by (induction old b rule: prune_records.induct) (auto simp: Let_def)

lemma prune_buckets_filter:
  "snd (prune_buckets old s) = filter (\<lambda>(k, b). b \<noteq> []) (map (\<lambda>(k, b). (k, filter (\<lambda>x. \<not> old (snd x)) b)) s)"
  by (induction old s rule: prune_buckets.induct) (auto simp: prune_records_filter case_prod_beta Let_def)

lemma om_invar_map_snd: "om_invar m \<Longrightarrow> om_invar (map (\<lambda>(k, b). (k, g b)) m)"
  by (induction m) (force simp: om_invar_Cons)+

lemma om_find_mem: "om_invar m \<Longrightarrow> om_find m k = Some v \<longleftrightarrow> (k, v) \<in> set m"
  using om_invar_distinct [of m] by (simp add: om_find_def)

lemma bucket_at_mem:
  assumes "records_ok pub key good s"
  shows "(j, r) \<in> set (bucket_at s k) \<Longrightarrow> j = key r \<and> pub r = k \<and> good r" and "om_invar (bucket_at s k)"
  using assms om_find_mem [of s k] unfolding records_ok_def bucket_at_def by (auto split: option.splits) metis+

lemma mem_try_emplace:
  assumes "records_ok pub key good s"
  shows "set (bucket_at (snd (try_emplace k j r s)) k') =
    (if k' = k then set (om_emplace j r (bucket_at s k)) else set (bucket_at s k'))"
  using assms om_find_assign [of s k] by (auto simp: try_emplace_def bucket_at_def records_ok_def Let_def)

lemma records_ok_emplace:
  assumes ok: "records_ok pub key good s" and "good r"
  shows "records_ok pub key good (snd (try_emplace (pub r) (key r) r s))"
proof -
  have inv: "om_invar s" using ok by (simp add: records_ok_def)
  let ?b = "om_emplace (key r) r (bucket_at s (pub r))"
  have b: "om_invar ?b" using bucket_at_mem(2) [OF ok] by (rule om_invar_emplace)
  have mem: "j = key r' \<and> pub r' = pub r \<and> good r'" if "(j, r') \<in> set ?b" for j r'
  proof -
    have "om_find ?b j = Some r'" using that om_find_mem [OF b] by simp
    then have "j = key r \<and> r' = r \<or> (j, r') \<in> set (bucket_at s (pub r))"
      using om_find_emplace [OF bucket_at_mem(2) [OF ok], of "key r" r "pub r"] om_find_mem [OF bucket_at_mem(2) [OF ok]]
      by (auto split: if_splits)
    then show ?thesis using bucket_at_mem(1) [OF ok] assms(2) by blast
  qed
  have "om_invar b' \<and> (\<forall>j r'. (j, r') \<in> set b' \<longrightarrow> j = key r' \<and> pub r' = k \<and> good r')" if "(k, b') \<in> set (om_assign (pub r) ?b s)" for k b'
  proof -
    have "om_find (om_assign (pub r) ?b s) k = Some b'" using that om_find_mem [OF om_invar_assign [OF inv]] by simp
    then have "k = pub r \<and> b' = ?b \<or> (k, b') \<in> set s"
      using om_find_assign [OF inv] om_find_mem [OF inv] by (auto split: if_splits)
    then show ?thesis
    proof
      assume k: "k = pub r \<and> b' = ?b"
      then show ?thesis using b mem by blast
    qed (use ok in \<open>auto simp: records_ok_def\<close>)
  qed
  then have "records_ok pub key good (om_assign (pub r) ?b s)"
    unfolding records_ok_def using om_invar_assign [OF inv, of "pub r" ?b] by (intro conjI allI impI) blast+
  then show ?thesis by (simp add: try_emplace_def Let_def)
qed

lemma records_ok_prune: "records_ok pub key good s \<Longrightarrow> records_ok pub key good (snd (prune_buckets old s))"
  by (auto simp: records_ok_def prune_buckets_filter intro!: om_invar_filter om_invar_map_snd)

locale signed_store =
  fixes pub key :: "'r \<Rightarrow> bytes" and good :: "'r \<Rightarrow> bool" and old :: "'r \<Rightarrow> u64 \<Rightarrow> bool"
    and put :: "u64 \<Rightarrow> 'r \<Rightarrow> u64 \<Rightarrow> 'r by_publisher \<Rightarrow> put_result \<times> 'r by_publisher"
  assumes put_admits: "fst (put clock r now s) \<in> {kAccepted, kAlreadyKnown} \<Longrightarrow>
      good r \<and> \<not> old r (now_or clock now) \<and> put clock r now s = try_emplace (pub r) (key r) r s"
    and put_rejects: "fst (put clock r now s) \<notin> {kAccepted, kAlreadyKnown} \<Longrightarrow> snd (put clock r now s) = s"
begin

abbreviation ok :: "'r by_publisher \<Rightarrow> bool" where
  "ok s \<equiv> records_ok pub key good s"

lemma ok_put: "ok s \<Longrightarrow> ok (snd (put clock r now s))"
  using put_admits put_rejects records_ok_emplace by metis

lemma ok_fold_put: "ok s \<Longrightarrow> ok (foldl (\<lambda>s r. snd (put clock r now s)) s rs)"
  by (induction rs arbitrary: s) (simp_all add: ok_put)

lemma put_present:
  assumes "ok s" "fst (put clock r now s) \<in> {kAccepted, kAlreadyKnown}"
  shows "\<exists>r'. (key r, r') \<in> set (bucket_at (snd (put clock r now s)) (pub r))"
    and "fst (put clock r now s) = kAccepted \<Longrightarrow> (key r, r) \<in> set (bucket_at (snd (put clock r now s)) (pub r))"
proof -
  note b = bucket_at_mem(2) [OF assms(1), of "pub r"] and p = put_admits [OF assms(2)]
  have s: "set (bucket_at (snd (put clock r now s)) (pub r)) = set (om_emplace (key r) r (bucket_at s (pub r)))"
    using p mem_try_emplace [OF assms(1)] by simp
  show "\<exists>r'. (key r, r') \<in> set (bucket_at (snd (put clock r now s)) (pub r))"
    unfolding s using fst_om_emplace [of "key r" r "bucket_at s (pub r)"] by (metis imageE insertI1 prod.collapse)
  assume "fst (put clock r now s) = kAccepted"
  then have "fst (try_emplace (pub r) (key r) r s) = kAccepted" using p by simp
  then have "om_find (bucket_at s (pub r)) (key r) = None" by (simp add: try_emplace_def Let_def split: if_splits)
  then have "om_find (om_emplace (key r) r (bucket_at s (pub r))) (key r) = Some r" using om_find_emplace [OF b] by simp
  then show "(key r, r) \<in> set (bucket_at (snd (put clock r now s)) (pub r))"
    unfolding s om_find_mem [OF om_invar_emplace [OF b]] .
qed

lemma put_keeps:
  assumes "ok s" "(j, r') \<in> set (bucket_at s k)"
  shows "(j, r') \<in> set (bucket_at (snd (put clock r now s)) k)"
proof (cases "fst (put clock r now s) \<in> {kAccepted, kAlreadyKnown}")
  case True
  note b = bucket_at_mem(2) [OF assms(1), of "pub r"]
  have "(j, r') \<in> set (om_emplace (key r) r (bucket_at s (pub r)))" if "k = pub r"
  proof -
    have "om_find (bucket_at s (pub r)) j = Some r'" using that assms(2) om_find_mem [OF b] by simp
    then have "om_find (om_emplace (key r) r (bucket_at s (pub r))) j = Some r'" using om_find_emplace [OF b] by auto
    then show ?thesis using om_find_mem [OF om_invar_emplace [OF b]] by blast
  qed
  then show ?thesis using put_admits [OF True] mem_try_emplace [OF assms(1)] assms(2) by auto
qed (simp add: put_rejects assms)

end

interpretation providers: signed_store pr_publisher_pubkey record_key "verify_record_signature verify" record_expired "provider_put verify"
  for verify
  by unfold_locales (use try_emplace_result in \<open>fastforce simp: provider_put_def Let_def split: if_splits\<close>)+

interpretation prekeys: signed_store pk_publisher_pubkey prekey_record_key "verify_prekey_record_signature verify" prekey_expired "prekey_put verify"
  for verify
  by unfold_locales (use try_emplace_result in \<open>fastforce simp: prekey_put_def Let_def split: if_splits\<close>)+

subsection \<open>The signed bytes\<close>

lemma put_addresses_Inr: "\<forall>a\<in>set as. length a \<le> kMaxAddressBytes \<Longrightarrow> \<exists>out. put_addresses as = Inr out"
  by (induction as) auto

lemma put_relays_Inr: "\<forall>r\<in>set rs. length r = 32 \<Longrightarrow> put_relays rs = Inr (concat rs)"
  by (induction rs) auto

lemma put_relays_concat: "put_relays rs = Inr out \<Longrightarrow> out = concat rs \<and> (\<forall>r\<in>set rs. length r = 32)"
  by (induction rs arbitrary: out) (auto split: if_splits sum.splits)

lemma u16_be_inject [simp]: "u16_be v = u16_be w \<longleftrightarrow> v = w"
  by (metis rd_u16_be)

lemma of_nat_u16_inject: "m < 65536 \<Longrightarrow> n < 65536 \<Longrightarrow> (of_nat m :: u16) = of_nat n \<longleftrightarrow> m = n"
  by (auto dest: arg_cong [of _ _ unat] simp: unat_of_nat)

lemma put_addresses_inject:
  assumes "length as = length bs" "put_addresses as = Inr x" "put_addresses bs = Inr y" "x @ u = y @ v"
  shows "as = bs \<and> u = v"
  using assms
proof (induction as bs arbitrary: x y rule: list_induct2)
  case (Cons a as b bs)
  obtain x' y' where x: "x = u16_be (of_nat (length a)) @ a @ x'" "put_addresses as = Inr x'" "length a \<le> kMaxAddressBytes"
    and y: "y = u16_be (of_nat (length b)) @ b @ y'" "put_addresses bs = Inr y'" "length b \<le> kMaxAddressBytes"
    using Cons.prems(1,2) by (auto split: if_splits sum.splits)
  have "u16_be (of_nat (length a)) = u16_be (of_nat (length b)) \<and> a @ x' @ u = b @ y' @ v"
    using Cons.prems(3) x(1) y(1) by (simp add: append_eq_append_conv)
  moreover from this have "length a = length b" using x(3) y(3) of_nat_u16_inject [of "length a" "length b"] by (simp add: kMaxAddressBytes_def)
  ultimately show ?case using Cons.IH [OF x(2) y(2)] by (simp add: append_eq_append_conv)
qed simp

lemma concat_inject:
  assumes "\<forall>x\<in>set xs. length x = n" "\<forall>y\<in>set ys. length y = n" "0 < n" "concat xs = concat ys"
  shows "xs = ys"
  using assms(1,2,4)
proof (induction xs arbitrary: ys)
  case Nil
  then show ?case using assms(3) by (cases ys) auto
next
  case (Cons x xs)
  have "ys \<noteq> []" using Cons.prems(1,3) assms(3) by auto
  then obtain y ys' where ys: "ys = y # ys'" by (cases ys) simp_all
  have eq: "x @ concat xs = y @ concat ys'" and len: "length x = length y" using Cons.prems ys by simp_all
  have "x = y" "concat xs = concat ys'" using eq len by simp_all
  with Cons.IH [of ys'] Cons.prems(1,2) ys show ?case by simp
qed

lemma signing_bytes_Inr:
  assumes "provider_signing_bytes pub addrs published ttl nonce relays = Inr w"
  obtains as where "put_addresses addrs = Inr as" "length pub = 32" "length nonce = 16" "length addrs \<le> kMaxAddressesPerRecord"
    "\<forall>r\<in>set relays. length r = 32"
    "w = kProviderMagic @ [32] @ pub @ u16_be (of_nat (length addrs)) @ as @ u64_be published @ u64_be ttl @
         [16] @ nonce @ u16_be (of_nat (length relays)) @ concat relays"
  using assms by (auto simp: provider_signing_bytes_def split: if_splits sum.splits dest!: put_relays_concat)

text \<open>The signature of a provider record covers every field: the signed bytes determine the publisher, the addresses,
  the validity, the nonce and the relays, even though the number of relays is reduced to sixteen bits.\<close>

theorem provider_signing_injective:
  assumes "provider_signing_bytes p as t l n rs = Inr w" and "provider_signing_bytes p' as' t' l' n' rs' = Inr w"
  shows "p = p' \<and> as = as' \<and> t = t' \<and> l = l' \<and> n = n' \<and> rs = rs'"
proof -
  obtain a where a: "put_addresses as = Inr a" "length p = 32" "length n = 16" "length as \<le> kMaxAddressesPerRecord" "\<forall>r\<in>set rs. length r = 32"
    "w = kProviderMagic @ [32] @ p @ u16_be (of_nat (length as)) @ a @ u64_be t @ u64_be l @ [16] @ n @ u16_be (of_nat (length rs)) @ concat rs"
    using signing_bytes_Inr [OF assms(1)] .
  obtain b where b: "put_addresses as' = Inr b" "length p' = 32" "length n' = 16" "length as' \<le> kMaxAddressesPerRecord" "\<forall>r\<in>set rs'. length r = 32"
    "w = kProviderMagic @ [32] @ p' @ u16_be (of_nat (length as')) @ b @ u64_be t' @ u64_be l' @ [16] @ n' @ u16_be (of_nat (length rs')) @ concat rs'"
    using signing_bytes_Inr [OF assms(2)] .
  let ?u = "u64_be t @ u64_be l @ [16] @ n @ u16_be (of_nat (length rs)) @ concat rs"
  let ?v = "u64_be t' @ u64_be l' @ [16] @ n' @ u16_be (of_nat (length rs')) @ concat rs'"
  have h: "p @ u16_be (of_nat (length as)) @ a @ ?u = p' @ u16_be (of_nat (length as')) @ b @ ?v" using a(6) b(6) by simp
  then have p: "p = p'" and r: "u16_be (of_nat (length as)) @ a @ ?u = u16_be (of_nat (length as')) @ b @ ?v" using a(2) b(2) by simp_all
  then have "u16_be (of_nat (length as)) = u16_be (of_nat (length as'))" and r2: "a @ ?u = b @ ?v" by simp_all
  then have "length as = length as'" using a(4) b(4) of_nat_u16_inject [of "length as" "length as'"] by (simp add: kMaxAddressesPerRecord_def)
  with put_addresses_inject [OF _ a(1) b(1) r2] have as: "as = as'" and uv: "?u = ?v" by blast+
  from uv have t: "t = t'" and uv2: "u64_be l @ [16] @ n @ u16_be (of_nat (length rs)) @ concat rs = u64_be l' @ [16] @ n' @ u16_be (of_nat (length rs')) @ concat rs'"
    by simp_all
  from uv2 have l: "l = l'" and uv3: "n @ u16_be (of_nat (length rs)) @ concat rs = n' @ u16_be (of_nat (length rs')) @ concat rs'" by simp_all
  from uv3 have n: "n = n'" and uv4: "u16_be (of_nat (length rs)) @ concat rs = u16_be (of_nat (length rs')) @ concat rs'" using a(3) b(3) by simp_all
  from uv4 have "concat rs = concat rs'" by simp
  then have "rs = rs'" using concat_inject a(5) b(5) by (metis zero_less_numeral)
  with p as t l n show ?thesis by blast
qed

subsection \<open>A record that was built is accepted\<close>

text \<open>What libsodium documents of a key pair: signing succeeds with a signature of 64 bytes that verifies.\<close>

definition signs_for :: "(bytes \<Rightarrow> bytes \<Rightarrow> bytes option) \<Rightarrow> (bytes \<Rightarrow> bytes \<Rightarrow> bytes \<Rightarrow> bool) \<Rightarrow> bytes \<Rightarrow> bytes \<Rightarrow> bool" where
  "signs_for sign verify pub priv \<longleftrightarrow>
     length pub = 32 \<and> length priv = 64 \<and> (\<forall>m. \<exists>sig. sign priv m = Some sig \<and> length sig = 64 \<and> verify pub m sig)"

lemma built_record_verifies:
  assumes "signs_for sign verify pub priv" "build_record sign n pub priv addrs t ttl relays = Inr r"
  shows "verify_record_signature verify r" "pr_publisher_pubkey r = pub" "pr_nonce r = n" "pr_addresses r = addrs"
    "pr_published_at_ms r = t" "pr_ttl_ms r = ttl" "length n = 16" "length (pr_signature r) = 64"
    "addrs \<noteq> []" "length addrs \<le> kMaxAddressesPerRecord" "\<forall>a\<in>set addrs. length a \<le> kMaxAddressBytes"
proof -
  obtain w sig where w: "provider_signing_bytes pub addrs t ttl n relays = Inr w" and sig: "sign priv w = Some sig" and ne: "addrs \<noteq> []"
    and r: "r = \<lparr>pr_publisher_pubkey = pub, pr_addresses = addrs, pr_published_at_ms = t, pr_ttl_ms = ttl, pr_nonce = n, pr_signature = sig,
      pr_offline_relays = relays\<rparr>"
    using assms(2) by (auto simp: build_record_def split: if_splits sum.splits option.splits)
  obtain as where as: "put_addresses addrs = Inr as" "length pub = 32" "length n = 16" "length addrs \<le> kMaxAddressesPerRecord"
    "\<forall>r\<in>set relays. length r = 32" using signing_bytes_Inr [OF w] by blast
  have le: "\<forall>a\<in>set addrs. length a \<le> kMaxAddressBytes"
  proof -
    have "\<forall>a\<in>set l. length a \<le> kMaxAddressBytes" if "put_addresses l = Inr x" for l x
      using that by (induction l arbitrary: x) (auto split: if_splits sum.splits)
    then show ?thesis using as(1) by blast
  qed
  have "\<exists>sig. sign priv w = Some sig \<and> length sig = 64 \<and> verify pub w sig" using assms(1) by (simp add: signs_for_def)
  then have v: "length sig = 64" "verify pub w sig" using sig by simp_all
  have "\<not> (\<exists>a\<in>set addrs. kMaxAddressBytes < length a)" "\<not> (\<exists>x\<in>set relays. length x \<noteq> 32)" using le as(5) by auto
  then show "verify_record_signature verify r" using w v as ne r by (simp add: verify_record_signature_def)
  show "pr_publisher_pubkey r = pub" "pr_nonce r = n" "pr_addresses r = addrs" "pr_published_at_ms r = t" "pr_ttl_ms r = ttl"
    "length n = 16" "length (pr_signature r) = 64" "addrs \<noteq> []" "length addrs \<le> kMaxAddressesPerRecord"
    "\<forall>a\<in>set addrs. length a \<le> kMaxAddressBytes"
    using r v as ne le by simp_all
qed

lemma built_record_accepted:
  assumes "signs_for sign verify pub priv" "build_record sign n pub priv addrs t ttl relays = Inr r"
    and "t \<le> now_or clock now + kRecordClockSkewMs" "now_or clock now < t + ttl"
  shows "fst (provider_put verify clock r now s) \<in> {kAccepted, kAlreadyKnown}"
proof -
  note b = built_record_verifies [OF assms(1,2)]
  have "length pub = 32" using assms(1) by (simp add: signs_for_def)
  moreover have "\<not> (\<exists>a\<in>set (pr_addresses r). kMaxAddressBytes < length a)" using b(4,11) by auto
  ultimately have "provider_put verify clock r now s = try_emplace pub (record_key r) r s"
    using b assms(3,4) by (auto simp: provider_put_def record_expired_def Let_def not_less not_le)
  then show ?thesis using try_emplace_result [of pub "record_key r" r s] by auto
qed

end
