(* ===== verification/Dht_Node.thy ===== *)
theory Dht_Node
  imports Kademlia Provider_Records
begin

text \<open>
  A node of the distributed hash table, \<open>core/src/p2p/dht_node.cpp\<close>: publishing a record to the nearest known peers,
  looking one up, and the handler of every message kind. What a call sends and which callback it runs is returned as
  a list of \<open>dht_out\<close>; a callback is named by a number. The transport, the random request identifier, the system clock,
  SHA-256, Ed25519 and the generated message classes are arguments, the ones every call shares in \<open>dht_env\<close>.
\<close>

subsection \<open>Messages and state\<close>

definition kReplicationFactor :: nat where
  "kReplicationFactor = 8"

datatype dht_message =
    DhtNone
  | DhtPublish provider_record
  | DhtLookup bytes bytes
  | DhtResponse "provider_record list" bytes
  | DhtPrekeyPublish prekey_record
  | DhtPrekeyLookup bytes bytes
  | DhtPrekeyResponse "prekey_record list" bytes

record 'r pending_lookup =
  pl_target :: bytes
  pl_callback :: nat
  pl_awaiting :: nat
  pl_seen :: "(bytes, 'r) omap"

record dht_node =
  dn_self :: bytes
  dn_routing :: routing_table
  dn_store :: "provider_record by_publisher"
  dn_prekeys :: "prekey_record by_publisher"
  dn_pending :: "(bytes, provider_record pending_lookup) omap"
  dn_pending_prekey :: "(bytes, prekey_record pending_lookup) omap"

datatype dht_out =
    Send peer_info bytes
  | Results nat "provider_record list"
  | PrekeyResults nat "prekey_record list"

record dht_env =
  de_verify :: "bytes \<Rightarrow> bytes \<Rightarrow> bytes \<Rightarrow> bool"
  de_sha256 :: "bytes \<Rightarrow> bytes"
  de_clock :: u64
  de_pb :: "dht_message pb"

subsection \<open>Operations\<close>

definition dht_new :: "bytes \<Rightarrow> dht_node" where
  "dht_new self = \<lparr>dn_self = self, dn_routing = rt_new self, dn_store = [], dn_prekeys = [], dn_pending = [], dn_pending_prekey = []\<rparr>"

definition dht_observe :: "peer_info \<Rightarrow> dht_node \<Rightarrow> dht_node" where
  "dht_observe peer n = n\<lparr>dn_routing := snd (observe peer (dn_routing n))\<rparr>"

definition closest_capped :: "routing_table \<Rightarrow> bytes \<Rightarrow> nat \<Rightarrow> peer_info list" where
  "closest_capped rt target k = closest target (min k kBucketSize) rt"

definition targets :: "dht_env \<Rightarrow> bytes \<Rightarrow> dht_node \<Rightarrow> peer_info list" where
  "targets e pub n = closest_capped (dn_routing n) (node_id_from_pubkey (de_sha256 e) pub) kReplicationFactor"

definition fan_send :: "dht_env \<Rightarrow> dht_message \<Rightarrow> peer_info list \<Rightarrow> dht_node \<Rightarrow> dht_out list" where
  "fan_send e m peers n = map (\<lambda>p. Send p (pb_ser (de_pb e) m)) (filter (\<lambda>p. peer_id p \<noteq> dn_self n) peers)"

definition dht_publish :: "dht_env \<Rightarrow> provider_record \<Rightarrow> dht_node \<Rightarrow> nat \<times> dht_out list \<times> dht_node" where
  "dht_publish e r n =
     (let (res, s) = provider_put (de_verify e) (de_clock e) r 0 (dn_store n); n = n\<lparr>dn_store := s\<rparr> in
      if res \<noteq> kAccepted \<and> res \<noteq> kAlreadyKnown then (0, [], n)
      else if length (pr_publisher_pubkey r) \<noteq> 32 then (0, [], n)
      else let outs = fan_send e (DhtPublish r) (targets e (pr_publisher_pubkey r) n) n in (length outs, outs, n))"

definition collect :: "('r \<Rightarrow> bytes) \<Rightarrow> 'r list \<Rightarrow> (bytes, 'r) omap \<Rightarrow> (bytes, 'r) omap" where
  "collect key rs seen = foldl (\<lambda>m r. om_assign (key r) r m) seen rs"

definition dht_lookup :: "dht_env \<Rightarrow> bytes \<Rightarrow> bytes \<Rightarrow> nat \<Rightarrow> dht_node \<Rightarrow> nat \<times> dht_out list \<times> dht_node" where
  "dht_lookup e rid target cb n =
     (if length target \<noteq> 32 then (0, [], n)
      else let peers = targets e target n; local_hits = provider_get (de_clock e) target 0 (dn_store n) in
        if peers = [] then (0, [Results cb local_hits], n)
        else let pl = \<lparr>pl_target = target, pl_callback = cb, pl_awaiting = length peers, pl_seen = collect record_key local_hits []\<rparr>;
                 n' = n\<lparr>dn_pending := om_emplace rid pl (dn_pending n)\<rparr>;
                 outs = fan_send e (DhtLookup target rid) peers n
             in (length outs, Results cb (map snd (pl_seen pl)) # outs, n'))"

definition dht_publish_prekey :: "dht_env \<Rightarrow> prekey_record \<Rightarrow> dht_node \<Rightarrow> nat \<times> dht_out list \<times> dht_node" where
  "dht_publish_prekey e r n =
     (let (res, s) = prekey_put (de_verify e) (de_clock e) r 0 (dn_prekeys n); n = n\<lparr>dn_prekeys := s\<rparr> in
      if res \<noteq> kAccepted \<and> res \<noteq> kAlreadyKnown then (0, [], n)
      else if length (pk_publisher_pubkey r) \<noteq> 32 then (0, [], n)
      else let outs = fan_send e (DhtPrekeyPublish r) (targets e (pk_publisher_pubkey r) n) n in (length outs, outs, n))"

definition dht_lookup_prekey :: "dht_env \<Rightarrow> bytes \<Rightarrow> bytes \<Rightarrow> nat \<Rightarrow> dht_node \<Rightarrow> nat \<times> dht_out list \<times> dht_node" where
  "dht_lookup_prekey e rid target cb n =
     (if length target \<noteq> 32 then (0, [], n)
      else let peers = targets e target n; local_hits = prekey_get_all (de_clock e) target 0 (dn_prekeys n) in
        if peers = [] then (0, [PrekeyResults cb local_hits], n)
        else let pl = \<lparr>pl_target = target, pl_callback = cb, pl_awaiting = length peers, pl_seen = collect prekey_record_key local_hits []\<rparr>;
                 n' = n\<lparr>dn_pending_prekey := om_emplace rid pl (dn_pending_prekey n)\<rparr>;
                 outs = fan_send e (DhtPrekeyLookup target rid) peers n
             in (length outs, PrekeyResults cb (map snd (pl_seen pl)) # outs, n'))"

text \<open>A response to a lookup: the records of the publisher that was asked for are collected and offered to the store;
  the last awaited response ends the lookup.\<close>

definition settle :: "bytes \<Rightarrow> 'r pending_lookup \<Rightarrow> (bytes, 'r pending_lookup) omap \<Rightarrow> (bytes, 'r pending_lookup) omap" where
  "settle rid pl m =
     (let k = pl_awaiting pl - 1 in if k = 0 then om_erase rid m else om_assign rid (pl\<lparr>pl_awaiting := k\<rparr>) m)"

definition on_response :: "dht_env \<Rightarrow> provider_record list \<Rightarrow> bytes \<Rightarrow> dht_node \<Rightarrow> dht_out list \<times> dht_node" where
  "on_response e rs rid n =
     (case om_find (dn_pending n) rid of
        None \<Rightarrow> ([], n)
      | Some pl \<Rightarrow>
          (let hits = filter (\<lambda>r. pr_publisher_pubkey r = pl_target pl) rs;
               pl = pl\<lparr>pl_seen := collect record_key hits (pl_seen pl)\<rparr>;
               s = foldl (\<lambda>s r. snd (provider_put (de_verify e) (de_clock e) r 0 s)) (dn_store n) hits
           in ([Results (pl_callback pl) (map snd (pl_seen pl))],
               n\<lparr>dn_store := s, dn_pending := settle rid pl (dn_pending n)\<rparr>)))"

definition on_prekey_response :: "dht_env \<Rightarrow> prekey_record list \<Rightarrow> bytes \<Rightarrow> dht_node \<Rightarrow> dht_out list \<times> dht_node" where
  "on_prekey_response e rs rid n =
     (case om_find (dn_pending_prekey n) rid of
        None \<Rightarrow> ([], n)
      | Some pl \<Rightarrow>
          (let hits = filter (\<lambda>r. pk_publisher_pubkey r = pl_target pl) rs;
               pl = pl\<lparr>pl_seen := collect prekey_record_key hits (pl_seen pl)\<rparr>;
               s = foldl (\<lambda>s r. snd (prekey_put (de_verify e) (de_clock e) r 0 s)) (dn_prekeys n) hits
           in ([PrekeyResults (pl_callback pl) (map snd (pl_seen pl))],
               n\<lparr>dn_prekeys := s, dn_pending_prekey := settle rid pl (dn_pending_prekey n)\<rparr>)))"

fun dht_dispatch :: "dht_env \<Rightarrow> peer_info \<Rightarrow> dht_message \<Rightarrow> dht_node \<Rightarrow> dht_out list \<times> dht_node" where
  "dht_dispatch e from DhtNone n = ([], n)"
| "dht_dispatch e from (DhtPublish r) n =
     ([], n\<lparr>dn_store := snd (provider_put (de_verify e) (de_clock e) r 0 (dn_store n))\<rparr>)"
| "dht_dispatch e from (DhtLookup target rid) n =
     (if length target \<noteq> 32 then ([], n)
      else ([Send from (pb_ser (de_pb e) (DhtResponse (provider_get (de_clock e) target 0 (dn_store n)) rid))], n))"
| "dht_dispatch e from (DhtResponse rs rid) n = on_response e rs rid n"
| "dht_dispatch e from (DhtPrekeyPublish r) n =
     ([], n\<lparr>dn_prekeys := snd (prekey_put (de_verify e) (de_clock e) r 0 (dn_prekeys n))\<rparr>)"
| "dht_dispatch e from (DhtPrekeyLookup target rid) n =
     (if length target \<noteq> 32 then ([], n)
      else ([Send from (pb_ser (de_pb e) (DhtPrekeyResponse (prekey_get_all (de_clock e) target 0 (dn_prekeys n)) rid))], n))"
| "dht_dispatch e from (DhtPrekeyResponse rs rid) n = on_prekey_response e rs rid n"

definition dht_on_message :: "dht_env \<Rightarrow> peer_info \<Rightarrow> bytes \<Rightarrow> dht_node \<Rightarrow> dht_out list \<times> dht_node" where
  "dht_on_message e from wire n =
     (case pb_parse (de_pb e) wire of
        None \<Rightarrow> ([], n)
      | Some m \<Rightarrow> dht_dispatch e from m (dht_observe from n))"

definition abort_lookup :: "bytes \<Rightarrow> dht_node \<Rightarrow> dht_node" where
  "abort_lookup rid n = n\<lparr>dn_pending := om_erase rid (dn_pending n)\<rparr>"

definition abort_prekey_lookup :: "bytes \<Rightarrow> dht_node \<Rightarrow> dht_node" where
  "abort_prekey_lookup rid n = n\<lparr>dn_pending_prekey := om_erase rid (dn_pending_prekey n)\<rparr>"

definition pending_lookups :: "dht_node \<Rightarrow> nat" where
  "pending_lookups n = length (dn_pending n)"

definition pending_prekey_lookups :: "dht_node \<Rightarrow> nat" where
  "pending_prekey_lookups n = length (dn_pending_prekey n)"

subsection \<open>The invariant of a node\<close>

definition pending_ok :: "('r \<Rightarrow> bytes) \<Rightarrow> ('r \<Rightarrow> bytes) \<Rightarrow> (bytes, 'r pending_lookup) omap \<Rightarrow> bool" where
  "pending_ok pub key m \<longleftrightarrow>
     om_invar m \<and> (\<forall>(rid, pl)\<in>set m. length (pl_target pl) = 32 \<and> 0 < pl_awaiting pl \<and> pl_awaiting pl \<le> kReplicationFactor \<and>
        om_invar (pl_seen pl) \<and> (\<forall>(j, r)\<in>set (pl_seen pl). j = key r \<and> pub r = pl_target pl))"

definition dht_ok :: "(bytes \<Rightarrow> bytes \<Rightarrow> bytes \<Rightarrow> bool) \<Rightarrow> dht_node \<Rightarrow> bool" where
  "dht_ok verify n \<longleftrightarrow>
     table_ok (dn_routing n) \<and> self_id (dn_routing n) = dn_self n \<and>
     records_ok pr_publisher_pubkey record_key (verify_record_signature verify) (dn_store n) \<and>
     records_ok pk_publisher_pubkey prekey_record_key (verify_prekey_record_signature verify) (dn_prekeys n) \<and>
     pending_ok pr_publisher_pubkey record_key (dn_pending n) \<and>
     pending_ok pk_publisher_pubkey prekey_record_key (dn_pending_prekey n)"

lemma set_om_assign: "om_invar m \<Longrightarrow> (j, v) \<in> set (om_assign k w m) \<longleftrightarrow> (if j = k then v = w else (j, v) \<in> set m)"
  using om_find_mem [OF om_invar_assign, of m k w j v] om_find_mem [of m j v] om_find_assign [of m k w] by auto

lemma collect_ok:
  assumes "om_invar seen" "\<forall>(j, r)\<in>set seen. j = key r \<and> pub r = p" "\<forall>r\<in>set rs. pub r = p"
  shows "om_invar (collect key rs seen) \<and> (\<forall>(j, r)\<in>set (collect key rs seen). j = key r \<and> pub r = p)"
  using assms
proof (induction rs arbitrary: seen)
  case (Cons r rs)
  have "\<forall>(j, r')\<in>set (om_assign (key r) r seen). j = key r' \<and> pub r' = p"
    using Cons.prems set_om_assign [OF Cons.prems(1), of _ _ "key r" r] by (auto split: if_splits)
  then show ?case using Cons.IH [OF om_invar_assign [OF Cons.prems(1)]] Cons.prems by (simp add: collect_def)
qed (simp add: collect_def)

lemma pending_ok_settle:
  assumes "pending_ok pub key m" "om_find m rid = Some pl" "\<forall>r\<in>set hits. pub r = pl_target pl"
  shows "pending_ok pub key (settle rid (pl\<lparr>pl_seen := collect key hits (pl_seen pl)\<rparr>) m)"
proof -
  have inv: "om_invar m" using assms(1) by (simp add: pending_ok_def)
  have mem: "(rid, pl) \<in> set m" using assms(2) om_find_mem [OF inv] by simp
  then have pl: "length (pl_target pl) = 32" "0 < pl_awaiting pl" "pl_awaiting pl \<le> kReplicationFactor" "om_invar (pl_seen pl)"
      "\<forall>(j, r)\<in>set (pl_seen pl). j = key r \<and> pub r = pl_target pl" using assms(1) by (auto simp: pending_ok_def)
  note c = collect_ok [OF pl(4,5) assms(3)]
  show ?thesis
  proof (cases "pl_awaiting pl - 1 = 0")
    case True
    then show ?thesis using assms(1) inv by (auto simp: pending_ok_def settle_def om_erase_def intro: om_invar_filter)
  next
    case False
    let ?pl = "pl\<lparr>pl_seen := collect key hits (pl_seen pl), pl_awaiting := pl_awaiting pl - 1\<rparr>"
    have s: "settle rid (pl\<lparr>pl_seen := collect key hits (pl_seen pl)\<rparr>) m = om_assign rid ?pl m" using False by (simp add: settle_def Let_def)
    have "length (pl_target q) = 32 \<and> 0 < pl_awaiting q \<and> pl_awaiting q \<le> kReplicationFactor \<and> om_invar (pl_seen q) \<and>
        (\<forall>(j, r)\<in>set (pl_seen q). j = key r \<and> pub r = pl_target q)" if "(i, q) \<in> set (om_assign rid ?pl m)" for i q
    proof (cases "i = rid")
      case True
      then have "q = ?pl" using that set_om_assign [OF inv] by simp
      then show ?thesis using pl c False by simp
    next
      case False
      then have "(i, q) \<in> set m" using that set_om_assign [OF inv] by simp
      then show ?thesis using assms(1) by (auto simp: pending_ok_def)
    qed
    then show ?thesis unfolding s pending_ok_def using om_invar_assign [OF inv] by blast
  qed
qed

lemma pending_ok_emplace:
  assumes "pending_ok pub key m" "length (pl_target pl) = 32" "0 < pl_awaiting pl" "pl_awaiting pl \<le> kReplicationFactor"
    and "om_invar (pl_seen pl)" "\<forall>(j, r)\<in>set (pl_seen pl). j = key r \<and> pub r = pl_target pl"
  shows "pending_ok pub key (om_emplace rid pl m)"
proof -
  have inv: "om_invar m" using assms(1) by (simp add: pending_ok_def)
  have "x = (rid, pl) \<or> x \<in> set m" if "x \<in> set (om_emplace rid pl m)" for x
  proof -
    obtain i q where x: "x = (i, q)" by fastforce
    have "om_find (om_emplace rid pl m) i = Some q" using that om_find_mem [OF om_invar_emplace [OF inv]] x by simp
    then show ?thesis using om_find_emplace [OF inv, of rid pl] om_find_mem [OF inv, of i q] x by (auto split: if_splits)
  qed
  then show ?thesis using assms om_invar_emplace [OF inv] unfolding pending_ok_def by fastforce
qed

lemma pending_ok_erase: "pending_ok pub key m \<Longrightarrow> pending_ok pub key (om_erase rid m)"
  by (auto simp: pending_ok_def om_erase_def intro: om_invar_filter)

subsection \<open>Runs\<close>

text \<open>Everything that can happen to a node; the clock of each call is its first argument.\<close>

datatype dht_op =
    Observe peer_info
  | OpPublish u64 provider_record
  | OpLookup u64 bytes bytes nat
  | OpPublishPrekey u64 prekey_record
  | OpLookupPrekey u64 bytes bytes nat
  | Receive u64 peer_info bytes
  | Abort bytes
  | AbortPrekey bytes

fun dht_step :: "dht_env \<Rightarrow> dht_node \<Rightarrow> dht_op \<Rightarrow> dht_node" where
  "dht_step e n (Observe p) = dht_observe p n"
| "dht_step e n (OpPublish t r) = snd (snd (dht_publish (e\<lparr>de_clock := t\<rparr>) r n))"
| "dht_step e n (OpLookup t rid target cb) = snd (snd (dht_lookup (e\<lparr>de_clock := t\<rparr>) rid target cb n))"
| "dht_step e n (OpPublishPrekey t r) = snd (snd (dht_publish_prekey (e\<lparr>de_clock := t\<rparr>) r n))"
| "dht_step e n (OpLookupPrekey t rid target cb) = snd (snd (dht_lookup_prekey (e\<lparr>de_clock := t\<rparr>) rid target cb n))"
| "dht_step e n (Receive t from w) = snd (dht_on_message (e\<lparr>de_clock := t\<rparr>) from w n)"
| "dht_step e n (Abort rid) = abort_lookup rid n"
| "dht_step e n (AbortPrekey rid) = abort_prekey_lookup rid n"

definition op_ids_ok :: "dht_op \<Rightarrow> bool" where
  "op_ids_ok op = (case op of Observe p \<Rightarrow> length (peer_id p) = kNodeIdBytes | Receive t p w \<Rightarrow> length (peer_id p) = kNodeIdBytes | _ \<Rightarrow> True)"

lemma dht_ok_new: "length self = kNodeIdBytes \<Longrightarrow> dht_ok verify (dht_new self)"
  using table_ok_new by (simp add: dht_ok_def dht_new_def records_ok_def pending_ok_def rt_new_def)

lemma dht_ok_observe: "dht_ok verify n \<Longrightarrow> length (peer_id p) = kNodeIdBytes \<Longrightarrow> dht_ok verify (dht_observe p n)"
  using table_ok_observe [of "dn_routing n" p] by (simp add: dht_ok_def dht_observe_def)

lemma dht_ok_store:
  "dht_ok verify n \<Longrightarrow> records_ok pr_publisher_pubkey record_key (verify_record_signature verify) s \<Longrightarrow> dht_ok verify (n\<lparr>dn_store := s\<rparr>)"
  "dht_ok verify n \<Longrightarrow> records_ok pk_publisher_pubkey prekey_record_key (verify_prekey_record_signature verify) ps \<Longrightarrow> dht_ok verify (n\<lparr>dn_prekeys := ps\<rparr>)"
  "dht_ok verify n \<Longrightarrow> pending_ok pr_publisher_pubkey record_key m \<Longrightarrow> dht_ok verify (n\<lparr>dn_pending := m\<rparr>)"
  "dht_ok verify n \<Longrightarrow> pending_ok pk_publisher_pubkey prekey_record_key pm \<Longrightarrow> dht_ok verify (n\<lparr>dn_pending_prekey := pm\<rparr>)"
  by (simp_all add: dht_ok_def)

lemma dht_okD:
  assumes "dht_ok verify n"
  shows "table_ok (dn_routing n)" "self_id (dn_routing n) = dn_self n"
    "records_ok pr_publisher_pubkey record_key (verify_record_signature verify) (dn_store n)"
    "records_ok pk_publisher_pubkey prekey_record_key (verify_prekey_record_signature verify) (dn_prekeys n)"
    "pending_ok pr_publisher_pubkey record_key (dn_pending n)"
    "pending_ok pk_publisher_pubkey prekey_record_key (dn_pending_prekey n)"
  using assms by (simp_all add: dht_ok_def)

lemma length_targets: "length (targets e p n) \<le> kReplicationFactor"
  by (simp add: targets_def closest_capped_def closest_def)

lemma dht_ok_publish: "dht_ok (de_verify e) n \<Longrightarrow> dht_ok (de_verify e) (snd (snd (dht_publish e r n)))"
  using dht_ok_store(1) [OF _ providers.ok_put [OF dht_okD(3)], of "de_verify e" n n "de_clock e" r 0]
  by (simp add: dht_publish_def Let_def case_prod_beta)

lemma dht_ok_publish_prekey: "dht_ok (de_verify e) n \<Longrightarrow> dht_ok (de_verify e) (snd (snd (dht_publish_prekey e r n)))"
  using dht_ok_store(2) [OF _ prekeys.ok_put [OF dht_okD(4)], of "de_verify e" n n "de_clock e" r 0]
  by (simp add: dht_publish_prekey_def Let_def case_prod_beta)

lemma provider_get_mem:
  assumes "records_ok pr_publisher_pubkey record_key (verify_record_signature verify) s" "r \<in> set (provider_get clock p now s)"
  shows "pr_publisher_pubkey r = p \<and> verify_record_signature verify r \<and> \<not> record_expired r (now_or clock now)"
  using assms(2) bucket_at_mem(1) [OF assms(1)] by (auto simp: provider_get_def Let_def)

lemma prekey_get_all_mem:
  assumes "records_ok pk_publisher_pubkey prekey_record_key (verify_prekey_record_signature verify) s" "r \<in> set (prekey_get_all clock p now s)"
  shows "pk_publisher_pubkey r = p \<and> verify_prekey_record_signature verify r \<and> \<not> prekey_expired r (now_or clock now)"
  using assms(2) bucket_at_mem(1) [OF assms(1)] by (auto simp: prekey_get_all_def Let_def)

lemma dht_ok_lookup:
  assumes ok: "dht_ok (de_verify e) n"
  shows "dht_ok (de_verify e) (snd (snd (dht_lookup e rid target cb n)))"
proof -
  let ?hits = "provider_get (de_clock e) target 0 (dn_store n)"
  have "\<forall>r\<in>set ?hits. pr_publisher_pubkey r = target" using provider_get_mem [OF dht_okD(3) [OF ok]] by blast
  from collect_ok [of "[]" record_key pr_publisher_pubkey target, OF _ _ this]
  have c: "om_invar (collect record_key ?hits [])" "\<forall>(j, r)\<in>set (collect record_key ?hits []). j = record_key r \<and> pr_publisher_pubkey r = target" by auto
  have "dht_ok (de_verify e) (n\<lparr>dn_pending := om_emplace rid \<lparr>pl_target = target, pl_callback = cb, pl_awaiting = length (targets e target n),
      pl_seen = collect record_key ?hits []\<rparr> (dn_pending n)\<rparr>)" if "length target = 32" "targets e target n \<noteq> []"
    using that c length_targets by (intro dht_ok_store(3) [OF ok] pending_ok_emplace [OF dht_okD(5) [OF ok]]) simp_all
  then show ?thesis using ok by (simp add: dht_lookup_def Let_def)
qed

lemma dht_ok_lookup_prekey:
  assumes ok: "dht_ok (de_verify e) n"
  shows "dht_ok (de_verify e) (snd (snd (dht_lookup_prekey e rid target cb n)))"
proof -
  let ?hits = "prekey_get_all (de_clock e) target 0 (dn_prekeys n)"
  have "\<forall>r\<in>set ?hits. pk_publisher_pubkey r = target" using prekey_get_all_mem [OF dht_okD(4) [OF ok]] by blast
  from collect_ok [of "[]" prekey_record_key pk_publisher_pubkey target, OF _ _ this]
  have c: "om_invar (collect prekey_record_key ?hits [])" "\<forall>(j, r)\<in>set (collect prekey_record_key ?hits []). j = prekey_record_key r \<and> pk_publisher_pubkey r = target" by auto
  have "dht_ok (de_verify e) (n\<lparr>dn_pending_prekey := om_emplace rid \<lparr>pl_target = target, pl_callback = cb, pl_awaiting = length (targets e target n),
      pl_seen = collect prekey_record_key ?hits []\<rparr> (dn_pending_prekey n)\<rparr>)" if "length target = 32" "targets e target n \<noteq> []"
    using that c length_targets by (intro dht_ok_store(4) [OF ok] pending_ok_emplace [OF dht_okD(6) [OF ok]]) simp_all
  then show ?thesis using ok by (simp add: dht_lookup_prekey_def Let_def)
qed

lemma dht_ok_response: "dht_ok (de_verify e) n \<Longrightarrow> dht_ok (de_verify e) (snd (on_response e rs rid n))"
  by (auto simp: on_response_def Let_def split: option.split
    intro!: dht_ok_store(3) [OF dht_ok_store(1)] providers.ok_fold_put pending_ok_settle dest: dht_okD)

lemma dht_ok_prekey_response: "dht_ok (de_verify e) n \<Longrightarrow> dht_ok (de_verify e) (snd (on_prekey_response e rs rid n))"
  by (auto simp: on_prekey_response_def Let_def split: option.split
    intro!: dht_ok_store(4) [OF dht_ok_store(2)] prekeys.ok_fold_put pending_ok_settle dest: dht_okD)

lemma dht_ok_dispatch: "dht_ok (de_verify e) n \<Longrightarrow> dht_ok (de_verify e) (snd (dht_dispatch e from m n))"
  by (cases m) (auto intro: dht_ok_store providers.ok_put prekeys.ok_put dht_okD dht_ok_response dht_ok_prekey_response)

lemma dht_ok_step: "dht_ok (de_verify e) n \<Longrightarrow> op_ids_ok op \<Longrightarrow> dht_ok (de_verify e) (dht_step e n op)"
proof (cases op)
  case (Receive t fr w)
  assume "dht_ok (de_verify e) n" "op_ids_ok op"
  then have "dht_ok (de_verify e) (dht_observe fr n)" using dht_ok_observe Receive by (simp add: op_ids_ok_def)
  then show ?thesis using dht_ok_dispatch [of "e\<lparr>de_clock := t\<rparr>"] Receive \<open>dht_ok (de_verify e) n\<close>
    by (simp add: dht_on_message_def split: option.split)
qed (use dht_ok_publish [of "e\<lparr>de_clock := _\<rparr>"] dht_ok_publish_prekey [of "e\<lparr>de_clock := _\<rparr>"] dht_ok_lookup [of "e\<lparr>de_clock := _\<rparr>"]
      dht_ok_lookup_prekey [of "e\<lparr>de_clock := _\<rparr>"] in
    \<open>simp_all add: op_ids_ok_def dht_ok_observe abort_lookup_def abort_prekey_lookup_def dht_ok_store pending_ok_erase dht_okD\<close>)

lemma dht_ok_run: "dht_ok (de_verify e) n \<Longrightarrow> \<forall>op\<in>set ops. op_ids_ok op \<Longrightarrow> dht_ok (de_verify e) (foldl (dht_step e) n ops)"
  by (induction ops arbitrary: n) (simp_all add: dht_ok_step)

subsection \<open>Records stay\<close>

definition holds :: "provider_record \<Rightarrow> dht_node \<Rightarrow> bool" where
  "holds r n \<longleftrightarrow> (record_key r, r) \<in> set (bucket_at (dn_store n) (pr_publisher_pubkey r))"

lemma holds_fold_put:
  assumes "dht_ok verify n" "holds r n"
  shows "(record_key r, r) \<in> set (bucket_at (foldl (\<lambda>s r. snd (provider_put verify t r 0 s)) (dn_store n) rs) (pr_publisher_pubkey r))"
proof -
  have "records_ok pr_publisher_pubkey record_key (verify_record_signature verify) s \<Longrightarrow>
      (record_key r, r) \<in> set (bucket_at s (pr_publisher_pubkey r)) \<Longrightarrow>
      (record_key r, r) \<in> set (bucket_at (foldl (\<lambda>s r. snd (provider_put verify t r 0 s)) s rs) (pr_publisher_pubkey r))" for s
    by (induction rs arbitrary: s) (simp_all add: providers.ok_put providers.put_keeps)
  then show ?thesis using assms dht_okD(3) by (simp add: holds_def)
qed

lemma holds_put: "dht_ok verify n \<Longrightarrow> holds r n \<Longrightarrow> holds r (n\<lparr>dn_store := snd (provider_put verify t r' 0 (dn_store n))\<rparr>)"
  using providers.put_keeps [OF dht_okD(3)] by (simp add: holds_def)

lemma holds_observe [simp]: "holds r (dht_observe p n) \<longleftrightarrow> holds r n"
  by (simp add: holds_def dht_observe_def)

lemma holds_dispatch:
  assumes "dht_ok (de_verify e) n" "holds r n"
  shows "holds r (snd (dht_dispatch e fr m n))"
proof (cases m)
  case (DhtResponse rs rid)
  then show ?thesis using holds_fold_put [OF assms] assms(2)
    by (auto simp: on_response_def Let_def holds_def split: option.split)
next
  case (DhtPrekeyResponse rs rid)
  then show ?thesis using assms(2) by (auto simp: on_prekey_response_def Let_def holds_def split: option.split)
qed (use assms holds_put [OF assms] in \<open>auto simp: holds_def\<close>)

lemma holds_step: "dht_ok (de_verify e) n \<Longrightarrow> op_ids_ok op \<Longrightarrow> holds r n \<Longrightarrow> holds r (dht_step e n op)"
proof (cases op)
  case (Receive t fr w)
  assume a: "dht_ok (de_verify e) n" "op_ids_ok op" "holds r n"
  then have "dht_ok (de_verify e) (dht_observe fr n)" using dht_ok_observe Receive by (simp add: op_ids_ok_def)
  then show ?thesis using holds_dispatch [of "e\<lparr>de_clock := t\<rparr>" "dht_observe fr n" r] Receive a
    by (simp add: dht_on_message_def split: option.split)
qed (use holds_put in \<open>auto simp: dht_publish_def dht_publish_prekey_def dht_lookup_def dht_lookup_prekey_def Let_def case_prod_beta
      abort_lookup_def abort_prekey_lookup_def holds_def dht_observe_def\<close>)

lemma holds_run: "dht_ok (de_verify e) n \<Longrightarrow> \<forall>op\<in>set ops. op_ids_ok op \<Longrightarrow> holds r n \<Longrightarrow> holds r (foldl (dht_step e) n ops)"
  by (induction ops arbitrary: n) (simp_all add: dht_ok_step holds_step)

lemma holds_get: "holds r n \<Longrightarrow> \<not> record_expired r (now_or t 0) \<Longrightarrow> r \<in> set (provider_get t (pr_publisher_pubkey r) 0 (dn_store n))"
  by (force simp: holds_def provider_get_def Let_def)

lemma now_or_0 [simp]: "now_or t 0 = t"
  by (simp add: now_or_def)

subsection \<open>Meeting at a third node\<close>

lemma collect_mem:
  assumes "om_invar seen" "r \<in> set rs" "distinct (map key rs)"
  shows "(key r, r) \<in> set (collect key rs seen)"
proof -
  have keep: "(key r, r) \<in> set (collect key rs seen)" if "om_invar seen" "(key r, r) \<in> set seen" "key r \<notin> key ` set rs" for rs seen
    using that
  proof (induction rs arbitrary: seen)
    case (Cons x rs)
    then show ?case using Cons.IH [OF om_invar_assign [OF Cons.prems(1)]] set_om_assign [OF Cons.prems(1)] by (simp add: collect_def)
  qed (simp add: collect_def)
  show ?thesis using assms
  proof (induction rs arbitrary: seen)
    case (Cons x rs)
    note inv = om_invar_assign [OF Cons.prems(1), of "key x" x]
    show ?case
    proof (cases "x = r")
      case True
      then have "(key r, r) \<in> set (om_assign (key x) x seen)" using set_om_assign [OF Cons.prems(1)] by simp
      then show ?thesis using keep [OF inv] Cons.prems(3) True by (auto simp: collect_def)
    next
      case False
      then show ?thesis using Cons.IH [OF inv] Cons.prems by (simp add: collect_def)
    qed
  qed simp
qed

lemma provider_get_distinct:
  assumes "records_ok pr_publisher_pubkey record_key good s"
  shows "distinct (map record_key (provider_get clock p now s))"
proof -
  have "map record_key (map snd (bucket_at s p)) = map fst (bucket_at s p)"
    using bucket_at_mem(1) [OF assms] by auto
  moreover have "distinct (map fst (bucket_at s p))" using bucket_at_mem(2) [OF assms] om_invar_distinct by blast
  ultimately show ?thesis unfolding provider_get_def Let_def by (metis distinct_map_filter)
qed

lemma target_mem:
  assumes "dht_ok verify n" "\<forall>x. kNodeIdBytes \<le> length (de_sha256 e x)" "p \<in> set (rt_all (dn_routing n))"
    and "card {q \<in> set (rt_all (dn_routing n)). xor_distance (peer_id q) (node_id_from_pubkey (de_sha256 e) pub)
        < xor_distance (peer_id p) (node_id_from_pubkey (de_sha256 e) pub)} < kReplicationFactor"
  shows "p \<in> set (targets (e\<lparr>de_clock := t\<rparr>) pub n)"
  using closest_mem [OF dht_okD(1) [OF assms(1)] _ assms(3,4)] assms(2)
  by (simp add: targets_def closest_capped_def node_id_from_pubkey_def kReplicationFactor_def kBucketSize_def min_absorb2)

lemma publish_holds:
  assumes "dht_ok (de_verify e) n" "fst (provider_put (de_verify e) (de_clock e) r 0 (dn_store n)) = kAccepted"
  shows "holds r (n\<lparr>dn_store := snd (provider_put (de_verify e) (de_clock e) r 0 (dn_store n))\<rparr>)"
  using providers.put_present(2) [OF dht_okD(3) [OF assms(1)]] assms(2) by (simp add: holds_def)

subsection \<open>Properties\<close>

lemma distinct_nonces:
  assumes "distinct (map key rs)" "\<forall>r\<in>set rs. key r = pub r @ nonce r \<and> pub r = p"
  shows "distinct (map nonce rs)"
proof -
  have "map key rs = map ((@) p) (map nonce rs)" using assms(2) by simp
  then show ?thesis using assms(1) distinct_map by metis
qed

lemma prekey_get_distinct:
  assumes "records_ok pk_publisher_pubkey prekey_record_key good s"
  shows "distinct (map prekey_record_key (prekey_get_all clock p now s))"
proof -
  have "map prekey_record_key (map snd (bucket_at s p)) = map fst (bucket_at s p)"
    using bucket_at_mem(1) [OF assms] by auto
  moreover have "distinct (map fst (bucket_at s p))" using bucket_at_mem(2) [OF assms] om_invar_distinct by blast
  ultimately show ?thesis unfolding prekey_get_all_def Let_def by (metis distinct_map_filter)
qed

lemma provider_answers:
  assumes ok: "dht_ok verify n"
  shows "distinct (map pr_nonce (provider_get t p 0 (dn_store n)))"
    and "r \<in> set (provider_get t p 0 (dn_store n)) \<Longrightarrow>
      pr_publisher_pubkey r = p \<and> pr_addresses r \<noteq> [] \<and> t < pr_published_at_ms r + pr_ttl_ms r \<and>
      (\<exists>w. provider_signing_bytes p (pr_addresses r) (pr_published_at_ms r) (pr_ttl_ms r) (pr_nonce r) (pr_offline_relays r) = Inr w \<and>
           verify p w (pr_signature r))"
proof -
  note mem = provider_get_mem [OF dht_okD(3) [OF ok]]
  show "distinct (map pr_nonce (provider_get t p 0 (dn_store n)))"
    using mem by (intro distinct_nonces [OF provider_get_distinct [OF dht_okD(3) [OF ok]], where pub = pr_publisher_pubkey and p = p])
      (auto simp: record_key_def)
  show "r \<in> set (provider_get t p 0 (dn_store n)) \<Longrightarrow>
      pr_publisher_pubkey r = p \<and> pr_addresses r \<noteq> [] \<and> t < pr_published_at_ms r + pr_ttl_ms r \<and>
      (\<exists>w. provider_signing_bytes p (pr_addresses r) (pr_published_at_ms r) (pr_ttl_ms r) (pr_nonce r) (pr_offline_relays r) = Inr w \<and>
           verify p w (pr_signature r))"
    using mem [of r t p 0] by (auto simp: verify_record_signature_def record_expired_def not_le split: if_splits sum.splits)
qed

lemma prekey_answers:
  assumes ok: "dht_ok verify n"
  shows "distinct (map pk_nonce (prekey_get_all t p 0 (dn_prekeys n)))"
    and "r \<in> set (prekey_get_all t p 0 (dn_prekeys n)) \<Longrightarrow>
      pk_publisher_pubkey r = p \<and> t < pk_published_at_ms r + pk_ttl_ms r \<and>
      (\<exists>w. prekey_signing_bytes p (pk_signed_prekey r) (pk_signed_prekey_signature r) (pk_published_at_ms r) (pk_ttl_ms r) (pk_nonce r)
             (pk_pq_pubkey r) (pk_pq_pubkey_sig r) = Inr w \<and> verify p w (pk_signature r)) \<and>
      verify p (pk_signed_prekey r) (pk_signed_prekey_signature r) \<and>
      (pk_pq_pubkey r = [] \<or> verify p (pk_pq_pubkey r) (pk_pq_pubkey_sig r))"
proof -
  note mem = prekey_get_all_mem [OF dht_okD(4) [OF ok]]
  show "distinct (map pk_nonce (prekey_get_all t p 0 (dn_prekeys n)))"
    using mem by (intro distinct_nonces [OF prekey_get_distinct [OF dht_okD(4) [OF ok]], where pub = pk_publisher_pubkey and p = p])
      (auto simp: prekey_record_key_def)
  show "r \<in> set (prekey_get_all t p 0 (dn_prekeys n)) \<Longrightarrow>
      pk_publisher_pubkey r = p \<and> t < pk_published_at_ms r + pk_ttl_ms r \<and>
      (\<exists>w. prekey_signing_bytes p (pk_signed_prekey r) (pk_signed_prekey_signature r) (pk_published_at_ms r) (pk_ttl_ms r) (pk_nonce r)
             (pk_pq_pubkey r) (pk_pq_pubkey_sig r) = Inr w \<and> verify p w (pk_signature r)) \<and>
      verify p (pk_signed_prekey r) (pk_signed_prekey_signature r) \<and>
      (pk_pq_pubkey r = [] \<or> verify p (pk_pq_pubkey r) (pk_pq_pubkey_sig r))"
    using mem [of r t p 0]
    by (auto simp: verify_prekey_record_signature_def prekey_expired_def not_le Let_def split: if_splits sum.splits)
qed

text \<open>C12. A node of the hash table stays well formed and answers only with genuine records. Whatever is published, looked up, received
  as arbitrary bytes from any peer or aborted: the routing table keeps its shape, a lookup in progress waits for between
  one and eight replies and has collected only records that name the publisher it asked for, and every record the store
  returns for a key (which is what the node sends in answer to a lookup) names that key as its publisher, carries a signature
  of it over all its fields, and has not expired, with at most one record for each nonce; the same for prekey records, whose
  prekey and post-quantum key are each signed by that key as well.\<close>

theorem dht_answers_genuine:
  assumes "length self = kNodeIdBytes" and "\<forall>op\<in>set ops. op_ids_ok op" and n: "n = foldl (dht_step e) (dht_new self) ops"
  shows "table_ok (dn_routing n) \<and> pending_ok pr_publisher_pubkey record_key (dn_pending n) \<and>
    pending_ok pk_publisher_pubkey prekey_record_key (dn_pending_prekey n) \<and>
    distinct (map pr_nonce (provider_get t p 0 (dn_store n))) \<and> distinct (map pk_nonce (prekey_get_all t p 0 (dn_prekeys n))) \<and>
    (\<forall>r\<in>set (provider_get t p 0 (dn_store n)).
       pr_publisher_pubkey r = p \<and> pr_addresses r \<noteq> [] \<and> t < pr_published_at_ms r + pr_ttl_ms r \<and>
       (\<exists>w. provider_signing_bytes p (pr_addresses r) (pr_published_at_ms r) (pr_ttl_ms r) (pr_nonce r) (pr_offline_relays r) = Inr w \<and>
            de_verify e p w (pr_signature r))) \<and>
    (\<forall>r\<in>set (prekey_get_all t p 0 (dn_prekeys n)).
       pk_publisher_pubkey r = p \<and> t < pk_published_at_ms r + pk_ttl_ms r \<and>
       (\<exists>w. prekey_signing_bytes p (pk_signed_prekey r) (pk_signed_prekey_signature r) (pk_published_at_ms r) (pk_ttl_ms r) (pk_nonce r)
              (pk_pq_pubkey r) (pk_pq_pubkey_sig r) = Inr w \<and> de_verify e p w (pk_signature r)) \<and>
       de_verify e p (pk_signed_prekey r) (pk_signed_prekey_signature r) \<and>
       (pk_pq_pubkey r = [] \<or> de_verify e p (pk_pq_pubkey r) (pk_pq_pubkey_sig r)))"
proof -
  have ok: "dht_ok (de_verify e) n" unfolding n by (rule dht_ok_run [OF dht_ok_new [OF assms(1)] assms(2)])
  note answers = provider_answers [OF ok, where t = t and p = p] prekey_answers [OF ok, where t = t and p = p]
  show ?thesis by (intro conjI ballI dht_okD [OF ok] answers(1,3)) (use answers(2,4) in blast)+
qed

text \<open>C18. Publisher and seeker meet. A peer builds and publishes its record; a third node that fewer than eight of the
  publisher's known peers beat in distance to the key receives it. After any further traffic at that node, a seeker
  that also knows it, again with fewer than eight nearer ones, looks the key up: the lookup sends a request to that node, the
  node answers the seeker, and the answer hands the record to the callback of the lookup.\<close>

theorem dht_rendezvous:
  assumes pb: "pb_ok (de_pb e)" and sha: "\<forall>x. kNodeIdBytes \<le> length (de_sha256 e x)"
    and keys: "signs_for sign (de_verify e) pub priv" and r: "build_record sign nonce pub priv addrs t ttl relays = Inr r"
    and fresh: "\<forall>c\<in>{t1, t2, t3}. t \<le> c + kRecordClockSkewMs \<and> c < t + ttl"
    and ok: "dht_ok (de_verify e) a" "dht_ok (de_verify e) b" "dht_ok (de_verify e) c"
    and known: "pc \<in> set (rt_all (dn_routing a))" "pc \<in> set (rt_all (dn_routing b))" "peer_id pc \<noteq> dn_self a" "peer_id pc \<noteq> dn_self b"
    and near: "\<forall>n\<in>{a, b}. card {q \<in> set (rt_all (dn_routing n)). xor_distance (peer_id q) (node_id_from_pubkey (de_sha256 e) pub)
        < xor_distance (peer_id pc) (node_id_from_pubkey (de_sha256 e) pub)} < kReplicationFactor"
    and new: "om_find (bucket_at (dn_store c) pub) (record_key r) = None" "om_find (dn_pending b) rid = None"
    and ids: "length (peer_id pa) = kNodeIdBytes" "\<forall>op\<in>set traffic. op_ids_ok op"
    and c': "c' = foldl (dht_step e) c (Receive t2 pa (pb_ser (de_pb e) (DhtPublish r)) # traffic)"
    and b': "b' = snd (snd (dht_lookup (e\<lparr>de_clock := t3\<rparr>) rid pub cb b))"
  shows "Send pc (pb_ser (de_pb e) (DhtPublish r)) \<in> set (fst (snd (dht_publish (e\<lparr>de_clock := t1\<rparr>) r a))) \<and>
    Send pc (pb_ser (de_pb e) (DhtLookup pub rid)) \<in> set (fst (snd (dht_lookup (e\<lparr>de_clock := t3\<rparr>) rid pub cb b))) \<and>
    (\<exists>reply rs. fst (dht_on_message (e\<lparr>de_clock := t3\<rparr>) pb_addr (pb_ser (de_pb e) (DhtLookup pub rid)) c') = [Send pb_addr reply] \<and>
       fst (dht_on_message (e\<lparr>de_clock := t3\<rparr>) pc reply b') = [Results cb rs] \<and> r \<in> set rs)"
proof (intro conjI)
  let ?e = "\<lambda>t. e\<lparr>de_clock := t\<rparr>" and ?w = "pb_ser (de_pb e) (DhtPublish r)" and ?l = "pb_ser (de_pb e) (DhtLookup pub rid)"
  note v = built_record_verifies [OF keys r]
  have pub: "length pub = 32" using keys by (simp add: signs_for_def)
  have acc: "fst (provider_put (de_verify e) x r 0 s) \<in> {kAccepted, kAlreadyKnown}" if "x \<in> {t1, t2, t3}" for x s
    using built_record_accepted [OF keys r, of x 0 s] fresh that by auto
  have ta: "pc \<in> set (targets (?e t1) pub (a\<lparr>dn_store := s\<rparr>))" for s
    using target_mem [OF ok(1) sha known(1)] near by (simp add: targets_def)
  then show "Send pc ?w \<in> set (fst (snd (dht_publish (?e t1) r a)))"
    using acc [of t1 "dn_store a"] v(2) pub known(3) by (auto simp: dht_publish_def fan_send_def Let_def case_prod_beta)
  have tb: "pc \<in> set (targets (?e t3) pub b)" using target_mem [OF ok(2) sha known(2)] near by simp
  then have ne: "targets (?e t3) pub b \<noteq> []" by auto
  show "Send pc ?l \<in> set (fst (snd (dht_lookup (?e t3) rid pub cb b)))"
    using tb ne pub known(4) by (auto simp: dht_lookup_def fan_send_def Let_def)
  have okc: "dht_ok (de_verify e) (dht_observe pa c)" using ok(3) ids(1) by (rule dht_ok_observe)
  have store: "dn_store (dht_observe q m) = dn_store m" "dn_pending (dht_observe q m) = dn_pending m" for q m by (simp_all add: dht_observe_def)
  have "fst (provider_put (de_verify e) t2 r 0 (dn_store c)) = kAccepted"
  proof -
    have "provider_put (de_verify e) t2 r 0 (dn_store c) = try_emplace pub (record_key r) r (dn_store c)"
      using providers.put_admits [OF acc] v(2) by simp
    then show ?thesis using new(1) by (simp add: try_emplace_def Let_def)
  qed
  then have "holds r (dht_step e c (Receive t2 pa ?w))"
    using publish_holds [of "?e t2" "dht_observe pa c" r] okc pb_okD [OF pb] by (simp add: dht_on_message_def store)
  moreover have okc2: "dht_ok (de_verify e) (dht_step e c (Receive t2 pa ?w))" using ok(3) ids(1) by (intro dht_ok_step) (simp_all add: op_ids_ok_def)
  ultimately have h: "holds r c'" unfolding c' using holds_run [OF _ ids(2)] by simp
  have okc': "dht_ok (de_verify e) c'" unfolding c' using dht_ok_run [OF okc2 ids(2)] by simp
  let ?rs = "provider_get t3 pub 0 (dn_store c')"
  let ?reply = "pb_ser (de_pb e) (DhtResponse ?rs rid)"
  have rs: "r \<in> set ?rs" using holds_get [OF h, of t3] fresh v by (simp add: record_expired_def not_le)
  have all: "filter (\<lambda>r. pr_publisher_pubkey r = pub) ?rs = ?rs"
    using provider_get_mem [OF dht_okD(3) [OF okc']] by (simp add: filter_id_conv)
  define pl where "pl = \<lparr>pl_target = pub, pl_callback = cb, pl_awaiting = length (targets (?e t3) pub b),
      pl_seen = collect record_key (provider_get t3 pub 0 (dn_store b)) []\<rparr>"
  have inv: "om_invar (dn_pending b)" using dht_okD(5) [OF ok(2)] by (simp add: pending_ok_def)
  have "om_find (dn_pending b') rid = Some pl"
    unfolding b' using ne pub om_find_emplace [OF inv, of rid pl] new(2) by (simp add: dht_lookup_def Let_def pl_def)
  then have res: "fst (dht_on_message (?e t3) pc ?reply b') = [Results cb (map snd (collect record_key ?rs (pl_seen pl)))]"
    using pb_okD [OF pb] all by (simp add: dht_on_message_def on_response_def store Let_def) (simp add: pl_def)
  have "\<forall>r\<in>set (provider_get t3 pub 0 (dn_store b)). pr_publisher_pubkey r = pub" using provider_get_mem [OF dht_okD(3) [OF ok(2)]] by blast
  from collect_ok [of "[]" record_key pr_publisher_pubkey pub, OF _ _ this] have "om_invar (pl_seen pl)" by (simp add: pl_def)
  from collect_mem [OF this rs provider_get_distinct [OF dht_okD(3) [OF okc']]]
  have "r \<in> set (map snd (collect record_key ?rs (pl_seen pl)))" by force
  moreover have "fst (dht_on_message (?e t3) pb_addr ?l c') = [Send pb_addr ?reply]"
    using pb_okD [OF pb] pub by (simp add: dht_on_message_def store)
  ultimately show "\<exists>reply rs. fst (dht_on_message (?e t3) pb_addr ?l c') = [Send pb_addr reply] \<and>
       fst (dht_on_message (?e t3) pc reply b') = [Results cb rs] \<and> r \<in> set rs" using res by blast
qed

subsection \<open>A concrete network\<close>

definition pr_enc :: "provider_record \<Rightarrow> bytes" where
  "pr_enc r = put_list [pr_publisher_pubkey r, put_list (pr_addresses r), u64_be (pr_published_at_ms r), u64_be (pr_ttl_ms r), pr_nonce r,
     pr_signature r, put_list (pr_offline_relays r)]"

definition pr_dec :: "bytes \<Rightarrow> provider_record" where
  "pr_dec w = (let f = get_list w in
     \<lparr>pr_publisher_pubkey = f ! 0, pr_addresses = get_list (f ! 1), pr_published_at_ms = rd_u64 (f ! 2), pr_ttl_ms = rd_u64 (f ! 3),
      pr_nonce = f ! 4, pr_signature = f ! 5, pr_offline_relays = get_list (f ! 6)\<rparr>)"

definition pk_enc :: "prekey_record \<Rightarrow> bytes" where
  "pk_enc r = put_list [pk_publisher_pubkey r, pk_signed_prekey r, pk_signed_prekey_signature r, u64_be (pk_published_at_ms r),
     u64_be (pk_ttl_ms r), pk_nonce r, pk_signature r, pk_pq_pubkey r, pk_pq_pubkey_sig r]"

definition pk_dec :: "bytes \<Rightarrow> prekey_record" where
  "pk_dec w = (let f = get_list w in
     \<lparr>pk_publisher_pubkey = f ! 0, pk_signed_prekey = f ! 1, pk_signed_prekey_signature = f ! 2, pk_published_at_ms = rd_u64 (f ! 3),
      pk_ttl_ms = rd_u64 (f ! 4), pk_nonce = f ! 5, pk_signature = f ! 6, pk_pq_pubkey = f ! 7, pk_pq_pubkey_sig = f ! 8\<rparr>)"

lemma pr_dec_enc [simp]: "pr_dec (pr_enc r) = r"
  by (simp add: pr_dec_def pr_enc_def)

lemma pk_dec_enc [simp]: "pk_dec (pk_enc r) = r"
  by (simp add: pk_dec_def pk_enc_def)

fun dht_enc :: "dht_message \<Rightarrow> bytes" where
  "dht_enc DhtNone = [0]"
| "dht_enc (DhtPublish r) = 1 # pr_enc r"
| "dht_enc (DhtLookup t rid) = 2 # put_list [t, rid]"
| "dht_enc (DhtResponse rs rid) = 3 # put_list (rid # map pr_enc rs)"
| "dht_enc (DhtPrekeyPublish r) = 4 # pk_enc r"
| "dht_enc (DhtPrekeyLookup t rid) = 5 # put_list [t, rid]"
| "dht_enc (DhtPrekeyResponse rs rid) = 6 # put_list (rid # map pk_enc rs)"

definition dht_dec :: "bytes \<Rightarrow> dht_message option" where
  "dht_dec w =
     (case w of
        [] \<Rightarrow> None
      | k # w \<Rightarrow>
          (let f = get_list w in
           Some (if k = 1 then DhtPublish (pr_dec w) else if k = 2 then DhtLookup (f ! 0) (f ! 1)
                 else if k = 3 then DhtResponse (map pr_dec (tl f)) (f ! 0) else if k = 4 then DhtPrekeyPublish (pk_dec w)
                 else if k = 5 then DhtPrekeyLookup (f ! 0) (f ! 1)
                 else if k = 6 then DhtPrekeyResponse (map pk_dec (tl f)) (f ! 0) else DhtNone)))"

definition toy_dht_env :: dht_env where
  "toy_dht_env = \<lparr>de_verify = (\<lambda>pub m sig. hd sig = hd pub), de_sha256 = (\<lambda>x. replicate 32 0), de_clock = 0,
     de_pb = \<lparr>pb_ser = dht_enc, pb_parse = dht_dec\<rparr>\<rparr>"

lemma toy_dht_pb_ok: "pb_ok (de_pb toy_dht_env)"
proof -
  have "dht_dec (dht_enc m) = Some m" for m
    by (cases m) (simp_all add: dht_dec_def comp_def Let_def)
  then show ?thesis by (simp add: pb_ok_def toy_dht_env_def)
qed

definition toy_sign :: "bytes \<Rightarrow> bytes \<Rightarrow> bytes option" where
  "toy_sign priv m = Some (replicate 64 (hd priv))"

lemma toy_signs: "signs_for toy_sign (de_verify toy_dht_env) (replicate 32 7) (replicate 64 7)"
  by (simp add: signs_for_def toy_sign_def toy_dht_env_def)

definition toy_peer :: "byte \<Rightarrow> peer_info" where
  "toy_peer k = \<lparr>peer_id = replicate kNodeIdBytes k, peer_addr = [], peer_pubkey = []\<rparr>"

definition toy_node :: "byte \<Rightarrow> dht_node" where
  "toy_node k = dht_new (replicate kNodeIdBytes k)"

definition toy_record :: provider_record where
  "toy_record = \<lparr>pr_publisher_pubkey = replicate 32 7, pr_addresses = [[1]], pr_published_at_ms = 10, pr_ttl_ms = 100,
     pr_nonce = replicate 16 0, pr_signature = replicate 64 7, pr_offline_relays = []\<rparr>"

lemma toy_record_built: "build_record toy_sign (replicate 16 0) (replicate 32 7) (replicate 64 7) [[1]] 10 100 [] = Inr toy_record"
  by (simp add: build_record_def provider_signing_bytes_def toy_sign_def toy_record_def kMaxAddressesPerRecord_def kMaxAddressBytes_def)

lemma rt_all_one:
  assumes "peer_id p \<noteq> self" "length (peer_id p) = kNodeIdBytes" "length self = kNodeIdBytes"
  shows "set (rt_all (snd (observe p (rt_new self)))) = {p}"
proof -
  let ?i = "bucket_index (xor_distance self (peer_id p))"
  have "num (xor_distance self (peer_id p)) \<noteq> 0" using xor_distance_0 [of self "peer_id p"] assms by auto
  then have i: "?i < kAddressBits" using bucket_index_log [of "xor_distance self (peer_id p)"] assms by (auto simp: kAddressBits_def)
  have "set (concat ((replicate n [])[j := [p]])) = {p}" if "j < n" for n j
    using that by (induction n arbitrary: j) (auto split: nat.splits)
  then show ?thesis using i assms by (simp add: observe_def rt_new_def observe_bucket_def List.extract_def rt_all_def Let_def kBucketSize_def)
qed

definition toy_prekey :: prekey_record where
  "toy_prekey = \<lparr>pk_publisher_pubkey = replicate 32 7, pk_signed_prekey = replicate 32 3, pk_signed_prekey_signature = replicate 64 7,
     pk_published_at_ms = 10, pk_ttl_ms = 100, pk_nonce = replicate 16 1, pk_signature = replicate 64 7, pk_pq_pubkey = [], pk_pq_pubkey_sig = []\<rparr>"

text \<open>A node receives a record, the same record again, one with a wrong signature, and a prekey record, and publishes a second record.\<close>

definition toy_traffic :: "dht_op list" where
  "toy_traffic = [Receive 15 (toy_peer 2) (dht_enc (DhtPublish toy_record)), Receive 16 (toy_peer 3) (dht_enc (DhtPublish toy_record)),
     Receive 17 (toy_peer 2) (dht_enc (DhtPublish (toy_record\<lparr>pr_nonce := replicate 16 5, pr_signature := replicate 64 1\<rparr>))),
     Receive 18 (toy_peer 2) (dht_enc (DhtPrekeyPublish toy_prekey)), OpPublish 19 (toy_record\<lparr>pr_nonce := replicate 16 9\<rparr>)]"

lemma receive_stored:
  assumes "pb_ok (de_pb e)"
  shows "dn_store (dht_step e n (Receive t fr (pb_ser (de_pb e) (DhtPublish r)))) = snd (provider_put (de_verify e) t r 0 (dn_store n))"
    "dn_prekeys (dht_step e n (Receive t fr (pb_ser (de_pb e) (DhtPublish r)))) = dn_prekeys n"
    "dn_store (dht_step e n (Receive t fr (pb_ser (de_pb e) (DhtPrekeyPublish q)))) = dn_store n"
    "dn_prekeys (dht_step e n (Receive t fr (pb_ser (de_pb e) (DhtPrekeyPublish q)))) = snd (prekey_put (de_verify e) t q 0 (dn_prekeys n))"
    "dn_store (dht_step e n (OpPublish t r)) = snd (provider_put (de_verify e) t r 0 (dn_store n))"
    "dn_prekeys (dht_step e n (OpPublish t r)) = dn_prekeys n"
  using pb_okD [OF assms] by (simp_all add: dht_on_message_def dht_observe_def dht_publish_def Let_def case_prod_beta)

lemma toy_traffic_stored:
  "dn_store (foldl (dht_step toy_dht_env) (toy_node 1) toy_traffic) = [(replicate 32 7, [(record_key toy_record, toy_record),
     (record_key (toy_record\<lparr>pr_nonce := replicate 16 9\<rparr>), toy_record\<lparr>pr_nonce := replicate 16 9\<rparr>)])]" (is ?s)
  "dn_prekeys (foldl (dht_step toy_dht_env) (toy_node 1) toy_traffic) = [(replicate 32 7, [(prekey_record_key toy_prekey, toy_prekey)])]" (is ?p)
proof -
  have w: "dht_enc = pb_ser (de_pb toy_dht_env)" by (simp add: toy_dht_env_def)
  have n: "dn_store (toy_node 1) = []" "dn_prekeys (toy_node 1) = []" by (simp_all add: toy_node_def dht_new_def)
  show ?s unfolding toy_traffic_def w foldl.simps receive_stored [OF toy_dht_pb_ok] n by code_simp
  show ?p unfolding toy_traffic_def w foldl.simps receive_stored [OF toy_dht_pb_ok] n by code_simp
qed

theorem dht_answers_genuine_witness:
  "let n = foldl (dht_step toy_dht_env) (toy_node 1) toy_traffic in
   provider_get 50 (replicate 32 7) 0 (dn_store n) = [toy_record, toy_record\<lparr>pr_nonce := replicate 16 9\<rparr>] \<and>
   prekey_get_all 50 (replicate 32 7) 0 (dn_prekeys n) = [toy_prekey] \<and>
   (\<exists>w. provider_signing_bytes (replicate 32 7) [[1]] 10 100 (replicate 16 0) [] = Inr w \<and>
      de_verify toy_dht_env (replicate 32 7) w (pr_signature toy_record)) \<and>
   (\<exists>w. prekey_signing_bytes (replicate 32 7) (replicate 32 3) (replicate 64 7) 10 100 (replicate 16 1) [] [] = Inr w \<and>
      de_verify toy_dht_env (replicate 32 7) w (pk_signature toy_prekey))"
proof -
  let ?n = "foldl (dht_step toy_dht_env) (toy_node 1) toy_traffic"
  have got: "provider_get 50 (replicate 32 7) 0 (dn_store ?n) = [toy_record, toy_record\<lparr>pr_nonce := replicate 16 9\<rparr>]"
    "prekey_get_all 50 (replicate 32 7) 0 (dn_prekeys ?n) = [toy_prekey]"
    unfolding toy_traffic_stored by code_simp+
  have "\<forall>op\<in>set toy_traffic. op_ids_ok op" by (simp add: toy_traffic_def op_ids_ok_def toy_peer_def)
  from dht_answers_genuine [OF _ this, of "replicate kNodeIdBytes 1" ?n toy_dht_env 50 "replicate 32 7"] got
  show ?thesis by (simp add: toy_node_def) (simp add: toy_record_def toy_prekey_def)
qed

theorem dht_rendezvous_witness:
  "\<exists>reply rs.
     fst (dht_on_message (toy_dht_env\<lparr>de_clock := 50\<rparr>) (toy_peer 2) (dht_enc (DhtLookup (replicate 32 7) [1, 2]))
       (foldl (dht_step toy_dht_env) (toy_node 3) [Receive 20 (toy_peer 1) (dht_enc (DhtPublish toy_record)), Receive 30 (toy_peer 9) [9]])) =
       [Send (toy_peer 2) reply] \<and>
     fst (dht_on_message (toy_dht_env\<lparr>de_clock := 50\<rparr>) (toy_peer 3) reply
       (snd (snd (dht_lookup (toy_dht_env\<lparr>de_clock := 50\<rparr>) [1, 2] (replicate 32 7) 4 (dht_observe (toy_peer 3) (toy_node 2)))))) =
       [Results 4 rs] \<and> toy_record \<in> set rs"
proof -
  have ok: "dht_ok (de_verify toy_dht_env) (toy_node k)" "length (peer_id (toy_peer k)) = kNodeIdBytes" for k
    using dht_ok_new [of "replicate kNodeIdBytes k"] by (simp_all add: toy_node_def toy_peer_def)
  have all: "set (rt_all (dn_routing (dht_observe (toy_peer 3) (toy_node k)))) = {toy_peer 3}" if "k \<noteq> 3" for k
    using rt_all_one [of "toy_peer 3" "replicate kNodeIdBytes k"] that
    by (simp add: dht_observe_def toy_node_def dht_new_def toy_peer_def kNodeIdBytes_def)
  have self: "dn_self (dht_observe p (toy_node k)) = replicate kNodeIdBytes k" for p k by (simp add: dht_observe_def toy_node_def dht_new_def)
  note meet = dht_rendezvous [where e = toy_dht_env and pub = "replicate 32 7" and pc = "toy_peer 3" and pa = "toy_peer 1" and ?t1.0 = 15 and ?t2.0 = 20
    and ?t3.0 = 50 and a = "dht_observe (toy_peer 3) (toy_node 1)" and b = "dht_observe (toy_peer 3) (toy_node 2)" and c = "toy_node 3"
    and traffic = "[Receive 30 (toy_peer 9) [9]]" and rid = "[1, 2]" and cb = 4 and pb_addr = "toy_peer 2",
    OF toy_dht_pb_ok _ toy_signs toy_record_built _ _ _ _ _ _ _ _ _ _ _ _ _ refl refl]
  have w: "dht_enc = pb_ser (de_pb toy_dht_env)" by (simp add: toy_dht_env_def)
  show ?thesis unfolding w
    by (rule meet [THEN conjunct2, THEN conjunct2])
      (use ok dht_ok_observe [OF ok(1) ok(2)] in \<open>simp_all add: all self op_ids_ok_def Collect_conv_if\<close>,
       simp_all add: toy_dht_env_def kRecordClockSkewMs_def toy_node_def dht_new_def dht_observe_def toy_peer_def kNodeIdBytes_def
         bucket_at_def om_find_def kReplicationFactor_def)
qed

subsection \<open>What a responder can do\<close>

text \<open>A lookup believes its responders. A record in a response that names the publisher of the lookup is handed to the
  callback whatever its signature: the store rejects it, the results of the lookup include it.\<close>

theorem dht_results_unverified:
  assumes "dht_ok (de_verify e) n" "om_find (dn_pending n) rid = Some pl" "pr_publisher_pubkey r = pl_target pl"
    and "\<not> verify_record_signature (de_verify e) r"
  shows "\<exists>rs n'. on_response e [r] rid n = ([Results (pl_callback pl) rs], n') \<and> r \<in> set rs \<and> dn_store n' = dn_store n"
proof -
  have p: "pending_ok pr_publisher_pubkey record_key (dn_pending n)" by (rule dht_okD [OF assms(1)])
  then have pinv: "om_invar (dn_pending n)" unfolding pending_ok_def by (rule conjunct1)
  have "(rid, pl) \<in> set (dn_pending n)" by (rule om_find_mem [OF pinv, THEN iffD1, OF assms(2)])
  then have inv: "om_invar (pl_seen pl)" using p by (auto simp: pending_ok_def)
  have "fst (provider_put (de_verify e) (de_clock e) r 0 (dn_store n)) \<notin> {kAccepted, kAlreadyKnown}"
    using providers.put_admits assms(4) by blast
  then have "snd (provider_put (de_verify e) (de_clock e) r 0 (dn_store n)) = dn_store n" by (rule providers.put_rejects)
  moreover have "(record_key r, r) \<in> set (collect record_key [r] (pl_seen pl))" by (rule collect_mem [OF inv]) simp_all
  then have "r \<in> set (map snd (collect record_key [r] (pl_seen pl)))" by force
  ultimately show ?thesis using assms(2,3) by (simp add: on_response_def Let_def)
qed

theorem dht_results_unverified_witness:
  "\<exists>rs n'. on_response toy_dht_env [toy_record\<lparr>pr_signature := []\<rparr>] [1, 2]
      (snd (snd (dht_lookup (toy_dht_env\<lparr>de_clock := 50\<rparr>) [1, 2] (replicate 32 7) 4 (dht_observe (toy_peer 3) (toy_node 2))))) = ([Results 4 rs], n') \<and>
     toy_record\<lparr>pr_signature := []\<rparr> \<in> set rs \<and> dn_store n' = []"
proof -
  let ?e = "toy_dht_env\<lparr>de_clock := 50\<rparr>" and ?n = "dht_observe (toy_peer 3) (toy_node 2)"
  let ?l = "snd (snd (dht_lookup ?e [1, 2] (replicate 32 7) 4 ?n))"
  have ok: "dht_ok (de_verify toy_dht_env) ?n"
    using dht_ok_observe [OF dht_ok_new [of "replicate kNodeIdBytes 2"]] by (simp add: toy_node_def toy_peer_def)
  have "set (rt_all (dn_routing ?n)) = {toy_peer 3}"
    using rt_all_one [of "toy_peer 3" "replicate kNodeIdBytes 2"] by (simp add: dht_observe_def toy_node_def dht_new_def toy_peer_def kNodeIdBytes_def)
  then have ne: "targets ?e (replicate 32 7) ?n \<noteq> []"
    using target_mem [OF ok, of toy_dht_env "toy_peer 3" "replicate 32 7" 50]
    by (auto simp: toy_dht_env_def kNodeIdBytes_def Collect_conv_if kReplicationFactor_def)
  then have pl: "om_find (dn_pending ?l) [1, 2] = Some \<lparr>pl_target = replicate 32 7, pl_callback = 4, pl_awaiting = length (targets ?e (replicate 32 7) ?n), pl_seen = []\<rparr>"
    and s: "dn_store ?l = []"
    by (simp_all add: dht_lookup_def Let_def dht_observe_def toy_node_def dht_new_def om_find_def provider_get_def bucket_at_def collect_def)
  have "dht_ok (de_verify toy_dht_env) ?l" using dht_ok_lookup [of ?e ?n] ok by simp
  from dht_results_unverified [OF this pl, of "toy_record\<lparr>pr_signature := []\<rparr>"] s
  show ?thesis by (simp add: toy_record_def verify_record_signature_def)
qed

end
