(* ===== verification/Discovery.thy ===== *)
theory Discovery
  imports Kademlia Websocket
begin

text \<open>
  How a peer finds its first contacts: the bootstrap file (\<open>core/src/p2p/bootstrap.cpp\<close>), bootstrap records in DNS
  fetched over HTTPS (\<open>core/src/net/doh_resolver.cpp\<close>, with its scanner for the JSON answer), and beacons on the local
  network (\<open>core/src/p2p/lan_discovery.cpp\<close>). The environment, the file system, the TLS connection and SHA-256 are
  arguments; a string is a list of bytes.
\<close>

subsection \<open>Hexadecimal\<close>

definition hex_nibble :: "byte \<Rightarrow> int" where
  "hex_nibble c =
     (if 0x30 \<le> c \<and> c \<le> 0x39 then uint c - 0x30
      else if 0x61 \<le> c \<and> c \<le> 0x66 then uint c - 0x61 + 10
      else if 0x41 \<le> c \<and> c \<le> 0x46 then uint c - 0x41 + 10
      else - 1)"

fun hex_pairs :: "bytes \<Rightarrow> bytes option" where
  "hex_pairs (h # l # s) =
     (if hex_nibble h < 0 \<or> hex_nibble l < 0 then None
      else map_option ((#) (word_of_int (push_bit 4 (hex_nibble h) OR hex_nibble l))) (hex_pairs s))"
| "hex_pairs _ = Some []"


definition hex_to_bytes :: "bytes \<Rightarrow> bytes option" where
  "hex_to_bytes hex = (if length hex mod 2 \<noteq> 0 then None else hex_pairs hex)"

definition hex_chars :: bytes where
  "hex_chars = str_bytes ''0123456789abcdef''"

definition pubkey_hex :: "bytes \<Rightarrow> bytes" where
  "pubkey_hex p = concat (map (\<lambda>b. [hex_chars ! unat (drop_bit 4 b AND 0xf), hex_chars ! unat (b AND 0xf)]) p)"

subsection \<open>Bootstrap file\<close>

record bootstrap_result =
  bp_peers :: "peer_info list"
  bp_malformed :: nat

definition no_bootstrap :: bootstrap_result where
  "no_bootstrap = \<lparr>bp_peers = [], bp_malformed = 0\<rparr>"

text \<open>\<open>std::getline\<close>, and one word of \<open>operator>>\<close> with the rest of the line.\<close>

fun getlines :: "bytes \<Rightarrow> bytes list" where
  "getlines [] = []"
| "getlines (c # s) =
     (if c = 0x0A then [] # getlines s
      else case getlines s of [] \<Rightarrow> [[c]] | l # ls \<Rightarrow> (c # l) # ls)"

definition next_word :: "bytes \<Rightarrow> bytes \<times> bytes" where
  "next_word s = (let s = dropWhile isspace s in (takeWhile (\<lambda>c. \<not> isspace c) s, dropWhile (\<lambda>c. \<not> isspace c) s))"

definition strip_cr :: "bytes \<Rightarrow> bytes" where
  "strip_cr l = (if l \<noteq> [] \<and> last l = 0x0D then butlast l else l)"

definition parse_line :: "(bytes \<Rightarrow> bytes) \<Rightarrow> bootstrap_result \<Rightarrow> bytes \<Rightarrow> bootstrap_result" where
  "parse_line sha256 r line =
     (let trimmed = trim_ws (strip_cr line)
      in if trimmed = [] \<or> hd trimmed = 0x23 then r
         else let (hex_pub, more_s) = next_word trimmed; (addr, _) = next_word more_s; bad = r\<lparr>bp_malformed := bp_malformed r + 1\<rparr>
              in if hex_pub = [] \<or> addr = [] then bad
                 else case hex_to_bytes hex_pub of
                        None \<Rightarrow> bad
                      | Some pubkey \<Rightarrow>
                          if length pubkey \<noteq> 32 then bad
                          else if find_sub (str_bytes ''://'') addr = None then bad
                          else r\<lparr>bp_peers := bp_peers r @
                                 [\<lparr>peer_id = node_id_from_pubkey sha256 pubkey, peer_addr = addr, peer_pubkey = pubkey\<rparr>]\<rparr>)"

definition parse_bootstrap_text :: "(bytes \<Rightarrow> bytes) \<Rightarrow> bytes \<Rightarrow> bootstrap_result" where
  "parse_bootstrap_text sha256 contents = foldl (parse_line sha256) no_bootstrap (getlines contents)"

definition load_bootstrap_file :: "(bytes \<Rightarrow> bytes) \<Rightarrow> (bytes \<Rightarrow> bytes option) \<Rightarrow> bytes \<Rightarrow> bootstrap_result outcome" where
  "load_bootstrap_file sha256 read_file path =
     (case read_file path of None \<Rightarrow> Threw | Some s \<Rightarrow> Returned (parse_bootstrap_text sha256 s))"







subsection \<open>Records in DNS\<close>


text \<open>\<open>std::stoi\<close>: white space, a sign, decimal digits; \<open>None\<close> is an exception.\<close>

definition isdigit :: "byte \<Rightarrow> bool" where
  "isdigit c = (0x30 \<le> c \<and> c \<le> 0x39)"

definition decimal :: "bytes \<Rightarrow> int" where
  "decimal ds = foldl (\<lambda>v d. 10 * v + (uint d - 0x30)) 0 ds"

definition stoi :: "bytes \<Rightarrow> int option" where
  "stoi s =
     (let s = dropWhile isspace s;
          neg = (s \<noteq> [] \<and> hd s = 0x2D);
          s = (if s \<noteq> [] \<and> (hd s = 0x2D \<or> hd s = 0x2B) then tl s else s);
          ds = takeWhile isdigit s;
          v = (if neg then - decimal ds else decimal ds)
      in if ds = [] then None else if v < - (2 ^ 31) \<or> 2 ^ 31 \<le> v then None else Some v)"

record obj_fields =
  of_type :: int
  of_data :: bytes
  has_data :: bool

definition unescape :: "byte \<Rightarrow> byte" where
  "unescape d = (if d = 0x6E then 0x0A else if d = 0x74 then 0x09 else if d = 0x72 then 0x0D else d)"

text \<open>The value of a string up to its closing quote, and what follows; the flag says that a backslash came before.\<close>

fun json_string :: "bool \<Rightarrow> bytes \<Rightarrow> bytes \<times> bytes" where
  "json_string de [] = ([], [])"
| "json_string de (d # s) =
     (if de then let (v, r) = json_string False s in (unescape d # v, r)
      else if d = 0x5C then json_string True s
      else if d = 0x22 then ([], s)
      else let (v, r) = json_string False s in (d # v, r))"

definition strip_quotes :: "bytes \<Rightarrow> bytes" where
  "strip_quotes s = (if 2 \<le> length s \<and> hd s = 0x22 \<and> last s = 0x22 then butlast (tl s) else s)"

definition skip_ws_colon :: "bytes \<Rightarrow> bytes" where
  "skip_ws_colon s = dropWhile (\<lambda>c. isspace c \<or> c = 0x3A) s"

definition json_key :: "string \<Rightarrow> bytes" where
  "json_key k = [0x22] @ str_bytes k @ [0x22]"

lemma json_string_shorter: "length (snd (json_string de s)) \<le> length s"
proof (induction s arbitrary: de)
  case (Cons d s)
  show ?case using Cons.IH [of True] Cons.IH [of False] by (auto simp: le_SucI split: prod.splits)
qed simp

lemma skip_ws_colon_shorter: "length (skip_ws_colon s) \<le> length s"
  by (simp add: skip_ws_colon_def length_dropWhile_le)

text \<open>\<open>scan_object_fields\<close>: the rest of the body with the state of the loop.\<close>

function scan_fields :: "int \<Rightarrow> bool \<Rightarrow> bool \<Rightarrow> obj_fields \<Rightarrow> bytes \<Rightarrow> obj_fields" where
  "scan_fields depth in_str esc f [] = f"
| "scan_fields depth in_str esc f (c # s) =
     (if in_str then
        (if esc then scan_fields depth True False f s
         else if c = 0x5C then scan_fields depth True True f s
         else if c = 0x22 then scan_fields depth False esc f s
         else scan_fields depth True esc f s)
      else if c = 0x22 then
        (if depth = 0 \<and> take 6 (c # s) = json_key ''type'' then
           let s = skip_ws_colon (drop 6 (c # s)); num = takeWhile isdigit s;
               f = (if num = [] then f else case stoi num of None \<Rightarrow> f | Some v \<Rightarrow> f\<lparr>of_type := v\<rparr>)
           in scan_fields depth False esc f (dropWhile isdigit s)
         else if depth = 0 \<and> take 6 (c # s) = json_key ''data'' then
           let s = skip_ws_colon (drop 6 (c # s))
           in if s \<noteq> [] \<and> hd s = 0x22
              then let (v, r) = json_string False (tl s)
                   in scan_fields depth False esc (f\<lparr>of_data := strip_quotes v, has_data := True\<rparr>) r
              else scan_fields depth False esc f s
         else scan_fields depth True esc f s)
      else if c = 0x7B \<or> c = 0x5B then scan_fields (depth + 1) False esc f s
      else if c = 0x7D \<or> c = 0x5D then scan_fields (depth - 1) False esc f s
      else scan_fields depth False esc f s)"
  by pat_completeness auto

termination
proof (relation "measure (\<lambda>(_, _, _, _, s). length s)", goal_cases)
  case (6 depth in_str esc f c s s' num f')
  then show ?case using skip_ws_colon_shorter [of "drop 6 (c # s)"] length_dropWhile_le [of isdigit s'] by simp
next
  case (7 depth in_str esc f c s s' vr v r)
  have "length r \<le> length (tl s')" using json_string_shorter [of False "tl s'"] 7 by (metis snd_conv)
  then show ?case using 7 skip_ws_colon_shorter [of "drop 6 (c # s)"] by simp
next
  case (8 depth in_str esc f c s s')
  then show ?case using skip_ws_colon_shorter [of "drop 6 (c # s)"] by simp
qed simp_all

definition scan_object_fields :: "bytes \<Rightarrow> obj_fields" where
  "scan_object_fields body = scan_fields 0 False False \<lparr>of_type = - 1, of_data = [], has_data = False\<rparr> body"


text \<open>The body of an object up to its closing brace, and what follows; \<open>None\<close> when the text ends before. The depth counts
  the braces and brackets still open.\<close>

fun split_object :: "nat \<Rightarrow> bool \<Rightarrow> bool \<Rightarrow> bytes \<Rightarrow> (bytes \<times> bytes) option" where
  "split_object d2 s2 e2 [] = None"
| "split_object d2 s2 e2 (d # s) =
     (if s2 then
        (if e2 then map_option (apfst ((#) d)) (split_object d2 True False s)
         else if d = 0x5C then map_option (apfst ((#) d)) (split_object d2 True True s)
         else if d = 0x22 then map_option (apfst ((#) d)) (split_object d2 False e2 s)
         else map_option (apfst ((#) d)) (split_object d2 True e2 s))
      else if d = 0x22 then map_option (apfst ((#) d)) (split_object d2 True e2 s)
      else if d = 0x7B \<or> d = 0x5B then map_option (apfst ((#) d)) (split_object (d2 + 1) False e2 s)
      else if d = 0x7D \<or> d = 0x5D then
        (if d2 = 1 then Some ([], s) else map_option (apfst ((#) d)) (split_object (d2 - 1) False e2 s))
      else map_option (apfst ((#) d)) (split_object d2 False e2 s))"

lemma split_object_shorter: "split_object d2 s2 e2 s = Some (b, r) \<Longrightarrow> length r < length s"
proof (induction d2 s2 e2 s arbitrary: b rule: split_object.induct)
  case (2 d2 s2 e2 d s)
  from 2(9) show ?case
    by (auto split: if_splits dest: 2(1-8))
qed simp

text \<open>The walk over the \<open>Answer\<close> array.\<close>

function walk_answers :: "bool \<Rightarrow> bool \<Rightarrow> bytes \<Rightarrow> bytes list" where
  "walk_answers in_str esc [] = []"
| "walk_answers in_str esc (c # s) =
     (if in_str then
        (if esc then walk_answers True False s
         else if c = 0x5C then walk_answers True True s
         else if c = 0x22 then walk_answers False esc s
         else walk_answers True esc s)
      else if c = 0x22 then walk_answers True esc s
      else if c = 0x5D then []
      else if c = 0x7B then
        (case split_object 1 False False s of
           None \<Rightarrow> []
         | Some (inner, r) \<Rightarrow>
             let f = scan_object_fields inner; vs = walk_answers False esc r
             in if of_type f = 16 \<and> has_data f then of_data f # vs else vs)
      else walk_answers False esc s)"
  by pat_completeness auto

termination
  by (relation "measure (\<lambda>(_, _, s). length s)") (auto dest: split_object_shorter)



subsection \<open>The request\<close>













subsection \<open>All sources\<close>



subsection \<open>Beacons\<close>

record lan_beacon =
  lb_pubkey :: bytes
  lb_gossip_port :: u16
  lb_relay_port :: u16

record lan_peer =
  lp_pubkey :: bytes
  lp_ip :: bytes
  lp_gossip_port :: u16
  lp_relay_port :: u16

definition kLanMagic :: bytes where
  "kLanMagic = str_bytes ''FBLN''"

definition kBeaconLen :: nat where
  "kBeaconLen = 4 + 1 + 32 + 2 + 2"

definition encode_lan_beacon :: "bytes \<Rightarrow> u16 \<Rightarrow> u16 \<Rightarrow> bytes" where
  "encode_lan_beacon pubkey gossip_port relay_port = kLanMagic @ [1] @ pubkey @ u16_be gossip_port @ u16_be relay_port"

definition parse_lan_beacon :: "bytes \<Rightarrow> lan_beacon option" where
  "parse_lan_beacon d =
     (if length d < kBeaconLen then None
      else if take 4 d \<noteq> kLanMagic then None
      else if d ! 4 \<noteq> 1 then None
      else Some \<lparr>lb_pubkey = take 32 (drop 5 d), lb_gossip_port = rd_u16 (d ! 37) (d ! 38),
                 lb_relay_port = rd_u16 (d ! 39) (d ! 40)\<rparr>)"

text \<open>One turn of the loop of \<open>run\<close>: the beacon it sends, the peer it reports and the time of the last beacon. The
  clock counts milliseconds; \<open>dgram\<close> is what \<open>recvfrom\<close> returned, with the address of its source.\<close>

definition lan_turn ::
  "bytes \<Rightarrow> u16 \<Rightarrow> u16 \<Rightarrow> int \<Rightarrow> (bytes \<times> bytes) option \<Rightarrow> int \<Rightarrow> bytes option \<times> lan_peer option \<times> int" where
  "lan_turn self_pubkey gossip_port relay_port now dgram last_beacon =
     (let due = (3000 \<le> now - last_beacon);
          sent = (if due then Some (encode_lan_beacon self_pubkey gossip_port relay_port) else None);
          heard = (case dgram of
                     None \<Rightarrow> None
                   | Some (d, ip) \<Rightarrow>
                       if d = [] then None
                       else case parse_lan_beacon (take 128 d) of
                              None \<Rightarrow> None
                            | Some b \<Rightarrow>
                                if lb_pubkey b = self_pubkey then None
                                else Some \<lparr>lp_pubkey = lb_pubkey b, lp_ip = ip, lp_gossip_port = lb_gossip_port b,
                                           lp_relay_port = lb_relay_port b\<rparr>)
      in (sent, heard, if due then now else last_beacon))"


subsection \<open>Hexadecimal round trip\<close>

lemma hex_nibble_char: "n < 16 \<Longrightarrow> hex_nibble (hex_chars ! n) = int n"
proof -
  have "list_all (\<lambda>n. hex_nibble (hex_chars ! n) = int n) [0..<16]" by code_simp
  then show "n < 16 \<Longrightarrow> ?thesis" by (simp add: list_all_iff)
qed

lemma nibble_less: "unat (w AND 0xf :: byte) < 16"
proof -
  have "w AND 0xf \<le> (0xf :: byte)" by (rule word_and_le1)
  then show ?thesis by (simp add: word_le_nat_alt)
qed

lemma nibbles_join: "word_of_int (push_bit 4 (uint (drop_bit 4 b AND 0xf :: byte)) OR uint (b AND 0xf)) = b"
proof (rule bit_word_eqI)
  fix i assume "i < LENGTH(8)"
  then have "i \<in> {0, 1, 2, 3, 4, 5, 6, 7}" by auto
  then show "bit (word_of_int (push_bit 4 (uint (drop_bit 4 b AND 0xf :: byte)) OR uint (b AND 0xf)) :: byte) i = bit b i"
    by (auto simp: bit_simps)
qed

lemma hex_pairs_pubkey_hex: "hex_pairs (pubkey_hex p) = Some p"
  by (induction p) (simp_all add: pubkey_hex_def hex_nibble_char nibble_less nibbles_join)

lemma length_pubkey_hex: "length (pubkey_hex p) = 2 * length p"
  by (induction p) (simp_all add: pubkey_hex_def)



lemma hex_chars_plain: "c \<in> set (pubkey_hex p) \<Longrightarrow> \<not> isspace c \<and> c \<noteq> 0x0A \<and> c \<noteq> 0x23"
proof -
  have all: "list_all (\<lambda>c. \<not> isspace c \<and> c \<noteq> 0x0A \<and> c \<noteq> 0x23) hex_chars" by code_simp
  have "length hex_chars = 16" by (simp add: hex_chars_def str_bytes_def)
  then have "unat (w AND 0xf :: byte) < length hex_chars" for w using nibble_less by simp
  then have "set (pubkey_hex p) \<subseteq> set hex_chars" by (auto simp: pubkey_hex_def nth_mem)
  then show "c \<in> set (pubkey_hex p) \<Longrightarrow> ?thesis" using all by (auto simp: list_all_iff)
qed


subsection \<open>Where peers come from\<close>

text \<open>Whatever the sources hold, a peer that is loaded has a 32-byte key, the identifier of that key and an address.\<close>

definition peer_bound :: "(bytes \<Rightarrow> bytes) \<Rightarrow> peer_info \<Rightarrow> bool" where
  "peer_bound sha256 p \<longleftrightarrow>
     length (peer_pubkey p) = 32 \<and> peer_id p = node_id_from_pubkey sha256 (peer_pubkey p) \<and> peer_addr p \<noteq> []"













subsection \<open>A bootstrap file is read back\<close>

text \<open>What a writer may put into a file: peers, comments and blank lines, each with either line ending.\<close>

datatype boot_line = PeerLine peer_info | CommentLine bytes | BlankLine

fun boot_text :: "boot_line \<Rightarrow> bytes" where
  "boot_text (PeerLine p) = pubkey_hex (peer_pubkey p) @ [0x20] @ peer_addr p"
| "boot_text (CommentLine c) = [0x23] @ c"
| "boot_text BlankLine = []"

fun line_ok :: "(bytes \<Rightarrow> bytes) \<Rightarrow> boot_line \<Rightarrow> bool" where
  "line_ok sha256 (PeerLine p) \<longleftrightarrow>
     peer_bound sha256 p \<and> list_all (\<lambda>c. \<not> isspace c) (peer_addr p) \<and> find_sub (str_bytes ''://'') (peer_addr p) \<noteq> None"
| "line_ok sha256 (CommentLine c) \<longleftrightarrow> 0x0A \<notin> set c"
| "line_ok sha256 BlankLine \<longleftrightarrow> True"

definition boot_file :: "(boot_line \<times> bool) list \<Rightarrow> bytes" where
  "boot_file ls = concat (map (\<lambda>(l, cr). boot_text l @ (if cr then [0x0D] else []) @ [0x0A]) ls)"

lemma getlines_line: "0x0A \<notin> set l \<Longrightarrow> getlines (l @ 0x0A # s) = l # getlines s"
  by (induction l) auto

lemma trim_ws_id: "s \<noteq> [] \<Longrightarrow> \<not> isspace (hd s) \<Longrightarrow> \<not> isspace (last s) \<Longrightarrow> trim_ws s = s"
proof -
  assume s: "s \<noteq> []" "\<not> isspace (hd s)" "\<not> isspace (last s)"
  have "dropWhile isspace s = s" using s(1,2) by (cases s) simp_all
  moreover have "dropWhile isspace (rev s) = rev s" using s(1,3) by (cases s rule: rev_cases) simp_all
  ultimately show ?thesis by (simp add: trim_ws_def)
qed

lemma trim_ws_Cons: "\<not> isspace c \<Longrightarrow> \<exists>s'. trim_ws (c # s) = c # s'"
  by (cases "\<forall>x\<in>set s. isspace x") (auto simp: trim_ws_def dropWhile_append intro: exI [of _ "rev (dropWhile isspace (rev s))"])

lemma strip_cr_line: "t = [] \<or> last t \<noteq> 0x0D \<Longrightarrow> strip_cr (t @ (if cr then [0x0D] else [])) = t"
  by (auto simp: strip_cr_def)

lemma next_word_space:
  assumes "list_all (\<lambda>c. \<not> isspace c) w"
  shows "w \<noteq> [] \<Longrightarrow> next_word (w @ 0x20 # s) = (w, 0x20 # s)"
    and "next_word w = (w, [])" and "next_word (0x20 # w) = (w, [])"
proof -
  have sp: "isspace 0x20" by (simp add: isspace_def)
  have dw: "dropWhile isspace (w @ t) = w @ t" if "w \<noteq> []" for t
    using assms that by (cases w) auto
  show "next_word (w @ 0x20 # s) = (w, 0x20 # s)" if "w \<noteq> []"
    using assms sp dw [OF that] by (simp add: next_word_def list_all_iff)
  show "next_word w = (w, [])"
    using assms dw [of "[]"] by (cases "w = []") (simp_all add: next_word_def list_all_iff)
  then show "next_word (0x20 # w) = (w, [])" using sp by (simp add: next_word_def)
qed

lemma parse_line_written:
  assumes "line_ok sha256 l"
  shows "parse_line sha256 r (boot_text l @ (if cr then [0x0D] else [])) =
     r\<lparr>bp_peers := bp_peers r @ (case l of PeerLine p \<Rightarrow> [p] | _ \<Rightarrow> [])\<rparr>"
proof (cases l)
  case (PeerLine p)
  let ?h = "pubkey_hex (peer_pubkey p)" and ?t = "boot_text l"
  have p: "length (peer_pubkey p) = 32" "peer_id p = node_id_from_pubkey sha256 (peer_pubkey p)" "peer_addr p \<noteq> []"
    "list_all (\<lambda>c. \<not> isspace c) (peer_addr p)" "find_sub (str_bytes ''://'') (peer_addr p) \<noteq> None"
    using assms PeerLine by (simp_all add: peer_bound_def)
  have h: "?h \<noteq> []" using p(1) length_pubkey_hex [of "peer_pubkey p"] by fastforce
  then have h: "?h \<noteq> []" "list_all (\<lambda>c. \<not> isspace c) ?h" "hd ?h \<noteq> 0x23" "\<not> isspace (hd ?h)"
    using hex_chars_plain [of _ "peer_pubkey p"] hex_chars_plain [OF hd_in_set [OF h]] by (simp_all add: list_all_iff)
  have last: "\<not> isspace (last (peer_addr p))" using p(3,4) by (auto simp: list_all_iff)
  then have cr: "strip_cr (?t @ (if cr then [0x0D] else [])) = ?t"
    by (intro strip_cr_line) (use p(3) in \<open>auto simp: PeerLine isspace_def\<close>)
  have trim: "trim_ws ?t = ?t" by (rule trim_ws_id) (use h p(3) last in \<open>simp_all add: PeerLine\<close>)
  have w: "next_word ?t = (?h, 0x20 # peer_addr p)" "next_word (0x20 # peer_addr p) = (peer_addr p, [])"
    using next_word_space(1) [OF h(2,1), of "peer_addr p"] next_word_space(3) [OF p(4)] by (simp_all add: PeerLine)
  have "hex_to_bytes ?h = Some (peer_pubkey p)" by (simp add: hex_to_bytes_def length_pubkey_hex hex_pairs_pubkey_hex)
  then show ?thesis using h p w unfolding parse_line_def cr trim by (simp add: PeerLine)
next
  case (CommentLine c)
  have "strip_cr (0x23 # t) = 0x23 # tl (strip_cr (0x23 # t))" for t by (cases t) (auto simp: strip_cr_def)
  then obtain t where "strip_cr (boot_text l @ (if cr then [0x0D] else [])) = 0x23 # t" by (auto simp: CommentLine)
  moreover obtain s' where "trim_ws (0x23 # t) = 0x23 # s'" using trim_ws_Cons [of "0x23" t] by (auto simp: isspace_def)
  ultimately have "trim_ws (strip_cr (boot_text l @ (if cr then [0x0D] else []))) = 0x23 # s'" by simp
  then show ?thesis by (simp add: parse_line_def CommentLine)
next
  case BlankLine
  then show ?thesis by (simp add: parse_line_def strip_cr_def trim_ws_def)
qed

text \<open>A bootstrap file with peers, comments and blank lines, with either line ending, is read back: exactly its
  peers, in order, and no line is counted as malformed.\<close>

theorem bootstrap_text_roundtrip:
  assumes "list_all (line_ok sha256 \<circ> fst) ls"
  shows "parse_bootstrap_text sha256 (boot_file ls) =
     \<lparr>bp_peers = concat (map (\<lambda>(l, cr). case l of PeerLine p \<Rightarrow> [p] | _ \<Rightarrow> []) ls), bp_malformed = 0\<rparr>"
proof -
  have nl: "0x0A \<notin> set (boot_text l)" if "line_ok sha256 l" for l
    using that hex_chars_plain by (cases l) (fastforce simp: list_all_iff isspace_def)+
  have "getlines (boot_file ls) = map (\<lambda>(l, cr). boot_text l @ (if cr then [0x0D] else [])) ls"
    using assms
  proof (induction ls)
    case (Cons x ls)
    obtain l cr where x: "x = (l, cr)" by fastforce
    have "0x0A \<notin> set (boot_text l @ (if cr then [0x0D] else []))" using nl Cons.prems by (simp add: x)
    from getlines_line [OF this] Cons show ?case by (simp add: x boot_file_def)
  qed (simp add: boot_file_def)
  moreover have "foldl (parse_line sha256) r (map (\<lambda>(l, cr). boot_text l @ (if cr then [0x0D] else [])) ls) =
      r\<lparr>bp_peers := bp_peers r @ concat (map (\<lambda>(l, cr). case l of PeerLine p \<Rightarrow> [p] | _ \<Rightarrow> []) ls)\<rparr>" for r
    using assms
  proof (induction ls arbitrary: r)
    case (Cons x ls)
    then show ?case using parse_line_written [of sha256 "fst x" r "snd x"] by (simp add: case_prod_unfold)
  qed simp
  ultimately show ?thesis by (simp add: parse_bootstrap_text_def no_bootstrap_def)
qed


subsection \<open>An answer of a resolver is read\<close>


definition json_esc :: "bytes \<Rightarrow> bytes" where
  "json_esc s = concat (map (\<lambda>c. if c = 0x22 \<or> c = 0x5C then [0x5C, c] else [c]) s)"






lemma json_esc_simps [simp]:
  "json_esc [] = []"
  "json_esc (c # s) = (if c = 0x22 \<or> c = 0x5C then [0x5C, c] else [c]) @ json_esc s"
  by (simp_all add: json_esc_def)




lemma walk_string: "walk_answers True False (json_esc s @ 0x22 # r) = walk_answers False False r"
  by (induction s) auto



definition json_plain :: "byte \<Rightarrow> bool" where
  "json_plain c \<longleftrightarrow> c \<noteq> 0x22 \<and> c \<noteq> 0x7B \<and> c \<noteq> 0x5B \<and> c \<noteq> 0x7D \<and> c \<noteq> 0x5D"





lemma json_plain_punct [simp]: "json_plain 0x3A" "json_plain 0x2C"
  by (simp_all add: json_plain_def)


















subsection \<open>A bootstrap record in DNS is found\<close>















subsection \<open>Beacons are heard\<close>

text \<open>A node reports exactly the beacons of other nodes, with their key and ports, and never its own.\<close>

theorem lan_beacon_heard:
  assumes "length pub = 32"
  shows "fst (snd (lan_turn self g r now (Some (encode_lan_beacon pub gp rp, ip)) t)) =
    (if pub = self then None
     else Some \<lparr>lp_pubkey = pub, lp_ip = ip, lp_gossip_port = gp, lp_relay_port = rp\<rparr>)"
proof -
  let ?d = "encode_lan_beacon pub gp rp"
  have len: "length ?d = kBeaconLen" using assms by (simp add: encode_lan_beacon_def kLanMagic_def str_bytes_def kBeaconLen_def)
  have d: "?d = (kLanMagic @ [1] @ pub) @ u16_be gp @ u16_be rp" by (simp add: encode_lan_beacon_def)
  have pre: "length (kLanMagic @ [1] @ pub) = 37" using assms by (simp add: kLanMagic_def str_bytes_def)
  have at: "?d ! (37 + i) = (u16_be gp @ u16_be rp) ! i" for i using nth_append [of "kLanMagic @ [1] @ pub" _ "37 + i"] pre by (simp add: d)
  have ports: "rd_u16 (?d ! 37) (?d ! 38) = gp" "rd_u16 (?d ! 39) (?d ! 40) = rp"
    using at [of 0] at [of 1] at [of 2] at [of 3] rd_u16_be [of gp] rd_u16_be [of rp] by (simp_all add: nth_append)
  have "take 4 ?d = kLanMagic" "?d ! 4 = 1" "take 32 (drop 5 ?d) = pub" "?d \<noteq> []"
    using assms by (simp_all add: encode_lan_beacon_def kLanMagic_def str_bytes_def nth_append)
  then have "parse_lan_beacon (take 128 ?d) = Some \<lparr>lb_pubkey = pub, lb_gossip_port = gp, lb_relay_port = rp\<rparr>"
    using ports len by (simp add: parse_lan_beacon_def kBeaconLen_def)
  then show ?thesis using \<open>?d \<noteq> []\<close> by (simp add: lan_turn_def Let_def)
qed

end
