(* ===== verification/Socks5.thy ===== *)
theory Socks5
  imports Prelude
begin

text \<open>
  Tunnelling through a SOCKS5 proxy such as Tor, \<open>core/src/net/socks5.cpp\<close>: the wire formats and the dialogue of
  \<open>socks5_connect\<close>. The connection to the proxy is what it delivers, in the pieces in which \<open>recv\<close> returns it, and
  how many bytes \<open>send\<close> takes; an empty piece stands for end of file, an error or the timeout. The dialogue
  returns what it sent and what is left of the stream.
\<close>

subsection \<open>Wire formats\<close>

datatype rep = kSucceeded | kGeneralFailure | kNotAllowed | kNetworkUnreachable | kHostUnreachable | kConnectionRefused
  | kTtlExpired | kCommandNotSupported | kAddrTypeNotSupported | kUnknownRep byte

definition rep_of :: "byte \<Rightarrow> rep" where
  "rep_of b =
     (if b = 0 then kSucceeded else if b = 1 then kGeneralFailure else if b = 2 then kNotAllowed
      else if b = 3 then kNetworkUnreachable else if b = 4 then kHostUnreachable else if b = 5 then kConnectionRefused
      else if b = 6 then kTtlExpired else if b = 7 then kCommandNotSupported else if b = 8 then kAddrTypeNotSupported
      else kUnknownRep b)"

definition encode_greeting :: bytes where
  "encode_greeting = [5, 1, 0]"

definition encode_greeting_with_userpass :: bytes where
  "encode_greeting_with_userpass = [5, 2, 0, 2]"

definition encode_userpass_auth :: "bytes \<Rightarrow> bytes \<Rightarrow> bytes" where
  "encode_userpass_auth username password =
     (let ulen = (if 255 < length username then 255 else length username);
          plen = (if 255 < length password then 255 else length password)
      in [1, of_nat ulen] @ take ulen username @ [of_nat plen] @ take plen password)"

definition parse_greeting_response :: "bytes \<Rightarrow> byte option" where
  "parse_greeting_response r = (if length r \<noteq> 2 then None else if r ! 0 \<noteq> 5 then None else Some (r ! 1))"

definition parse_userpass_response :: "bytes \<Rightarrow> byte option" where
  "parse_userpass_response r = (if length r \<noteq> 2 then None else if r ! 0 \<noteq> 1 then None else Some (r ! 1))"

definition encode_connect_request :: "bytes \<Rightarrow> u16 \<Rightarrow> bytes" where
  "encode_connect_request host port =
     (let hlen = (if 255 < length host then 255 else length host)
      in [5, 1, 0, 3, of_nat hlen] @ take hlen host @ u16_be port)"

definition connect_response_tail_len :: "byte \<Rightarrow> byte \<Rightarrow> nat option" where
  "connect_response_tail_len atyp first_addr_byte =
     (if atyp = 1 then Some (4 + 2)
      else if atyp = 3 then Some (unat first_addr_byte + 1 + 2)
      else if atyp = 4 then Some (16 + 2)
      else None)"

definition parse_connect_response :: "bytes \<Rightarrow> rep option" where
  "parse_connect_response r =
     (if length r < 5 then None
      else if r ! 0 \<noteq> 5 then None
      else if r ! 2 \<noteq> 0 then None
      else case connect_response_tail_len (r ! 3) (r ! 4) of
             None \<Rightarrow> None
           | Some tail \<Rightarrow> if length r < 4 + tail then None else Some (rep_of (r ! 1)))"

subsection \<open>The dialogue\<close>

datatype socks_error =
    BadTarget | ShortSend | ShortRecv | MalformedGreeting | MethodsRejected | MalformedAuth | AuthRejected
  | UnsupportedMethod | MalformedConnect | Refused rep | UnknownAtyp

record proxy_link =
  lk_in :: "bytes list"
  lk_budget :: nat
  lk_sent :: bytes

text \<open>\<open>send_all\<close> repeats \<open>send\<close> until everything is taken or nothing more is.\<close>

definition send_all :: "bytes \<Rightarrow> proxy_link \<Rightarrow> (socks_error + unit) \<times> proxy_link" where
  "send_all data l =
     (if length data \<le> lk_budget l
      then (Inr (), l\<lparr>lk_budget := lk_budget l - length data, lk_sent := lk_sent l @ data\<rparr>)
      else (Inl ShortSend, l\<lparr>lk_budget := 0, lk_sent := lk_sent l @ take (lk_budget l) data\<rparr>))"

function recv_pieces :: "nat \<Rightarrow> bytes list \<Rightarrow> (bytes \<times> bytes list) option" where
  "recv_pieces n cs =
     (if n = 0 then Some ([], cs)
      else case cs of
             [] \<Rightarrow> None
           | c # cs \<Rightarrow>
               if c = [] then None
               else map_option (apfst ((@) (take n c))) (recv_pieces (n - length c) (if n < length c then drop n c # cs else cs)))"
  by pat_completeness auto

termination
  by (relation "measure fst") auto

declare recv_pieces.simps [simp del]

definition recv_exact :: "nat \<Rightarrow> proxy_link \<Rightarrow> (socks_error + bytes) \<times> proxy_link" where
  "recv_exact n l =
     (case recv_pieces n (lk_in l) of
        None \<Rightarrow> (Inl ShortRecv, l)
      | Some (bs, cs) \<Rightarrow> (Inr bs, l\<lparr>lk_in := cs\<rparr>))"

text \<open>A step that fails ends the dialogue.\<close>

definition and_then ::
  "(socks_error + 'a) \<times> proxy_link \<Rightarrow> ('a \<Rightarrow> proxy_link \<Rightarrow> (socks_error + 'b) \<times> proxy_link) \<Rightarrow> (socks_error + 'b) \<times> proxy_link" where
  "and_then r f = (case r of (Inl e, l) \<Rightarrow> (Inl e, l) | (Inr a, l) \<Rightarrow> f a l)"

definition negotiate_auth :: "bytes \<Rightarrow> bytes \<Rightarrow> proxy_link \<Rightarrow> (socks_error + unit) \<times> proxy_link" where
  "negotiate_auth username password l =
     and_then (send_all (encode_userpass_auth username password) l) (\<lambda>_ l.
     and_then (recv_exact 2 l) (\<lambda>auth_resp l.
       case parse_userpass_response auth_resp of
         None \<Rightarrow> (Inl MalformedAuth, l)
       | Some status \<Rightarrow> if status \<noteq> 0 then (Inl AuthRejected, l) else (Inr (), l)))"

definition greet :: "bytes \<Rightarrow> bytes \<Rightarrow> proxy_link \<Rightarrow> (socks_error + unit) \<times> proxy_link" where
  "greet username password l =
     (let offer_userpass = (username \<noteq> [] \<or> password \<noteq> []) in
      and_then (send_all (if offer_userpass then encode_greeting_with_userpass else encode_greeting) l) (\<lambda>_ l.
      and_then (recv_exact 2 l) (\<lambda>greet_resp l.
        case parse_greeting_response greet_resp of
          None \<Rightarrow> (Inl MalformedGreeting, l)
        | Some m \<Rightarrow>
            if m = 0xFF then (Inl MethodsRejected, l)
            else if m = 2 then negotiate_auth username password l
            else if m \<noteq> 0 then (Inl UnsupportedMethod, l)
            else (Inr (), l))))"

definition request_connect :: "bytes \<Rightarrow> u16 \<Rightarrow> proxy_link \<Rightarrow> (socks_error + unit) \<times> proxy_link" where
  "request_connect host port l =
     and_then (send_all (encode_connect_request host port) l) (\<lambda>_ l.
     and_then (recv_exact 5 l) (\<lambda>h l.
       if h ! 0 \<noteq> 5 \<or> h ! 2 \<noteq> 0 then (Inl MalformedConnect, l)
       else if h ! 1 \<noteq> 0 then (Inl (Refused (rep_of (h ! 1))), l)
       else case connect_response_tail_len (h ! 3) (h ! 4) of
              None \<Rightarrow> (Inl UnknownAtyp, l)
            | Some tail \<Rightarrow>
                if 1 < tail then and_then (recv_exact (tail - 1) l) (\<lambda>_ l. (Inr (), l)) else (Inr (), l)))"

definition socks5_connect :: "bytes \<Rightarrow> u16 \<Rightarrow> bytes \<Rightarrow> bytes \<Rightarrow> proxy_link \<Rightarrow> (socks_error + unit) \<times> proxy_link" where
  "socks5_connect target_host target_port username password l =
     (if target_host = [] \<or> 255 < length target_host then (Inl BadTarget, l)
      else and_then (greet username password l) (\<lambda>_ l. request_connect target_host target_port l))"

subsection \<open>Pieces\<close>

lemma recv_pieces_concat:
  assumes "list_all (\<lambda>c. c \<noteq> []) cs"
  shows "if n \<le> length (concat cs)
    then \<exists>cs'. recv_pieces n cs = Some (take n (concat cs), cs') \<and> concat cs' = drop n (concat cs) \<and> list_all (\<lambda>c. c \<noteq> []) cs'
    else recv_pieces n cs = None"
  using assms
proof (induction n cs rule: recv_pieces.induct)
  case (1 n cs)
  show ?case
  proof (cases cs)
    case Nil
    then show ?thesis by (simp add: recv_pieces.simps)
  next
    case (Cons c ds)
    show ?thesis
    proof (cases "n = 0")
      case True
      then show ?thesis using 1(2) by (simp add: recv_pieces.simps)
    next
      case False
      let ?r = "if n < length c then drop n c # ds else ds"
      have c: "c \<noteq> []" "list_all (\<lambda>c. c \<noteq> []) ?r" using 1(2) Cons by auto
      have IH: "if n - length c \<le> length (concat ?r)
        then \<exists>cs'. recv_pieces (n - length c) ?r = Some (take (n - length c) (concat ?r), cs') \<and>
               concat cs' = drop (n - length c) (concat ?r) \<and> list_all (\<lambda>c. c \<noteq> []) cs'
        else recv_pieces (n - length c) ?r = None"
        by (rule 1(1) [OF False Cons c])
      have step: "recv_pieces n cs = map_option (apfst ((@) (take n c))) (recv_pieces (n - length c) ?r)"
        using False c(1) by (subst recv_pieces.simps) (simp add: Cons)
      show ?thesis
      proof (cases "n < length c")
        case True
        then show ?thesis using IH unfolding step by (simp add: Cons recv_pieces.simps)
      next
        case False
        then have le: "n - length c \<le> length (concat ds) \<longleftrightarrow> n \<le> length (concat cs)" using Cons by auto
        show ?thesis using IH False unfolding step le by (auto simp: Cons split: if_splits)
      qed
    qed
  qed
qed

text \<open>Receiving from a link that holds enough takes exactly that much, however it is cut.\<close>

definition link_holds :: "proxy_link \<Rightarrow> bytes \<Rightarrow> bool" where
  "link_holds l s \<longleftrightarrow> list_all (\<lambda>c. c \<noteq> []) (lk_in l) \<and> concat (lk_in l) = s"

lemma recv_exact_holds:
  assumes "link_holds l (a @ s)" "length a = n"
  obtains cs where "recv_exact n l = (Inr a, l\<lparr>lk_in := cs\<rparr>)" "link_holds (l\<lparr>lk_in := cs\<rparr>) s"
proof -
  have h: "list_all (\<lambda>c. c \<noteq> []) (lk_in l)" "concat (lk_in l) = a @ s" using assms(1) by (simp_all add: link_holds_def)
  obtain cs where "recv_pieces n (lk_in l) = Some (a, cs)" "concat cs = s" "list_all (\<lambda>c. c \<noteq> []) cs"
    using recv_pieces_concat [OF h(1), of n] assms(2) by (auto simp: h(2))
  then show thesis by (intro that [of cs]) (simp_all add: recv_exact_def link_holds_def)
qed

lemma recv_exact_short:
  assumes "link_holds l s" "length s < n"
  shows "recv_exact n l = (Inl ShortRecv, l)"
  using recv_pieces_concat [of "lk_in l" n] assms by (simp add: link_holds_def recv_exact_def)

lemma send_all_holds:
  assumes "length data \<le> lk_budget l"
  shows "send_all data l = (Inr (), l\<lparr>lk_budget := lk_budget l - length data, lk_sent := lk_sent l @ data\<rparr>)"
  using assms by (simp add: send_all_def)

lemma link_holds_sent [simp]: "link_holds (l\<lparr>lk_budget := b, lk_sent := x\<rparr>) s = link_holds l s"
  by (simp add: link_holds_def)

lemma and_then_simps [simp]: "and_then (Inl e, l) f = (Inl e, l)" "and_then (Inr a, l) f = f a l"
  by (simp_all add: and_then_def)


subsection \<open>When the tunnel opens\<close>

text \<open>The replies of a proxy that accepts: the chosen method, the status of the authentication when it asked for one, and a
  success reply with the address it bound.\<close>

definition bound_addr :: "byte \<Rightarrow> bytes \<Rightarrow> bool" where
  "bound_addr atyp addr \<longleftrightarrow>
     atyp = 1 \<and> length addr = 4 \<or> atyp = 3 \<and> addr \<noteq> [] \<and> length addr = unat (hd addr) + 1 \<or> atyp = 4 \<and> length addr = 16"

definition method_reply :: "byte \<Rightarrow> bytes" where
  "method_reply m = [5, m] @ (if m = 2 then [1, 0] else [])"

definition connect_reply :: "byte \<Rightarrow> bytes \<Rightarrow> bytes \<Rightarrow> bytes" where
  "connect_reply atyp addr port = [5, 0, 0, atyp] @ addr @ port"

lemma send_auth_length: "length (encode_userpass_auth u p) \<le> 513"
  by (auto simp: encode_userpass_auth_def Let_def)

lemma send_connect_length: "length (encode_connect_request h p) \<le> 262"
  by (auto simp: encode_connect_request_def Let_def)

definition greeting :: "bytes \<Rightarrow> bytes \<Rightarrow> bytes" where
  "greeting u p = (if u \<noteq> [] \<or> p \<noteq> [] then encode_greeting_with_userpass else encode_greeting)"

text \<open>What a stage of the dialogue does on a stream of replies \<open>s\<close>: it succeeds exactly on the replies of \<open>R\<close>, leaves
  what follows them, and has then sent \<open>data\<close>, which depends on the reply.\<close>

definition stage ::
  "(proxy_link \<Rightarrow> (socks_error + unit) \<times> proxy_link) \<Rightarrow> nat \<Rightarrow> (bytes \<Rightarrow> bytes \<Rightarrow> bool) \<Rightarrow> bool" where
  "stage f cost R \<longleftrightarrow>
     (\<forall>l s. link_holds l s \<longrightarrow> cost \<le> lk_budget l \<longrightarrow>
        (case f l of
           (Inr _, l') \<Rightarrow> \<exists>reply s' data. R reply data \<and> s = reply @ s' \<and> link_holds l' s' \<and>
              lk_sent l' = lk_sent l @ data \<and> lk_budget l \<le> lk_budget l' + cost
         | (Inl _, _) \<Rightarrow> \<nexists>reply s' data. R reply data \<and> s = reply @ s'))"

lemma stageI:
  assumes "\<And>l s. link_holds l s \<Longrightarrow> cost \<le> lk_budget l \<Longrightarrow>
    (\<exists>l' reply s' data. f l = (Inr (), l') \<and> R reply data \<and> s = reply @ s' \<and> link_holds l' s' \<and>
       lk_sent l' = lk_sent l @ data \<and> lk_budget l \<le> lk_budget l' + cost) \<or>
    (\<exists>e l'. f l = (Inl e, l') \<and> (\<nexists>reply s' data. R reply data \<and> s = reply @ s'))"
  shows "stage f cost R"
  unfolding stage_def using assms by (fastforce split: prod.splits sum.splits)

lemma stageE:
  assumes "stage f cost R" "link_holds l s" "cost \<le> lk_budget l"
  obtains (opened) l' reply s' data where "f l = (Inr (), l')" "R reply data" "s = reply @ s'" "link_holds l' s'"
      "lk_sent l' = lk_sent l @ data" "lk_budget l \<le> lk_budget l' + cost"
    | (failed) e l' where "f l = (Inl e, l')" "\<nexists>reply s' data. R reply data \<and> s = reply @ s'"
proof -
  obtain r l' where f: "f l = (r, l')" by fastforce
  show thesis
  proof (cases r)
    case (Inl e)
    then show thesis using assms f failed unfolding stage_def by fastforce
  next
    case (Inr x)
    then show thesis using assms f opened unfolding stage_def by fastforce
  qed
qed

lemma stage_auth:
  "stage (negotiate_auth u p) 513 (\<lambda>reply data. reply = [1, 0] \<and> data = encode_userpass_auth u p)"
proof (rule stageI)
  fix l s assume h: "link_holds l s" and b: "513 \<le> lk_budget l"
  let ?a = "encode_userpass_auth u p"
  define k where "k = l\<lparr>lk_budget := lk_budget l - length ?a, lk_sent := lk_sent l @ ?a\<rparr>"
  have len: "length ?a \<le> lk_budget l" using send_auth_length [of u p] b by simp
  have run: "negotiate_auth u p l = and_then (recv_exact 2 k) (\<lambda>auth_resp l.
       case parse_userpass_response auth_resp of
         None \<Rightarrow> (Inl MalformedAuth, l)
       | Some status \<Rightarrow> if status \<noteq> 0 then (Inl AuthRejected, l) else (Inr (), l))"
    using send_all_holds [OF len] by (simp add: negotiate_auth_def k_def)
  have hk: "link_holds k s" using h by (simp add: k_def)
  show "(\<exists>l' reply s' data. negotiate_auth u p l = (Inr (), l') \<and> (reply = [1, 0] \<and> data = ?a) \<and> s = reply @ s' \<and> link_holds l' s' \<and>
       lk_sent l' = lk_sent l @ data \<and> lk_budget l \<le> lk_budget l' + 513) \<or>
    (\<exists>e l'. negotiate_auth u p l = (Inl e, l') \<and> (\<nexists>reply s' data. (reply = [1, 0] \<and> data = ?a) \<and> s = reply @ s'))"
  proof (cases "length s < 2")
    case True
    then show ?thesis using recv_exact_short [OF hk] unfolding run by auto
  next
    case False
    then obtain x y s' where s: "s = [x, y] @ s'" by (cases s; cases "tl s") auto
    obtain cs where r: "recv_exact 2 k = (Inr [x, y], k\<lparr>lk_in := cs\<rparr>)" "link_holds (k\<lparr>lk_in := cs\<rparr>) s'"
      using recv_exact_holds [of k "[x, y]" s' 2] hk s by auto
    show ?thesis using r s send_auth_length [of u p] unfolding run by (auto simp: parse_userpass_response_def k_def)
  qed
qed

lemma stage_greet:
  "stage (greet u p) 517 (\<lambda>reply data. \<exists>m. (m = 0 \<or> m = 2) \<and> reply = method_reply m \<and>
     data = greeting u p @ (if m = 2 then encode_userpass_auth u p else []))"
  (is "stage _ _ ?R")
proof (rule stageI)
  fix l s assume h: "link_holds l s" and b: "517 \<le> lk_budget l"
  let ?g = "greeting u p"
  define k where "k = l\<lparr>lk_budget := lk_budget l - length ?g, lk_sent := lk_sent l @ ?g\<rparr>"
  have lg: "length ?g \<le> 4" by (simp add: greeting_def encode_greeting_def encode_greeting_with_userpass_def)
  have len: "length ?g \<le> lk_budget l" using lg b by simp
  have run: "greet u p l = and_then (recv_exact 2 k) (\<lambda>greet_resp l.
        case parse_greeting_response greet_resp of
          None \<Rightarrow> (Inl MalformedGreeting, l)
        | Some m \<Rightarrow>
            if m = 0xFF then (Inl MethodsRejected, l)
            else if m = 2 then negotiate_auth u p l
            else if m \<noteq> 0 then (Inl UnsupportedMethod, l)
            else (Inr (), l))"
    using send_all_holds [OF len] by (simp add: greet_def greeting_def k_def Let_def)
  have hk: "link_holds k s" using h by (simp add: k_def)
  show "(\<exists>l' reply s' data. greet u p l = (Inr (), l') \<and> ?R reply data \<and> s = reply @ s' \<and> link_holds l' s' \<and>
       lk_sent l' = lk_sent l @ data \<and> lk_budget l \<le> lk_budget l' + 517) \<or>
    (\<exists>e l'. greet u p l = (Inl e, l') \<and> (\<nexists>reply s' data. ?R reply data \<and> s = reply @ s'))"
  proof (cases "length s < 2")
    case True
    then show ?thesis using recv_exact_short [OF hk] unfolding run by (auto simp: method_reply_def)
  next
    case False
    then obtain x m s' where s: "s = [x, m] @ s'" by (cases s; cases "tl s") auto
    obtain cs where r: "recv_exact 2 k = (Inr [x, m], k\<lparr>lk_in := cs\<rparr>)" "link_holds (k\<lparr>lk_in := cs\<rparr>) s'"
      using recv_exact_holds [of k "[x, m]" s' 2] hk s by auto
    show ?thesis
    proof (cases "x = 5 \<and> m = 2")
      case True
      let ?k = "k\<lparr>lk_in := cs\<rparr>"
      have g: "greet u p l = negotiate_auth u p ?k" using r True unfolding run by (simp add: parse_greeting_response_def)
      have "513 \<le> lk_budget ?k" using b lg by (simp add: k_def)
      from stage_auth [of u p] r(2) this show ?thesis
      proof (cases rule: stageE)
        case (opened l' reply s'' data)
        have "?R (method_reply 2) (?g @ data)" using opened(2) by auto
        moreover have "s = method_reply 2 @ s''" using opened(2,3) s True by (simp add: method_reply_def)
        moreover have "lk_sent l' = lk_sent l @ ?g @ data" "lk_budget l \<le> lk_budget l' + 517" using opened(5,6) lg by (simp_all add: k_def)
        ultimately show ?thesis using opened(1,4) unfolding g by blast
      next
        case (failed e l')
        then show ?thesis using s True unfolding g by (auto simp: method_reply_def)
      qed
    next
      case False
      then show ?thesis using r s lg unfolding run by (auto simp: parse_greeting_response_def method_reply_def k_def)
    qed
  qed
qed


lemma tail_len_bound:
  "connect_response_tail_len atyp c = Some t \<Longrightarrow> t = length (addr @ port) \<Longrightarrow> length port = 2 \<Longrightarrow> addr \<noteq> [] \<Longrightarrow> hd addr = c \<Longrightarrow>
     bound_addr atyp addr"
  by (auto simp: connect_response_tail_len_def bound_addr_def split: if_splits)

lemma bound_tail_len:
  "bound_addr atyp addr \<Longrightarrow> length port = 2 \<Longrightarrow>
     addr \<noteq> [] \<and> connect_response_tail_len atyp (hd addr) = Some (length (addr @ port))"
  by (auto simp: connect_response_tail_len_def bound_addr_def)

lemma stage_connect:
  "stage (request_connect host port) 262 (\<lambda>reply data. \<exists>atyp addr bport. bound_addr atyp addr \<and> length bport = 2 \<and>
     reply = connect_reply atyp addr bport \<and> data = encode_connect_request host port)"
  (is "stage _ _ ?R")
proof (rule stageI)
  fix l s assume h: "link_holds l s" and b: "262 \<le> lk_budget l"
  let ?q = "encode_connect_request host port"
  define k where "k = l\<lparr>lk_budget := lk_budget l - length ?q, lk_sent := lk_sent l @ ?q\<rparr>"
  have len: "length ?q \<le> lk_budget l" using send_connect_length [of host port] b by simp
  have run: "request_connect host port l = and_then (recv_exact 5 k) (\<lambda>h l.
       if h ! 0 \<noteq> 5 \<or> h ! 2 \<noteq> 0 then (Inl MalformedConnect, l)
       else if h ! 1 \<noteq> 0 then (Inl (Refused (rep_of (h ! 1))), l)
       else case connect_response_tail_len (h ! 3) (h ! 4) of
              None \<Rightarrow> (Inl UnknownAtyp, l)
            | Some tail \<Rightarrow>
                if 1 < tail then and_then (recv_exact (tail - 1) l) (\<lambda>_ l. (Inr (), l)) else (Inr (), l))"
    using send_all_holds [OF len] by (simp add: request_connect_def k_def)
  have hk: "link_holds k s" using h by (simp add: k_def)
  have none: "\<nexists>reply s' data. ?R reply data \<and> s = reply @ s'"
    if "\<And>atyp addr bport s'. bound_addr atyp addr \<Longrightarrow> length bport = 2 \<Longrightarrow> s \<noteq> [5, 0, 0, atyp] @ addr @ bport @ s'"
  proof (intro notI, elim exE conjE)
    fix reply s' data atyp addr bport
    assume "bound_addr atyp addr" "length bport = 2" "reply = connect_reply atyp addr bport" "s = reply @ s'"
    then show False using that [of atyp addr bport s'] by (simp add: connect_reply_def)
  qed
  show "(\<exists>l' reply s' data. request_connect host port l = (Inr (), l') \<and> ?R reply data \<and> s = reply @ s' \<and> link_holds l' s' \<and>
       lk_sent l' = lk_sent l @ data \<and> lk_budget l \<le> lk_budget l' + 262) \<or>
    (\<exists>e l'. request_connect host port l = (Inl e, l') \<and> (\<nexists>reply s' data. ?R reply data \<and> s = reply @ s'))"
  proof (cases "length s < 5")
    case True
    have "\<nexists>reply s' data. ?R reply data \<and> s = reply @ s'"
      using True bound_tail_len by (intro none) (fastforce simp: Suc_le_eq)
    then show ?thesis using recv_exact_short [OF hk True] unfolding run by simp
  next
    case False
    then obtain v r z t c s' where s: "s = [v, r, z, t, c] @ s'"
      by (auto simp: not_less Suc_le_length_iff eval_nat_numeral)
    obtain cs where rc: "recv_exact 5 k = (Inr [v, r, z, t, c], k\<lparr>lk_in := cs\<rparr>)" "link_holds (k\<lparr>lk_in := cs\<rparr>) s'"
      using recv_exact_holds [of k "[v, r, z, t, c]" s' 5] hk s by auto
    let ?k = "k\<lparr>lk_in := cs\<rparr>"
    show ?thesis
    proof (cases "v = 5 \<and> r = 0 \<and> z = 0 \<and> connect_response_tail_len t c \<noteq> None")
      case False
      have "\<nexists>reply s' data. ?R reply data \<and> s = reply @ s'"
      proof (rule none)
        fix atyp addr and bport s2 :: bytes assume "bound_addr atyp addr" "length bport = 2"
        from bound_tail_len [OF this] show "s \<noteq> [5, 0, 0, atyp] @ addr @ bport @ s2"
          using False by (cases addr) (auto simp: s)
      qed
      then show ?thesis using False rc unfolding run by (auto split: option.splits)
    next
      case True
      then obtain n where n: "connect_response_tail_len t c = Some n" by blast
      then have n1: "1 < n" by (auto simp: connect_response_tail_len_def split: if_splits)
      have go: "request_connect host port l = and_then (recv_exact (n - 1) ?k) (\<lambda>_ l. (Inr (), l))"
        using rc True n n1 unfolding run by simp
      show ?thesis
      proof (cases "length s' < n - 1")
        case short: True
        have "\<nexists>reply s' data. ?R reply data \<and> s = reply @ s'"
        proof (rule none)
          fix atyp addr and bport s2 :: bytes assume a: "bound_addr atyp addr" "length bport = 2"
          from bound_tail_len [OF a] show "s \<noteq> [5, 0, 0, atyp] @ addr @ bport @ s2"
            using short n a(2) by (cases addr) (auto simp: s)
        qed
        then show ?thesis using recv_exact_short [OF rc(2) short] unfolding go by simp
      next
        case False
        let ?rest = "take (n - 1) s'" and ?s2 = "drop (n - 1) s'"
        obtain ds where d: "recv_exact (n - 1) ?k = (Inr ?rest, ?k\<lparr>lk_in := ds\<rparr>)" "link_holds (?k\<lparr>lk_in := ds\<rparr>) ?s2"
          using recv_exact_holds [of ?k ?rest ?s2 "n - 1"] rc(2) False by auto
        have n3: "3 \<le> n" using n by (auto simp: connect_response_tail_len_def split: if_splits)
        let ?addr = "c # take (n - 3) s'" and ?port = "take 2 (drop (n - 3) s')"
        have "?rest = take (n - 3) s' @ ?port" 
        proof -
          have "n - 1 = (n - 3) + 2" using n3 by simp
          then show ?thesis by (simp only: take_add)
        qed
        moreover have "n = length (?addr @ ?port)" "length ?port = 2" using False n3 by auto
        ultimately have "?R ([5, 0, 0, t, c] @ ?rest) ?q"
          using tail_len_bound [OF n, of ?addr ?port] by (intro exI [of _ t] exI [of _ ?addr] exI [of _ ?port]) (simp add: connect_reply_def)
        moreover have "s = ([5, 0, 0, t, c] @ ?rest) @ ?s2" using s True by simp
        ultimately show ?thesis using d send_connect_length [of host port] unfolding go
          by (intro disjI1 exI [of _ "?k\<lparr>lk_in := ds\<rparr>"] exI [of _ "[5, 0, 0, t, c] @ ?rest"] exI [of _ ?s2] exI [of _ ?q]) (simp add: k_def)
      qed
    qed
  qed
qed


text \<open>C32. The tunnel opens exactly when the proxy says so. On a connection that delivers the bytes \<open>s\<close>, in pieces of any size,
  and takes everything that is sent, \<open>socks5_connect\<close> succeeds if and only if \<open>s\<close> starts with the replies of an
  accepting proxy. It has then sent the greeting, the credentials if they were asked for and the request for the
  target, and has consumed the replies to the last byte, so that the tunnel starts with what follows them.\<close>

theorem socks5_tunnel_opens:
  assumes "host \<noteq> []" "length host \<le> 255" "link_holds l s" "779 \<le> lk_budget l"
  shows "case socks5_connect host port u p l of
      (Inr _, l') \<Rightarrow> \<exists>m atyp addr bport rest. (m = 0 \<or> m = 2) \<and> bound_addr atyp addr \<and> length bport = 2 \<and>
         s = method_reply m @ connect_reply atyp addr bport @ rest \<and> link_holds l' rest \<and>
         lk_sent l' = lk_sent l @ greeting u p @ (if m = 2 then encode_userpass_auth u p else []) @ encode_connect_request host port
    | (Inl _, _) \<Rightarrow> \<nexists>m atyp addr bport rest. (m = 0 \<or> m = 2) \<and> bound_addr atyp addr \<and> length bport = 2 \<and>
         s = method_reply m @ connect_reply atyp addr bport @ rest"
proof -
  have go: "socks5_connect host port u p l = and_then (greet u p l) (\<lambda>_ l. request_connect host port l)"
    using assms(1,2) by (simp add: socks5_connect_def)
  have "517 \<le> lk_budget l" using assms(4) by simp
  from stage_greet [of u p] assms(3) this show ?thesis
  proof (cases rule: stageE)
    case (opened k reply s1 data)
    obtain m where m: "m = 0 \<or> m = 2" "reply = method_reply m" "data = greeting u p @ (if m = 2 then encode_userpass_auth u p else [])"
      using opened(2) by blast
    have uniq: "m' = m \<and> t = s1" if "(m' = 0 \<or> m' = 2)" "s = method_reply m' @ t" for m' t
      using that m(1,2) opened(3) by (auto simp: method_reply_def)
    have "262 \<le> lk_budget k" using opened(6) assms(4) by simp
    from stage_connect [of host port] opened(4) this show ?thesis
    proof (cases rule: stageE)
      case (opened l' reply2 s2 data2)
      obtain atyp addr bport where "bound_addr atyp addr" "length bport = 2" "reply2 = connect_reply atyp addr bport"
        "data2 = encode_connect_request host port" using opened(2) by blast
      then have "\<exists>m atyp addr bport rest. (m = 0 \<or> m = 2) \<and> bound_addr atyp addr \<and> length bport = 2 \<and>
         s = method_reply m @ connect_reply atyp addr bport @ rest \<and> link_holds l' rest \<and>
         lk_sent l' = lk_sent l @ greeting u p @ (if m = 2 then encode_userpass_auth u p else []) @ encode_connect_request host port"
        using m opened(3,4,5) \<open>s = reply @ s1\<close> \<open>lk_sent k = lk_sent l @ data\<close>
        by (intro exI [of _ m] exI [of _ atyp] exI [of _ addr] exI [of _ bport] exI [of _ s2]) auto
      then show ?thesis using opened(1) \<open>greet u p l = (Inr (), k)\<close> unfolding go by simp
    next
      case (failed e l')
      have "\<nexists>m atyp addr bport rest. (m = 0 \<or> m = 2) \<and> bound_addr atyp addr \<and> length bport = 2 \<and>
         s = method_reply m @ connect_reply atyp addr bport @ rest"
      proof (intro notI, elim exE conjE)
        fix m' atyp addr bport rest
        assume a: "m' = 0 \<or> m' = 2" "bound_addr atyp addr" "length bport = 2" "s = method_reply m' @ connect_reply atyp addr bport @ rest"
        have "s1 = connect_reply atyp addr bport @ rest" using uniq [OF a(1,4)] by simp
        then show False using failed(2) a(2,3) by blast
      qed
      then show ?thesis using failed(1) \<open>greet u p l = (Inr (), k)\<close> unfolding go by simp
    qed
  next
    case (failed e k)
    have "\<nexists>m atyp addr bport rest. (m = 0 \<or> m = 2) \<and> bound_addr atyp addr \<and> length bport = 2 \<and>
         s = method_reply m @ connect_reply atyp addr bport @ rest"
    proof (intro notI, elim exE conjE)
      fix m atyp addr bport rest
      assume "m = 0 \<or> m = 2" "s = method_reply m @ connect_reply atyp addr bport @ rest"
      then show False using failed(2) by blast
    qed
    then show ?thesis using failed(1) unfolding go by simp
  qed
qed

definition demo_link :: proxy_link where
  "demo_link = \<lparr>lk_in = [[5], [2, 1], [0, 5, 0, 0, 3, 1, 0x61], [0, 80, 0xAA]], lk_budget = 1000, lk_sent = []\<rparr>"

theorem socks5_tunnel_opens_witness:
  "fst (socks5_connect [0x68, 0x69] 80 [0x75] [] demo_link) = Inr () \<and>
   (\<exists>m atyp addr bport rest. (m = 0 \<or> m = 2) \<and> bound_addr atyp addr \<and> length bport = 2 \<and>
     [5, 2, 1, 0, 5, 0, 0, 3, 1, 0x61, 0, 80, 0xAA] = method_reply m @ connect_reply atyp addr bport @ rest \<and>
     link_holds (snd (socks5_connect [0x68, 0x69] 80 [0x75] [] demo_link)) rest \<and>
     lk_sent (snd (socks5_connect [0x68, 0x69] 80 [0x75] [] demo_link)) =
       greeting [0x75] [] @ (if m = 2 then encode_userpass_auth [0x75] [] else []) @ encode_connect_request [0x68, 0x69] 80)"
proof -
  have h: "link_holds demo_link [5, 2, 1, 0, 5, 0, 0, 3, 1, 0x61, 0, 80, 0xAA]" "779 \<le> lk_budget demo_link"
    by (simp_all add: link_holds_def demo_link_def)
  have r: "fst (socks5_connect [0x68, 0x69] 80 [0x75] [] demo_link) = Inr ()" by code_simp
  have sent: "lk_sent demo_link = []" by (simp add: demo_link_def)
  show ?thesis
    using socks5_tunnel_opens [OF _ _ h, where host = "[0x68, 0x69]" and port = 80 and u = "[0x75]" and p = "[]"] r sent
    by (cases "socks5_connect [0x68, 0x69] 80 [0x75] [] demo_link") (simp split: sum.splits)
qed

end
