(* ===== verification/Serial_Bridge.thy ===== *)
theory Serial_Bridge
  imports Prelude
begin

text \<open>
  The serial bridge to a mesh radio, \<open>core/src/mesh/serial_bridge.cpp\<close> in its POSIX form: frames with a two-byte length,
  the write loop with its retries, and the reader that cuts the incoming bytes into frames. What \<open>open\<close>,
  \<open>tcgetattr\<close>, \<open>tcsetattr\<close>, \<open>write\<close>, \<open>select\<close> and \<open>read\<close> return are arguments; the calls of the frame callback are
  recorded in \<open>sb_frames\<close>.
\<close>

subsection \<open>The bridge\<close>

record mesh_frame =
  mf_origin :: bytes
  mf_topic :: bytes
  mf_snr_db :: int
  mf_hop_limit :: int
  mf_payload :: bytes

record serial_bridge =
  sb_fd :: "int option"
  sb_running :: bool
  sb_buf :: bytes
  sb_has_callback :: bool
  sb_frames :: "mesh_frame list"
  sb_last_error :: string

definition serial_new :: serial_bridge where
  "serial_new = \<lparr>sb_fd = None, sb_running = False, sb_buf = [], sb_has_callback = False, sb_frames = [], sb_last_error = ''''\<rparr>"

text \<open>\<open>start\<close>: the descriptor that \<open>open\<close> returned and whether the terminal attributes could be read and set. The reader
  starts with an empty buffer.\<close>

definition serial_start :: "int option \<Rightarrow> bool \<Rightarrow> bool \<Rightarrow> serial_bridge \<Rightarrow> bool \<times> serial_bridge" where
  "serial_start opened got set_ok b =
     (if sb_running b then (True, b)
      else case opened of
             None \<Rightarrow> (False, b\<lparr>sb_fd := None, sb_last_error := ''open''\<rparr>)
           | Some fd \<Rightarrow>
               if \<not> got then (False, b\<lparr>sb_fd := None, sb_last_error := ''tcgetattr''\<rparr>)
               else if \<not> set_ok then (False, b\<lparr>sb_fd := None, sb_last_error := ''tcsetattr''\<rparr>)
               else (True, b\<lparr>sb_fd := Some fd, sb_running := True, sb_buf := []\<rparr>))"

definition serial_stop :: "serial_bridge \<Rightarrow> serial_bridge" where
  "serial_stop b = b\<lparr>sb_running := False, sb_fd := None\<rparr>"

definition serial_set_on_frame :: "serial_bridge \<Rightarrow> serial_bridge" where
  "serial_set_on_frame b = b\<lparr>sb_has_callback := True\<rparr>"

subsection \<open>Sending\<close>

datatype write_result = Wrote nat | Interrupted | WouldBlock bool | WriteFailed

text \<open>The loop over \<open>write\<close>; the flag of \<open>WouldBlock\<close> says whether \<open>select\<close> found the device writable in time. The result
  is whether everything was written, and the bytes that reached the device. \<open>None\<close> is a loop that has not ended yet.\<close>

fun write_loop :: "write_result list \<Rightarrow> bytes \<Rightarrow> (bool \<times> bytes) option" where
  "write_loop rs [] = Some (True, [])"
| "write_loop [] (d # ds) = None"
| "write_loop (Wrote n # rs) (d # ds) = map_option (apsnd ((@) (take n (d # ds)))) (write_loop rs (drop n (d # ds)))"
| "write_loop (Interrupted # rs) (d # ds) = write_loop rs (d # ds)"
| "write_loop (WouldBlock ready # rs) (d # ds) = (if ready then write_loop rs (d # ds) else Some (False, []))"
| "write_loop (WriteFailed # rs) (d # ds) = Some (False, [])"

definition frame_payload :: "bytes \<Rightarrow> bytes" where
  "frame_payload p = u16_be (of_nat (length p)) @ p"

definition serial_send :: "write_result list \<Rightarrow> bytes \<Rightarrow> serial_bridge \<Rightarrow> (bool \<times> bytes) option" where
  "serial_send rs payload b =
     (if sb_fd b = None then Some (False, [])
      else if 0xFFFF < length payload then Some (False, [])
      else write_loop rs (frame_payload payload))"

subsection \<open>Receiving\<close>

definition serial_frame :: "bytes \<Rightarrow> mesh_frame" where
  "serial_frame p =
     \<lparr>mf_origin = str_bytes ''serial'', mf_topic = str_bytes ''primary'', mf_snr_db = 0, mf_hop_limit = 0, mf_payload = p\<rparr>"

definition frame_len16 :: "bytes \<Rightarrow> nat" where
  "frame_len16 buf = unat (rd_u16 (buf ! 0) (buf ! 1))"

function cut_frames :: "bytes \<Rightarrow> bytes list \<times> bytes" where
  "cut_frames buf =
     (if length buf < 2 then ([], buf)
      else let len = frame_len16 buf
           in if length buf < 2 + len then ([], buf)
              else let (fs, r) = cut_frames (drop (2 + len) buf) in (take len (drop 2 buf) # fs, r))"
  by pat_completeness auto

termination
  by (relation "measure length") auto

declare cut_frames.simps [simp del]

definition drain_frames :: "serial_bridge \<Rightarrow> serial_bridge" where
  "drain_frames b =
     (let (fs, r) = cut_frames (sb_buf b)
      in b\<lparr>sb_buf := r, sb_frames := sb_frames b @ (if sb_has_callback b then map serial_frame fs else [])\<rparr>)"

text \<open>One turn of \<open>read_loop\<close> with the bytes that \<open>read\<close> returned, none of them when \<open>select\<close> or \<open>read\<close> found nothing.\<close>

definition serial_read :: "serial_bridge \<Rightarrow> bytes \<Rightarrow> serial_bridge" where
  "serial_read b chunk =
     (if \<not> sb_running b then b
      else if chunk = [] then b
      else drain_frames (b\<lparr>sb_buf := sb_buf b @ chunk\<rparr>))"

subsection \<open>Frames survive the line\<close>

lemma cut_frames_append: "cut_frames (buf @ c) =
  (fst (cut_frames buf) @ fst (cut_frames (snd (cut_frames buf) @ c)), snd (cut_frames (snd (cut_frames buf) @ c)))"
proof (induction buf rule: cut_frames.induct)
  case (1 buf)
  let ?len = "frame_len16 buf"
  show ?case
  proof (cases "length buf < 2 \<or> length buf < 2 + ?len")
    case True
    then have "cut_frames buf = ([], buf)" by (subst cut_frames.simps) (auto simp: Let_def)
    then show ?thesis by simp
  next
    case False
    have len: "frame_len16 (buf @ c) = ?len" using False by (auto simp: frame_len16_def nth_append)
    have a: "cut_frames buf = (take ?len (drop 2 buf) # fst (cut_frames (drop (2 + ?len) buf)), snd (cut_frames (drop (2 + ?len) buf)))"
      using False by (subst cut_frames.simps) (auto simp: Let_def case_prod_unfold)
    have b: "cut_frames (buf @ c) =
        (take ?len (drop 2 buf) # fst (cut_frames (drop (2 + ?len) buf @ c)), snd (cut_frames (drop (2 + ?len) buf @ c)))"
      using False len by (subst cut_frames.simps) (auto simp: Let_def case_prod_unfold)
    have "cut_frames (drop (2 + ?len) buf @ c) =
      (fst (cut_frames (drop (2 + ?len) buf)) @ fst (cut_frames (snd (cut_frames (drop (2 + ?len) buf)) @ c)),
       snd (cut_frames (snd (cut_frames (drop (2 + ?len) buf)) @ c)))"
      using 1 False by simp
    then show ?thesis unfolding a b by simp
  qed
qed

interpretation serial: chunked_stream "\<lambda>buf c. buf @ c" cut_frames
  by unfold_locales (simp_all add: cut_frames_append [symmetric])

lemma cut_frames_Nil [simp]: "cut_frames [] = ([], [])"
  by (subst cut_frames.simps) simp

lemma cut_frame_payload:
  assumes "length p \<le> 0xFFFF"
  shows "cut_frames (frame_payload p @ s) = (p # fst (cut_frames s), snd (cut_frames s))"
proof -
  let ?v = "of_nat (length p) :: u16" and ?b = "frame_payload p @ s"
  have "unat ?v = length p" using assms by (simp add: unat_of_nat)
  moreover have "rd_u16 (?b ! 0) (?b ! 1) = ?v" using rd_u16_be [of ?v] by (simp add: frame_payload_def nth_append)
  ultimately have len: "frame_len16 ?b = length p" by (simp add: frame_len16_def)
  have "length ?b = 2 + length p + length s" "drop (2 + length p) ?b = s" "take (length p) (drop 2 ?b) = p"
    by (simp_all add: frame_payload_def)
  then show ?thesis using len by (subst cut_frames.simps) (simp add: Let_def case_prod_unfold)
qed

lemma cut_frames_sent:
  "list_all (\<lambda>p. length p \<le> 0xFFFF) ps \<Longrightarrow> cut_frames (concat (map frame_payload ps)) = (ps, [])"
  by (induction ps) (simp_all add: cut_frame_payload)

text \<open>What a write loop reports is true: when it says that everything was written the device has the whole frame, whatever
  the retries in between.\<close>

lemma write_loop_complete: "write_loop rs ds = Some (True, out) \<Longrightarrow> out = ds"
  by (induction rs ds arbitrary: out rule: write_loop.induct) (auto split: if_splits)

lemma serial_read_chunks:
  assumes "sb_running b" "sb_has_callback b" "cut_frames (sb_buf b) = ([], sb_buf b)"
  shows "foldl serial_read b cs =
     b\<lparr>sb_buf := snd (cut_frames (sb_buf b @ concat cs)), sb_frames := sb_frames b @ map serial_frame (fst (cut_frames (sb_buf b @ concat cs)))\<rparr>"
  using assms
proof (induction cs arbitrary: b)
  case (Cons c cs)
  let ?b = "serial_read b c"
  have b: "?b = b\<lparr>sb_buf := snd (cut_frames (sb_buf b @ c)), sb_frames := sb_frames b @ map serial_frame (fst (cut_frames (sb_buf b @ c)))\<rparr>"
    using Cons.prems by (simp add: serial_read_def drain_frames_def Let_def case_prod_unfold)
  have "foldl serial_read ?b cs = ?b\<lparr>sb_buf := snd (cut_frames (sb_buf ?b @ concat cs)),
      sb_frames := sb_frames ?b @ map serial_frame (fst (cut_frames (sb_buf ?b @ concat cs)))\<rparr>"
    by (rule Cons.IH) (use Cons.prems serial.drain_idem [of "sb_buf b @ c"] in \<open>simp_all add: b\<close>)
  then show ?case using cut_frames_append [of "sb_buf b @ c" "concat cs"] by (simp add: b)
qed simp

text \<open>Frames survive the line: if every \<open>send\<close> of one bridge reported success, whatever the pieces and retries of
  its writes, and the other end reads the same bytes, in whatever chunks, then its callback gets exactly the payloads,
  in order, and nothing is left over.\<close>

theorem serial_roundtrip:
  assumes "list_all2 (\<lambda>(rs, p) out. serial_send rs p a = Some (True, out)) sends outs"
    and "concat chunks = concat outs" "sb_running b" "sb_has_callback b" "sb_buf b = []"
  shows "foldl serial_read b chunks = b\<lparr>sb_frames := sb_frames b @ map (serial_frame \<circ> snd) sends\<rparr>"
proof -
  have "outs = map (frame_payload \<circ> snd) sends \<and> list_all (\<lambda>p. length p \<le> 0xFFFF) (map snd sends)"
    using assms(1)
  proof (induction sends outs rule: list_all2_induct)
    case (Cons x xs y ys)
    obtain rs p where x: "x = (rs, p)" by fastforce
    then have "length p \<le> 0xFFFF" "write_loop rs (frame_payload p) = Some (True, y)"
      using Cons(1) by (auto simp: serial_send_def split: if_splits)
    then show ?case using write_loop_complete Cons x by simp
  qed simp
  then have "cut_frames (concat chunks) = (map snd sends, [])" using cut_frames_sent [of "map snd sends"] assms(2) by simp
  then show ?thesis using serial_read_chunks [OF assms(3,4), of chunks] assms(5) by simp
qed

theorem serial_roundtrip_witness:
  "foldl serial_read (serial_new\<lparr>sb_running := True, sb_has_callback := True\<rparr>) [[0], [2, 7, 8, 0], [0]] =
     (serial_new\<lparr>sb_running := True, sb_has_callback := True\<rparr>)
       \<lparr>sb_frames := map (serial_frame \<circ> snd) [([Wrote 1, Interrupted, WouldBlock True, Wrote 3], [7, 8]), ([Wrote 2], [])]\<rparr>"
proof -
  let ?a = "serial_new\<lparr>sb_fd := Some 3\<rparr>"
  have "list_all2 (\<lambda>(rs, p) out. serial_send rs p ?a = Some (True, out))
      [([Wrote 1, Interrupted, WouldBlock True, Wrote 3], [7, 8]), ([Wrote 2], [])] [[0, 2, 7, 8], [0, 0]]"
    by (simp add: serial_send_def serial_new_def frame_payload_def u16_be_def)
  from serial_roundtrip [OF this, of "[[0], [2, 7, 8, 0], [0]]" "serial_new\<lparr>sb_running := True, sb_has_callback := True\<rparr>"]
  show ?thesis by (simp add: serial_new_def)
qed

end
