(* ===== verification/Recovery.thy ===== *)
theory Recovery
  imports Bip39_Words Sodium
begin

text \<open>
  How an identity seed is kept: as a phrase of 24 words (\<open>client-desktop/src/bip39.cpp\<close>) and sealed
  with a passphrase in a vault file with one, two or more slots (\<open>client-desktop/src/identity_vault.cpp\<close>). SHA-256,
  Argon2id, random bytes, the file system and the Unicode functions of Qt are arguments.
\<close>

subsection \<open>Seeds and words\<close>

type_synonym seed = bytes

definition seed_entropy :: "(bytes \<Rightarrow> bytes) \<Rightarrow> seed \<Rightarrow> bytes" where
  "seed_entropy sha256 s = s @ [hd (sha256 s)]"

definition ent_bit :: "bytes \<Rightarrow> nat \<Rightarrow> byte" where
  "ent_bit ent k = drop_bit (7 - k mod 8) (ent ! (k div 8)) AND 1"

definition word_number :: "bytes \<Rightarrow> nat \<Rightarrow> u16" where
  "word_number ent i = foldl (\<lambda>v b. push_bit 1 v OR ucast (ent_bit ent (i * 11 + b))) 0 [0..<11]"

definition seed_to_words :: "(bytes \<Rightarrow> bytes) \<Rightarrow> seed \<Rightarrow> string list" where
  "seed_to_words sha256 s = map (\<lambda>i. kBip39En ! unat (word_number (seed_entropy sha256 s) i)) [0..<24]"

fun join :: "string list \<Rightarrow> string" where
  "join [] = ''''"
| "join [w] = w"
| "join (w # ws) = w @ '' '' @ join ws"

definition seed_to_phrase :: "(bytes \<Rightarrow> bytes) \<Rightarrow> seed \<Rightarrow> string" where
  "seed_to_phrase sha256 s = join (seed_to_words sha256 s)"

text \<open>The reverse table: a later insertion replaces an earlier one.\<close>

definition word_index :: "string \<Rightarrow> u16 option" where
  "word_index = map_of (rev (zip kBip39En (map of_nat [0..<2048])))"

definition put_bit :: "u16 \<Rightarrow> bytes \<times> nat \<Rightarrow> nat \<Rightarrow> bytes \<times> nat" where
  "put_bit v st b =
     (case st of (ent, bitpos) \<Rightarrow>
        (ent[bitpos div 8 := ent ! (bitpos div 8) OR push_bit (7 - bitpos mod 8) (ucast (drop_bit b v AND 1))], bitpos + 1))"

definition put_word :: "bytes \<times> nat \<Rightarrow> u16 \<Rightarrow> bytes \<times> nat" where
  "put_word st v = foldl (put_bit v) st (rev [0..<11])"

fun put_tokens :: "string list \<Rightarrow> bytes \<times> nat \<Rightarrow> (bytes \<times> nat) option" where
  "put_tokens [] st = Some st"
| "put_tokens (w # ws) st = (case word_index w of None \<Rightarrow> None | Some v \<Rightarrow> put_tokens ws (put_word st v))"

definition words_to_seed :: "(bytes \<Rightarrow> bytes) \<Rightarrow> string list \<Rightarrow> seed option" where
  "words_to_seed sha256 tokens =
     (if length tokens \<noteq> 24 then None
      else case put_tokens tokens (replicate 33 0, 0) of
             None \<Rightarrow> None
           | Some (ent, _) \<Rightarrow>
               let s = take 32 ent in if hd (sha256 s) \<noteq> ent ! 32 then None else Some s)"

text \<open>\<open>split(QRegularExpression("\\s+"), Qt::SkipEmptyParts)\<close>.\<close>

definition white :: "char \<Rightarrow> bool" where
  "white c \<longleftrightarrow> c \<in> {CHR '' '', CHR 0x09, CHR 0x0A, CHR 0x0B, CHR 0x0C, CHR 0x0D}"

function split_white :: "string \<Rightarrow> string list" where
  "split_white s =
     (let s = dropWhile white s
      in if s = [] then [] else takeWhile (\<lambda>c. \<not> white c) s # split_white (dropWhile (\<lambda>c. \<not> white c) s))"
  by pat_completeness auto

termination
proof (relation "measure length", goal_cases)
  case (2 s t)
  then have "t \<noteq> []" "t = dropWhile white s" by simp_all
  then have "\<not> white (hd t)" using hd_dropWhile by blast
  then have "length (dropWhile (\<lambda>c. \<not> white c) t) < length t"
    using \<open>t \<noteq> []\<close> by (cases t) (simp_all add: length_dropWhile_le le_imp_less_Suc)
  moreover have "length t \<le> length s" using \<open>t = dropWhile white s\<close> by (simp add: length_dropWhile_le)
  ultimately show ?case by simp
qed simp

declare split_white.simps [simp del]

text \<open>\<open>qfold\<close> stands for the normalisation, lower-casing and trimming of the string by Qt.\<close>

definition phrase_to_seed :: "(string \<Rightarrow> string) \<Rightarrow> (bytes \<Rightarrow> bytes) \<Rightarrow> string \<Rightarrow> seed option" where
  "phrase_to_seed qfold sha256 phrase = words_to_seed sha256 (split_white (qfold phrase))"

subsection \<open>The words of a phrase and its bits\<close>

lemma foldl_bits:
  assumes g: "\<And>b i. bit (g b :: byte) i \<Longrightarrow> i = 0"
  shows "n \<le> 16 \<Longrightarrow> j < 16 \<Longrightarrow>
    bit (foldl (\<lambda>v b. push_bit 1 v OR ucast (g b) :: u16) 0 [0..<n]) j \<longleftrightarrow> j < n \<and> bit (g (n - 1 - j)) 0"
proof (induction n arbitrary: j)
  case (Suc n)
  let ?F = "\<lambda>v b. push_bit 1 v OR ucast (g b) :: u16"
  have step: "foldl ?F 0 [0..<Suc n] = push_bit 1 (foldl ?F 0 [0..<n]) OR ucast (g n)"
    by (simp only: upt_Suc_append [OF le0] foldl_append foldl_Cons foldl_Nil)
  show ?case
  proof (cases j)
    case 0
    have "bit (ucast (g n) :: u16) 0 = bit (g n) 0" by (simp add: bit_simps)
    then show ?thesis using 0 unfolding step by (simp only: bit_or_iff bit_push_bit_iff) simp
  next
    case (Suc k)
    have "\<not> bit (ucast (g n) :: u16) (Suc k)" using g by (auto simp: bit_simps)
    then show ?thesis using Suc.IH [of k] Suc.prems Suc unfolding step by (simp only: bit_or_iff bit_push_bit_iff) simp
  qed
qed simp

lemma ent_bit_bit: "bit (ent_bit ent k) i \<longleftrightarrow> i = 0 \<and> bit (ent ! (k div 8)) (7 - k mod 8)"
  by (cases i) (auto simp: ent_bit_def bit_simps)

lemma word_number_bit:
  "j < 16 \<Longrightarrow> bit (word_number ent i) j \<longleftrightarrow> j < 11 \<and> bit (ent_bit ent (i * 11 + (10 - j))) 0"
  using foldl_bits [of "\<lambda>b. ent_bit ent (i * 11 + b)" 11 j] by (simp add: word_number_def ent_bit_bit)

lemma word_number_less: "unat (word_number ent i) < 2048"
proof -
  have "word_number ent i = take_bit 11 (word_number ent i)"
    by (rule bit_word_eqI) (auto simp: bit_simps word_number_bit)
  then have "unat (word_number ent i) = take_bit 11 (unat (word_number ent i))" by (metis unsigned_take_bit_eq)
  moreover have "take_bit 11 (unat (word_number ent i)) < 2 ^ 11" by (rule take_bit_nat_less_exp)
  ultimately show ?thesis by simp
qed

text \<open>The bits a sequence of word numbers stands for, and the state of the decoder after some of them.\<close>

definition number_bit :: "u16 list \<Rightarrow> nat \<Rightarrow> bool" where
  "number_bit vs k \<longleftrightarrow> bit (vs ! (k div 11)) (10 - k mod 11)"

definition filled :: "(nat \<Rightarrow> bool) \<Rightarrow> nat \<Rightarrow> bytes \<Rightarrow> bool" where
  "filled B n ent \<longleftrightarrow> length ent = 33 \<and> (\<forall>k<264. bit (ent_bit ent k) 0 \<longleftrightarrow> k < n \<and> B k)"

lemma put_bit_filled:
  assumes "filled B n ent" "n < 264" "b < 16" "bit v b = B n"
  shows "\<exists>ent'. put_bit v (ent, n) b = (ent', n + 1) \<and> filled B (n + 1) ent'"
proof -
  let ?e = "ent[n div 8 := ent ! (n div 8) OR push_bit (7 - n mod 8) (ucast (drop_bit b v AND 1))]"
  have len: "length ent = 33" using assms(1) by (simp add: filled_def)
  have "bit (ent_bit ?e k) 0 \<longleftrightarrow> k < n + 1 \<and> B k" if k: "k < 264" for k
  proof (cases "k div 8 = n div 8")
    case True
    have old: "bit (ent ! (k div 8)) (7 - k mod 8) \<longleftrightarrow> k < n \<and> B k"
      using assms(1) k by (simp add: filled_def ent_bit_bit)
    have "n div 8 < 33" using assms(2) by simp
    then have e: "bit (ent_bit ?e k) 0 \<longleftrightarrow>
        bit (ent ! (k div 8)) (7 - k mod 8) \<or> (7 - n mod 8 \<le> 7 - k mod 8 \<and> (7 - k mod 8) - (7 - n mod 8) = 0) \<and> bit v b"
      using True len less_imp_diff_less [of 7 8 "k mod 8"] by (auto simp: ent_bit_bit bit_simps)
    have "(7 - n mod 8 \<le> 7 - k mod 8 \<and> (7 - k mod 8) - (7 - n mod 8) = 0) \<longleftrightarrow> k mod 8 = n mod 8"
      using mod_less_divisor [of 8 k] mod_less_divisor [of 8 n] by arith
    moreover have "k mod 8 = n mod 8 \<longleftrightarrow> k = n" using True by (metis div_mult_mod_eq)
    ultimately show ?thesis using e old assms(4) by auto
  next
    case False
    then have "ent_bit ?e k = ent_bit ent k" by (simp add: ent_bit_def)
    moreover have "k \<noteq> n" using False by auto
    ultimately show ?thesis using assms(1) k by (auto simp: filled_def)
  qed
  then show ?thesis using len by (simp add: put_bit_def filled_def)
qed

lemma put_word_filled:
  assumes "filled B n ent" "n + 11 \<le> 264" "\<And>j. j < 11 \<Longrightarrow> bit v (10 - j) = B (n + j)"
  shows "\<exists>ent'. put_word (ent, n) v = (ent', n + 11) \<and> filled B (n + 11) ent'"
proof -
  have "m \<le> 11 \<Longrightarrow> \<exists>ent'. foldl (put_bit v) (ent, n) (map (\<lambda>j. 10 - j) [0..<m]) = (ent', n + m) \<and> filled B (n + m) ent'" for m
  proof (induction m)
    case (Suc m)
    then obtain e where e: "foldl (put_bit v) (ent, n) (map (\<lambda>j. 10 - j) [0..<m]) = (e, n + m)" "filled B (n + m) e" by auto
    have "n + m < 264" "10 - m < 16" "bit v (10 - m) = B (n + m)" using Suc.prems assms(2,3) by simp_all
    from put_bit_filled [OF e(2) this] e(1) show ?case by auto
  qed (simp add: assms(1))
  moreover have "rev [0..<11] = map (\<lambda>j. 10 - j) [0..<11::nat]" by code_simp
  ultimately show ?thesis unfolding put_word_def by simp
qed

lemma put_tokens_filled:
  assumes "length vs = 24" "\<And>i. i < 24 \<Longrightarrow> word_index (ws ! i) = Some (vs ! i)" "length ws = 24"
  shows "\<exists>ent. put_tokens ws (replicate 33 0, 0) = Some (ent, 264) \<and> filled (number_bit vs) 264 ent"
proof -
  have "i \<le> 24 \<Longrightarrow> filled (number_bit vs) (11 * (24 - i)) e \<Longrightarrow>
      \<exists>ent. put_tokens (drop (24 - i) ws) (e, 11 * (24 - i)) = Some (ent, 264) \<and> filled (number_bit vs) 264 ent" for i e
  proof (induction i arbitrary: e)
    case (Suc i)
    let ?k = "24 - Suc i"
    have k: "?k < 24" "24 - i = Suc ?k" using Suc.prems by simp_all
    have d: "drop ?k ws = ws ! ?k # drop (24 - i) ws" using k assms(3) by (simp add: Cons_nth_drop_Suc)
    have "bit (vs ! ?k) (10 - j) = number_bit vs (11 * ?k + j)" if "j < 11" for j
      using that by (simp add: number_bit_def)
    moreover have "11 * ?k + 11 \<le> 264" using k(1) by simp
    ultimately obtain e' where "put_word (e, 11 * ?k) (vs ! ?k) = (e', 11 * ?k + 11)" "filled (number_bit vs) (11 * ?k + 11) e'"
      using put_word_filled [OF Suc.prems(2)] by blast
    moreover have "11 * ?k + 11 = 11 * (24 - i)" using k by simp
    ultimately show ?case using Suc.IH [of e'] Suc.prems(1) assms(2) [OF k(1)] unfolding d by simp
  qed (use assms(3) in simp)
  moreover have "filled (number_bit vs) 0 (replicate 33 0)" by (auto simp: filled_def ent_bit_def)
  ultimately show ?thesis using assms(3) by (metis diff_self_eq_0 drop0 le_refl mult_0_right)
qed

text \<open>A buffer is determined by its bits, and the numbers of the words by the bits they were taken from.\<close>

lemma filled_unique:
  assumes "filled B 264 a" "filled B 264 b"
  shows "a = b"
proof (rule nth_equalityI)
  show "length a = length b" using assms by (simp add: filled_def)
  fix i assume "i < length a"
  then have i: "i < 33" using assms(1) by (simp add: filled_def)
  show "a ! i = b ! i"
  proof (rule bit_word_eqI)
    fix n assume "n < LENGTH(8)"
    then have n: "n < 8" by simp
    let ?k = "8 * i + (7 - n)"
    have "(8 * i + m) div 8 = i" "(8 * i + m) mod 8 = m" if "m < 8" for m using that by simp_all
    from this [of "7 - n"] have k: "?k < 264" "?k div 8 = i" "7 - ?k mod 8 = n" using i n by simp_all
    show "bit (a ! i) n = bit (b ! i) n"
      using assms k(1) unfolding filled_def ent_bit_bit by (metis k(2,3))
  qed
qed

lemma filled_word_number:
  assumes "filled (number_bit vs) 264 ent" "i < 24" "length vs = 24" "\<And>v. v \<in> set vs \<Longrightarrow> unat v < 2048"
  shows "word_number ent i = vs ! i"
proof (rule bit_word_eqI)
  fix j assume "j < LENGTH(16)"
  then have j: "j < 16" by simp
  have "unat (vs ! i) < 2 ^ 11" using assms(2-4) by simp
  then have "take_bit 11 (unat (vs ! i)) = unat (vs ! i)" by (simp only: take_bit_nat_eq_self_iff)
  moreover have "bit (vs ! i) j \<longleftrightarrow> bit (unat (vs ! i)) j" by (simp add: bit_unsigned_iff)
  ultimately have high: "bit (vs ! i) j \<Longrightarrow> j < 11" using bit_take_bit_iff [of 11 "unat (vs ! i)" j] by simp
  have "bit (word_number ent i) j \<longleftrightarrow> j < 11 \<and> number_bit vs (i * 11 + (10 - j))"
    using word_number_bit [OF j] assms(1,2) by (auto simp: filled_def)
  also have "\<dots> \<longleftrightarrow> j < 11 \<and> bit (vs ! i) j" by (auto simp: number_bit_def)
  finally show "bit (word_number ent i) j = bit (vs ! i) j" using high by blast
qed

subsection \<open>Phrases and seeds correspond\<close>

lemma word_index_nth: "n < 2048 \<Longrightarrow> word_index (kBip39En ! n) = Some (of_nat n)"
proof -
  assume n: "n < 2048"
  have "distinct (map fst (rev (zip kBip39En (map of_nat [0..<2048] :: u16 list))))"
    using distinct_kBip39En length_kBip39En by (simp add: rev_map [symmetric])
  moreover have "(kBip39En ! n, of_nat n) \<in> set (rev (zip kBip39En (map of_nat [0..<2048] :: u16 list)))"
    using n length_kBip39En by (auto simp: set_zip intro!: exI [of _ n])
  ultimately show ?thesis unfolding word_index_def by (rule map_of_is_SomeI)
qed

lemma word_index_Some: "word_index w = Some v \<Longrightarrow> unat v < 2048 \<and> w = kBip39En ! unat v"
proof -
  assume "word_index w = Some v"
  then have "(w, v) \<in> set (rev (zip kBip39En (map of_nat [0..<2048])))" unfolding word_index_def by (rule map_of_SomeD)
  then obtain n where "n < 2048" "w = kBip39En ! n" "v = of_nat n" using length_kBip39En by (auto simp: set_zip)
  then show ?thesis by (simp add: unat_of_nat)
qed

lemma put_tokens_index: "put_tokens ws st = Some r \<Longrightarrow> i < length ws \<Longrightarrow> word_index (ws ! i) \<noteq> None"
proof (induction ws arbitrary: st i)
  case (Cons w ws)
  then obtain v where v: "word_index w = Some v" "put_tokens ws (put_word st v) = Some r" by (auto split: option.splits)
  show ?case using Cons.IH [OF v(2)] Cons.prems(2) v(1) by (cases i) simp_all
qed simp

lemma entropy_bits:
  assumes "length ent = 33"
  shows "filled (number_bit (map (word_number ent) [0..<24])) 264 ent"
proof -
  have "bit (ent_bit ent k) 0 \<longleftrightarrow> number_bit (map (word_number ent) [0..<24]) k" if "k < 264" for k
  proof -
    have "k div 11 < 24" "k div 11 * 11 + (10 - (10 - k mod 11)) = k" "10 - k mod 11 < 11"
      using that mod_less_divisor [of 11 k] by (simp_all add: less_mult_imp_div_less)
    then show ?thesis using word_number_bit [of "10 - k mod 11" ent "k div 11"] by (simp add: number_bit_def)
  qed
  then show ?thesis using assms by (simp add: filled_def)
qed

lemma words_to_seed_words:
  assumes "length s = 32"
  shows "words_to_seed sha256 (seed_to_words sha256 s) = Some s"
proof -
  let ?e = "seed_entropy sha256 s" and ?ws = "seed_to_words sha256 s"
  let ?vs = "map (word_number ?e) [0..<24]"
  have e: "length ?e = 33" "take 32 ?e = s" "?e ! 32 = hd (sha256 s)" using assms by (simp_all add: seed_entropy_def nth_append)
  have "word_index (?ws ! i) = Some (?vs ! i)" if "i < 24" for i
    using that word_index_nth [OF word_number_less [of ?e i]] by (simp add: seed_to_words_def)
  moreover have "length ?ws = 24" by (simp add: seed_to_words_def)
  ultimately obtain ent where ent: "put_tokens ?ws (replicate 33 0, 0) = Some (ent, 264)" "filled (number_bit ?vs) 264 ent"
    using put_tokens_filled [of ?vs ?ws] by auto
  have "ent = ?e" by (rule filled_unique [OF ent(2) entropy_bits [OF e(1)]])
  then show ?thesis using ent(1) e \<open>length ?ws = 24\<close> by (simp add: words_to_seed_def)
qed

lemma words_to_seed_Some:
  assumes "words_to_seed sha256 ws = Some s"
  shows "length s = 32 \<and> ws = seed_to_words sha256 s"
proof -
  obtain ent n where w: "length ws = 24" "put_tokens ws (replicate 33 0, 0) = Some (ent, n)" "s = take 32 ent" "hd (sha256 s) = ent ! 32"
    using assms by (auto simp: words_to_seed_def Let_def split: if_splits option.splits)
  let ?vs = "map (\<lambda>w. the (word_index w)) ws"
  have idx: "word_index (ws ! i) = Some (?vs ! i)" if "i < 24" for i
    using put_tokens_index [OF w(2), of i] that w(1) by auto
  have small: "unat v < 2048" if "v \<in> set ?vs" for v
  proof -
    obtain i where "i < 24" "v = ?vs ! i" using \<open>v \<in> set ?vs\<close> w(1) by (auto simp only: in_set_conv_nth length_map)
    then show ?thesis using word_index_Some [OF idx] by blast
  qed
  obtain ent' where "put_tokens ws (replicate 33 0, 0) = Some (ent', 264)" "filled (number_bit ?vs) 264 ent'"
    using put_tokens_filled [OF _ idx w(1)] w(1) by (metis length_map)
  then have f: "filled (number_bit ?vs) 264 ent" using w(2) by simp
  then have len: "length ent = 33" by (simp add: filled_def)
  then have "ent = take 32 ent @ [ent ! 32]" using take_Suc_conv_app_nth [of 32 ent] by simp
  then have ent: "ent = seed_entropy sha256 s" using w(3,4) by (simp add: seed_entropy_def)
  have "ws = seed_to_words sha256 s"
  proof (rule nth_equalityI)
    show "length ws = length (seed_to_words sha256 s)" using w(1) by (simp add: seed_to_words_def)
    fix i assume "i < length ws"
    then have i: "i < 24" using w(1) by simp
    have "ws ! i = kBip39En ! unat (?vs ! i)" using word_index_Some [OF idx [OF i]] by simp
    also have "?vs ! i = word_number ent i" using filled_word_number [OF f i _ small] w(1) by simp
    finally show "ws ! i = seed_to_words sha256 s ! i" using i by (simp add: seed_to_words_def ent)
  qed
  then show ?thesis using w(3) len by simp
qed


lemma white_letter: "lower_letter c \<Longrightarrow> \<not> white c"
  by (cases c) (auto simp: white_def)

lemma split_white_word:
  assumes "w \<noteq> []" "list_all lower_letter w"
  shows "split_white w = [w]" "split_white (w @ '' '' @ s) = w # split_white ('' '' @ s)"
proof -
  have nw: "\<forall>c\<in>set w. \<not> white c" using assms(2) white_letter by (auto simp: list_all_iff)
  have d: "dropWhile white (w @ t) = w @ t" for t using assms(1) nw by (cases w) simp_all
  have "split_white [] = []" by (subst split_white.simps) simp
  then have "split_white (dropWhile (\<lambda>c. \<not> white c) w) = []" using nw by (simp add: dropWhile_eq_Nil_conv [THEN iffD2])
  then show "split_white w = [w]" using d [of "[]"] nw assms(1) by (subst split_white.simps) simp
  have "white (CHR '' '')" by (simp add: white_def)
  then show "split_white (w @ '' '' @ s) = w # split_white ('' '' @ s)"
    using d [of "'' '' @ s"] nw assms(1) by (subst split_white.simps) simp
qed

lemma split_white_space: "split_white (CHR '' '' # s) = split_white s"
  by (subst (1 2) split_white.simps) (simp add: white_def)

lemma split_join: "list_all (\<lambda>w. w \<noteq> [] \<and> list_all lower_letter w) ws \<Longrightarrow> split_white (join ws) = ws"
proof (induction ws rule: join.induct)
  case 1
  show ?case by (subst split_white.simps) simp
next
  case (2 w)
  then show ?case by (simp add: split_white_word)
next
  case (3 w v ws)
  then show ?case using split_white_word(2) [of w "join (v # ws)"] split_white_space by simp
qed

text \<open>What Qt documents of its normalisation, lower-casing and trimming: a text of lower-case letters with single spaces inside
  stays as it is.\<close>

definition qfold_ok :: "(string \<Rightarrow> string) \<Rightarrow> bool" where
  "qfold_ok qfold \<longleftrightarrow> (\<forall>ws. list_all (\<lambda>w. w \<noteq> [] \<and> list_all lower_letter w) ws \<longrightarrow> qfold (join ws) = join ws)"

text \<open>C31. Recovery phrases and seeds correspond: the phrase of a seed is read back as that seed, and a phrase that is accepted
  consists of exactly the words of the seed it gives, so no other words recover it.\<close>

theorem phrase_roundtrip:
  assumes "qfold_ok qfold" "length s = 32"
  shows "phrase_to_seed qfold sha256 (seed_to_phrase sha256 s) = Some s \<and>
    (\<forall>p s'. phrase_to_seed qfold sha256 p = Some s' \<longrightarrow> length s' = 32 \<and> split_white (qfold p) = seed_to_words sha256 s')"
proof -
  have "list_all (\<lambda>w. w \<noteq> [] \<and> list_all lower_letter w) (seed_to_words sha256 s)"
    using kBip39En_letters [OF nth_mem] word_number_less length_kBip39En by (simp add: seed_to_words_def list_all_iff [of _ "map _ _"])
  then have "split_white (qfold (seed_to_phrase sha256 s)) = seed_to_words sha256 s"
    using assms(1) split_join by (simp add: seed_to_phrase_def qfold_ok_def)
  then show ?thesis using words_to_seed_words [OF assms(2)] words_to_seed_Some by (simp add: phrase_to_seed_def)
qed

theorem phrase_roundtrip_witness:
  "phrase_to_seed id (\<lambda>_. [77]) (seed_to_phrase (\<lambda>_. [77]) (replicate 32 9)) = Some (replicate 32 9)"
  using phrase_roundtrip [of id "replicate 32 9" "\<lambda>_. [77]"] by (simp add: qfold_ok_def)

subsection \<open>Vault files\<close>

definition kVaultV1Bytes :: nat where
  "kVaultV1Bytes = 104"

definition kVaultBlobBytes :: nat where
  "kVaultBlobBytes = 105"

definition kVaultVersion :: byte where
  "kVaultVersion = 2"

definition kVaultDualBytes :: nat where
  "kVaultDualBytes = 2 * kVaultBlobBytes"

definition kMinOpslimit :: u64 where
  "kMinOpslimit = 2"

definition kMinMemlimit :: u64 where
  "kMinMemlimit = 64 * 1024 * 1024"

definition kMaxMemlimit :: u64 where
  "kMaxMemlimit = 1024 * 1024 * 1024"

text \<open>Argon2id with its default work factors, the UTF-8 form of a passphrase after NFC normalisation, and the AEAD.\<close>

record vault_lib =
  vl_pwhash :: "bytes \<Rightarrow> bytes \<Rightarrow> u64 \<Rightarrow> u64 \<Rightarrow> bytes option"
  vl_ops_moderate :: u64
  vl_mem_moderate :: u64
  vl_pp_bytes :: "string \<Rightarrow> bytes"
  vl_aead :: sodium

definition seal_seed :: "vault_lib \<Rightarrow> bytes \<Rightarrow> bytes \<Rightarrow> string \<Rightarrow> seed \<Rightarrow> u64 \<Rightarrow> u64 \<Rightarrow> bytes outcome" where
  "seal_seed vl salt nonce passphrase s opslimit memlimit =
     (if passphrase = '''' then Threw
      else let opslimit = (if opslimit = 0 then vl_ops_moderate vl else opslimit);
               memlimit = (if memlimit = 0 then vl_mem_moderate vl else memlimit);
               head = [kVaultVersion] @ salt @ u64_be opslimit @ u64_be memlimit
           in case vl_pwhash vl (vl_pp_bytes vl passphrase) salt opslimit memlimit of
                None \<Rightarrow> Threw
              | Some key \<Rightarrow> Returned (head @ nonce @ xchacha_enc (vl_aead vl) key nonce s head))"

definition open_seed :: "vault_lib \<Rightarrow> string \<Rightarrow> bytes \<Rightarrow> seed option" where
  "open_seed vl passphrase blob =
     (let v2 = (length blob = kVaultBlobBytes \<and> blob ! 0 = kVaultVersion); v1 = (length blob = kVaultV1Bytes)
      in if \<not> v1 \<and> \<not> v2 then None
         else let start = (if v2 then 1 else 0);
                  salt = take 16 (drop start blob);
                  ops = rd_u64 (take 8 (drop (start + 16) blob));
                  mem = rd_u64 (take 8 (drop (start + 24) blob));
                  nonce = take 24 (drop (start + 32) blob);
                  ct = drop (start + 56) blob
              in if mem > kMaxMemlimit \<or> mem < kMinMemlimit \<or> ops < kMinOpslimit then None
                 else case vl_pwhash vl (vl_pp_bytes vl passphrase) salt ops mem of
                        None \<Rightarrow> None
                      | Some key \<Rightarrow> xchacha_dec (vl_aead vl) key nonce ct (if v2 then take (start + 32) blob else []))"

text \<open>Two slots, the second for a passphrase given under duress.\<close>

definition seal_seed_dual ::
  "vault_lib \<Rightarrow> (nat \<Rightarrow> bytes) \<Rightarrow> (nat \<Rightarrow> bytes) \<Rightarrow> string \<Rightarrow> seed \<Rightarrow> string \<Rightarrow> seed \<Rightarrow> u64 \<Rightarrow> u64 \<Rightarrow> bytes outcome" where
  "seal_seed_dual vl salts nonces real_pass real_seed decoy_pass decoy_seed opslimit memlimit =
     (case seal_seed vl (salts 0) (nonces 0) real_pass real_seed opslimit memlimit of
        Threw \<Rightarrow> Threw
      | Returned real_blob \<Rightarrow>
          (case seal_seed vl (salts 1) (nonces 1) decoy_pass decoy_seed opslimit memlimit of
             Threw \<Rightarrow> Threw
           | Returned decoy_blob \<Rightarrow>
               if length real_blob \<noteq> kVaultBlobBytes \<or> length decoy_blob \<noteq> kVaultBlobBytes then Threw
               else Returned (real_blob @ decoy_blob)))"

definition open_seed_dual :: "vault_lib \<Rightarrow> string \<Rightarrow> bytes \<Rightarrow> seed option" where
  "open_seed_dual vl passphrase blob =
     (if length blob = kVaultBlobBytes \<or> length blob = kVaultV1Bytes then open_seed vl passphrase blob
      else if length blob \<noteq> kVaultDualBytes then None
      else let a = open_seed vl passphrase (take kVaultBlobBytes blob); b = open_seed vl passphrase (drop kVaultBlobBytes blob)
           in if a \<noteq> None then a else b)"

fun seal_slots :: "vault_lib \<Rightarrow> (bytes \<times> bytes) list \<Rightarrow> (string \<times> seed) list \<Rightarrow> u64 \<Rightarrow> u64 \<Rightarrow> bytes outcome" where
  "seal_slots vl ((salt, nonce) # rs) ((pass, s) # ps) opslimit memlimit =
     (case seal_seed vl salt nonce pass s opslimit memlimit of
        Threw \<Rightarrow> Threw
      | Returned slot \<Rightarrow>
          if length slot \<noteq> kVaultBlobBytes then Threw
          else (case seal_slots vl rs ps opslimit memlimit of Threw \<Rightarrow> Threw | Returned more_slots \<Rightarrow> Returned (slot @ more_slots)))"
| "seal_slots vl _ _ opslimit memlimit = Returned []"

definition seal_seeds_multi ::
  "vault_lib \<Rightarrow> (bytes \<times> bytes) list \<Rightarrow> string list \<Rightarrow> seed list \<Rightarrow> u64 \<Rightarrow> u64 \<Rightarrow> bytes outcome" where
  "seal_seeds_multi vl rs passphrases seeds opslimit memlimit =
     (if passphrases = [] \<or> length passphrases \<noteq> length seeds then Threw
      else seal_slots vl rs (zip passphrases seeds) opslimit memlimit)"

definition open_seed_multi :: "vault_lib \<Rightarrow> string \<Rightarrow> bytes \<Rightarrow> seed option" where
  "open_seed_multi vl passphrase blob =
     (if length blob = kVaultBlobBytes \<or> length blob = kVaultV1Bytes then open_seed vl passphrase blob
      else if length blob < kVaultBlobBytes \<or> length blob mod kVaultBlobBytes \<noteq> 0 then None
      else foldl (\<lambda>matched i. let s = open_seed vl passphrase (take kVaultBlobBytes (drop (i * kVaultBlobBytes) blob))
                             in if s \<noteq> None \<and> matched = None then s else matched)
             None [0..<length blob div kVaultBlobBytes])"

subsection \<open>Files\<close>

text \<open>The files of the vault directory; \<open>can_open\<close>, \<open>wrote_all\<close> and \<open>renamed\<close> say which system calls succeed.\<close>

type_synonym files = "string \<Rightarrow> bytes option"

definition load_vault_file :: "files \<Rightarrow> string \<Rightarrow> bytes option" where
  "load_vault_file fs path =
     (case fs path of
        None \<Rightarrow> None
      | Some blob \<Rightarrow> if length blob \<noteq> kVaultBlobBytes \<and> length blob \<noteq> kVaultV1Bytes then None else Some blob)"

definition save_vault_file :: "bool \<Rightarrow> nat \<Rightarrow> bool \<Rightarrow> string \<Rightarrow> bytes \<Rightarrow> files \<Rightarrow> unit outcome \<times> files" where
  "save_vault_file can_open written renamed path blob fs =
     (if length blob \<noteq> kVaultBlobBytes \<and> length blob \<noteq> kVaultV1Bytes then (Threw, fs)
      else let tmp = path @ ''.tmp''
           in if \<not> can_open then (Threw, fs)
              else if written < length blob then (Threw, fs(tmp \<mapsto> take written blob))
              else if \<not> renamed then (Threw, fs(tmp := None))
              else (Returned (), fs(path \<mapsto> blob, tmp := None)))"

definition vault_path_for :: "string \<Rightarrow> string \<Rightarrow> string" where
  "vault_path_for dir username =
     (let clean = filter (\<lambda>c. c \<noteq> CHR ''/'' \<and> c \<noteq> CHR 0x5C \<and> c \<noteq> CHR 0x00) username;
          clean = (if clean = [] then ''default'' else clean)
      in dir @ ''/'' @ clean @ ''.vault'')"


subsection \<open>A vault opens with its passphrase\<close>

definition factors_ok :: "vault_lib \<Rightarrow> u64 \<Rightarrow> u64 \<Rightarrow> bool" where
  "factors_ok vl opslimit memlimit \<longleftrightarrow>
     (let ops = (if opslimit = 0 then vl_ops_moderate vl else opslimit); mem = (if memlimit = 0 then vl_mem_moderate vl else memlimit)
      in kMinOpslimit \<le> ops \<and> kMinMemlimit \<le> mem \<and> mem \<le> kMaxMemlimit)"

lemma seal_open:
  assumes "xchacha_ok (vl_aead vl)" "factors_ok vl opslimit memlimit" "length salt = 16" "length nonce = 24" "length s = 32"
    and "seal_seed vl salt nonce pass s opslimit memlimit = Returned blob"
  shows "length blob = kVaultBlobBytes \<and> open_seed vl pass blob = Some s"
proof -
  let ?o = "if opslimit = 0 then vl_ops_moderate vl else opslimit" and ?m = "if memlimit = 0 then vl_mem_moderate vl else memlimit"
  let ?h = "[kVaultVersion] @ salt @ u64_be ?o @ u64_be ?m"
  obtain key where key: "vl_pwhash vl (vl_pp_bytes vl pass) salt ?o ?m = Some key"
    and blob: "blob = ?h @ nonce @ xchacha_enc (vl_aead vl) key nonce s ?h"
    using assms(6) unfolding seal_seed_def Let_def by (auto split: if_splits option.splits)
  have h: "length ?h = 33" using assms(3) by simp
  have len: "length blob = 105" using assms(1,3,4,5) by (simp add: blob xchacha_ok_def)
  have parts: "take 16 (drop 1 blob) = salt" "take 8 (drop (1 + 16) blob) = u64_be ?o" "take 8 (drop (1 + 24) blob) = u64_be ?m"
    "take 24 (drop (1 + 32) blob) = nonce" "take (1 + 32) blob = ?h" "blob ! 0 = kVaultVersion"
    "drop (1 + 56) blob = xchacha_enc (vl_aead vl) key nonce s ?h"
    using assms(3,4) by (simp_all add: blob)
  have "?m \<le> kMaxMemlimit" "kMinMemlimit \<le> ?m" "kMinOpslimit \<le> ?o" using assms(2) by (simp_all add: factors_ok_def Let_def)
  then show ?thesis
    using len key assms(1) unfolding open_seed_def Let_def kVaultBlobBytes_def
    by (simp add: parts [simplified] xchacha_ok_def not_less kVaultV1Bytes_def)
qed

definition slot :: "nat \<Rightarrow> bytes \<Rightarrow> bytes" where
  "slot i blob = take kVaultBlobBytes (drop (i * kVaultBlobBytes) blob)"

lemma seal_slots_spec:
  assumes "seal_slots vl rs ps opslimit memlimit = Returned blob" "length ps \<le> length rs"
  shows "length blob = length ps * kVaultBlobBytes \<and>
    (\<forall>i<length ps. seal_seed vl (fst (rs ! i)) (snd (rs ! i)) (fst (ps ! i)) (snd (ps ! i)) opslimit memlimit = Returned (slot i blob))"
  using assms
proof (induction vl rs ps opslimit memlimit arbitrary: blob rule: seal_slots.induct)
  case (1 vl salt nonce rs pass s ps opslimit memlimit)
  obtain b m where b: "seal_seed vl salt nonce pass s opslimit memlimit = Returned b" "length b = kVaultBlobBytes"
    "seal_slots vl rs ps opslimit memlimit = Returned m" "blob = b @ m"
    using 1(2) by (auto split: outcome.splits if_splits)
  have IH: "length m = length ps * kVaultBlobBytes"
    "\<And>i. i < length ps \<Longrightarrow> seal_seed vl (fst (rs ! i)) (snd (rs ! i)) (fst (ps ! i)) (snd (ps ! i)) opslimit memlimit = Returned (slot i m)"
    using 1(1) [OF b(1) _ b(3)] b(2) 1(3) by simp_all
  have "slot (Suc i) blob = slot i m" for i using b(2,4) by (simp add: slot_def)
  moreover have "slot 0 blob = b" using b(2,4) by (simp add: slot_def)
  ultimately show ?case using IH b by (auto simp: less_Suc_eq_0_disj)
qed auto

lemma first_match:
  assumes "f i = Some s" "\<forall>j<i. f j = None"
  shows "i < n \<Longrightarrow> foldl (\<lambda>m i. let s = f i in if s \<noteq> None \<and> m = None then s else m) None [0..<n] = Some s"
    and "n \<le> i \<Longrightarrow> foldl (\<lambda>m i. let s = f i in if s \<noteq> None \<and> m = None then s else m) None [0..<n] = None"
proof -
  show none: "foldl (\<lambda>m i. let s = f i in if s \<noteq> None \<and> m = None then s else m) None [0..<n] = None" if "n \<le> i" for n
    using that assms(2) by (induction n) (simp_all add: Let_def)
  show "i < n \<Longrightarrow> foldl (\<lambda>m i. let s = f i in if s \<noteq> None \<and> m = None then s else m) None [0..<n] = Some s"
  proof (induction n)
    case (Suc n)
    then show ?case using none [of n] assms(1) by (cases "i = n") (simp_all add: Let_def)
  qed simp
qed

text \<open>A vault with several personas gives each passphrase its own seed: opening with the passphrase of slot \<open>i\<close> returns the
  seed of that slot, unless a slot before it happens to open under the same passphrase.\<close>

theorem multi_vault_opens:
  assumes "xchacha_ok (vl_aead vl)" "factors_ok vl opslimit memlimit"
    and "length passphrases \<le> length rs" "\<forall>(salt, nonce)\<in>set rs. length salt = 16 \<and> length nonce = 24" "\<forall>s\<in>set seeds. length s = 32"
    and "seal_seeds_multi vl rs passphrases seeds opslimit memlimit = Returned blob" "i < length passphrases"
    and "\<forall>j<i. open_seed vl (passphrases ! i) (slot j blob) = None"
  shows "open_seed_multi vl (passphrases ! i) blob = Some (seeds ! i)"
proof -
  let ?ps = "zip passphrases seeds"
  have m: "length passphrases = length seeds" "seal_slots vl rs ?ps opslimit memlimit = Returned blob"
    using assms(6) by (auto simp: seal_seeds_multi_def split: if_splits)
  have len: "length blob = length passphrases * kVaultBlobBytes"
    and slots: "seal_seed vl (fst (rs ! i)) (snd (rs ! i)) (passphrases ! i) (seeds ! i) opslimit memlimit = Returned (slot i blob)"
    using seal_slots_spec [OF m(2)] m(1) assms(3,7) by auto
  have "rs ! i \<in> set rs" "seeds ! i \<in> set seeds" using assms(3,7) m(1) by simp_all
  then have sizes: "length (fst (rs ! i)) = 16" "length (snd (rs ! i)) = 24" "length (seeds ! i) = 32"
    using assms(4,5) by (auto simp: case_prod_unfold)
  have opens: "open_seed vl (passphrases ! i) (slot i blob) = Some (seeds ! i)"
    using seal_open [OF assms(1,2) sizes slots] by simp
  show ?thesis
  proof (cases "length passphrases = 1")
    case True
    then have "slot i blob = blob" using len assms(7) by (simp add: slot_def)
    then show ?thesis using opens len True by (simp add: open_seed_multi_def)
  next
    case False
    then have "length blob \<noteq> 105" "length blob \<noteq> 104" "\<not> length blob < 105" "length blob mod 105 = 0" "length blob div 105 = length passphrases"
      using len assms(7) by (auto simp: kVaultBlobBytes_def)
    then show ?thesis
      using first_match(1) [of "\<lambda>j. open_seed vl (passphrases ! i) (slot j blob)", OF opens assms(8,7)]
      by (simp add: open_seed_multi_def slot_def kVaultBlobBytes_def kVaultV1Bytes_def)
  qed
qed


definition toy_vault :: vault_lib where
  "toy_vault = \<lparr>vl_pwhash = (\<lambda>p salt ops mem. Some (p @ salt)), vl_ops_moderate = 3, vl_mem_moderate = 268435456,
     vl_pp_bytes = str_bytes, vl_aead = toy_sodium\<rparr>"

definition demo_vault :: bytes where
  "demo_vault =
     (case seal_seeds_multi toy_vault [(replicate 16 1, replicate 24 1), (replicate 16 2, replicate 24 2)] [''a'', ''b'']
             [replicate 32 7, replicate 32 9] 0 0 of Returned b \<Rightarrow> b | Threw \<Rightarrow> [])"

theorem multi_vault_opens_witness: "open_seed_multi toy_vault ''b'' demo_vault = Some (replicate 32 9)"
proof -
  have sealed: "seal_seeds_multi toy_vault [(replicate 16 1, replicate 24 1), (replicate 16 2, replicate 24 2)] [''a'', ''b'']
      [replicate 32 7, replicate 32 9] 0 0 = Returned demo_vault" by code_simp
  have none: "open_seed toy_vault ''b'' (slot 0 demo_vault) = None" by code_simp
  have lib: "xchacha_ok (vl_aead toy_vault)" "factors_ok toy_vault 0 0"
    by (simp_all add: toy_vault_def toy_xchacha_ok factors_ok_def kMinOpslimit_def kMinMemlimit_def kMaxMemlimit_def)
  show ?thesis using multi_vault_opens [OF lib _ _ _ sealed, of 1] none by (simp add: less_Suc_eq)
qed

subsection \<open>Saving is atomic\<close>

text \<open>Whichever system call fails, the vault file of the user holds either what it held before or the whole new vault, and
  after a success it is loaded back.\<close>

theorem vault_save_atomic:
  "(case save_vault_file can_open written renamed path blob fs of
     (Threw, fs') \<Rightarrow> fs' path = fs path
   | (Returned _, fs') \<Rightarrow> load_vault_file fs' path = Some blob)"
  by (auto simp: save_vault_file_def load_vault_file_def Let_def)

text \<open>A vault with two slots cannot be stored: \<open>save_vault_file\<close> refuses its size, and \<open>load_vault_file\<close> would not
  return it.\<close>

theorem dual_vault_not_stored:
  assumes "seal_seed_dual vl salts nonces rp rs dp ds opslimit memlimit = Returned blob"
  shows "save_vault_file can_open written renamed path blob fs = (Threw, fs) \<and> load_vault_file (fs(path \<mapsto> blob)) path = None"
proof -
  have "length blob = 210"
    using assms by (auto simp: seal_seed_dual_def kVaultBlobBytes_def split: outcome.splits if_splits)
  then show ?thesis by (simp add: save_vault_file_def load_vault_file_def kVaultBlobBytes_def kVaultV1Bytes_def)
qed

end
