(* ===== verification/Channels.thy ===== *)
theory Channels
  imports Conversation Sender_Keys
begin

text \<open>
  Channels of the desktop client, \<open>client-desktop/src/chat_client.cpp\<close>: the operations that the user interface queues
  (create, join from a file, send, invite, leave, join and leave a call), the invitation that arrives as a direct
  message, the envelopes addressed to a channel, and the restoration after a start. \<open>chan_client\<close> adds
  to \<open>dm_client\<close> what these paths use of \<open>ChatClient::Impl\<close>. The signals to the user interface are recorded in \<open>shown\<close>
  and the files the client reads and writes in \<open>chan_files\<close>. MLS groups come from a library and are the type \<open>'g\<close> with
  the operations in \<open>chan_lib\<close>; the overlay network is not configured.
\<close>

subsection \<open>State\<close>

record channel_key =
  ck_channel_id :: bytes
  ck_channel_name :: bytes
  ck_distribution :: sender_keys_distribution

record mls_invite =
  mi_channel_id :: bytes
  mi_channel_name :: bytes

text \<open>What the channel code calls: the keyed hash of the libsodium, the wire formats, the fingerprint of a key and the MLS
  group (creation, encryption and its seed; decryption; reconstruction).\<close>

record 'g chan_lib =
  chan_hash :: "bytes \<Rightarrow> bytes \<Rightarrow> bytes"
  skm_pb :: "sender_keys_message pb"
  skd_pb :: "sender_keys_distribution pb"
  ck_pb :: "channel_key pb"
  mi_pb :: "mls_invite pb"
  key_fp :: "bytes \<Rightarrow> bytes"
  mls_create :: "bytes \<Rightarrow> bytes \<Rightarrow> 'g outcome"
  mls_encrypt :: "'g \<Rightarrow> bytes \<Rightarrow> bytes outcome \<times> 'g"
  mls_decrypt :: "'g \<Rightarrow> bytes \<Rightarrow> bytes option \<times> 'g"
  mls_seed :: "'g \<Rightarrow> bytes"
  mls_replay :: "bytes \<Rightarrow> bytes list \<Rightarrow> 'g outcome"

record 'g channel_state =
  cs_id :: bytes
  own_dist :: bytes
  cs_session :: group_session
  subscribed :: bool
  cs_uses_mls :: bool
  cs_mls :: "'g option"
  mls_next_seq :: int

definition new_channel :: "'g channel_state" where
  "new_channel = \<lparr>cs_id = replicate 32 0, own_dist = [], cs_session = group_empty, subscribed = False, cs_uses_mls = False,
     cs_mls = None, mls_next_seq = 0\<rparr>"

datatype chan_event =
    ChannelJoined bytes | ChannelMessage bytes bytes bytes | ChannelImage bytes bytes bytes bytes bytes | ErrorOccurred string

record 'g chan_client =
  dm :: dm_client
  channels :: "(bytes, 'g channel_state) omap"
  chan_id_to_name :: "(bytes, bytes) omap"
  active_voice_rooms :: "(bytes, bool) omap"
  chan_files :: "bytes \<Rightarrow> bytes option"
  shown :: "chan_event list"

definition chan_at :: "bytes \<Rightarrow> 'g chan_client \<Rightarrow> 'g channel_state" where
  "chan_at n c = (case om_find (channels c) n of None \<Rightarrow> new_channel | Some cs \<Rightarrow> cs)"

definition put_chan :: "bytes \<Rightarrow> 'g channel_state \<Rightarrow> 'g chan_client \<Rightarrow> 'g chan_client" where
  "put_chan n cs c = c\<lparr>channels := om_assign n cs (channels c)\<rparr>"

definition wire_frame :: "client_frame \<Rightarrow> 'g chan_client \<Rightarrow> 'g chan_client" where
  "wire_frame f c = c\<lparr>dm := emit_frame f (dm c)\<rparr>"

definition show_event :: "chan_event \<Rightarrow> 'g chan_client \<Rightarrow> 'g chan_client" where
  "show_event e c = c\<lparr>shown := shown c @ [e]\<rparr>"

definition on_store :: "(store \<Rightarrow> store) \<Rightarrow> 'g chan_client \<Rightarrow> 'g chan_client" where
  "on_store f c = c\<lparr>dm := (dm c)\<lparr>cl_store := map_option f (cl_store (dm c))\<rparr>\<rparr>"

definition channel_id_from_name :: "'g chan_lib \<Rightarrow> bytes \<Rightarrow> bytes" where
  "channel_id_from_name cl name = chan_hash cl name (str_bytes ''FinBit-Chan'')"

text \<open>What one operation draws or asks of its surroundings.\<close>

record chan_draws =
  cd_chain_id :: bytes
  cd_chain_key :: bytes
  cd_envid :: bytes
  cd_now :: u64
  cd_nonce :: "nat \<Rightarrow> bytes"
  cd_writable :: "bytes \<Rightarrow> bool"
  cd_uplink :: u32

subsection \<open>Persistence\<close>

definition chanstate_key :: "bytes \<Rightarrow> bytes" where
  "chanstate_key name = str_bytes ''__chanstate__:'' @ name"

definition persist_chan_meta :: "sodium \<Rightarrow> bytes \<Rightarrow> bytes \<Rightarrow> 'g channel_state \<Rightarrow> 'g chan_client \<Rightarrow> 'g chan_client" where
  "persist_chan_meta lib nonce name cs = on_store (chan_save lib nonce name (cs_id cs) (own_dist cs) (cs_uses_mls cs))"

text \<open>A serialized state is never empty (\<open>serialize_state_not_Nil\<close>), so that \<open>save_session\<close> does not throw here.\<close>

definition persist_chan_session :: "sodium \<Rightarrow> bytes \<Rightarrow> bytes \<Rightarrow> 'g channel_state \<Rightarrow> 'g chan_client \<Rightarrow> 'g chan_client" where
  "persist_chan_session lib nonce name cs = on_store (\<lambda>s. snd (save_session lib nonce (chanstate_key name) (serialize_state (cs_session cs)) s))"

definition persist_chan_peer_dist :: "sodium \<Rightarrow> bytes \<Rightarrow> 'g channel_state \<Rightarrow> bytes \<Rightarrow> bytes \<Rightarrow> 'g chan_client \<Rightarrow> 'g chan_client" where
  "persist_chan_peer_dist lib nonce cs peer_pub peer_dist = on_store (chan_save_peer lib nonce (cs_id cs) peer_pub peer_dist)"

definition persist_mls_seed :: "sodium \<Rightarrow> 'g chan_lib \<Rightarrow> bytes \<Rightarrow> 'g channel_state \<Rightarrow> 'g chan_client \<Rightarrow> 'g channel_state \<times> 'g chan_client" where
  "persist_mls_seed lib cl nonce cs c =
     (case (cl_store (dm c), cs_mls cs) of
        (Some _, Some g) \<Rightarrow> (cs\<lparr>mls_next_seq := 0\<rparr>, on_store (mls_group_save lib nonce (cs_id cs) (mls_seed cl g)) c)
      | _ \<Rightarrow> (cs, c))"


subsection \<open>Operations on channels\<close>

text \<open>The common start of every operation: the entry of the channel is created when it is missing, and an entry without
  an identifier gets the one derived from its name.\<close>

definition enter_channel :: "'g chan_lib \<Rightarrow> bytes \<Rightarrow> 'g chan_client \<Rightarrow> 'g chan_client" where
  "enter_channel cl name c =
     (let cs = chan_at name c
      in if take 3 (cs_id cs) = [0, 0, 0]
         then let cid = channel_id_from_name cl name
              in (put_chan name (cs\<lparr>cs_id := cid\<rparr>) c)\<lparr>chan_id_to_name := om_assign cid name (chan_id_to_name c)\<rparr>
         else put_chan name cs c)"

definition derive_if_zero :: "'g chan_lib \<Rightarrow> bytes \<Rightarrow> 'g channel_state \<Rightarrow> 'g channel_state" where
  "derive_if_zero cl name cs = (if take 2 (cs_id cs) = [0, 0] then cs\<lparr>cs_id := channel_id_from_name cl name\<rparr> else cs)"

definition subscribe_now :: "bytes \<Rightarrow> 'g chan_client \<Rightarrow> 'g chan_client" where
  "subscribe_now name c =
     (let cs = chan_at name c
      in if subscribed cs then c
         else show_event (ChannelJoined name) (put_chan name (cs\<lparr>subscribed := True\<rparr>) (wire_frame (FChanSubscribe (cs_id cs)) c)))"

definition persist_channel :: "sodium \<Rightarrow> chan_draws \<Rightarrow> bytes \<Rightarrow> 'g chan_client \<Rightarrow> 'g chan_client" where
  "persist_channel lib d name c =
     persist_chan_session lib (cd_nonce d 1) name (chan_at name c) (persist_chan_meta lib (cd_nonce d 0) name (chan_at name c) c)"

definition own_chain :: "'g chan_lib \<Rightarrow> chan_draws \<Rightarrow> 'g channel_state \<Rightarrow> 'g channel_state" where
  "own_chain cl d cs =
     (let (blob, s) = create_own_send_chain (skd_pb cl) (cd_chain_id d) (cd_chain_key d) (cs_session cs)
      in cs\<lparr>own_dist := blob, cs_session := s\<rparr>)"

definition op_create :: "sodium \<Rightarrow> 'g chan_lib \<Rightarrow> chan_draws \<Rightarrow> pending_chan_op \<Rightarrow> 'g chan_client \<Rightarrow> 'g chan_client" where
  "op_create lib cl d op c =
     (let name = co_channel op; cs = own_chain cl d (chan_at name c); c = put_chan name cs c
      in if \<not> cd_writable d (co_dist_path op) then show_event (ErrorOccurred ''create channel failed'') c
         else persist_channel lib d name (subscribe_now name (c\<lparr>chan_files := (chan_files c)(co_dist_path op \<mapsto> own_dist cs)\<rparr>)))"

definition op_create_local :: "sodium \<Rightarrow> 'g chan_lib \<Rightarrow> chan_draws \<Rightarrow> pending_chan_op \<Rightarrow> 'g chan_client \<Rightarrow> 'g chan_client" where
  "op_create_local lib cl d op c =
     (let name = co_channel op; cs = chan_at name c;
          cs = (if own_dist cs = [] then own_chain cl d cs else cs);
          cs = cs\<lparr>cs_uses_mls := co_use_mls op\<rparr>;
          (cs, c) =
            (if co_use_mls op
             then let cs = derive_if_zero cl name cs
                  in case mls_create cl (id_pub (cl_id (dm c))) (cs_id cs) of
                       Threw \<Rightarrow> (cs\<lparr>cs_uses_mls := False\<rparr>, show_event (ErrorOccurred ''MLS create failed'') c)
                     | Returned g \<Rightarrow> persist_mls_seed lib cl (cd_nonce d 2) (cs\<lparr>cs_mls := Some g\<rparr>) c
             else (cs, c))
      in persist_channel lib d name (subscribe_now name (put_chan name cs c)))"

definition op_join :: "sodium \<Rightarrow> chan_draws \<Rightarrow> pending_chan_op \<Rightarrow> 'g chan_client \<Rightarrow> 'g chan_client" where
  "op_join lib d op c =
     (let name = co_channel op
      in case chan_files c (co_dist_path op) of
           None \<Rightarrow> show_event (ErrorOccurred ''join channel failed'') c
         | Some dist_blob \<Rightarrow> persist_channel lib d name (subscribe_now name (put_chan name ((chan_at name c)\<lparr>own_dist := dist_blob\<rparr>) c)))"

definition channel_encrypt ::
  "sodium \<Rightarrow> 'g chan_lib \<Rightarrow> bytes \<Rightarrow> bytes \<Rightarrow> 'g channel_state \<Rightarrow> bytes outcome \<times> 'g channel_state" where
  "channel_encrypt lib cl pt aad cs =
     (case (cs_uses_mls cs, cs_mls cs) of
        (True, Some g) \<Rightarrow> (case mls_encrypt cl g pt of (r, g) \<Rightarrow> (r, cs\<lparr>cs_mls := Some g\<rparr>))
      | _ \<Rightarrow> (case group_encrypt lib (skm_pb cl) (cs_session cs) pt aad of (r, s) \<Rightarrow> (r, cs\<lparr>cs_session := s\<rparr>)))"

definition op_send :: "sodium \<Rightarrow> 'g chan_lib \<Rightarrow> chan_draws \<Rightarrow> pending_chan_op \<Rightarrow> 'g chan_client \<Rightarrow> 'g chan_client" where
  "op_send lib cl d op c =
     (let name = co_channel op; cs = chan_at name c
      in if own_dist cs = [] then show_event (ErrorOccurred ''cannot send'') c
         else let aad = envelope_aad_bytes (cd_envid d) (cd_now d); use_mls = (cs_uses_mls cs \<and> cs_mls cs \<noteq> None)
              in case channel_encrypt lib cl (co_text op) aad cs of
                   (Threw, cs) \<Rightarrow> show_event (ErrorOccurred ''channel send failed'') (put_chan name cs c)
                 | (Returned inner, cs) \<Rightarrow>
                     (let me = id_pub (cl_id (dm c));
                          env = \<lparr>envelope_id = cd_envid d, timestamp_ms = cd_now d, sender_pubkey = me, ciphertext = inner,
                                 env_aad = (if use_mls then [] else aad), aead_alg = 1, protocol_version = 1, env_signature = [],
                                 pq_ct = [], rcpt = ChannelGroupId (cs_id cs)\<rparr>;
                          c = wire_frame (FEnvelope env) (put_chan name cs c);
                          c = persist_chan_session lib (cd_nonce d 1) name cs c
                      in on_store (chan_append_inbox lib (cd_nonce d 2) (cs_id cs) me (co_text op) (cd_now d)) c))"

definition op_leave :: "pending_chan_op \<Rightarrow> 'g chan_client \<Rightarrow> 'g chan_client" where
  "op_leave op c =
     (let name = co_channel op; cs = chan_at name c;
          c = (if subscribed cs then wire_frame (FChanUnsubscribe (cs_id cs)) c else c);
          c = on_store (chan_delete name (cs_id cs)) c
      in c\<lparr>chan_id_to_name := om_erase (cs_id cs) (chan_id_to_name c), channels := om_erase name (channels c)\<rparr>)"

definition op_room_join :: "'g chan_lib \<Rightarrow> chan_draws \<Rightarrow> pending_chan_op \<Rightarrow> 'g chan_client \<Rightarrow> 'g chan_client" where
  "op_room_join cl d op c =
     (let name = co_channel op; cs = derive_if_zero cl name (chan_at name c);
          c = wire_frame (FRoomJoin (cs_id cs) (co_want_video op) (cd_uplink d)) (put_chan name cs c)
      in c\<lparr>active_voice_rooms := om_assign (cs_id cs) (co_want_video op) (active_voice_rooms c)\<rparr>)"

definition op_room_leave :: "'g chan_lib \<Rightarrow> pending_chan_op \<Rightarrow> 'g chan_client \<Rightarrow> 'g chan_client" where
  "op_room_leave cl op c =
     (let name = co_channel op; cs = derive_if_zero cl name (chan_at name c);
          c = wire_frame (FRoomLeave (cs_id cs)) (put_chan name cs c)
      in c\<lparr>active_voice_rooms := om_erase (cs_id cs) (active_voice_rooms c)\<rparr>)"

text \<open>\<open>pack_channel_key_payload\<close> gives no bytes when the distribution does not parse.\<close>

definition pack_channel_key_payload :: "dm_payload pb \<Rightarrow> 'g chan_lib \<Rightarrow> bytes \<Rightarrow> bytes \<Rightarrow> bytes \<Rightarrow> bytes" where
  "pack_channel_key_payload dpb cl cid name dist_blob =
     (case pb_parse (skd_pb cl) dist_blob of
        None \<Rightarrow> []
      | Some sk \<Rightarrow> pb_ser dpb (dm_of (DmChannelKey (pb_ser (ck_pb cl)
          \<lparr>ck_channel_id = cid, ck_channel_name = name, ck_distribution = sk\<rparr>))))"

definition pack_mls_invite_request_payload :: "dm_payload pb \<Rightarrow> 'g chan_lib \<Rightarrow> bytes \<Rightarrow> bytes \<Rightarrow> bytes" where
  "pack_mls_invite_request_payload dpb cl cid name =
     pb_ser dpb (dm_of (DmMlsInvite (pb_ser (mi_pb cl) \<lparr>mi_channel_id = cid, mi_channel_name = name\<rparr>)))"

text \<open>The result says whether the loop over the queue goes on: without a session it fetches the peer's keys, puts the
  operation back and breaks.\<close>

definition op_invite ::
  "sodium \<Rightarrow> hs_lib \<Rightarrow> ratchet_message pb \<Rightarrow> dm_payload pb \<Rightarrow> 'g chan_lib \<Rightarrow> chan_draws \<Rightarrow> pending_chan_op \<Rightarrow> 'g chan_client \<Rightarrow>
     bool outcome \<times> 'g chan_client" where
  "op_invite lib hl pb dpb cl d op c =
     (let name = co_channel op; peer = co_peer op; cs = chan_at name c
      in if cs_uses_mls cs
         then let cs = derive_if_zero cl name cs; c = put_chan name cs c;
                  ps = \<lparr>ps_peer = peer, ps_text = [], pre_packed = pack_mls_invite_request_payload dpb cl (cs_id cs) name, persist_blob = []\<rparr>
              in (Returned True, c\<lparr>dm := (dm c)\<lparr>send_queue := send_queue (dm c) @ [ps]\<rparr>\<rparr>)
         else let cs = (if own_dist cs = [] then own_chain cl d cs else cs);
                  c = subscribe_now name (put_chan name cs c);
                  s = session_at peer (dm c);
                  c = c\<lparr>dm := put_session peer s (dm c)\<rparr>
              in case rat s of
                   None \<Rightarrow>
                     (Returned False, let c = wire_frame (FKeyFetch peer) c
                        in c\<lparr>dm := (dm c)\<lparr>pending_fetch_targets := pending_fetch_targets (dm c) @ [peer], chan_queue := op # chan_queue (dm c)\<rparr>\<rparr>)
                 | Some r \<Rightarrow>
                     (case build_envelope lib hl pb dpb (cl_id (dm c)) (cd_envid d) (cd_now d) s r
                             (pack_channel_key_payload dpb cl (cs_id cs) name (own_dist cs)) of
                        (Threw, s) \<Rightarrow> (Threw, c\<lparr>dm := put_session peer s (dm c)\<rparr>)
                      | (Returned e, s) \<Rightarrow>
                          (Returned True, persist_channel lib d name (wire_frame (FEnvelope e) (c\<lparr>dm := put_session peer s (dm c)\<rparr>)))))"

definition channel_op ::
  "sodium \<Rightarrow> hs_lib \<Rightarrow> ratchet_message pb \<Rightarrow> dm_payload pb \<Rightarrow> 'g chan_lib \<Rightarrow> chan_draws \<Rightarrow> pending_chan_op \<Rightarrow> 'g chan_client \<Rightarrow>
     bool outcome \<times> 'g chan_client" where
  "channel_op lib hl pb dpb cl d op c =
     (let c = enter_channel cl (co_channel op) c
      in case co_kind op of
           KCreate \<Rightarrow> (Returned True, op_create lib cl d op c)
         | KCreateLocal \<Rightarrow> (Returned True, op_create_local lib cl d op c)
         | KJoin \<Rightarrow> (Returned True, op_join lib d op c)
         | KSend \<Rightarrow> (Returned True, op_send lib cl d op c)
         | KLeave \<Rightarrow> (Returned True, op_leave op c)
         | KRoomJoin \<Rightarrow> (Returned True, op_room_join cl d op c)
         | KRoomLeave \<Rightarrow> (Returned True, op_room_leave cl op c)
         | KInvite \<Rightarrow> op_invite lib hl pb dpb cl d op c)"




text \<open>The slots of the user interface.\<close>

definition chan_op :: "chan_op_kind \<Rightarrow> bytes \<Rightarrow> pending_chan_op" where
  "chan_op k name = \<lparr>co_kind = k, co_channel = name, co_dist_path = [], co_text = [], co_peer = [], co_want_video = False, co_use_mls = False\<rparr>"

definition queue_op :: "pending_chan_op \<Rightarrow> 'g chan_client \<Rightarrow> 'g chan_client" where
  "queue_op op c = c\<lparr>dm := (dm c)\<lparr>chan_queue := chan_queue (dm c) @ [op]\<rparr>\<rparr>"

definition create_channel :: "bytes \<Rightarrow> bytes \<Rightarrow> 'g chan_client \<Rightarrow> 'g chan_client" where
  "create_channel name path = queue_op ((chan_op KCreate name)\<lparr>co_dist_path := path\<rparr>)"


definition join_channel :: "bytes \<Rightarrow> bytes \<Rightarrow> 'g chan_client \<Rightarrow> 'g chan_client" where
  "join_channel name path = queue_op ((chan_op KJoin name)\<lparr>co_dist_path := path\<rparr>)"

definition send_to_channel :: "bytes \<Rightarrow> bytes \<Rightarrow> 'g chan_client \<Rightarrow> 'g chan_client" where
  "send_to_channel name text = queue_op ((chan_op KSend name)\<lparr>co_text := text\<rparr>)"

definition send_image_to_channel :: "bytes \<Rightarrow> bytes \<Rightarrow> bytes \<Rightarrow> bytes \<Rightarrow> 'g chan_client \<Rightarrow> bool \<times> 'g chan_client" where
  "send_image_to_channel name mime filename content c =
     (if content = [] then (False, c)
      else if kMaxInlineAttachmentBytes < length content then (False, show_event (ErrorOccurred ''attachment too large'') c)
      else (True, send_to_channel name (frame_attachment mime filename content) c))"


definition leave_channel :: "bytes \<Rightarrow> 'g chan_client \<Rightarrow> 'g chan_client" where
  "leave_channel name = queue_op (chan_op KLeave name)"

subsection \<open>Receiving\<close>

definition channel_decrypt ::
  "sodium \<Rightarrow> 'g chan_lib \<Rightarrow> bytes \<Rightarrow> bytes \<Rightarrow> bytes \<Rightarrow> 'g channel_state \<Rightarrow> bytes option \<times> 'g channel_state" where
  "channel_decrypt lib cl sender ct aad cs =
     (case (cs_uses_mls cs, cs_mls cs) of
        (True, Some g) \<Rightarrow> (case mls_decrypt cl g ct of (pt, g) \<Rightarrow> (pt, cs\<lparr>cs_mls := Some g\<rparr>))
      | _ \<Rightarrow> (case group_decrypt lib (skm_pb cl) (cs_session cs) sender ct aad of (pt, s) \<Rightarrow> (pt, cs\<lparr>cs_session := s\<rparr>)))"

definition channel_event :: "'g chan_lib \<Rightarrow> bytes \<Rightarrow> bytes \<Rightarrow> bytes \<Rightarrow> chan_event" where
  "channel_event cl name sender pt =
     (case parse_attachment_frame pt of
        Some a \<Rightarrow> ChannelImage name (key_fp cl sender) (att_content a) (att_mime a) (att_filename a)
      | None \<Rightarrow> ChannelMessage name (key_fp cl sender) pt)"

text \<open>The distribution of the channel is installed for the sender whenever an envelope arrives.\<close>

definition receive_channel ::
  "sodium \<Rightarrow> 'g chan_lib \<Rightarrow> (nat \<Rightarrow> bytes) \<Rightarrow> u64 \<Rightarrow> bytes \<Rightarrow> bytes \<Rightarrow> envelope \<Rightarrow> 'g chan_client \<Rightarrow> 'g chan_client" where
  "receive_channel lib cl nonce rx_ms sender gid env c =
     (if length gid \<noteq> 32 then c
      else case om_find (chan_id_to_name c) gid of
             None \<Rightarrow> c
           | Some name \<Rightarrow>
               (let cs = chan_at name c;
                    cs = cs\<lparr>cs_session := snd (install_peer_distribution (skd_pb cl) (cs_session cs) sender (own_dist cs))\<rparr>
                in if env_aad env \<noteq> [] \<and> env_aad env \<noteq> envelope_aad_bytes (envelope_id env) (timestamp_ms env) then put_chan name cs c
                   else case channel_decrypt lib cl sender (ciphertext env) (env_aad env) cs of
                          (None, cs) \<Rightarrow> put_chan name cs c
                        | (Some pt, cs) \<Rightarrow>
                            show_event (channel_event cl name sender pt)
                              (on_store (chan_append_inbox lib (nonce 1) (cs_id cs) sender pt rx_ms)
                                (persist_chan_session lib (nonce 0) name cs (put_chan name cs c)))))"

text \<open>An invitation: the key of a channel in a direct message.\<close>

definition accept_invite ::
  "sodium \<Rightarrow> 'g chan_lib \<Rightarrow> (nat \<Rightarrow> bytes) \<Rightarrow> bytes \<Rightarrow> channel_key \<Rightarrow> 'g chan_client \<Rightarrow> 'g chan_client" where
  "accept_invite lib cl nonce sender ck c =
     (if length (ck_channel_id ck) \<noteq> 32 then c
      else let name = ck_channel_name ck;
               dist_blob = pb_ser (skd_pb cl) (ck_distribution ck);
               cs = (chan_at name c)\<lparr>cs_id := ck_channel_id ck, own_dist := dist_blob\<rparr>;
               cs = cs\<lparr>cs_session := snd (install_peer_distribution (skd_pb cl) (cs_session cs) sender dist_blob)\<rparr>;
               c = c\<lparr>chan_id_to_name := om_assign (ck_channel_id ck) name (chan_id_to_name c)\<rparr>;
               c = (if subscribed cs then c else wire_frame (FChanSubscribe (ck_channel_id ck)) c);
               cs = cs\<lparr>subscribed := True\<rparr>;
               c = persist_chan_meta lib (nonce 0) name cs (put_chan name cs c);
               c = persist_chan_peer_dist lib (nonce 1) cs sender dist_blob c;
               c = persist_chan_session lib (nonce 2) name cs c
           in show_event (ChannelJoined name) c)"

text \<open>\<open>dispatch_envelope\<close>, with the bodies of direct messages that concern calls and MLS handshakes left to the components
  that handle them.\<close>

definition dispatch_envelope ::
  "sodium \<Rightarrow> hs_lib \<Rightarrow> ratchet_message pb \<Rightarrow> dm_payload pb \<Rightarrow> 'g chan_lib \<Rightarrow> (bytes \<Rightarrow> bytes) \<Rightarrow> (nat \<Rightarrow> bytes) \<Rightarrow> u64 \<Rightarrow> envelope \<Rightarrow>
     'g chan_client \<Rightarrow> unit outcome \<times> 'g chan_client" where
  "dispatch_envelope lib hl pb dpb cl rnd nonce rx_ms env c =
     (case rcpt env of
        ChannelGroupId gid \<Rightarrow>
          (case resolve_sender lib hl pb dpb rnd env (dm c) of
             (Threw, d) \<Rightarrow> (Threw, c\<lparr>dm := d\<rparr>)
           | (Returned None, d) \<Rightarrow> (Returned (), c\<lparr>dm := d\<rparr>)
           | (Returned (Some (sender, pt)), d) \<Rightarrow> (Returned (), receive_channel lib cl nonce rx_ms sender gid env (c\<lparr>dm := d\<rparr>)))
      | _ \<Rightarrow>
          (case deliver_dm lib hl pb dpb rnd (nonce 3) rx_ms env (dm c) of
             (Threw, d) \<Rightarrow> (Threw, c\<lparr>dm := d\<rparr>)
           | (Returned None, d) \<Rightarrow> (Returned (), c\<lparr>dm := d\<rparr>)
           | (Returned (Some (sender, payload)), d) \<Rightarrow>
               (Returned (), case dm_body payload of
                  DmChannelKey w \<Rightarrow>
                    (case pb_parse (ck_pb cl) w of
                       None \<Rightarrow> c\<lparr>dm := d\<rparr>
                     | Some ck \<Rightarrow> accept_invite lib cl nonce sender ck (c\<lparr>dm := d\<rparr>))
                | _ \<Rightarrow> c\<lparr>dm := d\<rparr>)))"

subsection \<open>After a start\<close>

definition install_all :: "'g chan_lib \<Rightarrow> (bytes \<times> bytes) list \<Rightarrow> group_session \<Rightarrow> group_session" where
  "install_all cl ps s = foldl (\<lambda>s (peer, peer_dist). snd (install_peer_distribution (skd_pb cl) s peer peer_dist)) s ps"

definition restore_session :: "sodium \<Rightarrow> 'g chan_lib \<Rightarrow> bytes \<Rightarrow> bytes \<Rightarrow> store \<Rightarrow> group_session" where
  "restore_session lib cl name cid s =
     (let saved = Option.bind (load_session lib (chanstate_key name) s) deserialize_state
      in install_all cl (chan_peers lib cid s) (case saved of None \<Rightarrow> group_empty | Some g \<Rightarrow> g))"

text \<open>One row of the table of channels; \<open>Threw\<close> when the state of its MLS group does not verify.\<close>

definition restore_channel :: "sodium \<Rightarrow> 'g chan_lib \<Rightarrow> store \<Rightarrow> bytes \<times> chan_row \<Rightarrow> 'g chan_client \<Rightarrow> unit outcome \<times> 'g chan_client" where
  "restore_channel lib cl s row c =
     (case row of (name, r) \<Rightarrow>
        if length (cr_id r) \<noteq> 32 then (Returned (), c)
        else let cs = new_channel\<lparr>cs_id := cr_id r, own_dist := cr_dist r, cs_uses_mls := cr_mls r\<rparr>
             in case (if cr_mls r then mls_group_load lib (cr_id r) s else Returned None) of
                  Threw \<Rightarrow> (Threw, c)
                | Returned snap \<Rightarrow>
                    (let (cs, c) =
                       (case snap of
                          None \<Rightarrow> (cs, c)
                        | Some sn \<Rightarrow>
                            (case mls_replay cl (snap_seed sn) (snap_ops sn) of
                               Threw \<Rightarrow> (cs, show_event (ErrorOccurred ''MLS restore failed'') c)
                             | Returned g \<Rightarrow> (cs\<lparr>cs_mls := Some g, mls_next_seq := next_seq sn\<rparr>, c)));
                         cs = cs\<lparr>cs_session := restore_session lib cl name (cr_id r) s, subscribed := True\<rparr>;
                         c = wire_frame (FChanSubscribe (cr_id r)) c;
                         c = c\<lparr>chan_id_to_name := om_assign (cr_id r) name (chan_id_to_name c), channels := om_emplace name cs (channels c)\<rparr>
                     in (Returned (), show_event (ChannelJoined name) c)))"

fun restore_rows :: "sodium \<Rightarrow> 'g chan_lib \<Rightarrow> store \<Rightarrow> (bytes \<times> chan_row) list \<Rightarrow> 'g chan_client \<Rightarrow> unit outcome \<times> 'g chan_client" where
  "restore_rows lib cl s [] c = (Returned (), c)"
| "restore_rows lib cl s (r # rs) c =
     (case restore_channel lib cl s r c of (Threw, c) \<Rightarrow> (Threw, c) | (Returned _, c) \<Rightarrow> restore_rows lib cl s rs c)"

definition restore_channels :: "sodium \<Rightarrow> 'g chan_lib \<Rightarrow> 'g chan_client \<Rightarrow> unit outcome \<times> 'g chan_client" where
  "restore_channels lib cl c =
     (case cl_store (dm c) of None \<Rightarrow> (Returned (), c) | Some s \<Rightarrow> restore_rows lib cl s (chan_list lib s) c)"


subsection \<open>Receiving has no memory\<close>

text \<open>What an envelope says to somebody who holds the distribution of the channel and nothing else: its plaintext, if the
  message is on the chain, at most \<open>kMaxSkip\<close> past the start, and decrypts there.\<close>

definition verdict :: "sodium \<Rightarrow> 'g chan_lib \<Rightarrow> sender_keys_distribution \<Rightarrow> envelope \<Rightarrow> bytes option" where
  "verdict lib cl sk env =
     (if env_aad env \<noteq> [] \<and> env_aad env \<noteq> envelope_aad_bytes (envelope_id env) (timestamp_ms env) then None
      else case pb_parse (skm_pb cl) (ciphertext env) of
             None \<Rightarrow> None
           | Some m \<Rightarrow>
               if skm_chain_id m \<noteq> skd_chain_id sk \<or> skm_index m < skd_start_index sk \<or> gs_kMaxSkip < unat (skm_index m - skd_start_index sk)
               then None
               else xchacha20_decrypt lib (sk_mk_at lib (skd_chain_seed sk) (unat (skm_index m) - unat (skd_start_index sk))) (replicate 24 0)
                      (skm_ciphertext m) (sk_compose_aad (skm_chain_id m) (skm_index m) (env_aad env)))"

definition dist_sized :: "sender_keys_distribution \<Rightarrow> bool" where
  "dist_sized sk \<longleftrightarrow> length (skd_chain_id sk) = 16 \<and> length (skd_chain_seed sk) = 32"

text \<open>A channel of sender keys that has its distribution and is known by its identifier.\<close>

definition channel_ready :: "'g chan_lib \<Rightarrow> bytes \<Rightarrow> bytes \<Rightarrow> sender_keys_distribution \<Rightarrow> 'g chan_client \<Rightarrow> bool" where
  "channel_ready cl name gid sk c \<longleftrightarrow>
     om_invar (channels c) \<and> om_find (chan_id_to_name c) gid = Some name \<and> length gid = 32 \<and>
     own_dist (chan_at name c) = pb_ser (skd_pb cl) sk \<and> om_invar (peers (cs_session (chan_at name c))) \<and>
     \<not> (cs_uses_mls (chan_at name c) \<and> cs_mls (chan_at name c) \<noteq> None)"

lemma chan_at_put [simp]: "om_invar (channels c) \<Longrightarrow> chan_at n (put_chan m cs c) = (if n = m then cs else chan_at n c)"
  by (simp add: chan_at_def put_chan_def om_find_assign)

lemma chan_at_cong: "channels c = channels c' \<Longrightarrow> chan_at n c = chan_at n c'"
  by (simp add: chan_at_def)

lemma chan_client_simps [simp]:
  "channels (put_chan n cs c) = om_assign n cs (channels c)" "dm (put_chan n cs c) = dm c" "shown (put_chan n cs c) = shown c"
  "chan_id_to_name (put_chan n cs c) = chan_id_to_name c" "chan_files (put_chan n cs c) = chan_files c"
  "channels (on_store f c) = channels c" "shown (on_store f c) = shown c" "chan_id_to_name (on_store f c) = chan_id_to_name c"
  "channels (show_event e c) = channels c" "shown (show_event e c) = shown c @ [e]" "chan_id_to_name (show_event e c) = chan_id_to_name c"
  "dm (show_event e c) = dm c" "cl_id (dm (on_store f c)) = cl_id (dm c)" "sessions (dm (on_store f c)) = sessions (dm c)"
  "outgoing (dm (on_store f c)) = outgoing (dm c)" "send_queue (dm (on_store f c)) = send_queue (dm c)"
  "channels (wire_frame w c) = channels c" "shown (wire_frame w c) = shown c" "chan_id_to_name (wire_frame w c) = chan_id_to_name c"
  "dm (wire_frame w c) = emit_frame w (dm c)"
  "chan_at n (on_store f c) = chan_at n c" "chan_at n (show_event e c) = chan_at n c" "chan_at n (wire_frame w c) = chan_at n c"
  "chan_at n (c\<lparr>dm := d\<rparr>) = chan_at n c" "chan_at n (c\<lparr>chan_id_to_name := m\<rparr>) = chan_at n c"
  by (simp_all add: put_chan_def on_store_def show_event_def wire_frame_def emit_frame_def chan_at_def)

lemmas persist_defs = persist_chan_session_def persist_chan_meta_def persist_chan_peer_dist_def

lemma advance_key:
  "pc_next_index c \<le> target \<Longrightarrow>
     pc_chain_key (advance_loop lib target c) = sk_ck_at lib (pc_chain_key c) (unat target - unat (pc_next_index c))"
proof (induction lib target c rule: advance_loop.induct)
  case (1 lib target c)
  have shift: "sk_ck_at lib (ratchet_chain_key lib k) n = sk_ck_at lib k (Suc n)" for k n by (induction n) simp_all
  show ?case
  proof (cases "pc_next_index c < target")
    case True
    note step = next_index_step [OF True]
    have "unat target - unat (pc_next_index c) = Suc (unat target - unat (pc_next_index c + 1))"
      using True step(1) by (simp add: word_less_nat_alt)
    then show ?thesis using 1 True step(3) by (subst advance_loop.simps) (simp add: shift)
  next
    case False
    with 1(2) show ?thesis by (subst advance_loop.simps) simp
  qed
qed

text \<open>A chain as it is right after its installation.\<close>

definition fresh_chain :: "sender_keys_distribution \<Rightarrow> per_peer_chain" where
  "fresh_chain sk = \<lparr>pc_chain_id = skd_chain_id sk, pc_chain_key = skd_chain_seed sk, pc_next_index = skd_start_index sk, pc_skipped = []\<rparr>"

lemma fresh_chain_decrypt:
  "fst (chain_decrypt lib m aad (fresh_chain sk)) =
     (if skm_chain_id m \<noteq> skd_chain_id sk \<or> skm_index m < skd_start_index sk \<or> gs_kMaxSkip < unat (skm_index m - skd_start_index sk) then None
      else xchacha20_decrypt lib (sk_mk_at lib (skd_chain_seed sk) (unat (skm_index m) - unat (skd_start_index sk))) (replicate 24 0)
             (skm_ciphertext m) (sk_compose_aad (skm_chain_id m) (skm_index m) aad))"
proof -
  have "pc_chain_key (advance_loop lib (skm_index m) (fresh_chain sk)) =
      sk_ck_at lib (skd_chain_seed sk) (unat (skm_index m) - unat (skd_start_index sk))" if "skd_start_index sk \<le> skm_index m"
    using advance_key [of "fresh_chain sk" "skm_index m" lib] that by (simp add: fresh_chain_def)
  then show ?thesis
    by (auto simp: chain_decrypt_def advance_chain_to_def fresh_chain_def sk_mk_at_def om_find_def Let_def split: option.splits)
qed

lemma install_fresh:
  assumes "pb_ok pbd" "dist_sized sk" "om_invar (peers s)"
  shows "snd (install_peer_distribution pbd s p (pb_ser pbd sk)) = s\<lparr>peers := om_assign p (fresh_chain sk) (peers s)\<rparr>"
  using assms by (simp add: install_peer_distribution_def pb_okD dist_sized_def fresh_chain_def)

lemma group_decrypt_fresh:
  assumes "om_invar (peers s)" "dist_sized sk"
  shows "fst (group_decrypt lib pb (s\<lparr>peers := om_assign p (fresh_chain sk) (peers s)\<rparr>) p ct aad) =
      (case pb_parse pb ct of None \<Rightarrow> None | Some m \<Rightarrow> fst (chain_decrypt lib m aad (fresh_chain sk)))"
    and "om_invar (peers (snd (group_decrypt lib pb (s\<lparr>peers := om_assign p (fresh_chain sk) (peers s)\<rparr>) p ct aad)))"
  using assms
  by (auto simp: group_decrypt_def om_find_assign om_invar_assign dist_sized_def fresh_chain_decrypt case_prod_beta split: option.splits)

lemma receive_channel_ready:
  assumes "channel_ready cl name gid sk c" "pb_ok (skd_pb cl)" "dist_sized sk"
  shows "shown (receive_channel lib cl nonce rx sender gid env c) =
      shown c @ (case verdict lib cl sk env of None \<Rightarrow> [] | Some pt \<Rightarrow> [channel_event cl name sender pt])"
    and "channel_ready cl name gid sk (receive_channel lib cl nonce rx sender gid env c)"
proof -
  let ?cs = "chan_at name c"
  let ?s = "(cs_session ?cs)\<lparr>peers := om_assign sender (fresh_chain sk) (peers (cs_session ?cs))\<rparr>"
  have r: "om_invar (channels c)" "om_find (chan_id_to_name c) gid = Some name" "length gid = 32"
    "own_dist ?cs = pb_ser (skd_pb cl) sk" "om_invar (peers (cs_session ?cs))" "\<not> (cs_uses_mls ?cs \<and> cs_mls ?cs \<noteq> None)"
    using assms(1) unfolding channel_ready_def by blast+
  note inst = install_fresh [OF assms(2,3) r(5)]
  obtain pt s' where d: "group_decrypt lib (skm_pb cl) ?s sender (ciphertext env) (env_aad env) = (pt, s')" by fastforce
  have pt: "pt = (case pb_parse (skm_pb cl) (ciphertext env) of None \<Rightarrow> None | Some m \<Rightarrow> fst (chain_decrypt lib m (env_aad env) (fresh_chain sk)))"
    and s': "om_invar (peers s')"
    using group_decrypt_fresh [OF r(5) assms(3), of lib "skm_pb cl" sender "ciphertext env" "env_aad env"] by (simp_all add: d)
  have dec: "channel_decrypt lib cl sender (ciphertext env) (env_aad env) (?cs\<lparr>cs_session := ?s\<rparr>) = (pt, ?cs\<lparr>cs_session := s'\<rparr>)"
    using r(6) d by (cases "cs_mls ?cs") (auto simp: channel_decrypt_def split: bool.splits)
  have v: "verdict lib cl sk env =
      (if env_aad env \<noteq> [] \<and> env_aad env \<noteq> envelope_aad_bytes (envelope_id env) (timestamp_ms env) then None else pt)"
    by (simp add: verdict_def pt fresh_chain_decrypt split: option.split)
  show "shown (receive_channel lib cl nonce rx sender gid env c) =
      shown c @ (case verdict lib cl sk env of None \<Rightarrow> [] | Some pt \<Rightarrow> [channel_event cl name sender pt])"
    using r dec v by (auto simp: receive_channel_def inst persist_defs Let_def split: option.split)
  show "channel_ready cl name gid sk (receive_channel lib cl nonce rx sender gid env c)"
    using r dec s' by (auto simp: receive_channel_def inst persist_defs Let_def channel_ready_def om_invar_assign split: option.split)
qed


subsection \<open>From the creator to an invited member\<close>

lemma dispatch_channel:
  assumes "rcpt env = ChannelGroupId gid" "length (sender_pubkey env) = 32"
  shows "dispatch_envelope lib hl pb dpb cl rnd nonce rx env c = (Returned (), receive_channel lib cl nonce rx (sender_pubkey env) gid env c)"
proof -
  have "sender_pubkey env \<noteq> []" using assms(2) by auto
  then show ?thesis using assms by (simp add: dispatch_envelope_def resolve_sender_def)
qed

lemma dispatch_channel_dropped:
  assumes "rcpt env = ChannelGroupId gid" "length (sender_pubkey env) \<noteq> 32"
  shows "dispatch_envelope lib hl pb dpb cl rnd nonce rx env c = (Returned (), c)"
  using assms by (simp add: dispatch_envelope_def resolve_sender_def)

type_synonym arrival = "(bytes \<Rightarrow> bytes) \<times> (nat \<Rightarrow> bytes) \<times> u64 \<times> envelope"

definition take_in ::
  "sodium \<Rightarrow> hs_lib \<Rightarrow> ratchet_message pb \<Rightarrow> dm_payload pb \<Rightarrow> 'g chan_lib \<Rightarrow> 'g chan_client \<Rightarrow> arrival \<Rightarrow> 'g chan_client" where
  "take_in lib hl pb dpb cl c a = (case a of (rnd, nonce, rx, env) \<Rightarrow> snd (dispatch_envelope lib hl pb dpb cl rnd nonce rx env c))"

definition arrival_events :: "sodium \<Rightarrow> 'g chan_lib \<Rightarrow> bytes \<Rightarrow> sender_keys_distribution \<Rightarrow> arrival \<Rightarrow> chan_event list" where
  "arrival_events lib cl name sk a =
     (case a of (rnd, nonce, rx, env) \<Rightarrow>
        if length (sender_pubkey env) \<noteq> 32 then []
        else case verdict lib cl sk env of None \<Rightarrow> [] | Some pt \<Rightarrow> [channel_event cl name (sender_pubkey env) pt])"

lemma take_in_ready:
  assumes "channel_ready cl name gid sk c" "pb_ok (skd_pb cl)" "dist_sized sk" "\<forall>(rnd, nonce, rx, env)\<in>set as. rcpt env = ChannelGroupId gid"
  shows "shown (foldl (take_in lib hl pb dpb cl) c as) = shown c @ concat (map (arrival_events lib cl name sk) as)"
    and "channel_ready cl name gid sk (foldl (take_in lib hl pb dpb cl) c as)"
proof -
  have "shown (foldl (take_in lib hl pb dpb cl) c as) = shown c @ concat (map (arrival_events lib cl name sk) as) \<and>
      channel_ready cl name gid sk (foldl (take_in lib hl pb dpb cl) c as)"
    using assms(1,4)
  proof (induction as arbitrary: c)
    case (Cons a as)
    obtain rnd nonce rx env where a: "a = (rnd, nonce, rx, env)" by (metis surj_pair)
    let ?c = "take_in lib hl pb dpb cl c a"
    have "shown ?c = shown c @ arrival_events lib cl name sk a \<and> channel_ready cl name gid sk ?c"
      using Cons.prems receive_channel_ready [OF Cons.prems(1) assms(2,3), of lib nonce rx "sender_pubkey env" env]
      by (cases "length (sender_pubkey env) = 32") (simp_all add: a take_in_def arrival_events_def dispatch_channel dispatch_channel_dropped)
    with Cons.IH [of ?c] Cons.prems(2) show ?case by simp
  qed simp
  then show "shown (foldl (take_in lib hl pb dpb cl) c as) = shown c @ concat (map (arrival_events lib cl name sk) as)"
    and "channel_ready cl name gid sk (foldl (take_in lib hl pb dpb cl) c as)" by blast+
qed

text \<open>The envelope of the \<open>i\<close>-th message on a chain.\<close>

definition channel_envelope :: "sodium \<Rightarrow> 'g chan_lib \<Rightarrow> bytes \<Rightarrow> bytes \<Rightarrow> bytes \<Rightarrow> bytes \<Rightarrow> nat \<Rightarrow> bytes \<Rightarrow> chan_draws \<Rightarrow> envelope" where
  "channel_envelope lib cl me gid cid seed i text d =
     \<lparr>envelope_id = cd_envid d, timestamp_ms = cd_now d, sender_pubkey = me,
      ciphertext = pb_ser (skm_pb cl) (genuine_message lib cid seed 0 (of_nat i) text (envelope_aad_bytes (cd_envid d) (cd_now d))),
      env_aad = envelope_aad_bytes (cd_envid d) (cd_now d), aead_alg = 1, protocol_version = 1, env_signature = [],
      pq_ct = [], rcpt = ChannelGroupId gid\<rparr>"

lemma verdict_genuine:
  assumes "xchacha_ok lib" "pb_ok (skm_pb cl)" "i \<le> gs_kMaxSkip" "skd_chain_id sk = cid" "skd_chain_seed sk = seed" "skd_start_index sk = 0"
  shows "verdict lib cl sk (channel_envelope lib cl me gid cid seed i text d) = Some text"
proof -
  have "unat (of_nat i :: u32) = i" using assms(3) by (simp add: unat_of_nat gs_kMaxSkip_def)
  with assms show ?thesis
    by (simp add: verdict_def channel_envelope_def pb_okD genuine_message_def xchacha20_roundtrip)
qed












lemma accept_invite_ready:
  assumes "om_invar (channels c)" "om_invar (chan_id_to_name c)" "chan_at name c = new_channel" "length gid = 32"
    and "pb_ok (skd_pb cl)" "dist_sized sk"
  shows "channel_ready cl name gid sk (accept_invite lib cl nonce sender \<lparr>ck_channel_id = gid, ck_channel_name = name, ck_distribution = sk\<rparr> c)"
    and "shown (accept_invite lib cl nonce sender \<lparr>ck_channel_id = gid, ck_channel_name = name, ck_distribution = sk\<rparr> c) = shown c @ [ChannelJoined name]"
proof -
  have e: "peers group_empty = []" by (simp add: group_empty_def)
  note i = install_fresh [OF assms(5,6), of group_empty sender, unfolded e, simplified]
  show "channel_ready cl name gid sk (accept_invite lib cl nonce sender \<lparr>ck_channel_id = gid, ck_channel_name = name, ck_distribution = sk\<rparr> c)"
    using assms i
    by (simp add: accept_invite_def persist_defs channel_ready_def new_channel_def om_invar_assign om_find_assign Let_def om_invar_Cons chan_at_cong [of "c\<lparr>chan_id_to_name := m\<rparr>" c for m])
  show "shown (accept_invite lib cl nonce sender \<lparr>ck_channel_id = gid, ck_channel_name = name, ck_distribution = sk\<rparr> c) = shown c @ [ChannelJoined name]"
    using assms(3,4) by (simp add: accept_invite_def persist_defs new_channel_def Let_def)
qed





subsection \<open>Across a restart\<close>

lemma deserialize_peers_invar: "deserialize_peers n v m = Some m' \<Longrightarrow> om_invar m \<Longrightarrow> om_invar m'"
proof (induction n v m rule: deserialize_peers.induct)
  case (2 n v m)
  then show ?case by (auto simp: om_invar_emplace split: option.splits prod.splits)
qed simp

lemma restore_session_invar: "om_invar (peers (restore_session lib cl name cid s))"
proof -
  have "om_invar (peers g)" if "deserialize_state b = Some g" for b g
    using that by (auto simp: deserialize_state_def intro: deserialize_peers_invar split: option.splits prod.splits if_splits)
  moreover have "om_invar (peers (install_all cl ps g))" if "om_invar (peers g)" for ps g
    using that by (induction ps arbitrary: g)
      (auto simp: install_all_def install_peer_distribution_def om_invar_assign Let_def split: option.splits)
  ultimately show ?thesis by (auto simp: restore_session_def Let_def group_empty_def split: option.splits bind_splits)
qed

text \<open>Rows of other channels leave a restored channel alone.\<close>

lemma restore_channel_row:
  assumes "\<not> cr_mls r" "om_invar (channels c)" "om_invar (chan_id_to_name c)" "length (cr_id r) = 32"
  shows "\<exists>c'. restore_channel lib cl s (n, r) c = (Returned (), c') \<and> om_invar (channels c') \<and> om_invar (chan_id_to_name c') \<and>
    (om_find (channels c) n = None \<longrightarrow> own_dist (chan_at n c') = cr_dist r \<and> om_invar (peers (cs_session (chan_at n c'))) \<and>
       \<not> cs_uses_mls (chan_at n c') \<and> om_find (chan_id_to_name c') (cr_id r) = Some n) \<and>
    (\<forall>m. m \<noteq> n \<longrightarrow> om_find (channels c') m = om_find (channels c) m) \<and>
    (\<forall>i. i \<noteq> cr_id r \<longrightarrow> om_find (chan_id_to_name c') i = om_find (chan_id_to_name c) i)"
  using assms
  by (simp add: restore_channel_def new_channel_def chan_at_def om_find_emplace om_invar_emplace om_find_assign om_invar_assign
      restore_session_invar Let_def)

lemma restore_rows_ready:
  assumes "list_all (\<lambda>(n, r). \<not> cr_mls r \<and> length (cr_id r) = 32) rows" "distinct (map fst rows)" "distinct (map (cr_id \<circ> snd) rows)"
    and "om_invar (channels c)" "om_invar (chan_id_to_name c)"
    and "(name, r) \<in> set rows \<and> om_find (channels c) name = None \<or> channel_ready cl name gid sk c \<and> name \<notin> fst ` set rows \<and> gid \<notin> (cr_id \<circ> snd) ` set rows"
    and "(name, r) \<in> set rows \<Longrightarrow> cr_id r = gid \<and> cr_dist r = pb_ser (skd_pb cl) sk"
  shows "\<exists>c'. restore_rows lib cl s rows c = (Returned (), c') \<and> channel_ready cl name gid sk c'"
  using assms
proof (induction rows arbitrary: c)
  case (Cons row rows)
  obtain n q where row: "row = (n, q)" by fastforce
  have q: "\<not> cr_mls q" "length (cr_id q) = 32" using Cons.prems(1) by (simp_all add: row)
  obtain c' where c': "restore_channel lib cl s (n, q) c = (Returned (), c')" "om_invar (channels c')" "om_invar (chan_id_to_name c')"
    "om_find (channels c) n = None \<longrightarrow> own_dist (chan_at n c') = cr_dist q \<and> om_invar (peers (cs_session (chan_at n c'))) \<and>
       \<not> cs_uses_mls (chan_at n c') \<and> om_find (chan_id_to_name c') (cr_id q) = Some n"
    "\<forall>m. m \<noteq> n \<longrightarrow> om_find (channels c') m = om_find (channels c) m"
    "\<forall>i. i \<noteq> cr_id q \<longrightarrow> om_find (chan_id_to_name c') i = om_find (chan_id_to_name c) i"
    using restore_channel_row [OF q(1) Cons.prems(4,5) q(2), of lib cl s n] by (elim exE conjE) (rule that)
  have inv: "(name, r) \<in> set rows \<and> om_find (channels c') name = None \<or> channel_ready cl name gid sk c' \<and> name \<notin> fst ` set rows \<and> gid \<notin> (cr_id \<circ> snd) ` set rows"
  proof (cases "(name, r) \<in> set (row # rows) \<and> om_find (channels c) name = None")
    case True
    show ?thesis
    proof (cases "(name, r) = row")
      case here: True
      then have "channel_ready cl name gid sk c'"
        using Cons.prems(7) True c' q(2) by (simp add: row channel_ready_def)
      moreover have "name \<notin> fst ` set rows" "gid \<notin> (cr_id \<circ> snd) ` set rows"
        using Cons.prems(2,3,7) here by (auto simp: row)
      ultimately show ?thesis by blast
    next
      case False
      then have mem: "(name, r) \<in> set rows" using True by simp
      then have "name \<noteq> n" using Cons.prems(2) by (force simp: row)
      with True c'(5) mem show ?thesis by simp
    qed
  next
    case False
    with Cons.prems(6) have old: "channel_ready cl name gid sk c" "name \<notin> fst ` set (row # rows)" "gid \<notin> (cr_id \<circ> snd) ` set (row # rows)" by blast+
    then have "chan_at name c' = chan_at name c" "om_find (chan_id_to_name c') gid = om_find (chan_id_to_name c) gid"
      using c'(5,6) by (auto simp: row chan_at_def)
    with old c'(2) show ?thesis by (simp add: channel_ready_def)
  qed
  have "\<exists>c''. restore_rows lib cl s rows c' = (Returned (), c'') \<and> channel_ready cl name gid sk c''"
    using Cons.prems(1-3,7) by (intro Cons.IH [OF _ _ _ c'(2,3) inv]) simp_all
  with c'(1) show ?case by (simp add: row)
qed simp

text \<open>The table of channels: every channel is of sender keys and has an identifier of its own.\<close>

definition rows_ok :: "(bytes, chan_row) umap \<Rightarrow> bool" where
  "rows_ok t \<longleftrightarrow> um_ok t \<and> inj_on (cr_id \<circ> snd) (set t) \<and> list_all (\<lambda>(n, r). \<not> cr_mls r \<and> length (cr_id r) = 32) t"

lemma um_put_rows: "um_ok t \<Longrightarrow> set (um_put k v t) = insert (k, v) {x \<in> set t. fst x \<noteq> k}"
  by (auto simp: um_find_mem [OF um_ok_put] um_find_mem [symmetric] simp flip: um_find_mem split: if_splits)

lemma rows_ok_put:
  assumes "rows_ok t" "\<not> cr_mls r" "length (cr_id r) = 32" "\<forall>(n, q)\<in>set t. cr_id q = cr_id r \<longrightarrow> n = k"
  shows "rows_ok (um_put k r t)"
  using assms by (auto simp: rows_ok_def um_put_rows list_all_iff inj_on_def)

lemma chan_list_rows:
  assumes "rows_ok (t_chan_state (db s))"
  shows "list_all (\<lambda>(n, r). \<not> cr_mls r \<and> length (cr_id r) = 32) (chan_list lib s)" "distinct (map fst (chan_list lib s))"
    "distinct (map (cr_id \<circ> snd) (chan_list lib s))"
proof -
  let ?t = "sort_key fst (t_chan_state (db s))"
  have f: "map fst (chan_list lib s) = map fst ?t" and i: "map (cr_id \<circ> snd) (chan_list lib s) = map (cr_id \<circ> snd) ?t"
    by (simp_all add: chan_list_def comp_def case_prod_beta)
  have d: "distinct (map fst ?t)" "distinct ?t"
    using assms by (simp_all add: rows_ok_def um_ok_def distinct_map)
  show "distinct (map fst (chan_list lib s))" unfolding f by (rule d(1))
  show "distinct (map (cr_id \<circ> snd) (chan_list lib s))" unfolding i using d(2) assms by (simp add: distinct_map rows_ok_def)
  show "list_all (\<lambda>(n, r). \<not> cr_mls r \<and> length (cr_id r) = 32) (chan_list lib s)"
    using assms by (auto simp: chan_list_def rows_ok_def list_all_iff)
qed

lemma chan_list_saved:
  assumes "gid \<noteq> []" and "xchacha_ok lib" "length nonce = kXNonce" "own \<noteq> []" "0 \<notin> set name" "um_ok (t_chan_state (db s))"
    and "t_chan_state (db s') = t_chan_state (db (chan_save lib nonce name gid own False s))" "keys s' = keys s" "encrypt_at_rest s' = encrypt_at_rest s"
  shows "(name, \<lparr>cr_id = gid, cr_dist = own, cr_mls = False\<rparr>) \<in> set (chan_list lib s')"
proof -
  have "aead_wrap lib nonce k own name \<noteq> []" for k using assms(3) by (auto simp: aead_wrap_def kXNonce_def)
  then show ?thesis
    using assms
    by (auto simp: chan_list_def chan_save_def not_null_def um_put_rows to_disk_def intro!: image_eqI)
qed

subsection \<open>Properties\<close>



text \<open>Concrete formats, and two clients with a session between them.\<close>

definition toy_ck_pb :: "channel_key pb" where
  "toy_ck_pb = \<lparr>
     pb_ser = (\<lambda>k. put_field (ck_channel_id k) @ put_field (ck_channel_name k) @ pb_ser toy_skd_pb (ck_distribution k)),
     pb_parse = (\<lambda>w. let (i, w) = get_field w; (n, w) = get_field w
        in map_option (\<lambda>sk. \<lparr>ck_channel_id = i, ck_channel_name = n, ck_distribution = sk\<rparr>) (pb_parse toy_skd_pb w))\<rparr>"

definition toy_mi_pb :: "mls_invite pb" where
  "toy_mi_pb = \<lparr>pb_ser = (\<lambda>k. put_field (mi_channel_id k) @ put_field (mi_channel_name k)),
     pb_parse = (\<lambda>w. let (i, w) = get_field w; (n, w) = get_field (w @ []) in Some \<lparr>mi_channel_id = i, mi_channel_name = n\<rparr>)\<rparr>"

lemma toy_ck_pb_ok: "pb_ok toy_ck_pb"
  by (simp add: pb_ok_def toy_ck_pb_def pb_okD [OF toy_skd_pb_ok])

definition toy_chan_lib :: "unit chan_lib" where
  "toy_chan_lib = \<lparr>chan_hash = (\<lambda>n k. 1 # toy_pad n), skm_pb = toy_skm_pb, skd_pb = toy_skd_pb, ck_pb = toy_ck_pb, mi_pb = toy_mi_pb, key_fp = id,
     mls_create = (\<lambda>me gid. Threw), mls_encrypt = (\<lambda>g pt. (Threw, g)), mls_decrypt = (\<lambda>g ct. (None, g)), mls_seed = (\<lambda>g. []),
     mls_replay = (\<lambda>sd ops. Threw)\<rparr>"

lemma toy_chan_lib_ok:
  "pb_ok (skm_pb toy_chan_lib)" "pb_ok (skd_pb toy_chan_lib)" "pb_ok (ck_pb toy_chan_lib)" "\<forall>x. pb_ser (skd_pb toy_chan_lib) x \<noteq> []"
  by (simp_all add: toy_chan_lib_def toy_skm_pb_ok toy_skd_pb_ok toy_ck_pb_ok) (simp add: toy_skd_pb_def put_field_def)


definition toy_member :: "dm_client \<Rightarrow> unit chan_client" where
  "toy_member c = \<lparr>dm = c, channels = [], chan_id_to_name = [], active_voice_rooms = [], chan_files = Map.empty, shown = []\<rparr>"


definition toy_bob :: "unit chan_client" where
  "toy_bob = toy_member ((toy_client [6] [])\<lparr>sessions :=
     [([65], empty_session\<lparr>rat := Some (init_bob (replicate 32 7) [6] (scalarmult_base toy_sodium [6])), sess_peer_pub := 1 # toy_pad [9]\<rparr>)]\<rparr>)"


definition toy_chan_draws :: "nat \<Rightarrow> chan_draws" where
  "toy_chan_draws i = \<lparr>cd_chain_id = replicate 16 3, cd_chain_key = replicate 32 4, cd_envid = [of_nat i], cd_now = 5, cd_nonce = (\<lambda>_. []),
     cd_writable = (\<lambda>_. True), cd_uplink = 1\<rparr>"



text \<open>C3. Receiving on a channel of sender keys has no memory: whatever arrives for the channel, from whomever, each envelope
  is shown exactly when it opens under the distribution of the channel as that was handed out, whatever arrived
  before and whoever is named as its sender. In particular an envelope that is replayed is shown again, messages
  more than \<open>kMaxSkip\<close> past the start of the chain are never shown, and everybody who has the distribution can write under
  the name of everybody else.\<close>

theorem channel_reception_stateless:
  assumes "channel_ready cl name gid sk c" "pb_ok (skd_pb cl)" "dist_sized sk" "\<forall>(rnd, nonce, rx, env)\<in>set as. rcpt env = ChannelGroupId gid"
  shows "shown (foldl (take_in lib hl pb dpb cl) c as) = shown c @ concat (map (arrival_events lib cl name sk) as)"
  by (rule take_in_ready(1) [OF assms])

definition toy_invited :: "unit chan_client" where
  "toy_invited = accept_invite toy_sodium toy_chan_lib (\<lambda>_. []) (1 # toy_pad [9])
     \<lparr>ck_channel_id = replicate 32 8, ck_channel_name = [35], ck_distribution = demo_dist\<rparr> toy_bob"

lemma demo_dist_sized: "dist_sized demo_dist"
  by (simp add: dist_sized_def demo_dist_def)

lemma toy_invited_ready: "channel_ready toy_chan_lib [35] (replicate 32 8) demo_dist toy_invited" "shown toy_invited = [ChannelJoined [35]]"
  unfolding toy_invited_def
  using accept_invite_ready [of toy_bob "[35]" "replicate 32 8" toy_chan_lib demo_dist toy_sodium "\<lambda>_. []" "1 # toy_pad [9]"]
    demo_dist_sized toy_chan_lib_ok(2)
  by (simp_all add: toy_bob_def toy_member_def chan_at_def om_find_def)

theorem channel_reception_stateless_witness:
  "shown (foldl (take_in toy_sodium toy_hs toy_ratchet_pb toy_dm_pb toy_chan_lib) toy_invited
     (let e = channel_envelope toy_sodium toy_chan_lib (1 # toy_pad [7]) (replicate 32 8) (replicate 16 1) (replicate 32 2) 3 [72] (toy_chan_draws 0)
      in [(\<lambda>_. [], \<lambda>_. [], 0, e), (\<lambda>_. [], \<lambda>_. [], 0, e)])) =
   [ChannelJoined [35], ChannelMessage [35] (1 # toy_pad [7]) [72], ChannelMessage [35] (1 # toy_pad [7]) [72]]"
proof -
  let ?e = "channel_envelope toy_sodium toy_chan_lib (1 # toy_pad [7]) (replicate 32 8) (replicate 16 1) (replicate 32 2) 3 [72] (toy_chan_draws 0)"
  have v: "verdict toy_sodium toy_chan_lib demo_dist ?e = Some [72]"
    by (rule verdict_genuine [OF toy_xchacha_ok toy_chan_lib_ok(1)]) (simp_all add: gs_kMaxSkip_def demo_dist_def)
  have r: "rcpt ?e = ChannelGroupId (replicate 32 8)" "sender_pubkey ?e = 1 # toy_pad [7]" by (simp_all add: channel_envelope_def)
  have "channel_event toy_chan_lib [35] (1 # toy_pad [7]) [72] = ChannelMessage [35] (1 # toy_pad [7]) [72]"
    by (simp add: channel_event_def parse_attachment_frame_def is_framed_attachment_def att_kMagic_def toy_chan_lib_def)
  then have ev: "arrival_events toy_sodium toy_chan_lib [35] demo_dist (\<lambda>_. [], \<lambda>_. [], 0, ?e) = [ChannelMessage [35] (1 # toy_pad [7]) [72]]"
    by (simp add: arrival_events_def v r)
  show ?thesis
    using channel_reception_stateless [OF toy_invited_ready(1) toy_chan_lib_ok(2) demo_dist_sized,
        of "[(\<lambda>_. [], \<lambda>_. [], 0, ?e), (\<lambda>_. [], \<lambda>_. [], 0, ?e)]" toy_sodium toy_hs toy_ratchet_pb toy_dm_pb] r(1)
    by (simp add: ev toy_invited_ready(2) Let_def)
qed

text \<open>C40. A member who was invited cannot write: after the invitation to a channel the client did not know, an attempt to send to it ends
  with an error, and nothing is sent.\<close>

theorem channel_invitee_mute:
  assumes "om_invar (channels c)" "chan_at (ck_channel_name ck) c = new_channel" "length (ck_channel_id ck) = 32" "pb_ser (skd_pb cl) (ck_distribution ck) \<noteq> []"
    and "invited = accept_invite lib cl nonce sender ck c"
  shows "\<exists>c'. channel_op lib hl pb dpb cl d ((chan_op KSend (ck_channel_name ck))\<lparr>co_text := text\<rparr>) invited = (Returned True, c') \<and>
    shown c' = shown invited @ [ErrorOccurred ''channel send failed''] \<and> outgoing (dm c') = outgoing (dm invited)"
proof -
  let ?name = "ck_channel_name ck"
  have ch: "om_invar (channels invited)"
    using assms(1,3) by (simp add: assms(5) accept_invite_def persist_defs om_invar_assign Let_def)
  have "\<not> have_own_chain (snd (install_peer_distribution (skd_pb cl) group_empty sender (pb_ser (skd_pb cl) (ck_distribution ck))))"
    by (simp add: install_peer_distribution_def group_empty_def Let_def split: option.split)
  then have cs: "own_dist (chan_at ?name invited) \<noteq> []" "\<not> have_own_chain (cs_session (chan_at ?name invited))" "\<not> cs_uses_mls (chan_at ?name invited)"
    using assms(1-4) by (simp_all add: assms(5) accept_invite_def persist_defs new_channel_def Let_def)
  let ?c = "enter_channel cl ?name invited"
  have e: "om_invar (channels ?c)" "own_dist (chan_at ?name ?c) \<noteq> []" "\<not> have_own_chain (cs_session (chan_at ?name ?c))" "\<not> cs_uses_mls (chan_at ?name ?c)"
    "shown ?c = shown invited" "dm ?c = dm invited"
    using ch cs by (simp_all add: enter_channel_def om_invar_assign Let_def)
  have "channel_encrypt lib cl text aad (chan_at ?name ?c) = (Threw, chan_at ?name ?c)" for aad
    using e(3,4) by (simp add: channel_encrypt_def group_encrypt_def)
  with e show ?thesis by (simp add: channel_op_def chan_op_def op_send_def Let_def)
qed

theorem channel_invitee_mute_witness:
  "\<exists>c'. channel_op toy_sodium toy_hs toy_ratchet_pb toy_dm_pb toy_chan_lib (toy_chan_draws 0) ((chan_op KSend [35])\<lparr>co_text := [72]\<rparr>) toy_invited = (Returned True, c') \<and>
    shown c' = shown toy_invited @ [ErrorOccurred ''channel send failed''] \<and> outgoing (dm c') = outgoing (dm toy_invited)"
  using channel_invitee_mute [of toy_bob "\<lparr>ck_channel_id = replicate 32 8, ck_channel_name = [35], ck_distribution = demo_dist\<rparr>" toy_chan_lib toy_invited toy_sodium
      "\<lambda>_. []" "1 # toy_pad [9]" toy_hs toy_ratchet_pb toy_dm_pb "toy_chan_draws 0" "[72]"] toy_chan_lib_ok(4)
  by (simp add: toy_invited_def) (simp add: toy_bob_def toy_member_def chan_at_def om_find_def)


text \<open>C30. An invitation survives a restart: when the client has accepted one and is started again with its database, the
  channel is restored, next to the other channels of sender keys, and envelopes for it are shown as before.\<close>

theorem channel_survives_restart:
  assumes "xchacha_ok lib" "pb_ok (skd_pb cl)" "\<forall>x. pb_ser (skd_pb cl) x \<noteq> []" "dist_sized sk" "length gid = 32" "0 \<notin> set name" "\<forall>i. length (nonce i) = kXNonce"
    and "chan_at name c = new_channel" "cl_store (dm c) = Some s" "rows_ok (t_chan_state (db s))"
    and "\<forall>(n, r)\<in>set (t_chan_state (db s)). cr_id r = gid \<longrightarrow> n = name"
    and "channels c0 = []" "chan_id_to_name c0 = []"
    and "cl_store (dm c0) = cl_store (dm (accept_invite lib cl nonce sender \<lparr>ck_channel_id = gid, ck_channel_name = name, ck_distribution = sk\<rparr> c))"
  shows "\<exists>c1. restore_channels lib cl c0 = (Returned (), c1) \<and>
    (\<forall>as. (\<forall>(rnd, nonce, rx, env)\<in>set as. rcpt env = ChannelGroupId gid) \<longrightarrow>
      shown (foldl (take_in lib hl pb dpb cl) c1 as) = shown c1 @ concat (map (arrival_events lib cl name sk) as))"
proof -
  let ?own = "pb_ser (skd_pb cl) sk" and ?saved = "chan_save lib (nonce 0) name gid (pb_ser (skd_pb cl) sk) False s"
  obtain s' where s': "cl_store (dm c0) = Some s'" "t_chan_state (db s') = t_chan_state (db ?saved)" "keys s' = keys s" "encrypt_at_rest s' = encrypt_at_rest s"
    using assms(5,8,9,14)
    by (auto simp: accept_invite_def persist_defs on_store_def put_chan_def show_event_def wire_frame_def emit_frame_def new_channel_def
        chan_save_def chan_save_peer_def save_session_def Let_def split: if_splits)
  have mem: "(name, \<lparr>cr_id = gid, cr_dist = ?own, cr_mls = False\<rparr>) \<in> set (chan_list lib s')"
    using assms(1,3,6,7,10) s'(2-4) assms(5) by (intro chan_list_saved [of gid lib "nonce 0"]) (auto simp: rows_ok_def)
  have "rows_ok (t_chan_state (db s'))"
    using assms(5,6,10,11) by (auto simp: s'(2) chan_save_def intro!: rows_ok_put)
  note rows = chan_list_rows [OF this, of lib]
  have "\<exists>c1. restore_rows lib cl s' (chan_list lib s') c0 = (Returned (), c1) \<and> channel_ready cl name gid sk c1"
    using assms(12,13) mem by (intro restore_rows_ready [OF rows, where r = "\<lparr>cr_id = gid, cr_dist = ?own, cr_mls = False\<rparr>"]) (simp_all add: om_find_def)
  then obtain c1 where c1: "restore_rows lib cl s' (chan_list lib s') c0 = (Returned (), c1)" "channel_ready cl name gid sk c1" by blast
  with take_in_ready(1) [OF c1(2) assms(2,4)] show ?thesis by (simp add: restore_channels_def s'(1))
qed


definition toy_chan_store :: store where
  "toy_chan_store = \<lparr>db = empty_db, encrypt_at_rest = True, master_key = replicate 32 1, storage_master = replicate 32 1,
     storage_master_generation = 0, storage_keys_generation = 0, keys = zero_keys\<rparr>"

definition toy_stored_bob :: "unit chan_client" where
  "toy_stored_bob = toy_member ((toy_client [6] [])\<lparr>cl_store := Some toy_chan_store\<rparr>)"

definition toy_restarted :: "unit chan_client" where
  "toy_restarted = toy_member ((toy_client [6] [])\<lparr>cl_store := cl_store (dm (accept_invite toy_sodium toy_chan_lib (\<lambda>_. replicate 24 0) (1 # toy_pad [9])
     \<lparr>ck_channel_id = replicate 32 8, ck_channel_name = [35], ck_distribution = demo_dist\<rparr> toy_stored_bob))\<rparr>)"

theorem channel_survives_restart_witness:
  "\<exists>c1. restore_channels toy_sodium toy_chan_lib toy_restarted = (Returned (), c1) \<and>
     shown (take_in toy_sodium toy_hs toy_ratchet_pb toy_dm_pb toy_chan_lib c1 (\<lambda>_. [], \<lambda>_. [], 0,
       channel_envelope toy_sodium toy_chan_lib (1 # toy_pad [9]) (replicate 32 8) (replicate 16 1) (replicate 32 2) 3 [72] (toy_chan_draws 0))) =
     shown c1 @ [ChannelMessage [35] (1 # toy_pad [9]) [72]]"
proof -
  let ?e = "channel_envelope toy_sodium toy_chan_lib (1 # toy_pad [9]) (replicate 32 8) (replicate 16 1) (replicate 32 2) 3 [72] (toy_chan_draws 0)"
  have st: "chan_at [35] toy_stored_bob = new_channel" "cl_store (dm toy_stored_bob) = Some toy_chan_store" "rows_ok (t_chan_state (db toy_chan_store))"
    "\<forall>(n, r)\<in>set (t_chan_state (db toy_chan_store)). cr_id r = replicate 32 8 \<longrightarrow> n = [35]" "channels toy_restarted = []" "chan_id_to_name toy_restarted = []"
    "cl_store (dm toy_restarted) = cl_store (dm (accept_invite toy_sodium toy_chan_lib (\<lambda>_. replicate 24 0) (1 # toy_pad [9])
       \<lparr>ck_channel_id = replicate 32 8, ck_channel_name = [35], ck_distribution = demo_dist\<rparr> toy_stored_bob))"
    by (simp_all add: toy_stored_bob_def toy_restarted_def toy_member_def chan_at_def om_find_def toy_chan_store_def empty_db_def rows_ok_def)
  have sz: "length (replicate 32 (8 :: byte)) = 32" "(0 :: byte) \<notin> set [35]" "\<forall>i :: nat. length (replicate 24 (0 :: byte)) = kXNonce"
    by (simp_all add: kXNonce_def)
  obtain c1 where c1: "restore_channels toy_sodium toy_chan_lib toy_restarted = (Returned (), c1)"
    "\<forall>as. (\<forall>(rnd, nonce, rx, env)\<in>set as. rcpt env = ChannelGroupId (replicate 32 8)) \<longrightarrow>
      shown (foldl (take_in toy_sodium toy_hs toy_ratchet_pb toy_dm_pb toy_chan_lib) c1 as) =
        shown c1 @ concat (map (arrival_events toy_sodium toy_chan_lib [35] demo_dist) as)"
    using channel_survives_restart [OF toy_xchacha_ok toy_chan_lib_ok(2,4) demo_dist_sized sz st, of toy_hs toy_ratchet_pb toy_dm_pb] by blast
  have v: "verdict toy_sodium toy_chan_lib demo_dist ?e = Some [72]"
    by (rule verdict_genuine [OF toy_xchacha_ok toy_chan_lib_ok(1)]) (simp_all add: gs_kMaxSkip_def demo_dist_def)
  have r: "rcpt ?e = ChannelGroupId (replicate 32 8)" "sender_pubkey ?e = 1 # toy_pad [9]" by (simp_all add: channel_envelope_def)
  have "arrival_events toy_sodium toy_chan_lib [35] demo_dist (\<lambda>_. [], \<lambda>_. [], 0, ?e) = [ChannelMessage [35] (1 # toy_pad [9]) [72]]"
    using v r by (simp add: arrival_events_def channel_event_def parse_attachment_frame_def is_framed_attachment_def att_kMagic_def toy_chan_lib_def)
  with c1(2) [rule_format, of "[(\<lambda>_. [], \<lambda>_. [], 0, ?e)]"] r(1) c1(1) show ?thesis by auto
qed

end
