(* ===== verification/Spec2Isabelle.thy ===== *)
theory Spec2Isabelle
  imports Shamir Padding Frame_Codec Token_Bucket Ratchet Sender_Keys Websocket Routing
    Kademlia Blob_Store Topology Username_Log Room_Media Identity Handshake Conversation Gossip Provider_Records Dht_Node
    Discovery Socks5 Serial_Bridge Recovery Channels
begin

text \<open>
  FinBit is an end-to-end encrypted messenger: a C++ core library (\<open>core/\<close>), a relay server (\<open>server/\<close>) and a desktop client
  (\<open>client-desktop/\<close>). This development models its core logic, proves what makes it correct and records where it is not.

  \<^bold>\<open>The parts and how they interact.\<close> A client keeps an identity, from which the keys of its handshakes derive. It opens a
  Double Ratchet session with a peer from that peer's prekey bundle and exchanges direct messages over it; channels share
  sender keys that are handed out in direct messages; calls seal their media frames with room keys. Envelopes travel through
  the relay server, which knows connections, subscriptions and a directory of user names but no plaintext, or through a
  peer-to-peer overlay (gossip, a distributed hash table, mailboxes at peers, a username log). The client stores
  everything in an encrypted local database, and the identity seed in a vault, a recovery phrase or Shamir shares.

  \<^bold>\<open>Shared theories.\<close> \<open>Prelude\<close> has the byte strings, the big-endian encodings, the result types and the two contracts that
  recur in the program, \<open>wire_codec\<close> (what is encoded decodes to itself) and \<open>chunked_stream\<close> (a parser that does not depend on how its
  input is cut into pieces). \<open>Ordered_Map\<close> and \<open>Unordered_Map\<close> are \<open>std::map\<close> and \<open>std::unordered_map\<close>, \<open>Sodium\<close> is what the program takes from
  libsodium with its own AEAD and HKDF wrappers (\<open>core/src/crypto/aead.cpp\<close>, \<open>hkdf.cpp\<close>), \<open>Messages\<close> has the protocol messages of
  \<open>core/proto\<close>, \<open>Interpolation\<close> the polynomial lemmas.

  \<^bold>\<open>Cryptographic components.\<close>
  \<^item> \<open>Gf256\<close>, \<open>Shamir\<close> (\<open>shamir.cpp\<close>): tables, splitting and combining; reconstruction from any threshold of shares and perfect secrecy below it.
  \<^item> \<open>Padding\<close> (\<open>padding.cpp\<close>): padding to a bucket and its inverse, the padded length.
  \<^item> \<open>Ratchet\<close> (\<open>ratchet.cpp\<close>): the Double Ratchet with its cache of skipped keys; sessions of any length, any order within a chain, the bound of the
    cache, the roll-back of \<open>try_decrypt\<close>.
  \<^item> \<open>Sender_Keys\<close> (\<open>sender_keys.cpp\<close>): group sessions; genuine messages open whatever else arrives, none is accepted twice, the saved state.
  \<^item> \<open>Identity\<close> (\<open>identity.cpp\<close>, \<open>attachment_frame.cpp\<close>): fingerprints, safety numbers, attachment frames.
  \<^item> \<open>Handshake\<close> (\<open>handshake/hybrid.cpp\<close>, \<open>hybrid_kem.cpp\<close>): the hybrid X25519 and ML-KEM handshake; both sides agree, and no silent downgrade.
  \<^item> \<open>Room_Media\<close> (\<open>sframe.cpp\<close>, \<open>room_keys.cpp\<close>): sealed frames and the registry of room secrets, which refines two secrets without a cache.
  \<^item> \<open>Bip39_Words\<close>, \<open>Recovery\<close> (\<open>bip39.cpp\<close>, \<open>identity_vault.cpp\<close>): recovery phrases and seeds correspond; vaults of one, two and many slots.

  \<^bold>\<open>Transport.\<close>
  \<^item> \<open>Frame_Codec\<close> (\<open>frame_codec.cpp\<close>), \<open>Websocket\<close> (\<open>websocket.cpp\<close>, with SHA-1), \<open>Serial_Bridge\<close> (\<open>mesh/serial_bridge.cpp\<close>): framing; what is sent arrives in order
    for every cut into pieces, with bounded buffers.
  \<^item> \<open>Socks5\<close> (\<open>socks5.cpp\<close>): the tunnel opens exactly when the proxy accepts, and consumes its replies to the last byte.
  \<^item> \<open>Token_Bucket\<close> (\<open>token_bucket.cpp\<close>): rate limits.

  \<^bold>\<open>Relay server.\<close> \<open>Membership\<close>, \<open>Relay\<close> (\<open>relay.cpp\<close>), \<open>Directory\<close> (\<open>directory.cpp\<close>), \<open>Username\<close>, \<open>Server\<close> (\<open>relay_server.cpp\<close>) and \<open>Routing\<close>: the record \<open>server\<close>
  holds its connections and tables, \<open>handle_frame\<close> has one case for each kind of frame, and a step relation ranges over accepts, reads, writes
  and disconnects. The connection book refines a user map with two membership relations; in every reachable state
  only somebody who answered the challenge is routable; an unauthenticated connection touches nothing; an envelope goes to its recipient.

  \<^bold>\<open>Overlay.\<close> \<open>Kademlia\<close> (\<open>kademlia.cpp\<close>), \<open>Provider_Records\<close> (\<open>provider_records.cpp\<close>), \<open>Dht_Node\<close> (\<open>dht_node.cpp\<close>), \<open>Gossip\<close> (\<open>gossip.cpp\<close>), \<open>Blob_Store\<close> (\<open>offline_relay.cpp\<close>),
  \<open>Username_Log\<close> (\<open>username_log.cpp\<close>, \<open>username_gossip.cpp\<close>), \<open>Topology\<close> (\<open>forwarder.cpp\<close>, \<open>active_speaker.cpp\<close>), \<open>Discovery\<close> (\<open>bootstrap.cpp\<close>, \<open>doh_resolver.cpp\<close>,
  \<open>lan_discovery.cpp\<close>). A network of gossip nodes is a step relation; its flood ends and reaches every connected subscriber once. A node of
  the hash table answers only with records that their publisher signed, and a record that was published is found.

  \<^bold>\<open>Client.\<close> \<open>Store\<close> and \<open>At_Rest\<close> (\<open>sqlite_store.cpp\<close>): the tables, their encryption, rotation and migration; the encrypted store refines the plain one. \<open>Session\<close>
  and \<open>Conversation\<close> (\<open>chat_client.cpp\<close>): direct messages from the published bundle to delivery, sealed senders, pins. \<open>Channels\<close> (\<open>chat_client.cpp\<close>): the queue of
  channel operations, invitations and channel envelopes; delivery to an invited member, what a restart keeps, and that reception has no memory.

  \<^bold>\<open>Conventions.\<close> A class or struct is a record, an enumeration a datatype, a fixed-width integer a word of its width; \<open>size_t\<close> and indices are natural numbers,
  timestamps that SQL compares as signed are compared as signed. An exception is the value \<open>Threw\<close> or the left summand of a sum. Doubles of the
  rate limiter are reals. Clocks, random bytes and the results of system calls are arguments, so every definition is a function of its inputs.
  Libraries are arguments: the record \<open>sodium\<close> for libsodium, \<open>hs_lib\<close> for Ed25519, ML-KEM and ML-DSA, \<open>vault_lib\<close> for Argon2id, \<open>chan_lib\<close> for MLS groups, and \<open>pb\<close> for the
  encoding of a protocol buffer. What they promise is a named hypothesis (\<open>xchacha_ok\<close>, \<open>dh_ok\<close>, \<open>sign_ok\<close>, \<open>kem_ok\<close>, \<open>pb_ok\<close>, ...): decryption inverts
  encryption, Diffie-Hellman commutes, a signature verifies, parsing inverts serialising. Each has a concrete instance (\<open>toy_sodium\<close>, \<open>toy_hs\<close>, ...), on which the witnesses rest.
  No definition uses fuel: loops are structural or have a measure, a loop over a system call follows the list of its results. Bounds
  in theorems are the ones of the code (\<open>kMaxSkip\<close> = 1000 for skipped keys, 32-bit message indices, 256 blobs for a mailbox).

  \<^bold>\<open>Not modelled.\<close> The user interface, the GStreamer media pipelines, the MLS library and the client's MLS handshake, TLS, TCP and the event loop,
  \<open>peer_net.cpp\<close> (threads around OpenSSL sockets), the MQTT bridge and compression, X.509 certificates, the command-line tool and the language bindings: they
  drive libraries or the operating system and keep no protocol state of their own that is not modelled above. Of the client, calls, MLS messages
  and the serverless transports are left out; threads appear as the sequences of their steps, except where a lock matters (the gossip node).
\<close>

end
